(* ===== verification/Prelude.thy ===== *)
theory Prelude
  imports "HOL-Library.Word" "HOL-Library.Signed_Division"
begin

text \<open>
  Shared vocabulary of the development: the C integer types, the conversions and shifts that
  the C sources use on them, little-endian loads and stores on a byte-addressed host heap, and
  the bit-level lemmas that the component theories rely on.

  An unsigned C type of width \<open>w\<close> is a \<open>w word\<close>. A signed C type is the word of the same
  width, read with \<open>sint\<close>; \<open>signed_drop_bit\<close> is the arithmetic shift of a signed operand
  and \<open>scast\<close> the conversion from a signed to a wider type. Loop counters and cycle budgets
  that never wrap are \<open>int\<close> or \<open>nat\<close>, and the theories that use them prove the bound.
\<close>

unbundle bit_operations_syntax

section \<open>Types\<close>

type_synonym u8 = "8 word"
type_synonym u16 = "16 word"
type_synonym u32 = "32 word"
type_synonym u64 = "64 word"

text \<open>The guest register type of the 64-bit build and the host heap.\<close>

type_synonym target_ulong = u64
type_synonym heap = "u64 \<Rightarrow> u8"

named_theorems c_macro \<open>preprocessor constants of the C sources\<close>
named_theorems frame \<open>what an operation leaves unchanged\<close>
named_theorems safe \<open>memory-safety facts of the operations\<close>

section \<open>Little-endian loads and stores\<close>

text \<open>
  \<open>*(uintN_t *)ptr\<close> on the little-endian hosts the core is built for: byte \<open>i\<close> of the value
  lives at \<open>ptr + i\<close>.
\<close>

fun load_le :: "nat \<Rightarrow> heap \<Rightarrow> u64 \<Rightarrow> 'a::len word" where
  "load_le 0 h p = 0"
| "load_le (Suc n) h p = ucast (h p) OR push_bit 8 (load_le n h (p + 1))"

fun store_le :: "nat \<Rightarrow> 'a::len word \<Rightarrow> u64 \<Rightarrow> heap \<Rightarrow> heap" where
  "store_le 0 v p h = h"
| "store_le (Suc n) v p h = store_le n (drop_bit 8 v) (p + 1) (h(p := ucast v))"

fun store_bytes :: "u8 list \<Rightarrow> u64 \<Rightarrow> heap \<Rightarrow> heap" where
  "store_bytes [] p h = h"
| "store_bytes (b # bs) p h = store_bytes bs (p + 1) (h(p := b))"

definition load_bytes :: "nat \<Rightarrow> heap \<Rightarrow> u64 \<Rightarrow> u8 list" where
  "load_bytes n h p = map (\<lambda>i. h (p + of_nat i)) [0..<n]"

text \<open>The addresses \<open>p, p + 1, \<dots>, p + n - 1\<close>, wrapping as pointer arithmetic does.\<close>

definition span :: "u64 \<Rightarrow> nat \<Rightarrow> u64 set" where
  "span p n = (\<lambda>i. p + of_nat i) ` {..<n}"

lemma span_0 [simp]: "span p 0 = {}"
  by (simp add: span_def)

lemma span_Suc: "span p (Suc n) = insert p (span (p + 1) n)"
proof -
  have "{..<Suc n} = insert 0 (Suc ` {..<n})"
    using lessThan_Suc_eq_insert_0 by blast
  then show ?thesis
    by (simp add: span_def image_image add.assoc)
qed

lemma in_span_iff: "q \<in> span p n \<longleftrightarrow> (\<exists>i<n. q = p + of_nat i)"
  by (auto simp: span_def)

lemma span_mono: "m \<le> n \<Longrightarrow> span p m \<subseteq> span p n"
  by (auto simp: span_def)

lemma in_span_unat: "n \<le> 2 ^ 64 \<Longrightarrow> q \<in> span p n \<longleftrightarrow> unat (q - p) < n"
proof
  assume n: "n \<le> 2 ^ 64" and "q \<in> span p n"
  then obtain i where "i < n" "q = p + of_nat i" by (auto simp: in_span_iff)
  with n show "unat (q - p) < n" by (simp add: unat_of_nat)
next
  assume "unat (q - p) < n"
  then show "q \<in> span p n"
    by (auto simp: in_span_iff intro!: exI[of _ "unat (q - p)"])
qed

text \<open>A store changes only the bytes of its span.\<close>

lemma store_le_outside: "q \<notin> span p n \<Longrightarrow> store_le n v p h q = h q"
  by (induction n arbitrary: v p h) (auto simp: span_Suc)

lemma store_bytes_outside: "q \<notin> span p (length bs) \<Longrightarrow> store_bytes bs p h q = h q"
  by (induction bs arbitrary: p h) (auto simp: span_Suc)

lemma load_le_cong: "(\<And>q. q \<in> span p n \<Longrightarrow> h q = h' q) \<Longrightarrow> load_le n h p = load_le n h' p"
proof (induction n arbitrary: p)
  case 0
  then show ?case by simp
next
  case (Suc n)
  from Suc.prems have "h p = h' p" and "load_le n h (p + 1) = (load_le n h' (p + 1) :: 'a word)"
    by (auto simp: span_Suc intro: Suc.IH)
  then show ?case by simp
qed

lemma not_in_span_Suc: "n < 2 ^ 64 \<Longrightarrow> p \<notin> span (p + 1) n"
  using in_span_unat [of n p "p + 1"]
  by (auto simp: unsigned_minus_1_eq_mask mask_eq_exp_minus_1)

text \<open>A load of the bytes just stored gives the low \<open>n\<close> bytes of the value.\<close>

lemma load_store_le:
  "n < 2 ^ 64 \<Longrightarrow> load_le n (store_le n v p h) p = take_bit (8 * n) v"
proof (induction n arbitrary: v p h)
  case 0
  then show ?case by simp
next
  case (Suc n)
  have "store_le n (drop_bit 8 v) (p + 1) (h(p := ucast v)) p = ucast v"
    using Suc.prems by (simp add: store_le_outside not_in_span_Suc)
  moreover have "ucast (ucast v :: u8) OR push_bit 8 (take_bit (8 * n) (drop_bit 8 v)) =
      take_bit (8 + 8 * n) v"
    by (rule bit_word_eqI) (auto simp: bit_simps)
  ultimately show ?case
    using Suc.IH[of "drop_bit 8 v" "p + 1" "h(p := ucast v)"] Suc.prems
    by (simp del: fun_upd_apply)
qed

lemma load_store_le_other:
  "span p n \<inter> span q m = {} \<Longrightarrow> load_le n (store_le m v q h) p = load_le n h p"
  by (rule load_le_cong) (auto intro: store_le_outside)

section \<open>Bit counting\<close>

text \<open>\<open>__builtin_clz\<close> and friends, defined for zero too (the C callers guard it).\<close>

fun clz_from :: "nat \<Rightarrow> 'a::len word \<Rightarrow> nat" where
  "clz_from 0 w = 0"
| "clz_from (Suc n) w = (if bit w n then 0 else Suc (clz_from n w))"

definition builtin_clz :: "'a::len word \<Rightarrow> nat" where
  "builtin_clz w = clz_from LENGTH('a) w"

fun ctz_from :: "nat \<Rightarrow> nat \<Rightarrow> 'a::len word \<Rightarrow> nat" where
  "ctz_from 0 i w = i"
| "ctz_from (Suc n) i w = (if bit w i then i else ctz_from n (Suc i) w)"

definition builtin_ctz :: "'a::len word \<Rightarrow> nat" where
  "builtin_ctz w = ctz_from LENGTH('a) 0 w"

fun popcount_from :: "nat \<Rightarrow> 'a::len word \<Rightarrow> nat" where
  "popcount_from 0 w = 0"
| "popcount_from (Suc n) w = (if bit w n then 1 else 0) + popcount_from n w"

definition builtin_popcount :: "'a::len word \<Rightarrow> nat" where
  "builtin_popcount w = popcount_from LENGTH('a) w"

lemma clz_from_le: "clz_from n w \<le> n"
  by (induction n) auto

lemma builtin_clz_le: "builtin_clz (w :: 'a::len word) \<le> LENGTH('a)"
  by (simp add: builtin_clz_def clz_from_le)

lemma clz_from_bits: "m < n \<Longrightarrow> n - clz_from n w \<le> m \<Longrightarrow> \<not> bit w m"
  by (induction n) (auto split: if_splits simp: Suc_diff_le clz_from_le less_Suc_eq)

lemma clz_from_top: "clz_from n w < n \<Longrightarrow> bit w (n - 1 - clz_from n w)"
  by (induction n) (auto split: if_splits)

lemma word_less_power_iff: "(\<forall>m. k \<le> m \<longrightarrow> \<not> bit w m) \<longleftrightarrow> unat (w :: 'a::len word) < 2 ^ k"
proof -
  have "(\<forall>m. k \<le> m \<longrightarrow> \<not> bit w m) \<longleftrightarrow> take_bit k (unat w) = unat w"
  proof
    assume a: "\<forall>m. k \<le> m \<longrightarrow> \<not> bit w m"
    show "take_bit k (unat w) = unat w"
    proof (rule bit_eqI)
      fix n
      show "bit (take_bit k (unat w)) n = bit (unat w) n"
        using a[rule_format, of n] by (cases "k \<le> n") (auto simp: bit_simps)
    qed
  next
    assume a: "take_bit k (unat w) = unat w"
    show "\<forall>m. k \<le> m \<longrightarrow> \<not> bit w m"
    proof (intro allI impI)
      fix m assume "k \<le> m"
      then have "\<not> bit (take_bit k (unat w)) m" by (simp add: bit_simps)
      then have "\<not> bit (unat w) m" by (simp add: a)
      then show "\<not> bit w m" by (auto simp: bit_simps dest: bit_imp_le_length)
    qed
  qed
  then show ?thesis by (simp add: take_bit_nat_eq_self_iff)
qed

text \<open>The two bounds that make \<open>clz\<close> the position of the leading one.\<close>

lemma clz_upper: "unat (w :: 'a::len word) < 2 ^ (LENGTH('a) - builtin_clz w)"
  unfolding word_less_power_iff [symmetric] builtin_clz_def
  using clz_from_bits [of _ "LENGTH('a)" w] by (metis bit_imp_le_length not_le)

lemma clz_nonzero: "(w :: 'a::len word) \<noteq> 0 \<Longrightarrow> builtin_clz w < LENGTH('a)"
  using clz_upper [of w] builtin_clz_le [of w] by (auto simp: le_less unat_eq_0)

lemma bit_imp_power_le_unat: "bit (w :: 'a::len word) k \<Longrightarrow> 2 ^ k \<le> unat w"
  using word_less_power_iff [of k w] by (auto simp: not_less [symmetric])

lemma clz_lower:
  assumes "(w :: 'a::len word) \<noteq> 0"
  shows "2 ^ (LENGTH('a) - 1 - builtin_clz w) \<le> unat w"
  using clz_from_top [of "LENGTH('a)" w] clz_nonzero [OF assms]
  by (auto simp: builtin_clz_def intro: bit_imp_power_le_unat)

lemma builtin_clz_0 [simp]: "builtin_clz (0 :: 'a::len word) = LENGTH('a)"
proof -
  have "clz_from n (0 :: 'a word) = n" for n by (induction n) auto
  then show ?thesis by (simp add: builtin_clz_def)
qed

lemma ctz_from_spec:
  "(\<forall>j. i \<le> j \<and> j < ctz_from n i w \<longrightarrow> \<not> bit w j) \<and> i \<le> ctz_from n i w \<and> ctz_from n i w \<le> i + n \<and>
   (ctz_from n i w < i + n \<longrightarrow> bit w (ctz_from n i w))"
proof (induction n arbitrary: i)
  case 0
  then show ?case by auto
next
  case (Suc n)
  show ?case
  proof (cases "bit w i")
    case True
    then show ?thesis by auto
  next
    case False
    have "\<not> bit w j" if "i \<le> j" "j < ctz_from n (Suc i) w" for j
      using Suc.IH [of "Suc i"] False that by (cases "j = i") auto
    with False Suc.IH [of "Suc i"] show ?thesis by auto
  qed
qed

section \<open>Words\<close>

lemma unat_and_mask_less: "unat ((w :: 'a::len word) AND mask n) < 2 ^ n"
  by (simp add: unsigned_take_bit_eq flip: take_bit_eq_mask)

lemma word_of_bool_neq_0 [simp]: "(of_bool b :: 'a::len word) = 0 \<longleftrightarrow> \<not> b"
  by (cases b) auto

end
