(* ===== verification/State.thy ===== *)
theory State
  imports Prelude
begin

text \<open>
  The data of the execution core: the preprocessor constants of \<open>riscv_cpu_priv.h\<close>,
  \<open>riscv_cpu.h\<close>, \<open>iomem.h\<close> and \<open>riscv_cpu.c\<close> (each declared as a simplification rule, so that it
  reads as its value), and the structures \<open>TLBEntry\<close>, \<open>PhysMemoryRange\<close>, \<open>PhysMemoryMap\<close>,
  \<open>RISCVCPUState\<close> and \<open>TinyemuCore\<close>.

  The C structures refer to each other by pointers, one of each per machine. The model keeps one
  flat record: \<open>TinyemuCore\<close> extends \<open>RISCVCPUState\<close>, and \<open>Interp\<close> extends it again with the
  local variables of the instruction loop. Arrays are functions of their index.
  Host memory is one byte-addressed \<open>heap\<close>, so that a TLB entry is, as in the C code, a host
  address offset.
\<close>

section \<open>Constants\<close>

definition TLB_SIZE :: nat where [simp, c_macro]: "TLB_SIZE = 256"
definition PMP_ENTRY_COUNT :: nat where [simp, c_macro]: "PMP_ENTRY_COUNT = 16"
definition PHYS_MEM_RANGE_MAX :: nat where [simp, c_macro]: "PHYS_MEM_RANGE_MAX = 32"

definition CAUSE_MISALIGNED_FETCH :: int where [simp, c_macro]: "CAUSE_MISALIGNED_FETCH = 0x0"
definition CAUSE_FAULT_FETCH :: int where [simp, c_macro]: "CAUSE_FAULT_FETCH = 0x1"
definition CAUSE_ILLEGAL_INSTRUCTION :: int where [simp, c_macro]: "CAUSE_ILLEGAL_INSTRUCTION = 0x2"
definition CAUSE_BREAKPOINT :: int where [simp, c_macro]: "CAUSE_BREAKPOINT = 0x3"
definition CAUSE_MISALIGNED_LOAD :: int where [simp, c_macro]: "CAUSE_MISALIGNED_LOAD = 0x4"
definition CAUSE_FAULT_LOAD :: int where [simp, c_macro]: "CAUSE_FAULT_LOAD = 0x5"
definition CAUSE_MISALIGNED_STORE :: int where [simp, c_macro]: "CAUSE_MISALIGNED_STORE = 0x6"
definition CAUSE_FAULT_STORE :: int where [simp, c_macro]: "CAUSE_FAULT_STORE = 0x7"
definition CAUSE_USER_ECALL :: int where [simp, c_macro]: "CAUSE_USER_ECALL = 0x8"
definition CAUSE_FETCH_PAGE_FAULT :: int where [simp, c_macro]: "CAUSE_FETCH_PAGE_FAULT = 0xc"
definition CAUSE_LOAD_PAGE_FAULT :: int where [simp, c_macro]: "CAUSE_LOAD_PAGE_FAULT = 0xd"
definition CAUSE_STORE_PAGE_FAULT :: int where [simp, c_macro]: "CAUSE_STORE_PAGE_FAULT = 0xf"
definition CAUSE_INTERRUPT :: u32 where [simp, c_macro]: "CAUSE_INTERRUPT = 0x80000000"

definition PRV_U :: u8 where [simp, c_macro]: "PRV_U = 0"
definition PRV_S :: u8 where [simp, c_macro]: "PRV_S = 1"
definition PRV_H :: u8 where [simp, c_macro]: "PRV_H = 2"
definition PRV_M :: u8 where [simp, c_macro]: "PRV_M = 3"

definition MSTATUS_UIE :: u64 where [simp, c_macro]: "MSTATUS_UIE = 0x1"
definition MSTATUS_SIE :: u64 where [simp, c_macro]: "MSTATUS_SIE = 0x2"
definition MSTATUS_MIE :: u64 where [simp, c_macro]: "MSTATUS_MIE = 0x8"
definition MSTATUS_UPIE :: u64 where [simp, c_macro]: "MSTATUS_UPIE = 0x10"
definition MSTATUS_SPIE :: u64 where [simp, c_macro]: "MSTATUS_SPIE = 0x20"
definition MSTATUS_MPIE :: u64 where [simp, c_macro]: "MSTATUS_MPIE = 0x80"
definition MSTATUS_SPP :: u64 where [simp, c_macro]: "MSTATUS_SPP = 0x100"
definition MSTATUS_MPP :: u64 where [simp, c_macro]: "MSTATUS_MPP = 0x1800"
definition MSTATUS_FS :: u64 where [simp, c_macro]: "MSTATUS_FS = 0x6000"
definition MSTATUS_XS :: u64 where [simp, c_macro]: "MSTATUS_XS = 0x18000"
definition MSTATUS_MPRV :: u64 where [simp, c_macro]: "MSTATUS_MPRV = 0x20000"
definition MSTATUS_SUM :: u64 where [simp, c_macro]: "MSTATUS_SUM = 0x40000"
definition MSTATUS_MXR :: u64 where [simp, c_macro]: "MSTATUS_MXR = 0x80000"
definition MSTATUS_TVM :: u64 where [simp, c_macro]: "MSTATUS_TVM = 0x100000"
definition MSTATUS_TW :: u64 where [simp, c_macro]: "MSTATUS_TW = 0x200000"
definition MSTATUS_TSR :: u64 where [simp, c_macro]: "MSTATUS_TSR = 0x400000"
definition MSTATUS_UXL :: u64 where [simp, c_macro]: "MSTATUS_UXL = 0x300000000"
definition MSTATUS_SPIE_SHIFT :: nat where [simp, c_macro]: "MSTATUS_SPIE_SHIFT = 5"
definition MSTATUS_MPIE_SHIFT :: nat where [simp, c_macro]: "MSTATUS_MPIE_SHIFT = 7"
definition MSTATUS_SPP_SHIFT :: nat where [simp, c_macro]: "MSTATUS_SPP_SHIFT = 8"
definition MSTATUS_MPP_SHIFT :: nat where [simp, c_macro]: "MSTATUS_MPP_SHIFT = 11"
definition MSTATUS_FS_SHIFT :: nat where [simp, c_macro]: "MSTATUS_FS_SHIFT = 13"
definition MSTATUS_UXL_SHIFT :: nat where [simp, c_macro]: "MSTATUS_UXL_SHIFT = 32"
definition MSTATUS_SXL_SHIFT :: nat where [simp, c_macro]: "MSTATUS_SXL_SHIFT = 34"

definition PG_SHIFT :: nat where [simp, c_macro]: "PG_SHIFT = 12"
definition PG_MASK :: u64 where [simp, c_macro]: "PG_MASK = 0xfff"

definition MIP_SSIP :: u32 where [simp, c_macro]: "MIP_SSIP = 0x2"
definition MIP_MSIP :: u32 where [simp, c_macro]: "MIP_MSIP = 0x8"
definition MIP_STIP :: u32 where [simp, c_macro]: "MIP_STIP = 0x20"
definition MIP_MTIP :: u32 where [simp, c_macro]: "MIP_MTIP = 0x80"
definition MIP_SEIP :: u32 where [simp, c_macro]: "MIP_SEIP = 0x200"
definition MIP_MEIP :: u32 where [simp, c_macro]: "MIP_MEIP = 0x800"

definition DEVIO_SIZE8 :: u32 where [simp, c_macro]: "DEVIO_SIZE8 = 0x1"
definition DEVIO_SIZE16 :: u32 where [simp, c_macro]: "DEVIO_SIZE16 = 0x2"
definition DEVIO_SIZE32 :: u32 where [simp, c_macro]: "DEVIO_SIZE32 = 0x4"
definition DEVIO_DISABLED :: u32 where [simp, c_macro]: "DEVIO_DISABLED = 0x10"
definition DEVRAM_FLAG_ROM :: u32 where [simp, c_macro]: "DEVRAM_FLAG_ROM = 0x1"
definition DEVRAM_FLAG_DIRTY_BITS :: u32 where [simp, c_macro]: "DEVRAM_FLAG_DIRTY_BITS = 0x2"
definition DEVRAM_FLAG_DISABLED :: u32 where [simp, c_macro]: "DEVRAM_FLAG_DISABLED = 0x4"
definition DEVRAM_PAGE_SIZE_LOG2 :: nat where [simp, c_macro]: "DEVRAM_PAGE_SIZE_LOG2 = 12"
definition DEVRAM_PAGE_SIZE :: u64 where [simp, c_macro]: "DEVRAM_PAGE_SIZE = 0x1000"

definition PTE_V_MASK :: u64 where [simp, c_macro]: "PTE_V_MASK = 0x1"
definition PTE_U_MASK :: u64 where [simp, c_macro]: "PTE_U_MASK = 0x10"
definition PTE_A_MASK :: u64 where [simp, c_macro]: "PTE_A_MASK = 0x40"
definition PTE_D_MASK :: u64 where [simp, c_macro]: "PTE_D_MASK = 0x80"
definition PTE_PPN_MASK :: u64 where [simp, c_macro]: "PTE_PPN_MASK = 0xfffffffffff"
definition PTE_PBMT_MASK :: u64 where [simp, c_macro]: "PTE_PBMT_MASK = 0x6000000000000000"
definition PTE_N_MASK :: u64 where [simp, c_macro]: "PTE_N_MASK = 0x8000000000000000"
definition PTE_HIGH_RESERVED_MASK :: u64 where
  [simp, c_macro]: "PTE_HIGH_RESERVED_MASK = 0x1fc0000000000000"
definition PTE_NONLEAF_RESERVED_MASK :: u64 where
  [simp, c_macro]: "PTE_NONLEAF_RESERVED_MASK = 0xe0000000000000d0"

definition SATP_MODE_SHIFT :: nat where [simp, c_macro]: "SATP_MODE_SHIFT = 60"
definition SATP_MODE_MASK :: u64 where [simp, c_macro]: "SATP_MODE_MASK = 0xf"
definition SATP_MODE_BARE :: u64 where [simp, c_macro]: "SATP_MODE_BARE = 0"
definition SATP_MODE_SV39 :: u64 where [simp, c_macro]: "SATP_MODE_SV39 = 8"
definition SATP_PPN_MASK :: u64 where [simp, c_macro]: "SATP_PPN_MASK = 0xfffffffffff"
definition SV39_LEVELS :: nat where [simp, c_macro]: "SV39_LEVELS = 3"
definition SV39_VPN_BITS :: nat where [simp, c_macro]: "SV39_VPN_BITS = 9"
definition SV39_VADDR_BITS :: nat where [simp, c_macro]: "SV39_VADDR_BITS = 39"

definition ACCESS_READ :: nat where [simp, c_macro]: "ACCESS_READ = 0"
definition ACCESS_WRITE :: nat where [simp, c_macro]: "ACCESS_WRITE = 1"
definition ACCESS_CODE :: nat where [simp, c_macro]: "ACCESS_CODE = 2"

definition MENVCFG_ADUE :: u64 where [simp, c_macro]: "MENVCFG_ADUE = 0x2000000000000000"
definition MENVCFG_PBMTE :: u64 where [simp, c_macro]: "MENVCFG_PBMTE = 0x4000000000000000"
definition MENVCFG_STCE :: u64 where [simp, c_macro]: "MENVCFG_STCE = 0x8000000000000000"
definition ENVCFG_CBIE :: u64 where [simp, c_macro]: "ENVCFG_CBIE = 0x30"
definition ENVCFG_CBCFE :: u64 where [simp, c_macro]: "ENVCFG_CBCFE = 0x40"
definition ENVCFG_CBZE :: u64 where [simp, c_macro]: "ENVCFG_CBZE = 0x80"
definition ENVCFG_CBO_MASK :: u64 where [simp, c_macro]: "ENVCFG_CBO_MASK = 0xf0"
definition MENVCFG_MASK :: u64 where [simp, c_macro]: "MENVCFG_MASK = 0xe0000000000000f0"

definition PMP_CFG_R :: u8 where [simp, c_macro]: "PMP_CFG_R = 0x1"
definition PMP_CFG_W :: u8 where [simp, c_macro]: "PMP_CFG_W = 0x2"
definition PMP_CFG_X :: u8 where [simp, c_macro]: "PMP_CFG_X = 0x4"
definition PMP_CFG_A_MASK :: u8 where [simp, c_macro]: "PMP_CFG_A_MASK = 0x18"
definition PMP_CFG_A_TOR :: u8 where [simp, c_macro]: "PMP_CFG_A_TOR = 0x8"
definition PMP_CFG_L :: u8 where [simp, c_macro]: "PMP_CFG_L = 0x80"
definition PMP_ADDR_MASK :: u64 where [simp, c_macro]: "PMP_ADDR_MASK = 0x3fffffffffffff"

definition SSTATUS_MASK :: u64 where [simp, c_macro]: "SSTATUS_MASK =
  MSTATUS_UIE OR MSTATUS_SIE OR MSTATUS_UPIE OR MSTATUS_SPIE OR MSTATUS_SPP OR MSTATUS_FS OR
  MSTATUS_XS OR MSTATUS_SUM OR MSTATUS_MXR OR MSTATUS_UXL"
definition MSTATUS_MASK :: u64 where [simp, c_macro]: "MSTATUS_MASK =
  MSTATUS_UIE OR MSTATUS_SIE OR MSTATUS_MIE OR MSTATUS_UPIE OR MSTATUS_SPIE OR MSTATUS_MPIE OR
  MSTATUS_SPP OR MSTATUS_MPP OR MSTATUS_FS OR MSTATUS_MPRV OR MSTATUS_SUM OR MSTATUS_MXR OR
  MSTATUS_TVM OR MSTATUS_TW OR MSTATUS_TSR"
definition COUNTEREN_MASK :: u64 where [simp, c_macro]: "COUNTEREN_MASK = 0x7"

text \<open>The bits of \<open>misa\<close> set at reset: S, U, I, M, A, B, F, D and C.\<close>

definition MISA_RESET :: u32 where [simp, c_macro]: "MISA_RESET = 0x14112f"

section \<open>Structures\<close>

record TLBEntry =
  vaddr :: target_ulong
  mem_addend :: u64

text \<open>
  A range of the physical map. \<open>phys_mem\<close> is the host address of the RAM buffer. The two dirty
  bitmaps are the contents of \<open>dirty_bits_tab\<close>; the pointer \<open>dirty_bits\<close> is \<open>None\<close> for NULL and
  otherwise the index of the bitmap it points to. \<open>opaque\<close> is the index of the bridge device.
\<close>

record PhysMemoryRange =
  pr_addr :: u64
  org_size :: u64
  pr_size :: u64
  is_ram :: bool
  devram_flags :: u32
  phys_mem :: u64
  dirty_bits_size :: nat
  dirty_bits :: "nat option"
  dirty_bits_tab :: "nat \<Rightarrow> u32 list"
  dirty_bits_index :: nat
  opaque :: nat
  devio_flags :: u32

record PhysMemoryMap =
  n_phys_mem_range :: nat
  phys_mem_range :: "nat \<Rightarrow> PhysMemoryRange"

text \<open>
  The CPU. \<open>get_time\<close> records whether a time source is installed; the only one the program
  installs is \<open>get_time\<close> of \<open>bridge.c\<close>.
\<close>

record RISCVCPUState =
  pc :: target_ulong
  reg :: "nat \<Rightarrow> target_ulong"
  fp_reg :: "nat \<Rightarrow> u64"
  fflags :: u32
  frm :: u8
  priv :: u8
  fs :: u8
  n_cycles :: int
  elapsed_cycles :: u64
  cycle_counter :: u64
  minstret_counter :: u64
  get_time_set :: bool
  power_down_flag :: bool
  host_service_requested :: bool
  timer_reprogrammed :: bool
  pending_exception :: int
  pending_tval :: target_ulong
  mstatus :: target_ulong
  mtvec :: target_ulong
  mscratch :: target_ulong
  mepc :: target_ulong
  mcause :: target_ulong
  mtval :: target_ulong
  mhartid :: target_ulong
  misa :: u32
  mie :: u32
  mip :: u32
  medeleg :: u32
  mideleg :: u32
  mcounteren :: u32
  menvcfg :: target_ulong
  stimecmp :: u64
  pmpcfg :: "nat \<Rightarrow> u8"
  pmpaddr :: "nat \<Rightarrow> target_ulong"
  stvec :: target_ulong
  sscratch :: target_ulong
  sepc :: target_ulong
  scause :: target_ulong
  stval :: target_ulong
  senvcfg :: target_ulong
  satp :: u64
  scounteren :: u32
  load_res :: target_ulong
  load_res_size :: u8
  load_res_valid :: bool
  tlb_read :: "nat \<Rightarrow> TLBEntry"
  tlb_write :: "nat \<Rightarrow> TLBEntry"
  tlb_code :: "nat \<Rightarrow> TLBEntry"

text \<open>
  The core: the CPU, the memory map it points to, host memory, the bridge devices (\<open>devices\<close>
  gives the base address of each) and the platform, \<open>None\<close> outside a run.
\<close>

record 'p TinyemuCore = RISCVCPUState +
  mem_map :: PhysMemoryMap
  hmem :: heap
  guest_timer_ticks :: u64
  platform :: "'p option"
  devices :: "nat \<Rightarrow> u64"
  device_count :: nat

text \<open>The local variables of \<open>riscv_cpu_interp_x64\<close> that outlive one instruction.\<close>

record 'p Interp = "'p TinyemuCore" +
  code_ptr :: u64
  code_end :: u64
  code_to_pc_addend :: target_ulong
  elapsed_cycles_addend :: u64
  cycle_counter_addend :: u64
  l_minstret_counter :: u64
  minstret_write :: bool

text \<open>Access widths of the load and store helpers.\<close>

datatype access_size = S8 | S16 | S32 | S64

fun size_log2 :: "access_size \<Rightarrow> nat" where
  "size_log2 S8 = 0" | "size_log2 S16 = 1" | "size_log2 S32 = 2" | "size_log2 S64 = 3"

definition size_bytes :: "access_size \<Rightarrow> nat" where
  "size_bytes sz = 2 ^ size_log2 sz"

lemma size_bytes_simps [simp]:
  "size_bytes S8 = 1" "size_bytes S16 = 2" "size_bytes S32 = 4" "size_bytes S64 = 8"
  by (simp_all add: size_bytes_def)

instantiation access_size :: linorder
begin

definition less_eq_access_size :: "access_size \<Rightarrow> access_size \<Rightarrow> bool" where
  "less_eq_access_size a b \<longleftrightarrow> size_log2 a \<le> size_log2 b"

definition less_access_size :: "access_size \<Rightarrow> access_size \<Rightarrow> bool" where
  "less_access_size a b \<longleftrightarrow> size_log2 a < size_log2 b"

instance
proof
  fix x y :: access_size
  show "x \<le> y \<Longrightarrow> y \<le> x \<Longrightarrow> x = y"
    by (cases x; cases y) (simp_all add: less_eq_access_size_def)
qed (auto simp: less_eq_access_size_def less_access_size_def)

end

lemma size_bytes_mono: "a \<le> b \<Longrightarrow> size_bytes a \<le> size_bytes b"
  by (simp add: size_bytes_def less_eq_access_size_def)

section \<open>The TLBs\<close>

definition invalid_entry :: TLBEntry where
  "invalid_entry = \<lparr>vaddr = - 1, mem_addend = 0\<rparr>"

definition tlb_index :: "target_ulong \<Rightarrow> nat" where
  "tlb_index va = unat (drop_bit PG_SHIFT va AND of_nat (TLB_SIZE - 1))"

end
