(* ===== verification/Tlb.thy ===== *)
theory Tlb
  imports State
begin

text \<open>
  The three direct-mapped translation caches of \<open>RISCVCPUState\<close>: the tag test of the inline
  accessors (\<open>TARGET_READ_WRITE\<close> in \<open>riscv_cpu_priv.h\<close>), the fill done by the slow paths and the
  flushes of \<open>riscv_cpu.c\<close>. The locale \<open>translation_cache\<close> states what the memory accessors rely
  on; it is interpreted for the read, write and code TLBs.
\<close>

section \<open>Operations\<close>

text \<open>\<open>addr & ~(PG_MASK & ~((size / 8) - 1))\<close>: the tag, with the alignment bits kept.\<close>

definition tlb_tag :: "access_size \<Rightarrow> target_ulong \<Rightarrow> target_ulong" where
  "tlb_tag sz va = va AND NOT (PG_MASK AND NOT (of_nat (size_bytes sz) - 1))"

definition tlb_hit :: "access_size \<Rightarrow> (nat \<Rightarrow> TLBEntry) \<Rightarrow> target_ulong \<Rightarrow> bool" where
  "tlb_hit sz tlb va \<longleftrightarrow> vaddr (tlb (tlb_index va)) = tlb_tag sz va"

definition tlb_ptr :: "(nat \<Rightarrow> TLBEntry) \<Rightarrow> target_ulong \<Rightarrow> u64" where
  "tlb_ptr tlb va = mem_addend (tlb (tlb_index va)) + va"

definition tlb_fill :: "target_ulong \<Rightarrow> u64 \<Rightarrow> (nat \<Rightarrow> TLBEntry) \<Rightarrow> (nat \<Rightarrow> TLBEntry)" where
  "tlb_fill va ptr tlb =
     tlb(tlb_index va := \<lparr>vaddr = va AND NOT PG_MASK, mem_addend = ptr - va\<rparr>)"

definition tlb_clear :: "(nat \<Rightarrow> TLBEntry) \<Rightarrow> (nat \<Rightarrow> TLBEntry)" where
  "tlb_clear tlb = (\<lambda>i. if i < TLB_SIZE then (tlb i)\<lparr>vaddr := - 1\<rparr> else tlb i)"

definition tlb_init :: "'a RISCVCPUState_scheme \<Rightarrow> 'a RISCVCPUState_scheme" where
  "tlb_init s = s\<lparr>tlb_read := tlb_clear (tlb_read s), tlb_write := tlb_clear (tlb_write s),
                  tlb_code := tlb_clear (tlb_code s)\<rparr>"

definition tlb_flush_all :: "'a RISCVCPUState_scheme \<Rightarrow> 'a RISCVCPUState_scheme" where
  "tlb_flush_all s = tlb_init s"

definition tlb_flush_vaddr ::
  "target_ulong \<Rightarrow> 'a RISCVCPUState_scheme \<Rightarrow> 'a RISCVCPUState_scheme" where
  "tlb_flush_vaddr va s = tlb_flush_all s"

definition riscv_cpu_flush_tlb_write_range_ram ::
  "u64 \<Rightarrow> u64 \<Rightarrow> 'a RISCVCPUState_scheme \<Rightarrow> 'a RISCVCPUState_scheme" where
  "riscv_cpu_flush_tlb_write_range_ram ram_ptr ram_size s =
     (let ram_end = ram_ptr + ram_size
      in s\<lparr>tlb_write := (\<lambda>i.
           let e = tlb_write s i; ptr = mem_addend e + vaddr e
           in if i < TLB_SIZE \<and> vaddr e \<noteq> - 1 \<and> ram_ptr \<le> ptr \<and> ptr < ram_end
              then e\<lparr>vaddr := - 1\<rparr> else e)\<rparr>)"

section \<open>Addresses and pages\<close>

lemma pg_mask_mask: "(0xfff :: u64) = mask 12"
  by (simp add: mask_eq_exp_minus_1)

lemma size_mask: "of_nat (size_bytes sz) - 1 = (mask (size_log2 sz) :: u64)"
  by (cases sz) (simp_all add: mask_eq_exp_minus_1)

lemma size_log2_le: "size_log2 sz \<le> 3"
  by (cases sz) auto

text \<open>An address is aligned for an access when its low bits are zero.\<close>

definition aligned :: "access_size \<Rightarrow> target_ulong \<Rightarrow> bool" where
  "aligned sz va \<longleftrightarrow> va AND (of_nat (size_bytes sz) - 1) = 0"

definition page_base :: "target_ulong \<Rightarrow> target_ulong" where
  "page_base va = va AND NOT PG_MASK"

definition page_offset :: "target_ulong \<Rightarrow> nat" where
  "page_offset va = unat (va AND PG_MASK)"

lemma aligned_bits: "aligned sz va \<longleftrightarrow> (\<forall>n < size_log2 sz. \<not> bit va n)"
proof -
  have "n < 64" if "n < size_log2 sz" for n using that size_log2_le [of sz] by simp
  then show ?thesis
    unfolding aligned_def size_mask by (auto simp: bit_eq_iff bit_simps)
qed

lemma tlb_tag_bits: "bit (tlb_tag sz va) n \<longleftrightarrow> bit va n \<and> (12 \<le> n \<or> n < size_log2 sz)"
  unfolding tlb_tag_def PG_MASK_def pg_mask_mask size_mask
  by (auto simp: bit_simps dest: bit_imp_le_length)

lemma page_base_bits: "bit (page_base va) n \<longleftrightarrow> bit va n \<and> 12 \<le> n"
  unfolding page_base_def PG_MASK_def pg_mask_mask
  by (auto simp: bit_simps dest: bit_imp_le_length)

lemma page_base_offset: "page_base va + of_nat (page_offset va) = va"
proof -
  have "page_base va + (va AND PG_MASK) = page_base va OR (va AND PG_MASK)"
    unfolding page_base_def by (rule disjunctive_add_eq_or) (rule bit_word_eqI, simp add: bit_simps)
  also have "\<dots> = va"
    unfolding page_base_def by (rule bit_word_eqI) (auto simp: bit_simps)
  finally have "page_base va + (va AND PG_MASK) = va" .
  then show ?thesis by (simp add: page_offset_def)
qed

lemma page_offset_less: "page_offset va < 4096"
  unfolding page_offset_def PG_MASK_def pg_mask_mask
  using unat_and_mask_less [of va 12] by simp

lemma tlb_tag_aligned: "aligned sz va \<Longrightarrow> tlb_tag sz va = page_base va"
  by (rule bit_word_eqI) (auto simp: tlb_tag_bits page_base_bits aligned_bits)

lemma tlb_tag_not_minus_1: "tlb_tag sz va \<noteq> - 1"
proof
  assume a: "tlb_tag sz va = - 1"
  have "\<not> bit (tlb_tag sz va) 11"
    using size_log2_le [of sz] by (auto simp: tlb_tag_bits)
  moreover have "bit (- 1 :: u64) 11" by simp
  ultimately show False unfolding a by blast
qed

lemma tlb_tag_page:
  assumes "tlb_tag sz va = page_base w"
  shows "aligned sz va" and "page_base va = page_base w"
proof -
  have b: "bit (tlb_tag sz va) n = bit (page_base w) n" for n
    using assms by simp
  have "\<not> bit va n" if "n < size_log2 sz" for n
    using b [of n] that size_log2_le [of sz] by (auto simp: tlb_tag_bits page_base_bits)
  then show "aligned sz va" by (simp add: aligned_bits)
  show "page_base va = page_base w"
  proof (rule bit_word_eqI)
    fix n show "bit (page_base va) n = bit (page_base w) n"
      using b [of n] by (auto simp: tlb_tag_bits page_base_bits)
  qed
qed

lemma tlb_index_less: "tlb_index va < TLB_SIZE"
proof -
  have "(of_nat (TLB_SIZE - 1) :: u64) = mask 8" by (simp add: mask_eq_exp_minus_1)
  then show ?thesis
    unfolding tlb_index_def using unat_and_mask_less [of "drop_bit PG_SHIFT va" 8] by simp
qed

lemma tlb_index_page_base: "tlb_index (page_base va) = tlb_index va"
proof -
  have "drop_bit 12 (page_base va) = drop_bit 12 va"
    by (rule bit_word_eqI) (auto simp: bit_simps page_base_bits)
  then show ?thesis by (simp add: tlb_index_def)
qed

lemma tlb_index_same_page: "page_base va = page_base w \<Longrightarrow> tlb_index va = tlb_index w"
  by (metis tlb_index_page_base)

section \<open>The contract of a translation cache\<close>

locale translation_cache =
  fixes cache :: "'s \<Rightarrow> nat \<Rightarrow> TLBEntry"
    and set_cache :: "(nat \<Rightarrow> TLBEntry) \<Rightarrow> 's \<Rightarrow> 's"
    and flush :: "'s \<Rightarrow> 's"
  assumes cache_set: "cache (set_cache t s) = t"
    and cache_flush: "cache (flush s) = tlb_clear (cache s)"
begin

text \<open>After a flush every lookup misses.\<close>

lemma miss_after_flush: "\<not> tlb_hit sz (cache (flush s)) va"
  using tlb_index_less [of va] tlb_tag_not_minus_1 [of sz va]
  by (auto simp: cache_flush tlb_hit_def tlb_clear_def)

text \<open>After a fill every aligned access to the same page hits, at the matching host address.\<close>

lemma hit_after_fill:
  assumes "page_base w = page_base va" and "aligned sz w"
  shows "tlb_hit sz (cache (set_cache (tlb_fill va ptr (cache s)) s)) w"
    and "tlb_ptr (cache (set_cache (tlb_fill va ptr (cache s)) s)) w = ptr + (w - va)"
  using tlb_index_same_page [OF assms(1)] tlb_tag_aligned [OF assms(2)] assms(1)
  by (simp_all add: cache_set tlb_hit_def tlb_ptr_def tlb_fill_def page_base_def)

text \<open>A fill never makes an access to another page hit.\<close>

lemma fill_other_page:
  assumes "page_base w \<noteq> page_base va"
    and "tlb_hit sz (cache (set_cache (tlb_fill va ptr (cache s)) s)) w"
  shows "tlb_hit sz (cache s) w"
  using assms tlb_tag_page(2) [of sz w va]
  by (auto simp: cache_set tlb_hit_def tlb_fill_def page_base_def split: if_splits)

end

interpretation rd: translation_cache tlb_read "\<lambda>t s. s\<lparr>tlb_read := t\<rparr>" tlb_flush_all
  by unfold_locales (simp_all add: tlb_flush_all_def tlb_init_def)

interpretation wr: translation_cache tlb_write "\<lambda>t s. s\<lparr>tlb_write := t\<rparr>" tlb_flush_all
  by unfold_locales (simp_all add: tlb_flush_all_def tlb_init_def)

interpretation cd: translation_cache tlb_code "\<lambda>t s. s\<lparr>tlb_code := t\<rparr>" tlb_flush_all
  by unfold_locales (simp_all add: tlb_flush_all_def tlb_init_def)

end
