(* ===== verification/Iomem.thy ===== *)
theory Iomem
  imports Tlb
begin

text \<open>
  \<open>iomem.c\<close> and \<open>iomem.h\<close>: the physical memory map with its RAM and device ranges, and the dirty
  bitmaps of tracked RAM. A pointer to a range is its slot number in \<open>phys_mem_range\<close>.
  Functions that call back into the CPU to invalidate write TLB entries act on the whole core.
  An assertion failure (\<open>tinyemu_assert_fail\<close> aborts the process) is \<open>None\<close>.
\<close>

section \<open>Lookup and registration\<close>

definition phys_mem_map_init :: PhysMemoryMap where
  "phys_mem_map_init =
     \<lparr>n_phys_mem_range = 0,
      phys_mem_range = (\<lambda>_. \<lparr>pr_addr = 0, org_size = 0, pr_size = 0, is_ram = False,
        devram_flags = 0, phys_mem = 0, dirty_bits_size = 0, dirty_bits = None,
        dirty_bits_tab = (\<lambda>_. []), dirty_bits_index = 0, opaque = 0, devio_flags = 0\<rparr>)\<rparr>"

definition range_contains :: "PhysMemoryRange \<Rightarrow> u64 \<Rightarrow> bool" where
  "range_contains pr paddr \<longleftrightarrow> pr_addr pr \<le> paddr \<and> paddr < pr_addr pr + pr_size pr"

definition get_phys_mem_range :: "PhysMemoryMap \<Rightarrow> u64 \<Rightarrow> nat option" where
  "get_phys_mem_range m paddr =
     find (\<lambda>i. range_contains (phys_mem_range m i) paddr) [0..<n_phys_mem_range m]"

definition upd_range ::
  "nat \<Rightarrow> (PhysMemoryRange \<Rightarrow> PhysMemoryRange) \<Rightarrow> PhysMemoryMap \<Rightarrow> PhysMemoryMap" where
  "upd_range i f m = m\<lparr>phys_mem_range := (phys_mem_range m)(i := f (phys_mem_range m i))\<rparr>"

definition register_ram_entry ::
  "PhysMemoryMap \<Rightarrow> u64 \<Rightarrow> u64 \<Rightarrow> u32 \<Rightarrow> (PhysMemoryMap \<times> nat) option" where
  "register_ram_entry m base len flags =
     (let i = n_phys_mem_range m in
      if i < PHYS_MEM_RANGE_MAX \<and> len AND (DEVRAM_PAGE_SIZE - 1) = 0 \<and> len \<noteq> 0 then
        Some (upd_range i (\<lambda>pr. pr\<lparr>
            is_ram := True,
            devram_flags := flags AND NOT DEVRAM_FLAG_DISABLED,
            pr_addr := base,
            org_size := len,
            pr_size := (if flags AND DEVRAM_FLAG_DISABLED \<noteq> 0 then 0 else len),
            phys_mem := 0,
            dirty_bits := None,
            dirty_bits_tab := (\<lambda>_. []),
            dirty_bits_size := 0,
            dirty_bits_index := 0\<rparr>) (m\<lparr>n_phys_mem_range := i + 1\<rparr>), i)
      else None)"

text \<open>
  The host allocator is a parameter: the pointer it returns for the RAM buffer (0 for NULL) and
  whether each of the two bitmap allocations succeeds.
\<close>

record alloc_results =
  mem_ptr :: u64
  tab_ok :: "nat \<Rightarrow> bool"

definition alloc_zeroed :: "u64 \<Rightarrow> nat \<Rightarrow> heap \<Rightarrow> heap" where
  "alloc_zeroed p n h = (\<lambda>q. if unat (q - p) < n then 0 else h q)"

definition default_register_ram ::
  "alloc_results \<Rightarrow> u64 \<Rightarrow> u64 \<Rightarrow> u32 \<Rightarrow> ('p, 'x) TinyemuCore_scheme \<Rightarrow>
   (nat option \<times> ('p, 'x) TinyemuCore_scheme) option" where
  "default_register_ram al base len flags s =
     (case register_ram_entry (mem_map s) base len flags of
        None \<Rightarrow> None
      | Some (m, i) \<Rightarrow>
          let m = upd_range i (phys_mem_update (\<lambda>_. mem_ptr al)) m;
              drop = n_phys_mem_range_update (\<lambda>n. n - 1)
          in if mem_ptr al = 0 then Some (None, s\<lparr>mem_map := drop m\<rparr>)
             else
               let s = s\<lparr>hmem := alloc_zeroed (mem_ptr al) (unat len) (hmem s)\<rparr> in
               if flags AND DEVRAM_FLAG_DIRTY_BITS \<noteq> 0 then
                 let nb_pages = unat (drop_bit DEVRAM_PAGE_SIZE_LOG2 len);
                     n = (nb_pages + 31) div 32;
                     m = upd_range i (\<lambda>pr. pr\<lparr>dirty_bits_size := n * 4, dirty_bits_index := 0\<rparr>) m
                 in if \<not> tab_ok al 0 \<or> \<not> tab_ok al 1 then Some (None, s\<lparr>mem_map := drop m\<rparr>)
                    else Some (Some i, s\<lparr>mem_map := upd_range i (\<lambda>pr. pr\<lparr>
                           dirty_bits_tab := (\<lambda>_. replicate n 0), dirty_bits := Some 0\<rparr>) m\<rparr>)
               else Some (Some i, s\<lparr>mem_map := m\<rparr>))"

definition cpu_register_device ::
  "PhysMemoryMap \<Rightarrow> u64 \<Rightarrow> u64 \<Rightarrow> nat \<Rightarrow> u32 \<Rightarrow> (PhysMemoryMap \<times> nat) option" where
  "cpu_register_device m base len opq flags =
     (let i = n_phys_mem_range m in
      if i < PHYS_MEM_RANGE_MAX \<and> len \<le> 0xffffffff then
        Some (upd_range i (\<lambda>pr. pr\<lparr>
            pr_addr := base,
            org_size := len,
            pr_size := (if flags AND DEVIO_DISABLED \<noteq> 0 then 0 else len),
            is_ram := False,
            opaque := opq,
            devio_flags := flags\<rparr>) (m\<lparr>n_phys_mem_range := i + 1\<rparr>), i)
      else None)"

section \<open>Dirty bits\<close>

definition phys_mem_set_dirty_bit :: "PhysMemoryRange \<Rightarrow> u64 \<Rightarrow> PhysMemoryRange" where
  "phys_mem_set_dirty_bit pr offset =
     (case dirty_bits pr of
        None \<Rightarrow> pr
      | Some t \<Rightarrow>
          let page_index = unat (drop_bit DEVRAM_PAGE_SIZE_LOG2 offset);
              msk = push_bit (page_index mod 32) 1;
              tab = dirty_bits_tab pr t;
              k = page_index div 32
          in pr\<lparr>dirty_bits_tab := (dirty_bits_tab pr)(t := tab[k := tab ! k OR msk])\<rparr>)"

definition phys_mem_is_dirty_bit :: "PhysMemoryRange \<Rightarrow> u64 \<Rightarrow> bool" where
  "phys_mem_is_dirty_bit pr offset =
     (case dirty_bits pr of
        None \<Rightarrow> True
      | Some t \<Rightarrow>
          let page_index = unat (drop_bit DEVRAM_PAGE_SIZE_LOG2 offset)
          in bit (dirty_bits_tab pr t ! (page_index div 32)) (page_index mod 32))"

text \<open>\<open>flush_write_tlb\<close> of \<open>bridge.c\<close>, the callback \<open>flush_tlb_write_range\<close> of the map.\<close>

definition flush_write_tlb ::
  "u64 \<Rightarrow> u64 \<Rightarrow> ('p, 'x) TinyemuCore_scheme \<Rightarrow> ('p, 'x) TinyemuCore_scheme" where
  "flush_write_tlb address len s = riscv_cpu_flush_tlb_write_range_ram address len s"

definition default_get_dirty_bits ::
  "nat \<Rightarrow> ('p, 'x) TinyemuCore_scheme \<Rightarrow> u32 list option \<times> ('p, 'x) TinyemuCore_scheme" where
  "default_get_dirty_bits i s =
     (let pr = phys_mem_range (mem_map s) i in
      case dirty_bits pr of
        None \<Rightarrow> (None, s)
      | Some t \<Rightarrow>
          let n = dirty_bits_size pr div 4;
              has_dirty_bits = (\<exists>w \<in> set (take n (dirty_bits_tab pr t)). w \<noteq> 0);
              s = (if has_dirty_bits \<and> pr_size pr \<noteq> 0
                   then flush_write_tlb (phys_mem pr) (org_size pr) s else s);
              idx = dirty_bits_index pr XOR 1;
              pr = pr\<lparr>dirty_bits_index := idx, dirty_bits := Some idx,
                       dirty_bits_tab := (dirty_bits_tab pr)(idx := replicate n 0)\<rparr>
          in (Some (dirty_bits_tab pr t), s\<lparr>mem_map := upd_range i (\<lambda>_. pr) (mem_map s)\<rparr>))"

definition phys_mem_reset_dirty_bit ::
  "nat \<Rightarrow> u64 \<Rightarrow> ('p, 'x) TinyemuCore_scheme \<Rightarrow> ('p, 'x) TinyemuCore_scheme" where
  "phys_mem_reset_dirty_bit i offset s =
     (let pr = phys_mem_range (mem_map s) i in
      case dirty_bits pr of
        None \<Rightarrow> s
      | Some t \<Rightarrow>
          let page_index = unat (drop_bit DEVRAM_PAGE_SIZE_LOG2 offset);
              msk = push_bit (page_index mod 32) 1;
              tab = dirty_bits_tab pr t;
              k = page_index div 32
          in if tab ! k AND msk \<noteq> 0 then
               let pr = pr\<lparr>dirty_bits_tab := (dirty_bits_tab pr)(t := tab[k := tab ! k AND NOT msk])\<rparr>;
                   s = s\<lparr>mem_map := upd_range i (\<lambda>_. pr) (mem_map s)\<rparr>
               in flush_write_tlb (phys_mem pr + (offset AND NOT (DEVRAM_PAGE_SIZE - 1)))
                    DEVRAM_PAGE_SIZE s
             else s)"

section \<open>Moving ranges, RAM pointers\<close>

definition default_set_addr ::
  "nat \<Rightarrow> u64 \<Rightarrow> bool \<Rightarrow> ('p, 'x) TinyemuCore_scheme \<Rightarrow> ('p, 'x) TinyemuCore_scheme" where
  "default_set_addr i base enabled s =
     (let pr = phys_mem_range (mem_map s) i;
          flushed = (if is_ram pr then flush_write_tlb (phys_mem pr) (org_size pr) s else s)
      in if enabled then
           if pr_size pr = 0 \<or> pr_addr pr \<noteq> base then
             flushed\<lparr>mem_map := upd_range i (\<lambda>pr. pr\<lparr>pr_addr := base, pr_size := org_size pr\<rparr>)
                       (mem_map s)\<rparr>
           else s
         else
           if pr_size pr \<noteq> 0 then
             flushed\<lparr>mem_map := upd_range i (\<lambda>pr. pr\<lparr>pr_addr := 0, pr_size := 0\<rparr>) (mem_map s)\<rparr>
           else s)"

definition phys_mem_set_addr ::
  "nat \<Rightarrow> u64 \<Rightarrow> bool \<Rightarrow> ('p, 'x) TinyemuCore_scheme \<Rightarrow> ('p, 'x) TinyemuCore_scheme" where
  "phys_mem_set_addr i base enabled s = default_set_addr i base enabled s"

definition phys_mem_get_ram_ptr ::
  "u64 \<Rightarrow> bool \<Rightarrow> ('p, 'x) TinyemuCore_scheme \<Rightarrow> u64 option \<times> ('p, 'x) TinyemuCore_scheme" where
  "phys_mem_get_ram_ptr paddr is_rw s =
     (case get_phys_mem_range (mem_map s) paddr of
        None \<Rightarrow> (None, s)
      | Some i \<Rightarrow>
          let pr = phys_mem_range (mem_map s) i in
          if \<not> is_ram pr then (None, s)
          else
            let offset = paddr - pr_addr pr;
                s = (if is_rw
                     then s\<lparr>mem_map := upd_range i (\<lambda>pr. phys_mem_set_dirty_bit pr offset) (mem_map s)\<rparr>
                     else s)
            in (Some (phys_mem pr + offset), s))"

end
