(* ===== verification/Device.thy ===== *)
theory Device
  imports Iomem
begin

text \<open>
  The part of \<open>bridge.c\<close> that the memory accessors call: the device callbacks, which forward a
  guest access to the platform and then refresh the interrupt lines, and the RAM window
  \<open>tinyemu_core_ram_range\<close> that the platform uses for DMA. \<open>mip\<close> handling is from \<open>riscv_cpu.c\<close>.

  The platform itself (the trait \<open>PlatformCallbacks\<close> of the host program) is a parameter: a state
  \<open>'p\<close> and the four callbacks. A read or write callback sees guest RAM through a view and returns,
  besides its new state and its status, the RAM writes it makes through
  \<open>tinyemu_core_ram_range\<close>, in order.
\<close>

type_synonym ram_view = "u64 \<Rightarrow> nat \<Rightarrow> u8 list option"
type_synonym dma_write = "u64 \<times> u8 list"

record 'p platform_ops =
  platform_read :: "'p \<Rightarrow> ram_view \<Rightarrow> u64 \<Rightarrow> u32 \<Rightarrow> 'p \<times> dma_write list \<times> u32 option"
  platform_write :: "'p \<Rightarrow> ram_view \<Rightarrow> u64 \<Rightarrow> u32 \<Rightarrow> u32 \<Rightarrow> 'p \<times> dma_write list \<times> bool"
  platform_interrupts :: "'p \<Rightarrow> u32"
  platform_service_requested :: "'p \<Rightarrow> bool"

section \<open>Interrupt lines\<close>

definition riscv_cpu_set_mip :: "u32 \<Rightarrow> 'a RISCVCPUState_scheme \<Rightarrow> 'a RISCVCPUState_scheme" where
  "riscv_cpu_set_mip msk s =
     (let s = s\<lparr>mip := mip s OR msk\<rparr>
      in if power_down_flag s \<and> mip s AND mie s \<noteq> 0 then s\<lparr>power_down_flag := False\<rparr> else s)"

definition riscv_cpu_reset_mip :: "u32 \<Rightarrow> 'a RISCVCPUState_scheme \<Rightarrow> 'a RISCVCPUState_scheme" where
  "riscv_cpu_reset_mip msk s = s\<lparr>mip := mip s AND NOT msk\<rparr>"

definition tinyemu_core_set_interrupts ::
  "u32 \<Rightarrow> ('p, 'x) TinyemuCore_scheme \<Rightarrow> ('p, 'x) TinyemuCore_scheme" where
  "tinyemu_core_set_interrupts msk s =
     (let external = MIP_MSIP OR MIP_MTIP OR MIP_MEIP OR MIP_SEIP;
          s = riscv_cpu_reset_mip external s
      in riscv_cpu_set_mip (msk AND external) s)"

section \<open>The RAM window\<close>

definition set_dirty_pages :: "nat \<Rightarrow> nat \<Rightarrow> PhysMemoryRange \<Rightarrow> PhysMemoryRange" where
  "set_dirty_pages fst_page lst_page pr =
     fold (\<lambda>page pr. phys_mem_set_dirty_bit pr (push_bit DEVRAM_PAGE_SIZE_LOG2 (of_nat page)))
       [fst_page..<Suc lst_page] pr"

definition tinyemu_core_ram_range ::
  "u64 \<Rightarrow> u64 \<Rightarrow> bool \<Rightarrow> ('p, 'x) TinyemuCore_scheme \<Rightarrow> u64 option \<times> ('p, 'x) TinyemuCore_scheme"
where
  "tinyemu_core_ram_range address len wr s =
     (case get_phys_mem_range (mem_map s) address of
        None \<Rightarrow> (None, s)
      | Some i \<Rightarrow>
          let region = phys_mem_range (mem_map s) i in
          if \<not> is_ram region \<or> (wr \<and> devram_flags region AND DEVRAM_FLAG_ROM \<noteq> 0) \<or>
             len > pr_size region - (address - pr_addr region)
          then (None, s)
          else
            let fst_off = address - pr_addr region;
                s = (if wr \<and> len \<noteq> 0
                     then s\<lparr>mem_map := upd_range i
                            (set_dirty_pages (unat (drop_bit DEVRAM_PAGE_SIZE_LOG2 fst_off))
                               (unat (drop_bit DEVRAM_PAGE_SIZE_LOG2 (fst_off + len - 1))))
                            (mem_map s)\<rparr>
                     else s)
            in (Some (phys_mem region + fst_off), s))"

definition ram_view_of :: "('p, 'x) TinyemuCore_scheme \<Rightarrow> ram_view" where
  "ram_view_of s address len =
     (case fst (tinyemu_core_ram_range address (of_nat len) False s) of
        None \<Rightarrow> None
      | Some ptr \<Rightarrow> Some (load_bytes len (hmem s) ptr))"

text \<open>A write whose length does not fit the host's \<open>size_t\<close> cannot be asked for.\<close>

definition do_dma :: "dma_write \<Rightarrow> ('p, 'x) TinyemuCore_scheme \<Rightarrow> ('p, 'x) TinyemuCore_scheme" where
  "do_dma w s =
     (case w of (address, bs) \<Rightarrow>
        if length bs < 2 ^ 64 then
          (case tinyemu_core_ram_range address (of_nat (length bs)) True s of
             (None, s) \<Rightarrow> s
           | (Some ptr, s) \<Rightarrow> s\<lparr>hmem := store_bytes bs ptr (hmem s)\<rparr>)
        else s)"

section \<open>Device callbacks\<close>

definition tinyemu_platform_read ::
  "'p platform_ops \<Rightarrow> u64 \<Rightarrow> u32 \<Rightarrow> ('p, 'x) TinyemuCore_scheme \<Rightarrow>
   u32 option \<times> ('p, 'x) TinyemuCore_scheme" where
  "tinyemu_platform_read ops address width s =
     (case platform s of
        None \<Rightarrow> (None, s)
      | Some p \<Rightarrow>
          (case platform_read ops p (ram_view_of s) address width of
             (p, dma, res) \<Rightarrow> (res, fold do_dma dma (s\<lparr>platform := Some p\<rparr>))))"

definition tinyemu_platform_write ::
  "'p platform_ops \<Rightarrow> u64 \<Rightarrow> u32 \<Rightarrow> u32 \<Rightarrow> ('p, 'x) TinyemuCore_scheme \<Rightarrow>
   bool \<times> ('p, 'x) TinyemuCore_scheme" where
  "tinyemu_platform_write ops address width val s =
     (case platform s of
        None \<Rightarrow> (False, s)
      | Some p \<Rightarrow>
          (case platform_write ops p (ram_view_of s) address width val of
             (p, dma, res) \<Rightarrow> (res, fold do_dma dma (s\<lparr>platform := Some p\<rparr>))))"

definition tinyemu_platform_interrupts ::
  "'p platform_ops \<Rightarrow> ('p, 'x) TinyemuCore_scheme \<Rightarrow> u32" where
  "tinyemu_platform_interrupts ops s =
     (case platform s of None \<Rightarrow> 0 | Some p \<Rightarrow> platform_interrupts ops p)"

definition tinyemu_platform_service_requested ::
  "'p platform_ops \<Rightarrow> ('p, 'x) TinyemuCore_scheme \<Rightarrow> bool" where
  "tinyemu_platform_service_requested ops s =
     (case platform s of None \<Rightarrow> False | Some p \<Rightarrow> platform_service_requested ops p)"

text \<open>\<open>None\<close> and \<open>False\<close> are a nonzero status.\<close>

definition read_device ::
  "'p platform_ops \<Rightarrow> nat \<Rightarrow> u32 \<Rightarrow> access_size \<Rightarrow> ('p, 'x) TinyemuCore_scheme \<Rightarrow>
   u32 option \<times> ('p, 'x) TinyemuCore_scheme" where
  "read_device ops opq offset sz s =
     (case tinyemu_platform_read ops (devices s opq + ucast offset) (of_nat (size_bytes sz)) s of
        (status, s) \<Rightarrow>
          (status, tinyemu_core_set_interrupts (tinyemu_platform_interrupts ops s) s))"

definition write_device ::
  "'p platform_ops \<Rightarrow> nat \<Rightarrow> u32 \<Rightarrow> u32 \<Rightarrow> access_size \<Rightarrow> ('p, 'x) TinyemuCore_scheme \<Rightarrow>
   bool \<times> ('p, 'x) TinyemuCore_scheme" where
  "write_device ops opq offset val sz s =
     (case tinyemu_platform_write ops (devices s opq + ucast offset) (of_nat (size_bytes sz)) val s of
        (status, s) \<Rightarrow>
          let s = tinyemu_core_set_interrupts (tinyemu_platform_interrupts ops s) s;
              s = (if status \<and> tinyemu_platform_service_requested ops s
                   then s\<lparr>host_service_requested := True\<rparr> else s)
          in (status, s))"

end
