(* ===== verification/Mmu.thy ===== *)
theory Mmu
  imports Device
begin

text \<open>
  Address translation and memory access, from \<open>riscv_cpu.c\<close> and \<open>riscv_cpu_priv.h\<close>: the Sv39 page
  walk \<open>get_phys_addr\<close>, the slow paths \<open>target_read_slow\<close>, \<open>target_write_slow\<close> and
  \<open>target_read_insn_slow\<close> with their TLB fills, and the inline fast paths.

  A read returns \<open>None\<close> for an exception, with \<open>pending_exception\<close> and \<open>pending_tval\<close> set; a write
  returns the C status (negative: exception, positive: the host asked for control).
\<close>

datatype TranslationResult = TRANSLATE_OK | TRANSLATE_PAGE_FAULT | TRANSLATE_ACCESS_FAULT

section \<open>Page tables\<close>

definition get_effective_priv :: "'a RISCVCPUState_scheme \<Rightarrow> nat \<Rightarrow> u8" where
  "get_effective_priv s acc =
     (if mstatus s AND MSTATUS_MPRV \<noteq> 0 \<and> acc \<noteq> ACCESS_CODE
      then ucast (drop_bit MSTATUS_MPP_SHIFT (mstatus s) AND 3)
      else priv s)"

definition phys_ram_access_ok :: "('p, 'x) TinyemuCore_scheme \<Rightarrow> u64 \<Rightarrow> u64 \<Rightarrow> nat option" where
  "phys_ram_access_ok s paddr len =
     (case get_phys_mem_range (mem_map s) paddr of
        None \<Rightarrow> None
      | Some i \<Rightarrow>
          let pr = phys_mem_range (mem_map s) i in
          if \<not> is_ram pr \<or> len > pr_size pr \<or> paddr - pr_addr pr > pr_size pr - len
          then None else Some i)"

definition phys_read_pte :: "('p, 'x) TinyemuCore_scheme \<Rightarrow> u64 \<Rightarrow> u64 option" where
  "phys_read_pte s paddr =
     (case phys_ram_access_ok s paddr 8 of
        None \<Rightarrow> None
      | Some i \<Rightarrow>
          let pr = phys_mem_range (mem_map s) i
          in Some (load_le 8 (hmem s) (phys_mem pr + (paddr - pr_addr pr))))"

definition phys_write_pte ::
  "('p, 'x) TinyemuCore_scheme \<Rightarrow> u64 \<Rightarrow> u64 \<Rightarrow> ('p, 'x) TinyemuCore_scheme option" where
  "phys_write_pte s paddr val =
     (case phys_ram_access_ok s paddr 8 of
        None \<Rightarrow> None
      | Some i \<Rightarrow>
          let pr = phys_mem_range (mem_map s) i in
          if devram_flags pr AND DEVRAM_FLAG_ROM \<noteq> 0 then None
          else Some (s\<lparr>mem_map := upd_range i
                        (\<lambda>pr. phys_mem_set_dirty_bit pr (paddr - pr_addr pr)) (mem_map s),
                      hmem := store_le 8 val (phys_mem pr + (paddr - pr_addr pr)) (hmem s)\<rparr>))"

text \<open>
  The checks on a leaf entry at level \<open>i\<close>: \<open>None\<close> is a page fault, otherwise the physical page
  base with the page offset still to be added.
\<close>

definition leaf_paddr :: "u64 \<Rightarrow> u64 \<Rightarrow> nat \<Rightarrow> u64 \<Rightarrow> u64 option" where
  "leaf_paddr menv pte i va =
     (let paddr = push_bit PG_SHIFT (drop_bit 10 pte AND PTE_PPN_MASK) in
      if pte AND PTE_PBMT_MASK = PTE_PBMT_MASK \<or>
         (pte AND PTE_PBMT_MASK \<noteq> 0 \<and> menv AND MENVCFG_PBMTE = 0)
      then None
      else if pte AND PTE_N_MASK \<noteq> 0 then
        if i \<noteq> SV39_LEVELS - 1 \<or> drop_bit PG_SHIFT paddr AND 0xf \<noteq> 8 then None
        else Some ((paddr AND NOT (push_bit PG_SHIFT 0xf)) OR (va AND push_bit PG_SHIFT 0xf))
      else Some paddr)"

definition leaf_permitted :: "u8 \<Rightarrow> u64 \<Rightarrow> u64 \<Rightarrow> nat \<Rightarrow> bool" where
  "leaf_permitted prv mst pte acc \<longleftrightarrow>
     (let xwr = drop_bit 1 pte AND 7 in
      xwr \<noteq> 2 \<and> xwr \<noteq> 6 \<and>
      (if prv = PRV_S then \<not> (pte AND PTE_U_MASK \<noteq> 0 \<and> mst AND MSTATUS_SUM = 0)
       else pte AND PTE_U_MASK \<noteq> 0) \<and>
      (let xwr = (if mst AND MSTATUS_MXR \<noteq> 0 then xwr OR drop_bit 2 xwr else xwr)
       in bit xwr acc))"

text \<open>
  The body of the leaf branch of the walk. The order of the C checks does not matter for the
  result, since all of those before the accessed-bit update give the same fault.
\<close>

definition walk_leaf ::
  "u8 \<Rightarrow> u64 \<Rightarrow> u64 \<Rightarrow> nat \<Rightarrow> u64 \<Rightarrow> nat \<Rightarrow> ('p, 'x) TinyemuCore_scheme \<Rightarrow>
   TranslationResult \<times> u64 \<times> ('p, 'x) TinyemuCore_scheme" where
  "walk_leaf prv pte_addr pte i va acc s =
     (let vaddr_shift = PG_SHIFT + SV39_VPN_BITS * (SV39_LEVELS - 1 - i) in
      case leaf_paddr (menvcfg s) pte i va of
        None \<Rightarrow> (TRANSLATE_PAGE_FAULT, 0, s)
      | Some paddr \<Rightarrow>
          let vaddr_mask = push_bit vaddr_shift 1 - 1 in
          if paddr AND vaddr_mask \<noteq> 0 \<or> \<not> leaf_permitted prv (mstatus s) pte acc
          then (TRANSLATE_PAGE_FAULT, 0, s)
          else
            let need_write = (pte AND PTE_A_MASK = 0 \<or> (pte AND PTE_D_MASK = 0 \<and> acc = ACCESS_WRITE));
                res = (va AND vaddr_mask) OR (paddr AND NOT vaddr_mask)
            in if need_write then
                 if menvcfg s AND MENVCFG_ADUE = 0 then (TRANSLATE_PAGE_FAULT, 0, s)
                 else
                   let pte = pte OR PTE_A_MASK;
                       pte = (if acc = ACCESS_WRITE then pte OR PTE_D_MASK else pte)
                   in case phys_write_pte s pte_addr pte of
                        None \<Rightarrow> (TRANSLATE_ACCESS_FAULT, 0, s)
                      | Some s \<Rightarrow> (TRANSLATE_OK, res, s)
               else (TRANSLATE_OK, res, s))"

text \<open>The loop over the levels, \<open>n\<close> levels left.\<close>

primrec walk ::
  "nat \<Rightarrow> u8 \<Rightarrow> u64 \<Rightarrow> u64 \<Rightarrow> nat \<Rightarrow> ('p, 'x) TinyemuCore_scheme \<Rightarrow>
   TranslationResult \<times> u64 \<times> ('p, 'x) TinyemuCore_scheme" where
  "walk 0 prv pte_addr va acc s = (TRANSLATE_PAGE_FAULT, 0, s)"
| "walk (Suc n) prv pte_addr va acc s =
     (let i = SV39_LEVELS - Suc n;
          vaddr_shift = PG_SHIFT + SV39_VPN_BITS * (SV39_LEVELS - 1 - i);
          pte_idx = drop_bit vaddr_shift va AND (push_bit SV39_VPN_BITS 1 - 1);
          pte_addr = pte_addr + pte_idx * 8
      in case phys_read_pte s pte_addr of
           None \<Rightarrow> (TRANSLATE_ACCESS_FAULT, 0, s)
         | Some pte \<Rightarrow>
             if pte AND PTE_V_MASK = 0 \<or> pte AND PTE_HIGH_RESERVED_MASK \<noteq> 0
             then (TRANSLATE_PAGE_FAULT, 0, s)
             else if drop_bit 1 pte AND 7 \<noteq> 0 then walk_leaf prv pte_addr pte i va acc s
             else if pte AND PTE_NONLEAF_RESERVED_MASK \<noteq> 0 then (TRANSLATE_PAGE_FAULT, 0, s)
             else walk n prv (push_bit PG_SHIFT (drop_bit 10 pte AND PTE_PPN_MASK)) va acc s)"

definition get_phys_addr ::
  "u64 \<Rightarrow> nat \<Rightarrow> ('p, 'x) TinyemuCore_scheme \<Rightarrow> TranslationResult \<times> u64 \<times> ('p, 'x) TinyemuCore_scheme"
where
  "get_phys_addr va acc s =
     (let prv = get_effective_priv s acc in
      if prv = PRV_M then (TRANSLATE_OK, va, s)
      else if drop_bit SATP_MODE_SHIFT (satp s) = SATP_MODE_BARE then (TRANSLATE_OK, va, s)
      else
        let vaddr_high = drop_bit (SV39_VADDR_BITS - 1) va in
        if vaddr_high \<noteq> 0 \<and> vaddr_high \<noteq> drop_bit (SV39_VADDR_BITS - 1) (- 1)
        then (TRANSLATE_PAGE_FAULT, 0, s)
        else walk SV39_LEVELS prv (push_bit PG_SHIFT (satp s AND SATP_PPN_MASK)) va acc s)"

section \<open>Loads\<close>

definition set_pending :: "int \<Rightarrow> u64 \<Rightarrow> 'a RISCVCPUState_scheme \<Rightarrow> 'a RISCVCPUState_scheme" where
  "set_pending cause tval s = s\<lparr>pending_tval := tval, pending_exception := cause\<rparr>"

text \<open>The aligned branch of \<open>target_read_slow\<close>.\<close>

definition device_read ::
  "'p platform_ops \<Rightarrow> PhysMemoryRange \<Rightarrow> u64 \<Rightarrow> access_size \<Rightarrow> ('p, 'x) TinyemuCore_scheme \<Rightarrow>
   u64 option \<times> ('p, 'x) TinyemuCore_scheme" where
  "device_read ops pr offset sz s =
     (if bit (devio_flags pr) (size_log2 sz) then
        (case read_device ops (opaque pr) (ucast offset) sz s of
           (None, s) \<Rightarrow> (None, s)
         | (Some v, s) \<Rightarrow> (Some (ucast v), s))
      else if devio_flags pr AND DEVIO_SIZE32 \<noteq> 0 \<and> sz = S64 then
        (case read_device ops (opaque pr) (ucast offset) S32 s of
           (None, s) \<Rightarrow> (None, s)
         | (Some low, s) \<Rightarrow>
             (case read_device ops (opaque pr) (ucast (offset + 4)) S32 s of
                (None, s) \<Rightarrow> (None, s)
              | (Some high, s) \<Rightarrow> (Some (ucast low OR push_bit 32 (ucast high)), s)))
      else (None, s))"

definition target_read_slow_aligned ::
  "'p platform_ops \<Rightarrow> access_size \<Rightarrow> u64 \<Rightarrow> ('p, 'x) TinyemuCore_scheme \<Rightarrow>
   u64 option \<times> ('p, 'x) TinyemuCore_scheme" where
  "target_read_slow_aligned ops sz va s =
     (case get_phys_addr va ACCESS_READ s of (res, paddr, s) \<Rightarrow>
        if res \<noteq> TRANSLATE_OK then
          (None, set_pending (if res = TRANSLATE_ACCESS_FAULT then CAUSE_FAULT_LOAD
                              else CAUSE_LOAD_PAGE_FAULT) va s)
        else (case get_phys_mem_range (mem_map s) paddr of
           None \<Rightarrow> (None, set_pending CAUSE_FAULT_LOAD va s)
         | Some i \<Rightarrow>
             let pr = phys_mem_range (mem_map s) i in
             if is_ram pr then
               let ptr = phys_mem pr + (paddr - pr_addr pr);
                   s = s\<lparr>tlb_read := tlb_fill va ptr (tlb_read s)\<rparr>
               in (Some (load_le (size_bytes sz) (hmem s) ptr), s)
             else
               (case device_read ops pr (paddr - pr_addr pr) sz s of
                  (None, s) \<Rightarrow> (None, set_pending CAUSE_FAULT_LOAD va s)
                | (Some v, s) \<Rightarrow> (Some v, s))))"

text \<open>The accessors return a \<open>uint8_t\<close> to \<open>uint64_t\<close>: the result of the slow path is truncated.\<close>

definition truncate_read ::
  "access_size \<Rightarrow> u64 option \<times> ('p, 'x) TinyemuCore_scheme \<Rightarrow>
   u64 option \<times> ('p, 'x) TinyemuCore_scheme" where
  "truncate_read sz r = (case r of (v, s) \<Rightarrow> (map_option (take_bit (8 * size_bytes sz)) v, s))"

text \<open>A load at an aligned address: the inline accessor, then the aligned slow path.\<close>

definition target_read_aligned ::
  "'p platform_ops \<Rightarrow> access_size \<Rightarrow> u64 \<Rightarrow> ('p, 'x) TinyemuCore_scheme \<Rightarrow>
   u64 option \<times> ('p, 'x) TinyemuCore_scheme" where
  "target_read_aligned ops sz va s =
     (if tlb_hit sz (tlb_read s) va
      then (Some (load_le (size_bytes sz) (hmem s) (tlb_ptr (tlb_read s) va)), s)
      else truncate_read sz (target_read_slow_aligned ops sz va s))"

definition target_read_slow ::
  "'p platform_ops \<Rightarrow> access_size \<Rightarrow> u64 \<Rightarrow> ('p, 'x) TinyemuCore_scheme \<Rightarrow>
   u64 option \<times> ('p, 'x) TinyemuCore_scheme" where
  "target_read_slow ops sz va s =
     (let al = va AND (of_nat (size_bytes sz) - 1); k = unat al in
      if al \<noteq> 0 then
        (let (half, a0, a1) = (if sz = S16 then (S8, va, va + 1)
                               else (sz, va - al, va - al + of_nat (size_bytes sz)))
         in case target_read_aligned ops half a0 s of
              (None, s) \<Rightarrow> (None, s)
            | (Some v0, s) \<Rightarrow>
                (case target_read_aligned ops half a1 s of
                   (None, s) \<Rightarrow> (None, s)
                 | (Some v1, s) \<Rightarrow>
                     (Some (case sz of
                          S16 \<Rightarrow> v0 OR push_bit 8 v1
                        | S32 \<Rightarrow> ucast (drop_bit (k * 8) (ucast v0 :: u32) OR
                                         push_bit (32 - k * 8) (ucast v1 :: u32))
                        | _ \<Rightarrow> drop_bit (k * 8) v0 OR push_bit (64 - k * 8) v1), s)))
      else target_read_slow_aligned ops sz va s)"

text \<open>\<open>target_read_u8\<close> to \<open>target_read_u64\<close>.\<close>

definition target_read ::
  "'p platform_ops \<Rightarrow> access_size \<Rightarrow> u64 \<Rightarrow> ('p, 'x) TinyemuCore_scheme \<Rightarrow>
   u64 option \<times> ('p, 'x) TinyemuCore_scheme" where
  "target_read ops sz va s =
     (if tlb_hit sz (tlb_read s) va
      then (Some (load_le (size_bytes sz) (hmem s) (tlb_ptr (tlb_read s) va)), s)
      else truncate_read sz (target_read_slow ops sz va s))"

section \<open>Stores\<close>

definition device_write ::
  "'p platform_ops \<Rightarrow> PhysMemoryRange \<Rightarrow> u64 \<Rightarrow> u64 \<Rightarrow> access_size \<Rightarrow> ('p, 'x) TinyemuCore_scheme \<Rightarrow>
   bool \<times> ('p, 'x) TinyemuCore_scheme" where
  "device_write ops pr offset val sz s =
     (if bit (devio_flags pr) (size_log2 sz) then
        write_device ops (opaque pr) (ucast offset) (ucast val) sz s
      else if devio_flags pr AND DEVIO_SIZE32 \<noteq> 0 \<and> sz = S64 then
        (case write_device ops (opaque pr) (ucast offset) (ucast (val AND 0xffffffff)) S32 s of
           (False, s) \<Rightarrow> (False, s)
         | (True, s) \<Rightarrow>
             write_device ops (opaque pr) (ucast (offset + 4)) (ucast (drop_bit 32 val AND 0xffffffff))
               S32 s)
      else (False, s))"

definition write_status :: "'a RISCVCPUState_scheme \<Rightarrow> int" where
  "write_status s = (if host_service_requested s then 1 else 0)"

definition target_write_slow_aligned ::
  "'p platform_ops \<Rightarrow> access_size \<Rightarrow> u64 \<Rightarrow> u64 \<Rightarrow> ('p, 'x) TinyemuCore_scheme \<Rightarrow>
   int \<times> ('p, 'x) TinyemuCore_scheme" where
  "target_write_slow_aligned ops sz va val s =
     (case get_phys_addr va ACCESS_WRITE s of (res, paddr, s) \<Rightarrow>
        if res \<noteq> TRANSLATE_OK then
          (- 1, set_pending (if res = TRANSLATE_ACCESS_FAULT then CAUSE_FAULT_STORE
                             else CAUSE_STORE_PAGE_FAULT) va s)
        else (case get_phys_mem_range (mem_map s) paddr of
           None \<Rightarrow> (- 1, set_pending CAUSE_FAULT_STORE va s)
         | Some i \<Rightarrow>
             let pr = phys_mem_range (mem_map s) i in
             if is_ram pr then
               let ptr = phys_mem pr + (paddr - pr_addr pr);
                   s = s\<lparr>mem_map := upd_range i
                          (\<lambda>pr. phys_mem_set_dirty_bit pr (paddr - pr_addr pr)) (mem_map s),
                         tlb_write := tlb_fill va ptr (tlb_write s),
                         hmem := store_le (size_bytes sz) val ptr (hmem s)\<rparr>
               in (write_status s, s)
             else
               (case device_write ops pr (paddr - pr_addr pr) val sz s of
                  (False, s) \<Rightarrow> (- 1, set_pending CAUSE_FAULT_STORE va s)
                | (True, s) \<Rightarrow> (write_status s, s))))"

definition target_write_aligned ::
  "'p platform_ops \<Rightarrow> access_size \<Rightarrow> u64 \<Rightarrow> u64 \<Rightarrow> ('p, 'x) TinyemuCore_scheme \<Rightarrow>
   int \<times> ('p, 'x) TinyemuCore_scheme" where
  "target_write_aligned ops sz va val s =
     (if tlb_hit sz (tlb_write s) va
      then (0, s\<lparr>hmem := store_le (size_bytes sz) val (tlb_ptr (tlb_write s) va) (hmem s)\<rparr>)
      else target_write_slow_aligned ops sz va val s)"

text \<open>
  The byte loop of an unaligned store: bytes \<open>i, \<dots>, i + n - 1\<close>. It stops at the first exception;
  the bytes already stored stay.
\<close>

primrec write_bytes_loop ::
  "'p platform_ops \<Rightarrow> nat \<Rightarrow> nat \<Rightarrow> u64 \<Rightarrow> u64 \<Rightarrow> ('p, 'x) TinyemuCore_scheme \<Rightarrow>
   int \<times> ('p, 'x) TinyemuCore_scheme" where
  "write_bytes_loop ops 0 i va val s = (write_status s, s)"
| "write_bytes_loop ops (Suc n) i va val s =
     (case target_write_aligned ops S8 (va + of_nat i) (drop_bit (8 * i) val AND 0xff) s of
        (err, s) \<Rightarrow> if err < 0 then (err, s) else write_bytes_loop ops n (Suc i) va val s)"

definition target_write_slow ::
  "'p platform_ops \<Rightarrow> access_size \<Rightarrow> u64 \<Rightarrow> u64 \<Rightarrow> ('p, 'x) TinyemuCore_scheme \<Rightarrow>
   int \<times> ('p, 'x) TinyemuCore_scheme" where
  "target_write_slow ops sz va val s =
     (if va AND (of_nat (size_bytes sz) - 1) \<noteq> 0
      then write_bytes_loop ops (size_bytes sz) 0 va val s
      else target_write_slow_aligned ops sz va val s)"

text \<open>\<open>target_write_u8\<close> to \<open>target_write_u64\<close>: the argument is truncated to the access width.\<close>

definition target_write ::
  "'p platform_ops \<Rightarrow> access_size \<Rightarrow> u64 \<Rightarrow> u64 \<Rightarrow> ('p, 'x) TinyemuCore_scheme \<Rightarrow>
   int \<times> ('p, 'x) TinyemuCore_scheme" where
  "target_write ops sz va val s =
     (let val = take_bit (8 * size_bytes sz) val in
      if tlb_hit sz (tlb_write s) va
      then (0, s\<lparr>hmem := store_le (size_bytes sz) val (tlb_ptr (tlb_write s) va) (hmem s)\<rparr>)
      else target_write_slow ops sz va val s)"

text \<open>\<open>True\<close>: the store would be permitted.\<close>

definition target_write_check ::
  "u64 \<Rightarrow> ('p, 'x) TinyemuCore_scheme \<Rightarrow> bool \<times> ('p, 'x) TinyemuCore_scheme" where
  "target_write_check va s =
     (case get_phys_addr va ACCESS_WRITE s of (res, paddr, s) \<Rightarrow>
        if res \<noteq> TRANSLATE_OK then
          (False, set_pending (if res = TRANSLATE_ACCESS_FAULT then CAUSE_FAULT_STORE
                               else CAUSE_STORE_PAGE_FAULT) va s)
        else (True, s))"

section \<open>Instruction fetch\<close>

definition get_insn32 :: "heap \<Rightarrow> u64 \<Rightarrow> u32" where
  "get_insn32 h ptr = load_le 4 h ptr"

definition target_read_insn_slow ::
  "u64 \<Rightarrow> ('p, 'x) TinyemuCore_scheme \<Rightarrow> u64 option \<times> ('p, 'x) TinyemuCore_scheme" where
  "target_read_insn_slow va s =
     (case get_phys_addr va ACCESS_CODE s of (res, paddr, s) \<Rightarrow>
        if res \<noteq> TRANSLATE_OK then
          (None, set_pending (if res = TRANSLATE_ACCESS_FAULT then CAUSE_FAULT_FETCH
                              else CAUSE_FETCH_PAGE_FAULT) va s)
        else (case get_phys_mem_range (mem_map s) paddr of
           None \<Rightarrow> (None, set_pending CAUSE_FAULT_FETCH va s)
         | Some i \<Rightarrow>
             let pr = phys_mem_range (mem_map s) i in
             if \<not> is_ram pr then (None, set_pending CAUSE_FAULT_FETCH va s)
             else
               let ptr = phys_mem pr + (paddr - pr_addr pr)
               in (Some ptr, s\<lparr>tlb_code := tlb_fill va ptr (tlb_code s)\<rparr>)))"

definition code_tlb_hit :: "'a RISCVCPUState_scheme \<Rightarrow> u64 \<Rightarrow> bool" where
  "code_tlb_hit s va \<longleftrightarrow> vaddr (tlb_code s (tlb_index va)) = va AND NOT PG_MASK"

definition fetch_ptr ::
  "u64 \<Rightarrow> ('p, 'x) TinyemuCore_scheme \<Rightarrow> u64 option \<times> ('p, 'x) TinyemuCore_scheme" where
  "fetch_ptr va s =
     (if code_tlb_hit s va then (Some (tlb_ptr (tlb_code s) va), s)
      else target_read_insn_slow va s)"

definition target_read_insn_u16 ::
  "u64 \<Rightarrow> ('p, 'x) TinyemuCore_scheme \<Rightarrow> u16 option \<times> ('p, 'x) TinyemuCore_scheme" where
  "target_read_insn_u16 va s =
     (case fetch_ptr va s of
        (None, s) \<Rightarrow> (None, s)
      | (Some ptr, s) \<Rightarrow> (Some (load_le 2 (hmem s) ptr), s))"

end
