(* ===== verification/Walk.thy ===== *)
theory Walk
  imports Mmu
begin

text \<open>
  Properties of the Sv39 walk. \<open>leaf_reached\<close> is the specification: which leaf entry the page tables
  in memory give for an address, without the permission checks. The lemmas relate \<open>get_phys_addr\<close>
  to it: a translation that succeeds uses a valid, permitted leaf, keeps the page offset, and the
  walk changes memory only by setting the accessed and dirty bits of that leaf.
\<close>

section \<open>Specification of the walk\<close>

definition pte_slot :: "nat \<Rightarrow> u64 \<Rightarrow> u64 \<Rightarrow> u64" where
  "pte_slot i table va =
     table + (drop_bit (PG_SHIFT + SV39_VPN_BITS * (SV39_LEVELS - 1 - i)) va AND 0x1ff) * 8"

text \<open>A table of entries at \<open>table\<close>, level \<open>i\<close> (0 is the root): the walk of \<open>va\<close> ends in entry
  \<open>pte\<close> at \<open>addr\<close>, level \<open>j\<close>.\<close>

inductive leaf_reached ::
  "('p, 'x) TinyemuCore_scheme \<Rightarrow> u64 \<Rightarrow> nat \<Rightarrow> u64 \<Rightarrow> u64 \<Rightarrow> u64 \<Rightarrow> nat \<Rightarrow> bool"
  for s va
where
  leaf: "\<lbrakk>i < SV39_LEVELS; phys_read_pte s (pte_slot i table va) = Some pte;
          pte AND PTE_V_MASK \<noteq> 0; pte AND PTE_HIGH_RESERVED_MASK = 0; drop_bit 1 pte AND 7 \<noteq> 0\<rbrakk>
         \<Longrightarrow> leaf_reached s va i table (pte_slot i table va) pte i"
| table: "\<lbrakk>i < SV39_LEVELS; phys_read_pte s (pte_slot i table va) = Some pte;
          pte AND PTE_V_MASK \<noteq> 0; pte AND PTE_HIGH_RESERVED_MASK = 0; drop_bit 1 pte AND 7 = 0;
          pte AND PTE_NONLEAF_RESERVED_MASK = 0;
          leaf_reached s va (Suc i) (push_bit PG_SHIFT (drop_bit 10 pte AND PTE_PPN_MASK)) addr leaf j\<rbrakk>
         \<Longrightarrow> leaf_reached s va i table addr leaf j"

inductive_cases leaf_reachedE: "leaf_reached s va i table addr pte j"

text \<open>The walk finds at most one leaf.\<close>

lemma leaf_reached_unique:
  assumes "leaf_reached s va i table addr pte j" and "leaf_reached s va i table addr' pte' j'"
  shows "addr' = addr \<and> pte' = pte \<and> j' = j"
  using assms
proof (induction arbitrary: addr' pte' j' rule: leaf_reached.induct)
  case (leaf i table pte)
  note h = leaf.hyps
  from leaf.prems show ?case
    by (cases rule: leaf_reached.cases) (use h in simp_all)
next
  case (table i table pte addr leaf j)
  note h = table.hyps and IH = table.IH
  from table.prems show ?case
  proof (cases rule: leaf_reached.cases)
    case leaf
    with h show ?thesis by simp
  next
    case (table pte2)
    with h have "pte2 = pte" by simp
    with table IH show ?thesis by blast
  qed
qed

lemma leaf_reached_level: "leaf_reached s va i table addr pte j \<Longrightarrow> i \<le> j \<and> j < SV39_LEVELS"
  by (induction rule: leaf_reached.induct) auto

lemma leaf_reached_valid:
  "leaf_reached s va i table addr pte j \<Longrightarrow>
   phys_read_pte s addr = Some pte \<and> pte AND PTE_V_MASK \<noteq> 0 \<and> drop_bit 1 pte AND 7 \<noteq> 0"
  by (induction rule: leaf_reached.induct) auto

section \<open>Alignment of table entries\<close>

lemma unat_add_dvd:
  assumes "2 ^ k dvd unat a" and "2 ^ k dvd unat b" and "k \<le> 64"
  shows "2 ^ k dvd unat (a + b :: u64)"
proof -
  have "(2 :: nat) ^ k dvd 2 ^ 64" using assms(3) by (rule le_imp_power_dvd)
  then show ?thesis using assms(1,2) by (simp add: unat_word_ariths dvd_mod)
qed

lemma unat_push_dvd:
  "k \<le> n \<Longrightarrow> n \<le> 64 \<Longrightarrow> 2 ^ k dvd unat (push_bit n (x :: u64))"
proof -
  assume k: "k \<le> n" "n \<le> 64"
  have "unat (push_bit n x) = (unat x * 2 ^ n) mod 2 ^ 64"
    unfolding unsigned_push_bit_eq by (simp add: push_bit_eq_mult take_bit_eq_mod)
  moreover have "(2 :: nat) ^ k dvd 2 ^ n" "(2 :: nat) ^ k dvd 2 ^ 64"
    using k by (simp_all only: le_imp_power_dvd)
  ultimately show ?thesis by (simp only: dvd_mod dvd_mult)
qed

lemma pte_slot_dvd:
  assumes "8 dvd unat table"
  shows "8 dvd unat (pte_slot i table va)"
proof -
  have "x * 8 = push_bit 3 x" for x :: u64 by (simp add: push_bit_eq_mult)
  then have "8 dvd unat (x * 8)" for x :: u64 using unat_push_dvd [of 3 3 x] by simp
  then show ?thesis
    unfolding pte_slot_def using unat_add_dvd [of 3 table] assms by simp
qed

lemma table_dvd: "8 dvd unat (push_bit PG_SHIFT (x :: u64))"
  using unat_push_dvd [of 3 12 x] by simp

lemma leaf_reached_aligned:
  "leaf_reached s va i table addr pte j \<Longrightarrow> 8 dvd unat table \<Longrightarrow> 8 dvd unat addr"
proof (induction rule: leaf_reached.induct)
  case (leaf i table pte)
  then show ?case using pte_slot_dvd by blast
next
  case (table i table pte addr leaf j)
  show ?case by (rule table.IH) (rule table_dvd)
qed

section \<open>The walk implements the specification\<close>

lemma walk_leaf_reached:
  assumes "n \<le> SV39_LEVELS" and "i = SV39_LEVELS - n"
    and "walk n prv table va acc s = (TRANSLATE_OK, pa, s')"
  shows "\<exists>addr pte j. leaf_reached s va i table addr pte j \<and>
           walk_leaf prv addr pte j va acc s = (TRANSLATE_OK, pa, s')"
  using assms
proof (induction n arbitrary: table i)
  case 0
  then show ?case by simp
next
  case (Suc n)
  define slot where "slot = pte_slot i table va"
  have slot: "table + (drop_bit (PG_SHIFT + SV39_VPN_BITS * (SV39_LEVELS - 1 - (SV39_LEVELS - Suc n))) va
      AND (push_bit SV39_VPN_BITS 1 - 1)) * 8 = slot"
    using Suc.prems(2) by (simp add: slot_def pte_slot_def)
  have i: "i < SV39_LEVELS" using Suc.prems by simp
  from Suc.prems(3) obtain pte where pte: "phys_read_pte s slot = Some pte"
    unfolding walk.simps Let_def slot by (auto split: option.splits)
  have v: "pte AND PTE_V_MASK \<noteq> 0" "pte AND PTE_HIGH_RESERVED_MASK = 0"
    using Suc.prems(3) unfolding walk.simps Let_def slot by (auto simp: pte split: if_splits)
  show ?case
  proof (cases "drop_bit 1 pte AND 7 = 0")
    case True
    then have nl: "pte AND PTE_NONLEAF_RESERVED_MASK = 0"
      and w: "walk n prv (push_bit PG_SHIFT (drop_bit 10 pte AND PTE_PPN_MASK)) va acc s
              = (TRANSLATE_OK, pa, s')"
      using Suc.prems(3) v unfolding walk.simps Let_def slot by (auto simp: pte split: if_splits)
    have "Suc i = SV39_LEVELS - n" using Suc.prems(1,2) by simp
    from Suc.IH [OF _ this w] Suc.prems(1) obtain addr leaf j
      where "leaf_reached s va (Suc i) (push_bit PG_SHIFT (drop_bit 10 pte AND PTE_PPN_MASK)) addr leaf j"
        "walk_leaf prv addr leaf j va acc s = (TRANSLATE_OK, pa, s')" by auto
    with leaf_reached.table [OF i pte [unfolded slot_def] v True nl] show ?thesis by blast
  next
    case False
    then have "walk_leaf prv slot pte i va acc s = (TRANSLATE_OK, pa, s')"
      using Suc.prems(2,3) v unfolding walk.simps Let_def slot by (auto simp: pte split: if_splits)
    with leaf_reached.leaf [OF i pte [unfolded slot_def] v False] show ?thesis
      unfolding slot_def by blast
  qed
qed

section \<open>What a successful translation guarantees\<close>

text \<open>The translated address is the virtual one inside a page of the level of the leaf.\<close>

lemma walk_leaf_ok:
  assumes "walk_leaf prv addr pte i va acc s = (TRANSLATE_OK, pa, s')"
  shows "leaf_permitted prv (mstatus s) pte acc"
    and "\<exists>base. leaf_paddr (menvcfg s) pte i va = Some base \<and>
           pa = (va AND (push_bit (PG_SHIFT + SV39_VPN_BITS * (SV39_LEVELS - 1 - i)) 1 - 1)) OR base"
    and "s' = s \<or> (menvcfg s AND MENVCFG_ADUE \<noteq> 0 \<and>
           phys_write_pte s addr (pte OR PTE_A_MASK OR (if acc = ACCESS_WRITE then PTE_D_MASK else 0)) = Some s')"
proof -
  let ?m = "push_bit (PG_SHIFT + SV39_VPN_BITS * (SV39_LEVELS - 1 - i)) 1 - 1 :: u64"
  from assms obtain base where base: "leaf_paddr (menvcfg s) pte i va = Some base"
    by (auto simp: walk_leaf_def split: option.splits)
  from assms base have m: "base AND ?m = 0" and p: "leaf_permitted prv (mstatus s) pte acc"
    by (auto simp: walk_leaf_def Let_def split: if_splits)
  from p show "leaf_permitted prv (mstatus s) pte acc" .
  from m have "base AND NOT ?m = base"
    by (metis (no_types) and.commute bit.conj_disj_distrib bit.disj_cancel_right and.right_neutral
        bit.conj_one_right or.left_neutral)
  with assms base m p show "\<exists>base. leaf_paddr (menvcfg s) pte i va = Some base \<and> pa = (va AND ?m) OR base"
    by (auto simp: walk_leaf_def Let_def split: if_splits option.splits)
  from assms base m p show "s' = s \<or> (menvcfg s AND MENVCFG_ADUE \<noteq> 0 \<and>
           phys_write_pte s addr (pte OR PTE_A_MASK OR (if acc = ACCESS_WRITE then PTE_D_MASK else 0)) = Some s')"
    by (auto simp: walk_leaf_def Let_def or.assoc split: if_splits option.splits)
qed

text \<open>Conversely, a leaf the tables give decides the walk.\<close>

lemma walk_eq_walk_leaf:
  "leaf_reached s va i table addr pte j \<Longrightarrow>
   walk (SV39_LEVELS - i) prv table va acc s = walk_leaf prv addr pte j va acc s"
proof (induction rule: leaf_reached.induct)
  case (leaf i table pte)
  obtain n where n: "SV39_LEVELS - i = Suc n" using leaf.hyps(1) by (cases "SV39_LEVELS - i") auto
  then have i: "SV39_LEVELS - Suc n = i" using leaf.hyps(1) by simp
  have slot: "table + (drop_bit (PG_SHIFT + SV39_VPN_BITS * (SV39_LEVELS - 1 - i)) va
      AND (push_bit SV39_VPN_BITS 1 - 1)) * 8 = pte_slot i table va"
    by (simp add: pte_slot_def)
  show ?case unfolding n walk.simps Let_def i slot using leaf.hyps by simp
next
  case (table i table pte addr leaf j)
  obtain n where n: "SV39_LEVELS - i = Suc n" using table.hyps(1) by (cases "SV39_LEVELS - i") auto
  then have i: "SV39_LEVELS - Suc n = i" "SV39_LEVELS - Suc i = n" using table.hyps(1) by simp_all
  have slot: "table + (drop_bit (PG_SHIFT + SV39_VPN_BITS * (SV39_LEVELS - 1 - i)) va
      AND (push_bit SV39_VPN_BITS 1 - 1)) * 8 = pte_slot i table va"
    by (simp add: pte_slot_def)
  show ?case unfolding n walk.simps Let_def i slot using table.hyps table.IH [unfolded i] by simp
qed

text \<open>Bits 63 to 38 of an Sv39 address are equal.\<close>

definition sv39_canonical :: "u64 \<Rightarrow> bool" where
  "sv39_canonical va \<longleftrightarrow> drop_bit 38 va = 0 \<or> drop_bit 38 va = drop_bit 38 (- 1)"

definition sv39_active :: "'a RISCVCPUState_scheme \<Rightarrow> nat \<Rightarrow> bool" where
  "sv39_active s acc \<longleftrightarrow>
     get_effective_priv s acc \<noteq> PRV_M \<and> drop_bit SATP_MODE_SHIFT (satp s) \<noteq> SATP_MODE_BARE"

definition root_table :: "'a RISCVCPUState_scheme \<Rightarrow> u64" where
  "root_table s = push_bit PG_SHIFT (satp s AND SATP_PPN_MASK)"

lemma get_phys_addr_inactive:
  "\<not> sv39_active s acc \<Longrightarrow> get_phys_addr va acc s = (TRANSLATE_OK, va, s)"
  by (auto simp: get_phys_addr_def sv39_active_def Let_def)

lemma get_phys_addr_active:
  "sv39_active s acc \<Longrightarrow> get_phys_addr va acc s =
     (if sv39_canonical va
      then walk SV39_LEVELS (get_effective_priv s acc) (root_table s) va acc s
      else (TRANSLATE_PAGE_FAULT, 0, s))"
  by (simp add: get_phys_addr_def sv39_active_def sv39_canonical_def root_table_def)

lemma get_phys_addr_leaf:
  assumes "get_phys_addr va acc s = (TRANSLATE_OK, pa, s')" and "sv39_active s acc"
  obtains addr pte j where "sv39_canonical va" "leaf_reached s va 0 (root_table s) addr pte j"
    "walk_leaf (get_effective_priv s acc) addr pte j va acc s = (TRANSLATE_OK, pa, s')"
proof -
  from assms have c: "sv39_canonical va"
    and w: "walk SV39_LEVELS (get_effective_priv s acc) (root_table s) va acc s = (TRANSLATE_OK, pa, s')"
    by (auto simp: get_phys_addr_active split: if_splits)
  from walk_leaf_reached [OF le_refl _ w] obtain addr pte j
    where "leaf_reached s va 0 (root_table s) addr pte j"
      "walk_leaf (get_effective_priv s acc) addr pte j va acc s = (TRANSLATE_OK, pa, s')" by auto
  with c that show thesis by blast
qed

section \<open>Page offsets\<close>

lemma page_offset_eqI: "(\<And>n. n < 12 \<Longrightarrow> bit a n = bit b n) \<Longrightarrow> page_offset a = page_offset b"
proof -
  assume h: "\<And>n. n < 12 \<Longrightarrow> bit a n = bit b n"
  have "a AND PG_MASK = b AND PG_MASK"
    unfolding PG_MASK_def pg_mask_mask by (rule bit_word_eqI) (auto simp: bit_simps h)
  then show ?thesis by (simp add: page_offset_def)
qed

lemma leaf_paddr_low:
  assumes "leaf_paddr menv pte i va = Some base" and "n < 12"
  shows "\<not> bit base n"
proof -
  have p: "\<not> bit (push_bit PG_SHIFT (x :: u64)) n" for x
    using assms(2) by (simp add: bit_simps)
  from assms(1) show ?thesis
    unfolding leaf_paddr_def Let_def
    by (auto simp only: bit_and_iff bit_or_iff option.inject option.simps p split: if_splits)
qed

lemma walk_leaf_offset:
  assumes "walk_leaf prv addr pte i va acc s = (TRANSLATE_OK, pa, s')"
  shows "page_offset pa = page_offset va"
proof -
  let ?k = "PG_SHIFT + SV39_VPN_BITS * (SV39_LEVELS - 1 - i)"
  obtain base where base: "leaf_paddr (menvcfg s) pte i va = Some base"
    and pa: "pa = (va AND (push_bit ?k 1 - 1)) OR base"
    using walk_leaf_ok(2) [OF assms] by blast
  have m: "push_bit ?k 1 - 1 = (mask ?k :: u64)"
    by (simp only: mask_eq_exp_minus_1 push_bit_eq_mult mult_1)
  show ?thesis
  proof (rule page_offset_eqI)
    fix n :: nat assume n: "n < 12"
    then show "bit pa n = bit va n"
      unfolding pa m using leaf_paddr_low [OF base n] by (auto simp: bit_simps)
  qed
qed

lemma get_phys_addr_offset:
  assumes "get_phys_addr va acc s = (TRANSLATE_OK, pa, s')"
  shows "page_offset pa = page_offset va"
proof (cases "sv39_active s acc")
  case True
  from get_phys_addr_leaf [OF assms this] walk_leaf_offset show ?thesis by metis
next
  case False
  with assms show ?thesis by (simp add: get_phys_addr_inactive)
qed

end
