(* ===== verification/Sv39.thy ===== *)
theory Sv39
  imports Walk
begin

text \<open>
  Sv39 as the architecture states it, bit by bit, and the proof that \<open>get_phys_addr\<close> implements it but for
  one exception, \<open>sum_fetch\<close>.
  Bits of an entry: 0 V, 1 R, 2 W, 3 X, 4 U, 6 A, 7 D, 10 to 53 the page number, 61 and 62 the memory
  type (Svpbmt), 63 N (Svnapot).
\<close>

section \<open>Specification\<close>

text \<open>
  Access rights of a leaf. A writable page must be readable. A supervisor load or store to a user page
  needs SUM (bit 18 of \<open>mstatus\<close>), and a supervisor never executes a user page; any other privilege
  needs a user page. MXR (bit 19) makes executable pages readable.
\<close>

definition sv39_permits :: "u8 \<Rightarrow> u64 \<Rightarrow> u64 \<Rightarrow> nat \<Rightarrow> bool" where
  "sv39_permits prv mst pte acc \<longleftrightarrow>
     (bit pte 2 \<longrightarrow> bit pte 1) \<and>
     (if prv = PRV_S then bit pte 4 \<longrightarrow> bit mst 18 \<and> acc \<noteq> ACCESS_CODE else bit pte 4) \<and>
     (if acc = ACCESS_READ then bit pte 1 \<or> bit mst 19 \<and> bit pte 3
      else if acc = ACCESS_WRITE then bit pte 2
      else acc = ACCESS_CODE \<and> bit pte 3)"

text \<open>
  What the code permits and Sv39 forbids: a supervisor that has set SUM fetches an instruction from an
  executable user page.
\<close>

definition sum_fetch :: "u8 \<Rightarrow> u64 \<Rightarrow> u64 \<Rightarrow> nat \<Rightarrow> bool" where
  "sum_fetch prv mst pte acc \<longleftrightarrow>
     prv = PRV_S \<and> acc = ACCESS_CODE \<and> bit mst 18 \<and> bit pte 4 \<and> bit pte 3 \<and> (bit pte 2 \<longrightarrow> bit pte 1)"

text \<open>The size of the page a leaf at level \<open>j\<close> maps (as a power of two): 4 KiB, 2 MiB, 1 GiB, or 64 KiB for N.\<close>

definition leaf_bits :: "u64 \<Rightarrow> nat \<Rightarrow> nat" where
  "leaf_bits pte j = (if bit pte 63 then 16 else 12 + 9 * (2 - j))"

text \<open>The reserved encodings: memory type 3, a memory type without PBMTE (bit 62 of \<open>menvcfg\<close>), a
  64 KiB page at another level or with a wrong size code, a misaligned superpage.\<close>

definition leaf_encoding_ok :: "u64 \<Rightarrow> u64 \<Rightarrow> nat \<Rightarrow> bool" where
  "leaf_encoding_ok menv pte j \<longleftrightarrow>
     \<not> (bit pte 61 \<and> bit pte 62) \<and> (bit pte 61 \<or> bit pte 62 \<longrightarrow> bit menv 62) \<and>
     (if bit pte 63 then j = 2 \<and> bit pte 13 \<and> \<not> bit pte 12 \<and> \<not> bit pte 11 \<and> \<not> bit pte 10
      else \<forall>n. 10 \<le> n \<and> n < 10 + 9 * (2 - j) \<longrightarrow> \<not> bit pte n)"

text \<open>The physical address: the page number above the page size, the virtual address below it.\<close>

definition leaf_target :: "u64 \<Rightarrow> nat \<Rightarrow> u64 \<Rightarrow> u64" where
  "leaf_target pte j va =
     take_bit (leaf_bits pte j) va OR
     push_bit (leaf_bits pte j) (take_bit (56 - leaf_bits pte j) (drop_bit (leaf_bits pte j - 2) pte))"

text \<open>The accessed and dirty bits: missing for an access, and after the update.\<close>

definition ad_missing :: "u64 \<Rightarrow> nat \<Rightarrow> bool" where
  "ad_missing pte acc \<longleftrightarrow> \<not> bit pte 6 \<or> (acc = ACCESS_WRITE \<and> \<not> bit pte 7)"

definition ad_update :: "u64 \<Rightarrow> nat \<Rightarrow> u64" where
  "ad_update pte acc = (if acc = ACCESS_WRITE then set_bit 7 (set_bit 6 pte) else set_bit 6 pte)"

text \<open>
  A translation of \<open>va\<close>: an Sv39 address whose tables end in a well-formed leaf on which the access
  has the rights \<open>P\<close>. Missing accessed and dirty bits are set in memory when ADUE (bit 61 of \<open>menvcfg\<close>)
  is on and the entry lies in writable RAM; otherwise nothing changes.
\<close>

definition leaf_maps ::
  "(u8 \<Rightarrow> u64 \<Rightarrow> u64 \<Rightarrow> nat \<Rightarrow> bool) \<Rightarrow>
   ('p, 'x) TinyemuCore_scheme \<Rightarrow> u64 \<Rightarrow> nat \<Rightarrow> u64 \<Rightarrow> ('p, 'x) TinyemuCore_scheme \<Rightarrow> bool" where
  "leaf_maps P s va acc pa t \<longleftrightarrow> sv39_canonical va \<and>
     (\<exists>addr pte j. leaf_reached s va 0 (root_table s) addr pte j \<and>
        P (get_effective_priv s acc) (mstatus s) pte acc \<and>
        leaf_encoding_ok (menvcfg s) pte j \<and> pa = leaf_target pte j va \<and>
        (if ad_missing pte acc
         then bit (menvcfg s) 61 \<and> phys_write_pte s addr (ad_update pte acc) = Some t
         else t = s))"

text \<open>The translations of Sv39, and those of the exception.\<close>

definition sv39_maps ::
  "('p, 'x) TinyemuCore_scheme \<Rightarrow> u64 \<Rightarrow> nat \<Rightarrow> u64 \<Rightarrow> ('p, 'x) TinyemuCore_scheme \<Rightarrow> bool" where
  "sv39_maps s va acc pa t \<longleftrightarrow> leaf_maps sv39_permits s va acc pa t"

definition sum_fetch_maps ::
  "('p, 'x) TinyemuCore_scheme \<Rightarrow> u64 \<Rightarrow> nat \<Rightarrow> u64 \<Rightarrow> ('p, 'x) TinyemuCore_scheme \<Rightarrow> bool" where
  "sum_fetch_maps s va acc pa t \<longleftrightarrow> leaf_maps sum_fetch s va acc pa t"

lemma no_sum_fetch:
  "acc \<noteq> ACCESS_CODE \<or> get_effective_priv s acc \<noteq> PRV_S \<or> \<not> bit (mstatus s) 18 \<Longrightarrow> \<not> sum_fetch_maps s va acc pa t"
  by (auto simp: sum_fetch_maps_def leaf_maps_def sum_fetch_def)

section \<open>Bits of masks\<close>

lemma and_pow_0: "(w :: u64) AND 2 ^ n = 0 \<longleftrightarrow> \<not> bit w n"
  by (rule and_exp_eq_0_iff_not_bit)

lemma word_eq_bits: "(v :: u64) = w \<longleftrightarrow> (\<forall>n. bit v n = bit w n)"
  by (auto intro: bit_word_eqI)

lemma pte_bits [simp]:
  "(w :: u64) AND 0x10 = 0 \<longleftrightarrow> \<not> bit w 4" "w AND 0x40 = 0 \<longleftrightarrow> \<not> bit w 6"
  "w AND 0x80 = 0 \<longleftrightarrow> \<not> bit w 7" "w AND 0x40000 = 0 \<longleftrightarrow> \<not> bit w 18"
  "w AND 0x80000 = 0 \<longleftrightarrow> \<not> bit w 19" "w AND 0x2000000000000000 = 0 \<longleftrightarrow> \<not> bit w 61"
  "w AND 0x4000000000000000 = 0 \<longleftrightarrow> \<not> bit w 62" "w AND 0x8000000000000000 = 0 \<longleftrightarrow> \<not> bit w 63"
  using and_pow_0 [of w 4] and_pow_0 [of w 6] and_pow_0 [of w 7] and_pow_0 [of w 18]
    and_pow_0 [of w 19] and_pow_0 [of w 61] and_pow_0 [of w 62] and_pow_0 [of w 63]
  by simp_all

lemma low3_cases: "(w :: u64) AND 7 = of_bool (bit w 0) + 2 * of_bool (bit w 1) + 4 * of_bool (bit w 2)"
proof -
  have "w AND 7 = take_bit 3 w" by (simp add: take_bit_eq_mask mask_eq_exp_minus_1)
  then show ?thesis by (simp add: numeral_3_eq_3 take_bit_Suc bit_0 mod_2_eq_odd bit_Suc numeral_2_eq_2 flip: bit_0)
qed

text \<open>The access rights.\<close>

lemma leaf_permitted_iff:
  "leaf_permitted prv mst pte acc \<longleftrightarrow> sv39_permits prv mst pte acc \<or> sum_fetch prv mst pte acc"
proof -
  define r w x where "r = bit pte 1" and "w = bit pte 2" and "x = bit pte 3"
  have xwr: "drop_bit 1 pte AND 7 = of_bool r + 2 * of_bool w + 4 * of_bool x"
    unfolding low3_cases r_def w_def x_def by (simp add: bit_simps numeral_2_eq_2 numeral_3_eq_3)
  have hi: "\<not> bit (of_bool a + 2 * of_bool b + 4 * of_bool c :: u64) acc" if "2 < acc" for a b c
    using that bit_imp_power_le_unat [of "of_bool a + 2 * of_bool b + 4 * of_bool c :: u64" acc]
      power_increasing [of 3 acc "2 :: nat"]
    by (cases a; cases b; cases c) auto
  have mxr: "(of_bool a + 2 * of_bool b + 4 * of_bool c) OR
      drop_bit 2 (of_bool a + 2 * of_bool b + 4 * of_bool c :: u64)
      = of_bool (a \<or> c) + 2 * of_bool b + 4 * of_bool c" for a b c
    by (cases a; cases b; cases c) simp_all
  have sel: "bit (of_bool a + 2 * of_bool b + 4 * of_bool c :: u64) acc =
      (if acc = 0 then a else if acc = 1 then b else acc = 2 \<and> c)" for a b c
  proof (cases "2 < acc")
    case True
    then show ?thesis using hi [OF True, of a b c] by simp
  next
    case False
    then have "acc = 0 \<or> acc = 1 \<or> acc = 2" by linarith
    then show ?thesis by (cases a; cases b; cases c) auto
  qed
  have nr: "(of_bool r + 2 * of_bool w + 4 * of_bool x :: u64) \<noteq> 2 \<and>
      (of_bool r + 2 * of_bool w + 4 * of_bool x :: u64) \<noteq> 6 \<longleftrightarrow> (w \<longrightarrow> r)"
    by (cases r; cases w; cases x) simp_all
  show ?thesis
    unfolding leaf_permitted_def Let_def xwr sv39_permits_def sum_fetch_def if_distrib [of "\<lambda>v. bit v acc"] mxr sel MSTATUS_MXR_def
      MSTATUS_SUM_def PTE_U_MASK_def pte_bits
    unfolding r_def [symmetric] w_def [symmetric] x_def [symmetric] using nr by auto
qed

text \<open>The page base and its alignment.\<close>

lemma level_mask: "push_bit k 1 - 1 = (mask k :: u64)"
  by (simp only: mask_eq_exp_minus_1 push_bit_eq_mult mult_1)

lemma pbmt_iff: "(pte :: u64) AND 0x6000000000000000 = 0x6000000000000000 \<longleftrightarrow> bit pte 61 \<and> bit pte 62"
    "(pte :: u64) AND 0x6000000000000000 = 0 \<longleftrightarrow> \<not> bit pte 61 \<and> \<not> bit pte 62"
proof -
  have m: "(0x6000000000000000 :: u64) = push_bit 61 (mask 2)" by (simp add: mask_eq_exp_minus_1)
  have b: "bit (pte AND push_bit 61 (mask 2)) n \<longleftrightarrow> bit pte n \<and> (n = 61 \<or> n = 62)" for n
    by (auto simp: bit_simps dest: bit_imp_le_length)
  show "pte AND 0x6000000000000000 = 0 \<longleftrightarrow> \<not> bit pte 61 \<and> \<not> bit pte 62"
    unfolding m word_eq_bits b by auto
  have e: "bit (push_bit 61 (mask 2) :: u64) n \<longleftrightarrow> n = 61 \<or> n = 62" for n
    by (simp only: bit_push_bit_iff bit_mask_iff possible_bit_word) auto
  show "pte AND 0x6000000000000000 = 0x6000000000000000 \<longleftrightarrow> bit pte 61 \<and> bit pte 62"
    unfolding m word_eq_bits b e by blast
qed

lemma ppn_bits: "bit (push_bit 12 (drop_bit 10 (pte :: u64) AND 0xfffffffffff)) n \<longleftrightarrow>
    12 \<le> n \<and> n < 56 \<and> bit pte (n - 2)"
proof -
  have m: "(0xfffffffffff :: u64) = mask 44" by (simp add: mask_eq_exp_minus_1)
  have "n - 12 + 10 = n - 2" if "12 \<le> n" using that by simp
  then show ?thesis unfolding m by (auto simp: bit_simps)
qed

lemma napot_code:
  "drop_bit 12 (push_bit 12 (drop_bit 10 (pte :: u64) AND 0xfffffffffff)) AND 0xf = 8 \<longleftrightarrow>
   bit pte 13 \<and> \<not> bit pte 12 \<and> \<not> bit pte 11 \<and> \<not> bit pte 10"
proof -
  have m: "(0xf :: u64) = mask 4" "(8 :: u64) = 2 ^ 3" by (simp_all add: mask_eq_exp_minus_1)
  have b: "bit (drop_bit 12 (push_bit 12 (drop_bit 10 pte AND 0xfffffffffff)) AND mask 4) n \<longleftrightarrow>
      n < 4 \<and> bit pte (n + 10)" for n
    by (simp only: bit_and_iff bit_drop_bit_eq comp_apply ppn_bits bit_mask_iff) (auto simp: add.commute)
  have e: "bit (2 ^ 3 :: u64) n \<longleftrightarrow> n = 3" for n
    by (simp only: bit_exp_iff possible_bit_word) auto
  have "(\<forall>n :: nat. (n < 4 \<and> bit pte (n + 10)) = (n = 3)) \<longleftrightarrow>
      bit pte 13 \<and> \<not> bit pte 12 \<and> \<not> bit pte 11 \<and> \<not> bit pte 10"
    (is "?l = ?r")
  proof
    assume l: ?l
    from l [rule_format, of 0] l [rule_format, of 1] l [rule_format, of 2] l [rule_format, of 3]
    show ?r by simp
  next
    assume r: ?r
    then have "(n < 4 \<and> bit pte (n + 10)) = (n = 3)" for n
      by (cases "n = 0"; cases "n = 1"; cases "n = 2"; cases "n = 3") auto
    then show ?l by blast
  qed
  then show ?thesis
    unfolding m word_eq_bits b e .
qed

definition pbmt_ok :: "u64 \<Rightarrow> u64 \<Rightarrow> bool" where
  "pbmt_ok menv pte \<longleftrightarrow> \<not> (bit pte 61 \<and> bit pte 62) \<and> (bit pte 61 \<or> bit pte 62 \<longrightarrow> bit menv 62)"

definition ppn_base :: "u64 \<Rightarrow> u64" where
  "ppn_base pte = push_bit 12 (drop_bit 10 pte AND 0xfffffffffff)"

lemma leaf_paddr_cases:
  "leaf_paddr menv pte j va =
     (if \<not> pbmt_ok menv pte then None
      else if bit pte 63 then
        if j = 2 \<and> bit pte 13 \<and> \<not> bit pte 12 \<and> \<not> bit pte 11 \<and> \<not> bit pte 10
        then Some ((ppn_base pte AND NOT (push_bit 12 0xf)) OR (va AND push_bit 12 0xf)) else None
      else Some (ppn_base pte))"
proof -
  have p: "pbmt_ok menv pte \<longleftrightarrow> \<not> (pte AND PTE_PBMT_MASK = PTE_PBMT_MASK \<or>
      (pte AND PTE_PBMT_MASK \<noteq> 0 \<and> menv AND MENVCFG_PBMTE = 0))"
    unfolding pbmt_ok_def PTE_PBMT_MASK_def pbmt_iff MENVCFG_PBMTE_def pte_bits by blast
  have n: "pte AND PTE_N_MASK \<noteq> 0 \<longleftrightarrow> bit pte 63" unfolding PTE_N_MASK_def pte_bits by blast
  have c: "j \<noteq> SV39_LEVELS - 1 \<or> drop_bit PG_SHIFT (ppn_base pte) AND 0xf \<noteq> 8 \<longleftrightarrow>
      \<not> (j = 2 \<and> bit pte 13 \<and> \<not> bit pte 12 \<and> \<not> bit pte 11 \<and> \<not> bit pte 10)"
    unfolding ppn_base_def PG_SHIFT_def napot_code by simp
  have b: "push_bit PG_SHIFT (drop_bit 10 pte AND PTE_PPN_MASK) = ppn_base pte"
    by (simp add: ppn_base_def)
  show ?thesis
    unfolding leaf_paddr_def Let_def b n c p by (simp only: PG_SHIFT_def if_not_P not_not split: if_split) blast
qed

lemma ppn_base_bits: "bit (ppn_base pte) n \<longleftrightarrow> 12 \<le> n \<and> n < 56 \<and> bit pte (n - 2)"
  unfolding ppn_base_def by (rule ppn_bits)

lemma leaf_target_bits:
  "bit (leaf_target pte j va) n \<longleftrightarrow>
     (if n < leaf_bits pte j then bit va n else n < 56 \<and> bit pte (n - 2))" if "leaf_bits pte j \<le> 56"
proof -
  have "2 \<le> leaf_bits pte j" by (simp add: leaf_bits_def)
  then have e: "leaf_bits pte j - 2 + n - leaf_bits pte j = n - 2" if "leaf_bits pte j \<le> n"
    using that by simp
  have "n < 64" if "bit va n" using that bit_imp_le_length [of va n] by simp
  then show ?thesis
    unfolding leaf_target_def by (auto simp: bit_simps e not_less)
qed

text \<open>A 64 KiB page.\<close>

lemma napot_base:
  fixes pte va :: u64
  defines "base \<equiv> (ppn_base pte AND NOT (push_bit 12 0xf)) OR (va AND push_bit 12 0xf)"
  assumes "bit pte 63"
  shows "base AND mask 12 = 0" and "(va AND mask 12) OR (base AND NOT (mask 12)) = leaf_target pte 2 va"
proof -
  have m: "(0xf :: u64) = mask 4" by (simp add: mask_eq_exp_minus_1)
  have b: "bit base n \<longleftrightarrow> 12 \<le> n \<and> (if n < 16 then bit va n else n < 56 \<and> bit pte (n - 2))" for n
    unfolding base_def m by (auto simp: bit_simps ppn_base_bits dest: bit_imp_le_length)
  show "base AND mask 12 = 0" unfolding word_eq_bits by (simp add: bit_simps b)
  have "leaf_bits pte 2 = 16" using assms(2) by (simp add: leaf_bits_def)
  then show "(va AND mask 12) OR (base AND NOT (mask 12)) = leaf_target pte 2 va"
    unfolding word_eq_bits by (subst leaf_target_bits) (auto simp: bit_simps b dest: bit_imp_le_length)
qed

text \<open>A page of the size of its level.\<close>

lemma level_base:
  assumes "\<not> bit pte 63" "j \<le> 2"
  shows "ppn_base pte AND mask (12 + 9 * (2 - j)) = 0 \<longleftrightarrow>
      (\<forall>n. 10 \<le> n \<and> n < 10 + 9 * (2 - j) \<longrightarrow> \<not> bit pte n)"
    and "(va AND mask (12 + 9 * (2 - j))) OR (ppn_base pte AND NOT (mask (12 + 9 * (2 - j))))
      = leaf_target pte j va"
proof -
  let ?k = "12 + 9 * (2 - j)"
  have k: "leaf_bits pte j = ?k" "?k \<le> 30" using assms by (simp_all add: leaf_bits_def)
  have "bit (ppn_base pte AND mask ?k) n \<longleftrightarrow> 12 \<le> n \<and> n < ?k \<and> bit pte (n - 2)" for n
    using k(2) by (auto simp: bit_simps ppn_base_bits)
  then have "ppn_base pte AND mask ?k = 0 \<longleftrightarrow> (\<forall>n. \<not> (12 \<le> n \<and> n < ?k \<and> bit pte (n - 2)))"
    unfolding word_eq_bits by simp
  also have "\<dots> \<longleftrightarrow> (\<forall>n. 10 \<le> n \<and> n < 10 + 9 * (2 - j) \<longrightarrow> \<not> bit pte n)" (is "?l = ?r")
  proof
    assume l: ?l
    show ?r using l [rule_format, of "_ + 2"] by simp
  next
    assume r: ?r
    show ?l
    proof
      fix n show "\<not> (12 \<le> n \<and> n < ?k \<and> bit pte (n - 2))"
      proof (rule notI, elim conjE)
        assume "12 \<le> n" "n < ?k" and b: "bit pte (n - 2)"
        then have "10 \<le> n - 2 \<and> n - 2 < 10 + 9 * (2 - j)" by linarith
        with r b show False by blast
      qed
    qed
  qed
  finally show "ppn_base pte AND mask ?k = 0 \<longleftrightarrow>
      (\<forall>n. 10 \<le> n \<and> n < 10 + 9 * (2 - j) \<longrightarrow> \<not> bit pte n)" .
  show "(va AND mask ?k) OR (ppn_base pte AND NOT (mask ?k)) = leaf_target pte j va"
    using k unfolding word_eq_bits
    by (subst leaf_target_bits) (auto simp: bit_simps ppn_base_bits dest: bit_imp_le_length)
qed

lemma level_le: "j \<le> 2 \<Longrightarrow> PG_SHIFT + SV39_VPN_BITS * (SV39_LEVELS - 1 - j) = 12 + 9 * (2 - j)"
  by simp

lemma leaf_base_iff:
  assumes "j \<le> 2"
  defines "k \<equiv> 12 + 9 * (2 - j)"
  shows "(\<exists>base. leaf_paddr menv pte j va = Some base \<and> base AND mask k = 0 \<and>
            pa = (va AND mask k) OR (base AND NOT (mask k))) \<longleftrightarrow>
         leaf_encoding_ok menv pte j \<and> pa = leaf_target pte j va"
proof (cases "bit pte 63")
  case True
  then show ?thesis
    unfolding leaf_paddr_cases leaf_encoding_ok_def pbmt_ok_def k_def
    using napot_base [of pte va] by auto
next
  case False
  then show ?thesis
    unfolding leaf_paddr_cases leaf_encoding_ok_def pbmt_ok_def k_def
    using level_base [OF False assms(1)] by auto
qed

lemma ad_update_eq:
  "(let pte' = pte OR PTE_A_MASK in if acc = ACCESS_WRITE then pte' OR PTE_D_MASK else pte') = ad_update pte acc"
proof -
  have "(0x40 :: u64) = push_bit 6 1" "(0x80 :: u64) = push_bit 7 1" by simp_all
  then show ?thesis by (simp add: ad_update_def set_bit_eq_or)
qed

lemma walk_leaf_iff:
  assumes "j \<le> 2"
  shows "walk_leaf prv addr pte j va acc s = (TRANSLATE_OK, pa, t) \<longleftrightarrow>
     (sv39_permits prv (mstatus s) pte acc \<or> sum_fetch prv (mstatus s) pte acc) \<and>
     leaf_encoding_ok (menvcfg s) pte j \<and> pa = leaf_target pte j va \<and>
     (if ad_missing pte acc
      then bit (menvcfg s) 61 \<and> phys_write_pte s addr (ad_update pte acc) = Some t else t = s)"
proof -
  have n: "pte AND PTE_A_MASK = 0 \<or> (pte AND PTE_D_MASK = 0 \<and> acc = ACCESS_WRITE) \<longleftrightarrow> ad_missing pte acc"
    unfolding PTE_A_MASK_def PTE_D_MASK_def pte_bits ad_missing_def by blast
  have a: "menvcfg s AND MENVCFG_ADUE = 0 \<longleftrightarrow> \<not> bit (menvcfg s) 61"
    unfolding MENVCFG_ADUE_def pte_bits by blast
  have "walk_leaf prv addr pte j va acc s = (TRANSLATE_OK, pa, t) \<longleftrightarrow>
      (\<exists>base. leaf_paddr (menvcfg s) pte j va = Some base \<and> base AND mask (12 + 9 * (2 - j)) = 0 \<and>
         pa = (va AND mask (12 + 9 * (2 - j))) OR (base AND NOT (mask (12 + 9 * (2 - j))))) \<and>
      leaf_permitted prv (mstatus s) pte acc \<and>
      (if ad_missing pte acc
       then bit (menvcfg s) 61 \<and> phys_write_pte s addr (ad_update pte acc) = Some t else t = s)"
    unfolding walk_leaf_def level_le [OF assms] level_mask
    unfolding Let_def n a ad_update_eq [unfolded Let_def]
    by (auto split: option.splits if_splits)
  then show ?thesis unfolding leaf_base_iff [OF assms] leaf_permitted_iff by blast
qed

text \<open>The walk succeeds exactly where the specification has a translation.\<close>

lemma walk_iff:
  "walk SV39_LEVELS prv (root_table s) va acc s = (TRANSLATE_OK, pa, t) \<longleftrightarrow>
     (\<exists>addr pte j. leaf_reached s va 0 (root_table s) addr pte j \<and>
        walk_leaf prv addr pte j va acc s = (TRANSLATE_OK, pa, t))"
proof
  assume "walk SV39_LEVELS prv (root_table s) va acc s = (TRANSLATE_OK, pa, t)"
  from walk_leaf_reached [OF le_refl _ this] show "\<exists>addr pte j. leaf_reached s va 0 (root_table s) addr pte j \<and>
        walk_leaf prv addr pte j va acc s = (TRANSLATE_OK, pa, t)" by simp
next
  assume "\<exists>addr pte j. leaf_reached s va 0 (root_table s) addr pte j \<and>
        walk_leaf prv addr pte j va acc s = (TRANSLATE_OK, pa, t)"
  then obtain addr pte j where "leaf_reached s va 0 (root_table s) addr pte j"
    "walk_leaf prv addr pte j va acc s = (TRANSLATE_OK, pa, t)" by blast
  then show "walk SV39_LEVELS prv (root_table s) va acc s = (TRANSLATE_OK, pa, t)"
    using walk_eq_walk_leaf [of s va 0 "root_table s" addr pte j prv acc] by simp
qed

lemma get_phys_addr_iff:
  assumes "sv39_active s acc"
  shows "get_phys_addr va acc s = (TRANSLATE_OK, pa, t) \<longleftrightarrow>
    sv39_maps s va acc pa t \<or> sum_fetch_maps s va acc pa t"
proof -
  have w: "walk_leaf prv addr pte j va acc s = (TRANSLATE_OK, pa, t) \<longleftrightarrow>
      (sv39_permits prv (mstatus s) pte acc \<or> sum_fetch prv (mstatus s) pte acc) \<and>
      leaf_encoding_ok (menvcfg s) pte j \<and> pa = leaf_target pte j va \<and>
      (if ad_missing pte acc
       then bit (menvcfg s) 61 \<and> phys_write_pte s addr (ad_update pte acc) = Some t else t = s)"
    if "leaf_reached s va 0 (root_table s) addr pte j" for prv addr pte j
    using leaf_reached_level [OF that] by (intro walk_leaf_iff) simp
  have "get_phys_addr va acc s = (TRANSLATE_OK, pa, t) \<longleftrightarrow>
      leaf_maps (\<lambda>prv mst pte acc. sv39_permits prv mst pte acc \<or> sum_fetch prv mst pte acc) s va acc pa t"
    unfolding get_phys_addr_active [OF assms] leaf_maps_def
    by (cases "sv39_canonical va") (simp_all only: if_True if_False walk_iff w simp_thms cong: conj_cong, simp)
  also have "\<dots> \<longleftrightarrow> sv39_maps s va acc pa t \<or> sum_fetch_maps s va acc pa t"
    unfolding sv39_maps_def sum_fetch_maps_def leaf_maps_def by blast
  finally show ?thesis .
qed

section \<open>Faults\<close>

text \<open>A translation that fails changes nothing.\<close>

lemma walk_leaf_fault: "walk_leaf prv addr pte j va acc s = (r, pa, t) \<Longrightarrow> r \<noteq> TRANSLATE_OK \<Longrightarrow> t = s"
  unfolding walk_leaf_def Let_def by (auto split: option.splits if_splits)

lemma walk_fault: "walk n prv table va acc s = (r, pa, t) \<Longrightarrow> r \<noteq> TRANSLATE_OK \<Longrightarrow> t = s"
proof (induction n arbitrary: table)
  case (Suc n)
  from Suc.prems show ?case
    unfolding walk.simps Let_def
    by (auto split: option.splits if_splits dest: walk_leaf_fault intro: Suc.IH)
qed simp

lemma get_phys_addr_fault: "get_phys_addr va acc s = (r, pa, t) \<Longrightarrow> r \<noteq> TRANSLATE_OK \<Longrightarrow> t = s"
  unfolding get_phys_addr_def Let_def by (auto split: if_splits dest: walk_fault)

end
