(* ===== verification/Csr.thy ===== *)
theory Csr
  imports Mmu
begin

text \<open>
  Control and status registers, from \<open>riscv_cpu.c\<close>: \<open>csr_read\<close>, \<open>csr_write\<close> and their helpers, and
  the \<open>stimecmp\<close> timer comparison. The switch of \<open>csr_read\<close> and \<open>csr_write\<close> is cut at the
  privilege groups (user, supervisor, machine) in the order of the C cases; an invalid register is
  \<open>None\<close>, respectively \<open>CSR_WRITE_ERROR\<close>.
\<close>

section \<open>Status register and counters\<close>

definition get_mstatus :: "'a RISCVCPUState_scheme \<Rightarrow> target_ulong \<Rightarrow> target_ulong" where
  "get_mstatus s msk =
     (let val = mstatus s OR push_bit MSTATUS_FS_SHIFT (ucast (fs s)) OR
            push_bit MSTATUS_UXL_SHIFT 2 OR push_bit MSTATUS_SXL_SHIFT 2;
          val = val AND msk
      in if val AND MSTATUS_FS = MSTATUS_FS \<or> val AND MSTATUS_XS = MSTATUS_XS
         then val OR push_bit 63 1 else val)"

definition set_mstatus ::
  "target_ulong \<Rightarrow> 'a RISCVCPUState_scheme \<Rightarrow> 'a RISCVCPUState_scheme" where
  "set_mstatus val s =
     (let changed = mstatus s XOR val;
          s = (if changed AND (MSTATUS_MPRV OR MSTATUS_SUM OR MSTATUS_MXR) \<noteq> 0 \<or>
                  (mstatus s AND MSTATUS_MPRV \<noteq> 0 \<and> changed AND MSTATUS_MPP \<noteq> 0)
               then tlb_flush_all s else s);
          s = s\<lparr>fs := ucast (drop_bit MSTATUS_FS_SHIFT val AND 3)\<rparr>;
          msk = MSTATUS_MASK AND NOT MSTATUS_FS
      in s\<lparr>mstatus := (mstatus s AND NOT msk) OR (val AND msk)\<rparr>)"

definition counter_access_enabled :: "'a RISCVCPUState_scheme \<Rightarrow> u32 \<Rightarrow> bool" where
  "counter_access_enabled s counter_index =
     (if priv s = PRV_M then True
      else
        let msk = push_bit (unat counter_index) 1 in
        if mcounteren s AND msk = 0 then False
        else if priv s = PRV_U \<and> scounteren s AND msk = 0 then False
        else True)"

section \<open>Physical memory protection registers\<close>

definition get_pmpcfg :: "'a RISCVCPUState_scheme \<Rightarrow> nat \<Rightarrow> target_ulong" where
  "get_pmpcfg s first_entry =
     fold (\<lambda>i val. val OR push_bit (i * 8) (ucast (pmpcfg s (first_entry + i)))) [0..<8] 0"

text \<open>The entry a write of \<open>val\<close> leaves in slot \<open>first_entry + i\<close>, one iteration of the loop.\<close>

definition new_pmpcfg :: "u8 \<Rightarrow> target_ulong \<Rightarrow> nat \<Rightarrow> u8" where
  "new_pmpcfg old val i =
     (if old AND PMP_CFG_L \<noteq> 0 then old
      else
        let cfg = ucast (drop_bit (i * 8) val) AND
                  (PMP_CFG_L OR PMP_CFG_A_MASK OR PMP_CFG_X OR PMP_CFG_W OR PMP_CFG_R)
        in if cfg AND (PMP_CFG_R OR PMP_CFG_W) = PMP_CFG_W then cfg AND NOT PMP_CFG_W else cfg)"

definition set_pmpcfg ::
  "nat \<Rightarrow> target_ulong \<Rightarrow> 'a RISCVCPUState_scheme \<Rightarrow> bool \<times> 'a RISCVCPUState_scheme" where
  "set_pmpcfg first_entry val s =
     fold (\<lambda>i (changed, s).
         let cfg = new_pmpcfg (pmpcfg s (first_entry + i)) val i in
         if pmpcfg s (first_entry + i) = cfg then (changed, s)
         else (True, s\<lparr>pmpcfg := (pmpcfg s)(first_entry + i := cfg)\<rparr>))
       [0..<8] (False, s)"

definition set_pmpaddr ::
  "nat \<Rightarrow> target_ulong \<Rightarrow> 'a RISCVCPUState_scheme \<Rightarrow> bool \<times> 'a RISCVCPUState_scheme" where
  "set_pmpaddr entry val s =
     (if pmpcfg s entry AND PMP_CFG_L \<noteq> 0 then (False, s)
      else if entry + 1 < PMP_ENTRY_COUNT \<and>
              pmpcfg s (entry + 1) AND (PMP_CFG_L OR PMP_CFG_A_MASK) = PMP_CFG_L OR PMP_CFG_A_TOR
      then (False, s)
      else
        let val = val AND PMP_ADDR_MASK in
        if pmpaddr s entry = val then (False, s)
        else (True, s\<lparr>pmpaddr := (pmpaddr s)(entry := val)\<rparr>))"

section \<open>Supervisor timer\<close>

definition riscv_cpu_update_time ::
  "u64 \<Rightarrow> 'a RISCVCPUState_scheme \<Rightarrow> 'a RISCVCPUState_scheme" where
  "riscv_cpu_update_time t s =
     (if menvcfg s AND MENVCFG_STCE = 0 then s
      else if t \<ge> stimecmp s then
        let s = s\<lparr>mip := mip s OR MIP_STIP\<rparr>
        in if power_down_flag s \<and> mip s AND mie s \<noteq> 0 then s\<lparr>power_down_flag := False\<rparr> else s
      else s\<lparr>mip := mip s AND NOT MIP_STIP\<rparr>)"

definition riscv_cpu_get_stimecmp :: "'a RISCVCPUState_scheme \<Rightarrow> u64" where
  "riscv_cpu_get_stimecmp s = (if menvcfg s AND MENVCFG_STCE = 0 then - 1 else stimecmp s)"

text \<open>\<open>get_time\<close> of \<open>bridge.c\<close>, the installed time source.\<close>

definition get_time :: "('p, 'x) TinyemuCore_scheme \<Rightarrow> u64" where
  "get_time s = guest_timer_ticks s"

definition update_stimecmp_irq :: "('p, 'x) TinyemuCore_scheme \<Rightarrow> ('p, 'x) TinyemuCore_scheme" where
  "update_stimecmp_irq s = (if get_time_set s then riscv_cpu_update_time (get_time s) s else s)"

section \<open>Reading\<close>

definition csr_access_ok :: "'a RISCVCPUState_scheme \<Rightarrow> u32 \<Rightarrow> bool \<Rightarrow> bool" where
  "csr_access_ok s csr will_write \<longleftrightarrow>
     \<not> (csr AND 0xc00 = 0xc00 \<and> will_write) \<and>
     \<not> ucast (priv s) < drop_bit 8 csr AND 3 \<and>
     \<not> (csr = 0x180 \<and> priv s = PRV_S \<and> mstatus s AND MSTATUS_TVM \<noteq> 0) \<and>
     \<not> (csr = 0x14d \<and> priv s \<noteq> PRV_M \<and>
        (menvcfg s AND MENVCFG_STCE = 0 \<or> mcounteren s AND push_bit 1 1 = 0))"

definition csr_read_user :: "('p, 'x) TinyemuCore_scheme \<Rightarrow> u32 \<Rightarrow> target_ulong option" where
  "csr_read_user s csr =
     (if csr = 0x001 then if fs s = 0 then None else Some (ucast (fflags s))
      else if csr = 0x002 then if fs s = 0 then None else Some (ucast (frm s))
      else if csr = 0x003 then
        if fs s = 0 then None else Some (ucast (fflags s OR push_bit 5 (ucast (frm s))))
      else if csr = 0xc00 then
        if \<not> counter_access_enabled s (csr AND 0x1f) then None else Some (cycle_counter s)
      else if csr = 0xc01 then
        if \<not> counter_access_enabled s (csr AND 0x1f) \<or> \<not> get_time_set s then None
        else Some (get_time s)
      else if csr = 0xc02 then
        if \<not> counter_access_enabled s (csr AND 0x1f) then None else Some (minstret_counter s)
      else None)"

definition csr_read_super :: "'a RISCVCPUState_scheme \<Rightarrow> u32 \<Rightarrow> target_ulong option" where
  "csr_read_super s csr =
     (if csr = 0x100 then Some (get_mstatus s SSTATUS_MASK)
      else if csr = 0x104 then Some (ucast (mie s AND mideleg s))
      else if csr = 0x105 then Some (stvec s)
      else if csr = 0x106 then Some (ucast (scounteren s))
      else if csr = 0x10a then Some (senvcfg s)
      else if csr = 0x140 then Some (sscratch s)
      else if csr = 0x141 then Some (sepc s)
      else if csr = 0x142 then Some (scause s)
      else if csr = 0x143 then Some (stval s)
      else if csr = 0x144 then Some (ucast (mip s AND mideleg s))
      else if csr = 0x14d then Some (stimecmp s)
      else if csr = 0x180 then Some (satp s)
      else None)"

definition csr_read_machine :: "'a RISCVCPUState_scheme \<Rightarrow> u32 \<Rightarrow> target_ulong option" where
  "csr_read_machine s csr =
     (if csr = 0x300 then Some (get_mstatus s (- 1))
      else if csr = 0x301 then Some (ucast (misa s) OR push_bit 62 2)
      else if csr = 0x302 then Some (ucast (medeleg s))
      else if csr = 0x303 then Some (ucast (mideleg s))
      else if csr = 0x304 then Some (ucast (mie s))
      else if csr = 0x305 then Some (mtvec s)
      else if csr = 0x306 then Some (ucast (mcounteren s))
      else if csr = 0x30a then Some (menvcfg s)
      else if csr = 0x320 then Some 0
      else if csr = 0x3a0 then Some (get_pmpcfg s 0)
      else if csr = 0x3a2 then Some (get_pmpcfg s 8)
      else if csr = 0x340 then Some (mscratch s)
      else if csr = 0x341 then Some (mepc s)
      else if csr = 0x342 then Some (mcause s)
      else if csr = 0x343 then Some (mtval s)
      else if csr = 0x344 then Some (ucast (mip s))
      else if csr = 0xb00 then Some (cycle_counter s)
      else if csr = 0xb02 then Some (minstret_counter s)
      else if csr = 0xf11 \<or> csr = 0xf12 \<or> csr = 0xf13 \<or> csr = 0xf15 then Some 0
      else if csr = 0xf14 then Some (mhartid s)
      else if csr \<ge> 0x3b0 \<and> csr < 0x3b0 + of_nat PMP_ENTRY_COUNT
      then Some (pmpaddr s (unat (csr - 0x3b0)))
      else None)"

definition csr_read :: "('p, 'x) TinyemuCore_scheme \<Rightarrow> u32 \<Rightarrow> bool \<Rightarrow> target_ulong option" where
  "csr_read s csr will_write =
     (if \<not> csr_access_ok s csr will_write then None
      else
        case csr_read_user s csr of
          Some v \<Rightarrow> Some v
        | None \<Rightarrow> (case csr_read_super s csr of Some v \<Rightarrow> Some v | None \<Rightarrow> csr_read_machine s csr))"

section \<open>Writing\<close>

datatype CSRWriteResult =
  CSR_WRITE_ERROR | CSR_WRITE_OK | CSR_WRITE_FLUSH_TLB | CSR_WRITE_MINSTRET | CSR_WRITE_INTERRUPT

definition set_frm :: "u32 \<Rightarrow> 'a RISCVCPUState_scheme \<Rightarrow> 'a RISCVCPUState_scheme" where
  "set_frm val s = s\<lparr>frm := ucast (val AND 7)\<rparr>"

definition get_insn_rm :: "'a RISCVCPUState_scheme \<Rightarrow> u32 \<Rightarrow> u32 option" where
  "get_insn_rm s rm =
     (let rm = (if rm = 7 then ucast (frm s) else rm) in if rm \<ge> 5 then None else Some rm)"

text \<open>The value \<open>menvcfg\<close> and \<open>senvcfg\<close> keep: a reserved CBIE encoding is dropped.\<close>

definition legal_envcfg :: "target_ulong \<Rightarrow> target_ulong \<Rightarrow> target_ulong" where
  "legal_envcfg msk val =
     (let val = val AND msk
      in if val AND ENVCFG_CBIE = push_bit 4 2 then val AND NOT ENVCFG_CBIE else val)"

definition csr_write_satp ::
  "target_ulong \<Rightarrow> 'a RISCVCPUState_scheme \<Rightarrow> CSRWriteResult \<times> 'a RISCVCPUState_scheme" where
  "csr_write_satp val s =
     (let new_mode = drop_bit SATP_MODE_SHIFT val AND SATP_MODE_MASK;
          mode = (if new_mode = SATP_MODE_BARE \<or> new_mode = SATP_MODE_SV39 then new_mode
                  else drop_bit SATP_MODE_SHIFT (satp s))
      in (CSR_WRITE_FLUSH_TLB,
          tlb_flush_all (s\<lparr>satp := (val AND SATP_PPN_MASK) OR push_bit SATP_MODE_SHIFT mode\<rparr>)))"

definition csr_write_menvcfg ::
  "target_ulong \<Rightarrow> ('p, 'x) TinyemuCore_scheme \<Rightarrow> CSRWriteResult \<times> ('p, 'x) TinyemuCore_scheme" where
  "csr_write_menvcfg val s =
     (let old = menvcfg s;
          s = s\<lparr>menvcfg := legal_envcfg MENVCFG_MASK val\<rparr>
      in if menvcfg s = old then (CSR_WRITE_OK, s)
         else
           let s = (if menvcfg s AND MENVCFG_STCE \<noteq> 0 then update_stimecmp_irq s
                    else s\<lparr>mip := mip s AND NOT MIP_STIP\<rparr>);
               s = (if (menvcfg s XOR old) AND MENVCFG_STCE \<noteq> 0
                    then s\<lparr>host_service_requested := True, timer_reprogrammed := True\<rparr> else s)
           in if (menvcfg s XOR old) AND (MENVCFG_ADUE OR MENVCFG_PBMTE) \<noteq> 0
              then (CSR_WRITE_FLUSH_TLB, tlb_flush_all s)
              else (CSR_WRITE_INTERRUPT, s))"

definition flush_if :: "bool \<times> 'a RISCVCPUState_scheme \<Rightarrow> CSRWriteResult \<times> 'a RISCVCPUState_scheme" where
  "flush_if r = (case r of (changed, s) \<Rightarrow>
     if changed then (CSR_WRITE_FLUSH_TLB, tlb_flush_all s) else (CSR_WRITE_OK, s))"

definition csr_write_super ::
  "u32 \<Rightarrow> target_ulong \<Rightarrow> ('p, 'x) TinyemuCore_scheme \<Rightarrow>
   (CSRWriteResult \<times> ('p, 'x) TinyemuCore_scheme) option" where
  "csr_write_super csr val s =
     (if csr = 0x001 then Some (CSR_WRITE_OK, s\<lparr>fflags := ucast (val AND 0x1f), fs := 3\<rparr>)
      else if csr = 0x002 then Some (CSR_WRITE_OK, (set_frm (ucast (val AND 7)) s)\<lparr>fs := 3\<rparr>)
      else if csr = 0x003 then
        Some (CSR_WRITE_OK,
          (set_frm (ucast (drop_bit 5 val AND 7)) s)\<lparr>fflags := ucast (val AND 0x1f), fs := 3\<rparr>)
      else if csr = 0x100 then
        let old = mstatus s;
            s = set_mstatus ((mstatus s AND NOT SSTATUS_MASK) OR (val AND SSTATUS_MASK)) s
        in Some (if old AND MSTATUS_SIE = 0 \<and> mstatus s AND MSTATUS_SIE \<noteq> 0 \<and>
                    mip s AND mie s AND mideleg s \<noteq> 0
                 then CSR_WRITE_INTERRUPT else CSR_WRITE_OK, s)
      else if csr = 0x104 then
        Some (CSR_WRITE_OK, s\<lparr>mie := (mie s AND NOT (mideleg s)) OR (ucast val AND mideleg s)\<rparr>)
      else if csr = 0x105 then Some (CSR_WRITE_OK, s\<lparr>stvec := val AND NOT 3\<rparr>)
      else if csr = 0x106 then Some (CSR_WRITE_OK, s\<lparr>scounteren := ucast (val AND COUNTEREN_MASK)\<rparr>)
      else if csr = 0x10a then Some (CSR_WRITE_OK, s\<lparr>senvcfg := legal_envcfg ENVCFG_CBO_MASK val\<rparr>)
      else if csr = 0x140 then Some (CSR_WRITE_OK, s\<lparr>sscratch := val\<rparr>)
      else if csr = 0x141 then Some (CSR_WRITE_OK, s\<lparr>sepc := val AND NOT 1\<rparr>)
      else if csr = 0x142 then Some (CSR_WRITE_OK, s\<lparr>scause := val\<rparr>)
      else if csr = 0x143 then Some (CSR_WRITE_OK, s\<lparr>stval := val\<rparr>)
      else if csr = 0x144 then
        let msk = (if menvcfg s AND MENVCFG_STCE \<noteq> 0 then mideleg s AND NOT MIP_STIP else mideleg s)
        in Some (CSR_WRITE_OK, s\<lparr>mip := (mip s AND NOT msk) OR (ucast val AND msk)\<rparr>)
      else if csr = 0x14d then
        if priv s \<noteq> PRV_M \<and> (menvcfg s AND MENVCFG_STCE = 0 \<or> mcounteren s AND push_bit 1 1 = 0)
        then Some (CSR_WRITE_ERROR, s)
        else Some (CSR_WRITE_INTERRUPT, (update_stimecmp_irq (s\<lparr>stimecmp := val\<rparr>))
               \<lparr>host_service_requested := True, timer_reprogrammed := True\<rparr>)
      else if csr = 0x180 then Some (csr_write_satp val s)
      else None)"

definition csr_write_machine ::
  "u32 \<Rightarrow> target_ulong \<Rightarrow> ('p, 'x) TinyemuCore_scheme \<Rightarrow>
   CSRWriteResult \<times> ('p, 'x) TinyemuCore_scheme" where
  "csr_write_machine csr val s =
     (if csr = 0x300 then
        let old = mstatus s; s = set_mstatus val s
        in (if old AND MSTATUS_MIE = 0 \<and> mstatus s AND MSTATUS_MIE \<noteq> 0 \<and>
               mip s AND mie s AND NOT (mideleg s) \<noteq> 0
            then CSR_WRITE_INTERRUPT else CSR_WRITE_OK, s)
      else if csr = 0x301 then (CSR_WRITE_OK, s)
      else if csr = 0x302 then
        let msk = push_bit (nat CAUSE_STORE_PAGE_FAULT + 1) 1 - 1
        in (CSR_WRITE_OK, s\<lparr>medeleg := (medeleg s AND NOT msk) OR (ucast val AND msk)\<rparr>)
      else if csr = 0x303 then
        let msk = MIP_SSIP OR MIP_STIP OR MIP_SEIP
        in (CSR_WRITE_OK, s\<lparr>mideleg := (mideleg s AND NOT msk) OR (ucast val AND msk)\<rparr>)
      else if csr = 0x304 then
        let msk = MIP_MSIP OR MIP_MTIP OR MIP_SSIP OR MIP_STIP OR MIP_SEIP
        in (CSR_WRITE_OK, s\<lparr>mie := (mie s AND NOT msk) OR (ucast val AND msk)\<rparr>)
      else if csr = 0x305 then (CSR_WRITE_OK, s\<lparr>mtvec := val AND NOT 3\<rparr>)
      else if csr = 0x306 then (CSR_WRITE_OK, s\<lparr>mcounteren := ucast (val AND COUNTEREN_MASK)\<rparr>)
      else if csr = 0x30a then csr_write_menvcfg val s
      else if csr = 0x320 then (CSR_WRITE_OK, s)
      else if csr = 0x3a0 then flush_if (set_pmpcfg 0 val s)
      else if csr = 0x3a2 then flush_if (set_pmpcfg 8 val s)
      else if csr = 0xb00 then (CSR_WRITE_OK, s\<lparr>cycle_counter := val\<rparr>)
      else if csr = 0xb02 then (CSR_WRITE_MINSTRET, s\<lparr>minstret_counter := val\<rparr>)
      else if csr = 0x340 then (CSR_WRITE_OK, s\<lparr>mscratch := val\<rparr>)
      else if csr = 0x341 then (CSR_WRITE_OK, s\<lparr>mepc := val AND NOT 1\<rparr>)
      else if csr = 0x342 then (CSR_WRITE_OK, s\<lparr>mcause := val\<rparr>)
      else if csr = 0x343 then (CSR_WRITE_OK, s\<lparr>mtval := val\<rparr>)
      else if csr = 0x344 then
        let msk = MIP_SSIP OR MIP_STIP;
            msk = (if menvcfg s AND MENVCFG_STCE \<noteq> 0 then msk AND NOT MIP_STIP else msk)
        in (CSR_WRITE_OK, s\<lparr>mip := (mip s AND NOT msk) OR (ucast val AND msk)\<rparr>)
      else if csr \<ge> 0x3b0 \<and> csr < 0x3b0 + of_nat PMP_ENTRY_COUNT
      then flush_if (set_pmpaddr (unat (csr - 0x3b0)) val s)
      else (CSR_WRITE_ERROR, s))"

definition csr_write ::
  "u32 \<Rightarrow> target_ulong \<Rightarrow> ('p, 'x) TinyemuCore_scheme \<Rightarrow>
   CSRWriteResult \<times> ('p, 'x) TinyemuCore_scheme" where
  "csr_write csr val s =
     (if csr = 0x180 \<and> priv s = PRV_S \<and> mstatus s AND MSTATUS_TVM \<noteq> 0 then (CSR_WRITE_ERROR, s)
      else case csr_write_super csr val s of
             Some r \<Rightarrow> r
           | None \<Rightarrow> csr_write_machine csr val s)"

end
