(* ===== verification/Cutils.thy ===== *)
theory Cutils
  imports Prelude
begin

text \<open>
  \<open>cutils.h\<close>: integer helpers, byte-order accessors and \<open>ctz32\<close>, with the bytes the accessors
  write, their round trips and the specification of \<open>ctz32\<close>. A pointer is an address of the host heap.
\<close>

definition max_int :: "int \<Rightarrow> int \<Rightarrow> int" where
  "max_int a b = (if a > b then a else b)"

definition min_int :: "int \<Rightarrow> int \<Rightarrow> int" where
  "min_int a b = (if a < b then a else b)"

definition get_le16 :: "heap \<Rightarrow> u64 \<Rightarrow> u16" where
  "get_le16 h p = ucast (h p) OR push_bit 8 (ucast (h (p + 1)))"

definition get_le32 :: "heap \<Rightarrow> u64 \<Rightarrow> u32" where
  "get_le32 h p = ucast (h p) OR push_bit 8 (ucast (h (p + 1))) OR
     push_bit 16 (ucast (h (p + 2))) OR push_bit 24 (ucast (h (p + 3)))"

definition get_le64 :: "heap \<Rightarrow> u64 \<Rightarrow> u64" where
  "get_le64 h p = ucast (get_le32 h p) OR push_bit 32 (ucast (get_le32 h (p + 4)))"

definition put_le16 :: "u64 \<Rightarrow> u16 \<Rightarrow> heap \<Rightarrow> heap" where
  "put_le16 p v h = h(p := ucast v, p + 1 := ucast (drop_bit 8 v))"

definition put_le32 :: "u64 \<Rightarrow> u32 \<Rightarrow> heap \<Rightarrow> heap" where
  "put_le32 p v h = h(p := ucast v, p + 1 := ucast (drop_bit 8 v),
     p + 2 := ucast (drop_bit 16 v), p + 3 := ucast (drop_bit 24 v))"

definition put_le64 :: "u64 \<Rightarrow> u64 \<Rightarrow> heap \<Rightarrow> heap" where
  "put_le64 p v h = put_le32 (p + 4) (ucast (drop_bit 32 v)) (put_le32 p (ucast v) h)"

definition get_be32 :: "heap \<Rightarrow> u64 \<Rightarrow> u32" where
  "get_be32 h d = push_bit 24 (ucast (h d)) OR push_bit 16 (ucast (h (d + 1))) OR
     push_bit 8 (ucast (h (d + 2))) OR ucast (h (d + 3))"

definition put_be32 :: "u64 \<Rightarrow> u32 \<Rightarrow> heap \<Rightarrow> heap" where
  "put_be32 d v h = h(d := ucast (drop_bit 24 v), d + 1 := ucast (drop_bit 16 v),
     d + 2 := ucast (drop_bit 8 v), d + 3 := ucast (drop_bit 0 v))"

definition put_be64 :: "u64 \<Rightarrow> u64 \<Rightarrow> heap \<Rightarrow> heap" where
  "put_be64 d v h = put_be32 (d + 4) (ucast v) (put_be32 d (ucast (drop_bit 32 v)) h)"

text \<open>\<open>bswap_32\<close> of the C library; the host is little-endian.\<close>

definition bswap_32 :: "u32 \<Rightarrow> u32" where
  "bswap_32 v = push_bit 24 (v AND 0xff) OR push_bit 8 (v AND 0xff00) OR
     (drop_bit 8 v AND 0xff00) OR (drop_bit 24 v AND 0xff)"

definition cpu_to_be32 :: "u32 \<Rightarrow> u32" where
  "cpu_to_be32 v = bswap_32 v"

definition ctz32 :: "u32 \<Rightarrow> nat" where
  "ctz32 a = (if a = 0 then 32 else ctz_from 32 0 a)"

section \<open>Lemmas\<close>

lemma word_neq_add_small:
  "p \<noteq> p + 1" "p \<noteq> p + 2" "p \<noteq> p + 3" "p + 1 \<noteq> p" "p + 2 \<noteq> p" "p + 3 \<noteq> p"
  for p :: u64
  by simp_all

text \<open>Reading the bytes of a word back in the order of their weights gives the word.\<close>

lemma bytes32_join:
  "(ucast (ucast v :: u8) OR push_bit 8 (ucast (ucast (drop_bit 8 v) :: u8)) OR
    push_bit 16 (ucast (ucast (drop_bit 16 v) :: u8)) OR
    push_bit 24 (ucast (ucast (drop_bit 24 v) :: u8)) :: u32) = v"
proof (rule bit_word_eqI)
  fix n assume "n < LENGTH(32)"
  then consider "n < 8" | "8 \<le> n" "n < 16" | "16 \<le> n" "n < 24" | "24 \<le> n" "n < 32"
    by fastforce
  then show "bit (ucast (ucast v :: u8) OR push_bit 8 (ucast (ucast (drop_bit 8 v) :: u8)) OR
    push_bit 16 (ucast (ucast (drop_bit 16 v) :: u8)) OR
    push_bit 24 (ucast (ucast (drop_bit 24 v) :: u8)) :: u32) n = bit v n"
    by cases (simp_all add: bit_simps less_diff_conv2)
qed

lemma get_put_le32: "get_le32 (put_le32 p v h) p = v"
  using bytes32_join [of v] by (simp add: get_le32_def put_le32_def)

lemma get_put_be32: "get_be32 (put_be32 p v h) p = v"
  using bytes32_join [of v] by (simp add: get_be32_def put_be32_def or.left_commute or.commute)

lemma get_put_le16: "get_le16 (put_le16 p v h) p = v"
proof (rule bit_word_eqI)
  fix n assume "n < LENGTH(16)"
  then consider "n < 8" | "8 \<le> n" "n < 16" by fastforce
  then show "bit (get_le16 (put_le16 p v h) p) n = bit v n"
    by cases (simp_all add: get_le16_def put_le16_def bit_simps less_diff_conv2)
qed

lemma get_le32_put_other: "get_le32 (put_le32 (p + 4) v h) p = get_le32 h p"
  by (simp add: get_le32_def put_le32_def add.assoc)

lemma get_put_le64: "get_le64 (put_le64 p v h) p = v"
proof (rule bit_word_eqI)
  fix n assume "n < LENGTH(64)"
  then consider "n < 32" | "32 \<le> n" "n < 64" by fastforce
  then show "bit (get_le64 (put_le64 p v h) p) n = bit v n"
    by cases (simp_all add: get_le64_def put_le64_def get_le32_put_other get_put_le32 bit_simps less_diff_conv2)
qed

text \<open>
  The bytes of a word, the least significant first. The accessors write these bytes, or their
  reverse, at consecutive addresses, and no others.
\<close>

definition le_bytes :: "nat \<Rightarrow> 'a::len word \<Rightarrow> u8 list" where
  "le_bytes n w = map (\<lambda>k. ucast (drop_bit (8 * k) w)) [0..<n]"

lemma upt_bytes:
  "[0..<2] = [0, 1 :: nat]" "[0..<4] = [0, 1, 2, 3 :: nat]" "[0..<8] = [0, 1, 2, 3, 4, 5, 6, 7 :: nat]"
  by (simp_all add: upt_rec)

lemma byte_of_half:
  fixes v :: u64
  shows "k + 8 \<le> 32 \<Longrightarrow> (ucast (drop_bit k (ucast v :: u32)) :: u8) = ucast (drop_bit k v)"
    and "k + 8 \<le> 32 \<Longrightarrow> (ucast (drop_bit k (ucast (drop_bit 32 v) :: u32)) :: u8) = ucast (drop_bit (k + 32) v)"
  by (rule bit_word_eqI; auto simp: bit_simps ac_simps)+

lemmas bytes_of_half = byte_of_half [of 0, simplified] byte_of_half [of 8, simplified]
  byte_of_half [of 16, simplified] byte_of_half [of 24, simplified]

lemma put_le_bytes:
  "put_le16 p u h = store_bytes (le_bytes 2 u) p h"
  "put_le32 p v h = store_bytes (le_bytes 4 v) p h"
  "put_le64 p w h = store_bytes (le_bytes 8 w) p h"
  by (simp_all add: put_le16_def put_le32_def put_le64_def le_bytes_def upt_bytes bytes_of_half add.assoc)

lemma put_be_bytes:
  "put_be32 p v h = store_bytes (rev (le_bytes 4 v)) p h"
  "put_be64 p w h = store_bytes (rev (le_bytes 8 w)) p h"
  by (simp_all add: put_be32_def put_be64_def le_bytes_def upt_bytes bytes_of_half add.assoc)

lemma get_le_load:
  "get_le16 h p = load_le 2 h p" "get_le32 h p = load_le 4 h p"
  by (simp_all add: get_le16_def get_le32_def eval_nat_numeral push_bit_or or.assoc add.assoc)

text \<open>Swapping then storing in host order is storing in big-endian order.\<close>

lemma cpu_to_be32_bytes: "put_le32 p (cpu_to_be32 v) h = put_be32 p v h"
proof -
  have m: "(0xff :: u32) = mask 8" "(0xff00 :: u32) = push_bit 8 (mask 8)"
    by (simp_all add: mask_eq_exp_minus_1)
  have "ucast (cpu_to_be32 v) = (ucast (drop_bit 24 v) :: u8)"
    "ucast (drop_bit 8 (cpu_to_be32 v)) = (ucast (drop_bit 16 v) :: u8)"
    "ucast (drop_bit 16 (cpu_to_be32 v)) = (ucast (drop_bit 8 v) :: u8)"
    "ucast (drop_bit 24 (cpu_to_be32 v)) = (ucast v :: u8)"
    unfolding cpu_to_be32_def bswap_32_def m
    by (rule bit_word_eqI; auto simp: bit_simps)+
  then show ?thesis by (simp add: put_le32_def put_be32_def)
qed

lemma ctz32_zero: "ctz32 0 = 32"
  by (simp add: ctz32_def)

lemma ctz32_nonzero:
  assumes "a \<noteq> 0"
  shows "ctz32 a < 32" "bit a (ctz32 a)" "\<forall>j < ctz32 a. \<not> bit a j"
proof -
  have c: "ctz32 a = ctz_from 32 0 a" using assms by (simp add: ctz32_def)
  note spec = ctz_from_spec [of 0 32 a]
  obtain k where k: "bit a k" using assms by (auto simp: bit_eq_iff)
  then have "k < 32" using bit_imp_le_length [of a k] by simp
  then show lt: "ctz32 a < 32" unfolding c using spec k
    by (metis add_0 le_0_eq le_neq_implies_less nat_le_linear le0)
  show "bit a (ctz32 a)" "\<forall>j < ctz32 a. \<not> bit a j" using spec lt unfolding c by auto
qed

end
