(* ===== verification/Trap.thy ===== *)
theory Trap
  imports Csr Cutils
begin

text \<open>
  Privilege changes, from \<open>riscv_cpu.c\<close>: trap entry (\<open>raise_exception2\<close>), trap return
  (\<open>handle_sret\<close>, \<open>handle_mret\<close>) and interrupt selection.
\<close>

section \<open>Operations\<close>

definition set_priv :: "u8 \<Rightarrow> 'a RISCVCPUState_scheme \<Rightarrow> 'a RISCVCPUState_scheme" where
  "set_priv p s = (if priv s \<noteq> p then (tlb_flush_all s)\<lparr>priv := p\<rparr> else s)"

definition delegated :: "'a RISCVCPUState_scheme \<Rightarrow> u32 \<Rightarrow> bool" where
  "delegated s cause \<longleftrightarrow>
     (if priv s \<le> PRV_S then
        if cause AND CAUSE_INTERRUPT \<noteq> 0 then bit (mideleg s) (unat (cause AND 63))
        else bit (medeleg s) (unat cause)
      else False)"

definition cause_long :: "u32 \<Rightarrow> target_ulong" where
  "cause_long cause =
     (let causel = ucast (cause AND 0x7fffffff)
      in if cause AND CAUSE_INTERRUPT \<noteq> 0 then causel OR push_bit 63 1 else causel)"

definition raise_exception2 ::
  "u32 \<Rightarrow> target_ulong \<Rightarrow> 'a RISCVCPUState_scheme \<Rightarrow> 'a RISCVCPUState_scheme" where
  "raise_exception2 cause tval s =
     (if delegated s cause then
        let s = s\<lparr>scause := cause_long cause, sepc := pc s, stval := tval\<rparr>;
            s = s\<lparr>mstatus := (mstatus s AND NOT MSTATUS_SPIE) OR
                   push_bit MSTATUS_SPIE_SHIFT (drop_bit (unat (priv s)) (mstatus s) AND 1)\<rparr>;
            s = s\<lparr>mstatus := (mstatus s AND NOT MSTATUS_SPP) OR
                   push_bit MSTATUS_SPP_SHIFT (ucast (priv s))\<rparr>;
            s = s\<lparr>mstatus := mstatus s AND NOT MSTATUS_SIE\<rparr>;
            s = set_priv PRV_S s
        in s\<lparr>pc := stvec s\<rparr>
      else
        let s = s\<lparr>mcause := cause_long cause, mepc := pc s, mtval := tval\<rparr>;
            s = s\<lparr>mstatus := (mstatus s AND NOT MSTATUS_MPIE) OR
                   push_bit MSTATUS_MPIE_SHIFT (drop_bit (unat (priv s)) (mstatus s) AND 1)\<rparr>;
            s = s\<lparr>mstatus := (mstatus s AND NOT MSTATUS_MPP) OR
                   push_bit MSTATUS_MPP_SHIFT (ucast (priv s))\<rparr>;
            s = s\<lparr>mstatus := mstatus s AND NOT MSTATUS_MIE\<rparr>;
            s = set_priv PRV_M s
        in s\<lparr>pc := mtvec s\<rparr>)"

definition raise_exception :: "u32 \<Rightarrow> 'a RISCVCPUState_scheme \<Rightarrow> 'a RISCVCPUState_scheme" where
  "raise_exception cause s = raise_exception2 cause 0 s"

definition handle_sret :: "'a RISCVCPUState_scheme \<Rightarrow> 'a RISCVCPUState_scheme" where
  "handle_sret s =
     (let spp = drop_bit MSTATUS_SPP_SHIFT (mstatus s) AND 1;
          spie = drop_bit MSTATUS_SPIE_SHIFT (mstatus s) AND 1;
          s = s\<lparr>mstatus := (mstatus s AND NOT MSTATUS_SIE) OR (if spie \<noteq> 0 then MSTATUS_SIE else 0)\<rparr>;
          s = s\<lparr>mstatus := mstatus s OR MSTATUS_SPIE\<rparr>;
          s = s\<lparr>mstatus := mstatus s AND NOT MSTATUS_SPP\<rparr>;
          s = s\<lparr>mstatus := mstatus s AND NOT MSTATUS_MPRV\<rparr>;
          s = set_priv (ucast spp) s
      in s\<lparr>pc := sepc s\<rparr>)"

definition handle_mret :: "'a RISCVCPUState_scheme \<Rightarrow> 'a RISCVCPUState_scheme" where
  "handle_mret s =
     (let mpp = drop_bit MSTATUS_MPP_SHIFT (mstatus s) AND 3;
          mpie = drop_bit MSTATUS_MPIE_SHIFT (mstatus s) AND 1;
          s = s\<lparr>mstatus := (mstatus s AND NOT MSTATUS_MIE) OR (if mpie \<noteq> 0 then MSTATUS_MIE else 0)\<rparr>;
          s = s\<lparr>mstatus := mstatus s OR MSTATUS_MPIE\<rparr>;
          s = s\<lparr>mstatus := mstatus s AND NOT MSTATUS_MPP\<rparr>;
          s = (if mpp < ucast PRV_M then s\<lparr>mstatus := mstatus s AND NOT MSTATUS_MPRV\<rparr> else s);
          s = set_priv (ucast mpp) s
      in s\<lparr>pc := mepc s\<rparr>)"

definition get_pending_irq_mask :: "'a RISCVCPUState_scheme \<Rightarrow> u32" where
  "get_pending_irq_mask s =
     (let pending_ints = mip s AND mie s in
      if pending_ints = 0 then 0
      else pending_ints AND
        (if priv s = PRV_M then if mstatus s AND MSTATUS_MIE \<noteq> 0 then NOT (mideleg s) else 0
         else if priv s = PRV_S then
           if mstatus s AND MSTATUS_SIE \<noteq> 0 then NOT (mideleg s) OR mideleg s else NOT (mideleg s)
         else - 1))"

text \<open>\<open>True\<close>: an interrupt was taken.\<close>

definition raise_interrupt :: "'a RISCVCPUState_scheme \<Rightarrow> bool \<times> 'a RISCVCPUState_scheme" where
  "raise_interrupt s =
     (let msk = get_pending_irq_mask s in
      if msk = 0 then (False, s)
      else (True, raise_exception (of_nat (ctz32 msk) OR CAUSE_INTERRUPT) s))"

end
