(* ===== verification/Decode.thy ===== *)
theory Decode
  imports Prelude
begin

text \<open>
  Instruction fields and immediates: \<open>sext\<close> and \<open>get_field1\<close> of \<open>riscv_cpu.c\<close>, and the immediate
  expressions of \<open>riscv_cpu_interp_x64\<close> (\<open>riscv_cpu_template.h\<close>), each written once for the cases
  that repeat it. \<open>int32_t imm\<close> is a \<open>32 word\<close>; adding it to a register sign-extends it (\<open>scast\<close>).
\<close>

section \<open>Fields\<close>

definition sext :: "u32 \<Rightarrow> nat \<Rightarrow> u32" where
  "sext val n = (let sign_mask = push_bit (n - 1) 1
                 in (val AND (sign_mask - 1)) - (val AND sign_mask))"

definition get_field1 :: "u32 \<Rightarrow> nat \<Rightarrow> nat \<Rightarrow> nat \<Rightarrow> u32" where
  "get_field1 val src_pos dst_pos dst_pos_max =
     (let msk = push_bit dst_pos (push_bit (dst_pos_max - dst_pos + 1) 1 - 1)
      in if dst_pos \<ge> src_pos then push_bit (dst_pos - src_pos) val AND msk
         else drop_bit (src_pos - dst_pos) val AND msk)"

definition f_opcode :: "u32 \<Rightarrow> u32" where "f_opcode insn = insn AND 0x7f"
definition f_rd :: "u32 \<Rightarrow> nat" where "f_rd insn = unat (drop_bit 7 insn AND 0x1f)"
definition f_rs1 :: "u32 \<Rightarrow> nat" where "f_rs1 insn = unat (drop_bit 15 insn AND 0x1f)"
definition f_rs2 :: "u32 \<Rightarrow> nat" where "f_rs2 insn = unat (drop_bit 20 insn AND 0x1f)"
definition f_rs3 :: "u32 \<Rightarrow> nat" where "f_rs3 insn = unat (drop_bit 27 insn)"
definition f_funct3 :: "u32 \<Rightarrow> u32" where "f_funct3 insn = drop_bit 12 insn AND 7"

text \<open>The three-bit register fields of compressed instructions name x8 to x15.\<close>

definition c_funct3 :: "u32 \<Rightarrow> u32" where "c_funct3 insn = drop_bit 13 insn AND 7"
definition c_reg_2 :: "u32 \<Rightarrow> nat" where "c_reg_2 insn = unat (drop_bit 2 insn AND 7 OR 8)"
definition c_reg_7 :: "u32 \<Rightarrow> nat" where "c_reg_7 insn = unat (drop_bit 7 insn AND 7 OR 8)"
definition c_rs2 :: "u32 \<Rightarrow> nat" where "c_rs2 insn = unat (drop_bit 2 insn AND 0x1f)"

section \<open>Immediates of 32-bit instructions\<close>

definition imm_i :: "u32 \<Rightarrow> u32" where "imm_i insn = signed_drop_bit 20 insn"

definition imm_s :: "u32 \<Rightarrow> u32" where
  "imm_s insn = sext (drop_bit 7 insn AND 0x1f OR drop_bit (25 - 5) insn AND 0xfe0) 12"

definition imm_b :: "u32 \<Rightarrow> u32" where
  "imm_b insn = sext (drop_bit (31 - 12) insn AND push_bit 12 1 OR
     drop_bit (25 - 5) insn AND 0x7e0 OR drop_bit (8 - 1) insn AND 0x1e OR
     push_bit (11 - 7) insn AND push_bit 11 1) 13"

definition imm_u :: "u32 \<Rightarrow> u32" where "imm_u insn = insn AND 0xfffff000"

definition imm_j :: "u32 \<Rightarrow> u32" where
  "imm_j insn = sext (drop_bit (31 - 20) insn AND push_bit 20 1 OR
     drop_bit (21 - 1) insn AND 0x7fe OR drop_bit (20 - 11) insn AND push_bit 11 1 OR
     insn AND 0xff000) 21"

section \<open>Immediates of compressed instructions\<close>

definition imm_c_addi4spn :: "u32 \<Rightarrow> u32" where
  "imm_c_addi4spn insn = get_field1 insn 11 4 5 OR get_field1 insn 7 6 9 OR
     get_field1 insn 6 2 2 OR get_field1 insn 5 3 3"

definition imm_c_ld :: "u32 \<Rightarrow> u32" where
  "imm_c_ld insn = get_field1 insn 10 3 5 OR get_field1 insn 5 6 7"

definition imm_c_lw :: "u32 \<Rightarrow> u32" where
  "imm_c_lw insn = get_field1 insn 10 3 5 OR get_field1 insn 6 2 2 OR get_field1 insn 5 6 6"

definition imm_c_lbu :: "u32 \<Rightarrow> u32" where
  "imm_c_lbu insn = get_field1 insn 6 0 0 OR get_field1 insn 5 1 1"

definition imm_c_shamt :: "u32 \<Rightarrow> u32" where
  "imm_c_shamt insn = get_field1 insn 12 5 5 OR get_field1 insn 2 0 4"

definition imm_c_addi :: "u32 \<Rightarrow> u32" where
  "imm_c_addi insn = sext (get_field1 insn 12 5 5 OR get_field1 insn 2 0 4) 6"

definition imm_c_addi16sp :: "u32 \<Rightarrow> u32" where
  "imm_c_addi16sp insn = sext (get_field1 insn 12 9 9 OR get_field1 insn 6 4 4 OR
     get_field1 insn 5 6 6 OR get_field1 insn 3 7 8 OR get_field1 insn 2 5 5) 10"

definition imm_c_lui :: "u32 \<Rightarrow> u32" where
  "imm_c_lui insn = sext (get_field1 insn 12 17 17 OR get_field1 insn 2 12 16) 18"

definition imm_c_j :: "u32 \<Rightarrow> u32" where
  "imm_c_j insn = sext (get_field1 insn 12 11 11 OR get_field1 insn 11 4 4 OR
     get_field1 insn 9 8 9 OR get_field1 insn 8 10 10 OR get_field1 insn 7 6 6 OR
     get_field1 insn 6 7 7 OR get_field1 insn 3 1 3 OR get_field1 insn 2 5 5) 12"

definition imm_c_b :: "u32 \<Rightarrow> u32" where
  "imm_c_b insn = sext (get_field1 insn 12 8 8 OR get_field1 insn 10 3 4 OR
     get_field1 insn 5 6 7 OR get_field1 insn 3 1 2 OR get_field1 insn 2 5 5) 9"

definition imm_c_slli :: "u32 \<Rightarrow> u32" where
  "imm_c_slli insn = get_field1 insn 12 5 5 OR (drop_bit 2 insn AND 0x1f)"

definition imm_c_ldsp :: "u32 \<Rightarrow> u32" where
  "imm_c_ldsp insn = get_field1 insn 12 5 5 OR ((drop_bit 2 insn AND 0x1f) AND push_bit 3 3) OR
     get_field1 insn 2 6 8"

definition imm_c_lwsp :: "u32 \<Rightarrow> u32" where
  "imm_c_lwsp insn = get_field1 insn 12 5 5 OR ((drop_bit 2 insn AND 0x1f) AND push_bit 2 7) OR
     get_field1 insn 2 6 7"

definition imm_c_sdsp :: "u32 \<Rightarrow> u32" where
  "imm_c_sdsp insn = get_field1 insn 10 3 5 OR get_field1 insn 7 6 8"

definition imm_c_swsp :: "u32 \<Rightarrow> u32" where
  "imm_c_swsp insn = get_field1 insn 9 2 5 OR get_field1 insn 7 6 7"

end
