(* ===== verification/Muldiv.thy ===== *)
theory Muldiv
  imports Prelude
begin

text \<open>
  The arithmetic helpers of \<open>riscv_cpu_template.h\<close>: the division and remainder functions of
  the M extension with the RISC-V results for division by zero and for the one signed overflow,
  and the upper half of a 64-bit product in the three variants the preprocessor chooses from
  (WASM limbs, \<open>__int128\<close>, portable halves).
\<close>

section \<open>Division\<close>

definition div32 :: "u32 \<Rightarrow> u32 \<Rightarrow> u32" where
  "div32 a b =
     (if b = 0 then - 1
      else if a = 0x80000000 \<and> b = - 1 then a
      else word_of_int (sint a sdiv sint b))"

definition divu32 :: "u32 \<Rightarrow> u32 \<Rightarrow> u32" where
  "divu32 a b = (if b = 0 then 0xffffffff else a div b)"

definition rem32 :: "u32 \<Rightarrow> u32 \<Rightarrow> u32" where
  "rem32 a b =
     (if b = 0 then a
      else if a = 0x80000000 \<and> b = - 1 then 0
      else word_of_int (sint a smod sint b))"

definition remu32 :: "u32 \<Rightarrow> u32 \<Rightarrow> u32" where
  "remu32 a b = (if b = 0 then a else a mod b)"

definition div64 :: "u64 \<Rightarrow> u64 \<Rightarrow> u64" where
  "div64 a b =
     (if b = 0 then - 1
      else if a = push_bit 63 1 \<and> b = - 1 then a
      else word_of_int (sint a sdiv sint b))"

definition divu64 :: "u64 \<Rightarrow> u64 \<Rightarrow> u64" where
  "divu64 a b = (if b = 0 then - 1 else a div b)"

definition rem64 :: "u64 \<Rightarrow> u64 \<Rightarrow> u64" where
  "rem64 a b =
     (if b = 0 then a
      else if a = push_bit 63 1 \<and> b = - 1 then 0
      else word_of_int (sint a smod sint b))"

definition remu64 :: "u64 \<Rightarrow> u64 \<Rightarrow> u64" where
  "remu64 a b = (if b = 0 then a else a mod b)"

section \<open>Upper halves of products\<close>

text \<open>The WASM variant: limb products that keep only the carries into the upper half.\<close>

definition mulhu64 :: "u64 \<Rightarrow> u64 \<Rightarrow> u64" where
  "mulhu64 a b =
     (let a0 = ucast (ucast a :: u32) :: u64; a1 = drop_bit 32 a;
          b0 = ucast (ucast b :: u32) :: u64; b1 = drop_bit 32 b;
          low = a0 * b0;
          middle = a1 * b0 + drop_bit 32 low;
          carry = drop_bit 32 middle;
          middle = a0 * b1 + ucast (ucast middle :: u32)
      in a1 * b1 + carry + drop_bit 32 middle)"

definition mulh64 :: "u64 \<Rightarrow> u64 \<Rightarrow> u64" where
  "mulh64 a b =
     (let high = mulhu64 a b;
          high = (if a <s 0 then high - b else high);
          high = (if b <s 0 then high - a else high)
      in high)"

definition mulhsu64 :: "u64 \<Rightarrow> u64 \<Rightarrow> u64" where
  "mulhsu64 a b =
     (let high = mulhu64 a b
      in if a <s 0 then high - b else high)"

text \<open>The \<open>__int128\<close> variant.\<close>

definition mulh64_int128 :: "u64 \<Rightarrow> u64 \<Rightarrow> u64" where
  "mulh64_int128 a b = ucast (signed_drop_bit 64 (scast a * scast b :: 128 word))"

definition mulhsu64_int128 :: "u64 \<Rightarrow> u64 \<Rightarrow> u64" where
  "mulhsu64_int128 a b = ucast (signed_drop_bit 64 (scast a * ucast b :: 128 word))"

definition mulhu64_int128 :: "u64 \<Rightarrow> u64 \<Rightarrow> u64" where
  "mulhu64_int128 a b = ucast (drop_bit 64 (ucast a * ucast b :: 128 word))"

text \<open>The portable variant on 32-bit halves.\<close>

definition mulhu64_halves :: "u64 \<Rightarrow> u64 \<Rightarrow> u64" where
  "mulhu64_halves a b =
     (let a0 = ucast a :: u32; a1 = ucast (drop_bit 32 a) :: u32;
          b0 = ucast b :: u32; b1 = ucast (drop_bit 32 b) :: u32;
          r00 = ucast a0 * ucast b0 :: u64;
          r01 = ucast a0 * ucast b1 :: u64;
          r10 = ucast a1 * ucast b0 :: u64;
          r11 = ucast a1 * ucast b1 :: u64;
          c = drop_bit 32 r00 + ucast (ucast r01 :: u32) + ucast (ucast r10 :: u32);
          c = drop_bit 32 c + drop_bit 32 r01 + drop_bit 32 r10 + ucast (ucast r11 :: u32);
          r2 = ucast c :: u32;
          r3 = ucast (drop_bit 32 c + drop_bit 32 r11) :: u32
      in push_bit 32 (ucast r3) OR ucast r2)"

definition mulh64_halves :: "u64 \<Rightarrow> u64 \<Rightarrow> u64" where
  "mulh64_halves a b =
     (let r1 = mulhu64_halves a b;
          r1 = (if a <s 0 then r1 - a else r1);
          r1 = (if b <s 0 then r1 - b else r1)
      in r1)"

definition mulhsu64_halves :: "u64 \<Rightarrow> u64 \<Rightarrow> u64" where
  "mulhsu64_halves a b =
     (let r1 = mulhu64_halves a b
      in if a <s 0 then r1 - a else r1)"

section \<open>The division contract\<close>

text \<open>
  What the M extension asks of a quotient and remainder pair, over a reading \<open>val\<close> of words as
  integers: the results for a zero divisor, the Euclidean identity in machine arithmetic, and a
  remainder smaller than the divisor with the sign of the dividend.
\<close>

locale division_unit =
  fixes val :: "'a::len word \<Rightarrow> int"
    and quot :: "'a word \<Rightarrow> 'a word \<Rightarrow> 'a word"
    and rema :: "'a word \<Rightarrow> 'a word \<Rightarrow> 'a word"
  assumes val_word: "word_of_int (val a) = a"
    and quot_zero: "quot a 0 = - 1"
    and rem_zero: "rema a 0 = a"
    and euclid: "b \<noteq> 0 \<Longrightarrow> quot a b * b + rema a b = a"
    and rem_bound: "b \<noteq> 0 \<Longrightarrow> \<bar>val (rema a b)\<bar> < \<bar>val b\<bar>"
    and rem_sign: "b \<noteq> 0 \<Longrightarrow> val (rema a b) = 0 \<or> sgn (val (rema a b)) = sgn (val a)"
begin

lemma euclid_total: "quot a b * b + rema a b = a"
  by (cases "b = 0") (simp_all add: rem_zero euclid)

lemma quot_rem_determines: "rema a b = a - quot a b * b"
  using euclid_total [of a b] by (metis add_diff_cancel_left')

lemma rem_exact: "b \<noteq> 0 \<Longrightarrow> rema a b = 0 \<Longrightarrow> quot a b * b = a"
  using euclid [of b a] by simp

lemma val_0: "val a = 0 \<Longrightarrow> a = 0"
  using val_word [of a] by simp

end


lemma abs_smod_less: "(b :: int) \<noteq> 0 \<Longrightarrow> \<bar>a smod b\<bar> < \<bar>b\<bar>"
  by (auto simp: smod_int_alt_def abs_mult sgn_if)

lemma smod_sign: "(a :: int) smod b = 0 \<or> sgn (a smod b) = sgn a"
proof -
  have "0 \<le> \<bar>a\<bar> mod \<bar>b\<bar>" by (cases "b = 0") simp_all
  then have "\<bar>a\<bar> mod \<bar>b\<bar> = 0 \<or> sgn (\<bar>a\<bar> mod \<bar>b\<bar>) = 1"
    by (metis order_le_less sgn_pos)
  then show ?thesis by (auto simp: smod_int_alt_def sgn_mult)
qed

lemma sint_word_of_int_bounded:
  "- (2 ^ (LENGTH('a) - 1)) \<le> k \<Longrightarrow> k < 2 ^ (LENGTH('a) - 1) \<Longrightarrow>
   sint (word_of_int k :: 'a::len word) = k"
  by (simp add: signed_of_int signed_take_bit_int_eq_self)

lemma sint_smod_word:
  fixes a b :: "'a::len word"
  assumes "sint b \<noteq> 0"
  shows "sint (word_of_int (sint a smod sint b) :: 'a word) = sint a smod sint b"
proof (rule sint_word_of_int_bounded)
  have "\<bar>sint a smod sint b\<bar> < \<bar>sint b\<bar>" by (rule abs_smod_less) (rule assms)
  moreover have "\<bar>sint b\<bar> \<le> 2 ^ (LENGTH('a) - 1)"
    using sint_greater_eq [of b] sint_less [of b] by (simp add: abs_le_iff)
  ultimately show "- (2 ^ (LENGTH('a) - 1)) \<le> sint a smod sint b"
    and "sint a smod sint b < 2 ^ (LENGTH('a) - 1)" by linarith+
qed

lemma sint_0_iff: "sint (b :: 'a::len word) = 0 \<longleftrightarrow> b = 0"
  by (metis of_int_0 signed_0 scast_eq scast_id)

lemma sdiv_smod_word:
  "word_of_int (sint a sdiv sint b) * b + word_of_int (sint a smod sint b) = (a :: 'a::len word)"
proof -
  have "word_of_int (sint a sdiv sint b * sint b + sint a smod sint b) = a"
    by (simp only: sdiv_mult_smod_eq) simp
  then show ?thesis by simp
qed

interpretation d32: division_unit "sint :: u32 \<Rightarrow> int" div32 rem32
proof
  fix a b :: u32
  show "word_of_int (sint a) = a" by simp
  show "div32 a 0 = - 1" by (simp add: div32_def)
  show "rem32 a 0 = a" by (simp add: rem32_def)
  assume b: "b \<noteq> 0"
  show "div32 a b * b + rem32 a b = a"
    using b by (auto simp: div32_def rem32_def sdiv_smod_word)
  show "\<bar>sint (rem32 a b)\<bar> < \<bar>sint b\<bar>"
    using b by (simp add: rem32_def sint_smod_word sint_0_iff abs_smod_less)
  show "sint (rem32 a b) = 0 \<or> sgn (sint (rem32 a b)) = sgn (sint a)"
    using b smod_sign [of "sint a" "sint b"] by (auto simp: rem32_def sint_smod_word sint_0_iff)
qed

interpretation d64: division_unit "sint :: u64 \<Rightarrow> int" div64 rem64
proof
  fix a b :: u64
  show "word_of_int (sint a) = a" by simp
  show "div64 a 0 = - 1" by (simp add: div64_def)
  show "rem64 a 0 = a" by (simp add: rem64_def)
  assume b: "b \<noteq> 0"
  show "div64 a b * b + rem64 a b = a"
    using b by (auto simp: div64_def rem64_def sdiv_smod_word)
  show "\<bar>sint (rem64 a b)\<bar> < \<bar>sint b\<bar>"
    using b by (simp add: rem64_def sint_smod_word sint_0_iff abs_smod_less)
  show "sint (rem64 a b) = 0 \<or> sgn (sint (rem64 a b)) = sgn (sint a)"
    using b smod_sign [of "sint a" "sint b"] by (auto simp: rem64_def sint_smod_word sint_0_iff)
qed

lemma word_div_mod: "(a :: 'a::len word) div b * b + a mod b = a"
  by (rule div_mult_mod_eq)

lemma uint_mod_bound: "(b :: 'a::len word) \<noteq> 0 \<Longrightarrow> \<bar>uint (a mod b)\<bar> < \<bar>uint b\<bar>"
  by (simp add: uint_mod_distrib word_neq_0_conv word_less_def)

lemma uint_mod_sign:
  "uint (a mod b) = 0 \<or> sgn (uint (a mod b)) = sgn (uint (a :: 'a::len word))"
proof (cases "a mod b = 0")
  case False
  then have "a \<noteq> 0" by auto
  with False show ?thesis by (simp add: word_neq_0_conv word_less_def)
qed simp

interpretation du32: division_unit "uint :: u32 \<Rightarrow> int" divu32 remu32
proof
  fix a b :: u32
  show "word_of_int (uint a) = a" by simp
  show "divu32 a 0 = - 1" by (simp add: divu32_def)
  show "remu32 a 0 = a" by (simp add: remu32_def)
  assume b: "b \<noteq> 0"
  show "divu32 a b * b + remu32 a b = a"
    using b by (simp add: divu32_def remu32_def word_div_mod)
  show "\<bar>uint (remu32 a b)\<bar> < \<bar>uint b\<bar>"
    using b by (simp only: remu32_def if_False uint_mod_bound simp_thms)
  show "uint (remu32 a b) = 0 \<or> sgn (uint (remu32 a b)) = sgn (uint a)"
    using b uint_mod_sign [of a b] by (simp add: remu32_def)
qed

interpretation du64: division_unit "uint :: u64 \<Rightarrow> int" divu64 remu64
proof
  fix a b :: u64
  show "word_of_int (uint a) = a" by simp
  show "divu64 a 0 = - 1" by (simp add: divu64_def)
  show "remu64 a 0 = a" by (simp add: remu64_def)
  assume b: "b \<noteq> 0"
  show "divu64 a b * b + remu64 a b = a"
    using b by (simp add: divu64_def remu64_def word_div_mod)
  show "\<bar>uint (remu64 a b)\<bar> < \<bar>uint b\<bar>"
    using b by (simp only: remu64_def if_False uint_mod_bound simp_thms)
  show "uint (remu64 a b) = 0 \<or> sgn (uint (remu64 a b)) = sgn (uint a)"
    using b uint_mod_sign [of a b] by (simp add: remu64_def)
qed


section \<open>Correctness of the product helpers\<close>

text \<open>Schoolbook multiplication in base \<open>K\<close>, with the carries the WASM variant keeps.\<close>

lemma high_half_limbs:
  fixes a0 a1 b0 b1 K :: nat
  assumes "0 < K" and a: "a0 < K" "a1 < K" and b: "b0 < K" "b1 < K"
  defines "M \<equiv> a1 * b0 + a0 * b0 div K"
  shows "a1 * b1 + M div K + (a0 * b1 + M mod K) div K = (a1 * K + a0) * (b1 * K + b0) div (K * K)"
proof -
  define q r n t where d: "q = M div K" "r = M mod K"
    "n = (a0 * b1 + r) div K" "t = (a0 * b1 + r) mod K"
  have M: "M = q * K + r" and N: "a0 * b1 + r = n * K + t" by (simp_all add: d)
  have L: "a0 * b0 = a0 * b0 div K * K + a0 * b0 mod K" by simp
  have "(a1 * K + a0) * (b1 * K + b0) = a1 * b1 * (K * K) + (a1 * b0 + a0 * b1) * K + a0 * b0"
    by (simp add: algebra_simps)
  also have "\<dots> = a1 * b1 * (K * K) + (M + a0 * b1) * K + a0 * b0 mod K"
    by (subst (2) L) (simp add: M_def algebra_simps)
  also have "\<dots> = a1 * b1 * (K * K) + (q * K + (a0 * b1 + r)) * K + a0 * b0 mod K"
    by (simp add: M)
  also have "\<dots> = (a1 * b1 + q + n) * (K * K) + (t * K + a0 * b0 mod K)"
    unfolding N by (simp add: algebra_simps)
  finally have eq: "(a1 * K + a0) * (b1 * K + b0)
      = (a1 * b1 + q + n) * (K * K) + (t * K + a0 * b0 mod K)" .
  have "t < K" "a0 * b0 mod K < K" using \<open>0 < K\<close> by (simp_all add: d)
  then have "t * K + a0 * b0 mod K < (K - 1) * K + K"
    by (intro add_le_less_mono mult_le_mono1) linarith+
  then have lt: "t * K + a0 * b0 mod K < K * K"
    using \<open>0 < K\<close> by (simp add: algebra_simps diff_mult_distrib)
  have "(a1 * K + a0) * (b1 * K + b0) div (K * K) = a1 * b1 + q + n"
    unfolding eq using lt \<open>0 < K\<close> by simp
  then show ?thesis by (simp add: d)
qed

lemma unat_mult_small: "unat a * unat b < 2 ^ LENGTH('a) \<Longrightarrow> unat (a * b :: 'a::len word) = unat a * unat b"
  by (simp add: unat_word_ariths)

lemma unat_add_small: "unat a + unat b < 2 ^ LENGTH('a) \<Longrightarrow> unat (a + b :: 'a::len word) = unat a + unat b"
  by (simp add: unat_word_ariths)

lemma unat_low32 [simp]: "unat (ucast (ucast (a :: u64) :: u32) :: u64) = unat a mod 2 ^ 32"
  by (simp add: unsigned_ucast_eq take_bit_eq_mod unat_mod_distrib)

lemma unat_high32 [simp]: "unat (drop_bit 32 (a :: u64)) = unat a div 2 ^ 32"
  by (simp add: drop_bit_eq_div unat_div_distrib)

lemma limb_bound: "x < 2 ^ 32 \<Longrightarrow> y < 2 ^ 32 \<Longrightarrow> z < 2 ^ 32 \<Longrightarrow> x * y + z < (2 ^ 64 :: nat)"
proof -
  assume "x < 2 ^ 32" "y < 2 ^ 32" "z < 2 ^ 32"
  then have "x \<le> 2 ^ 32 - 1" "y \<le> 2 ^ 32 - 1" "z \<le> 2 ^ 32 - 1" by simp_all
  then have "x * y + z \<le> (2 ^ 32 - 1) * (2 ^ 32 - 1) + (2 ^ 32 - 1)"
    by (intro add_mono mult_mono) simp_all
  then show ?thesis by simp
qed

lemma unat_lt64: "unat (a :: u64) < 2 ^ 64"
  using unsigned_less [of a, where 'a = nat] by simp

lemma unat_mulhu64: "unat (mulhu64 a b) = unat a * unat b div 2 ^ 64"
proof -
  define A0 A1 B0 B1 :: nat where d: "A0 = unat a mod 2 ^ 32" "A1 = unat a div 2 ^ 32"
    "B0 = unat b mod 2 ^ 32" "B1 = unat b div 2 ^ 32"
  have l: "A0 < 2 ^ 32" "A1 < 2 ^ 32" "B0 < 2 ^ 32" "B1 < 2 ^ 32"
    using unat_lt64 [of a] unat_lt64 [of b] by (simp_all add: d less_mult_imp_div_less)
  define M where "M = A1 * B0 + A0 * B0 div 2 ^ 32"
  have "A0 * B0 div 2 ^ 32 < 2 ^ 32"
    using limb_bound [OF l(1) l(3), of 0] by (simp add: less_mult_imp_div_less)
  then have M: "M < 2 ^ 64" unfolding M_def using l by (intro limb_bound) auto
  have N: "A0 * B1 + M mod 2 ^ 32 < 2 ^ 64" using l by (intro limb_bound) auto
  have H: "A1 * B1 + M div 2 ^ 32 + (A0 * B1 + M mod 2 ^ 32) div 2 ^ 32
      = unat a * unat b div (2 ^ 32 * 2 ^ 32)"
    using high_half_limbs [of "2 ^ 32" A0 A1 B0 B1] l
    by (simp add: M_def d)
  have Hlt: "unat a * unat b div 2 ^ 64 < 2 ^ 64"
  proof -
    have "unat a * unat b < 2 ^ 64 * 2 ^ 64"
      using unat_lt64 [of a] unat_lt64 [of b] by (intro mult_strict_mono) auto
    then show ?thesis by (simp add: less_mult_imp_div_less)
  qed
  let ?a0 = "ucast (ucast a :: u32) :: u64" and ?b0 = "ucast (ucast b :: u32) :: u64"
  have s1: "unat (?a0 * ?b0) = A0 * B0"
    using limb_bound [OF l(1) l(3), of 0] by (subst unat_mult_small) (simp_all add: d)
  have s2: "unat (drop_bit 32 a * ?b0) = A1 * B0"
    using limb_bound [OF l(2) l(3), of 0] by (subst unat_mult_small) (simp_all add: d)
  have s3: "unat (drop_bit 32 a * ?b0 + drop_bit 32 (?a0 * ?b0)) = M"
    using M by (subst unat_add_small) (simp_all add: s1 s2 M_def)
  have s4: "unat (?a0 * drop_bit 32 b) = A0 * B1"
    using limb_bound [OF l(1) l(4), of 0] by (subst unat_mult_small) (simp_all add: d)
  let ?m = "drop_bit 32 a * ?b0 + drop_bit 32 (?a0 * ?b0)"
  have s5: "unat (?a0 * drop_bit 32 b + ucast (ucast ?m :: u32)) = A0 * B1 + M mod 2 ^ 32"
    using N by (subst unat_add_small) (simp_all add: s3 s4)
  have s6: "unat (drop_bit 32 a * drop_bit 32 b) = A1 * B1"
    using limb_bound [OF l(2) l(4), of 0] by (subst unat_mult_small) (simp_all add: d)
  have s7: "unat (drop_bit 32 a * drop_bit 32 b + drop_bit 32 ?m) = A1 * B1 + M div 2 ^ 32"
    using Hlt H by (subst unat_add_small) (simp_all add: s3 s6)
  show ?thesis
    using Hlt H unfolding mulhu64_def Let_def
    by (subst unat_add_small) (simp_all add: s5 s7)
qed


lemma uint_mulhu64: "uint (mulhu64 a b) = uint a * uint b div 2 ^ 64"
proof -
  have "int (unat (mulhu64 a b)) = int (unat a) * int (unat b) div 2 ^ 64"
    by (simp only: unat_mulhu64 zdiv_int of_nat_mult of_nat_power of_nat_numeral)
  then show ?thesis by simp
qed

lemma mulhu64_eq: "mulhu64 a b = word_of_int (uint a * uint b div 2 ^ 64)"
  by (simp only: uint_mulhu64 [symmetric] word_of_int_uint)

lemma sless_0_iff: "(a :: 'a::len word) <s 0 \<longleftrightarrow> bit a (LENGTH('a) - 1)"
  by (simp add: word_sless_alt sint_uint signed_take_bit_negative_iff bit_simps)

lemma sint_uint_bit:
  "sint (a :: 'a::len word) = uint a - (if a <s 0 then 2 ^ LENGTH('a) else 0)"
proof -
  have "sint a = take_bit (Suc (LENGTH('a) - 1)) (uint a) - 2 ^ Suc (LENGTH('a) - 1) * of_bool (bit a (LENGTH('a) - 1))"
    by (simp only: sint_uint signed_take_bit_eq_take_bit_minus) (simp add: bit_simps)
  moreover have "take_bit LENGTH('a) (uint a) = uint a"
    using unsigned_less [of a, where 'a = int] by (simp add: take_bit_int_eq_self_iff)
  ultimately show ?thesis by (simp add: sless_0_iff)
qed

lemma mulh64_eq: "mulh64 a b = word_of_int (sint a * sint b div 2 ^ 64)"
proof -
  have "sint a * sint b = uint a * uint b +
      2 ^ 64 * ((if a <s 0 then - uint b else 0) + (if b <s 0 then - uint a else 0) +
        (if a <s 0 \<and> b <s 0 then 2 ^ 64 else 0))"
    by (simp add: sint_uint_bit algebra_simps)
  then have "sint a * sint b div 2 ^ 64 = uint a * uint b div 2 ^ 64 +
      ((if a <s 0 then - uint b else 0) + (if b <s 0 then - uint a else 0) +
        (if a <s 0 \<and> b <s 0 then 2 ^ 64 else 0))"
    by simp
  then show ?thesis
    by (simp add: mulh64_def mulhu64_eq Let_def)
qed

lemma mulhsu64_eq: "mulhsu64 a b = word_of_int (sint a * uint b div 2 ^ 64)"
proof -
  have "sint a * uint b = uint a * uint b + 2 ^ 64 * (if a <s 0 then - uint b else 0)"
    by (simp add: sint_uint_bit algebra_simps)
  then have "sint a * uint b div 2 ^ 64 = uint a * uint b div 2 ^ 64 + (if a <s 0 then - uint b else 0)"
    by simp
  then show ?thesis
    by (simp add: mulhsu64_def mulhu64_eq Let_def)
qed


text \<open>The \<open>__int128\<close> variants compute the same upper halves.\<close>

lemma sint128_product:
  fixes k l :: int
  assumes "\<bar>k\<bar> \<le> 2 ^ 63" and "\<bar>l\<bar> < 2 ^ 64"
  shows "sint (word_of_int k * word_of_int l :: 128 word) = k * l"
proof -
  have "\<bar>k * l\<bar> \<le> 2 ^ 63 * (2 ^ 64 - 1)"
    unfolding abs_mult using assms by (intro mult_mono) auto
  then have "sint (word_of_int (k * l) :: 128 word) = k * l"
    by (intro sint_word_of_int_bounded) auto
  then show ?thesis by simp
qed

lemma sint64_abs: "\<bar>sint (a :: u64)\<bar> \<le> 2 ^ 63"
  using sint_greater_eq [of a] sint_less [of a] by auto

lemma uint64_abs: "\<bar>uint (a :: u64)\<bar> < 2 ^ 64"
  using unsigned_less [of a, where 'a = int] by simp

lemma high128: "ucast (signed_drop_bit 64 (w :: 128 word)) = (word_of_int (sint w div 2 ^ 64) :: u64)"
proof -
  have "ucast (signed_drop_bit 64 w) = (word_of_int (sint (signed_drop_bit 64 w)) :: u64)"
    by (rule bit_word_eqI) (simp add: bit_unsigned_iff bit_word_of_int_iff bit_signed_iff min_def)
  then show ?thesis by (simp only: sint_signed_drop_bit_eq drop_bit_eq_div)
qed

lemma mulh64_int128_eq: "mulh64_int128 a b = word_of_int (sint a * sint b div 2 ^ 64)"
  unfolding mulh64_int128_def high128 scast_eq
  using le_less_trans [OF sint64_abs [of b], of "2 ^ 64"]
  by (subst sint128_product) (simp_all add: sint64_abs [simplified])

lemma mulhsu64_int128_eq: "mulhsu64_int128 a b = word_of_int (sint a * uint b div 2 ^ 64)"
  unfolding mulhsu64_int128_def high128 unfolding scast_eq ucast_eq
  by (subst sint128_product) (simp_all only: sint64_abs uint64_abs)

lemma mulhu64_int128_eq: "mulhu64_int128 a b = word_of_int (uint a * uint b div 2 ^ 64)"
proof -
  have "uint a * uint b < 2 ^ 64 * 2 ^ 64"
    using uint64_abs [of a] uint64_abs [of b] by (intro mult_strict_mono) auto
  then have "uint (ucast a * ucast b :: 128 word) = uint a * uint b"
    using uint64_abs [of a] uint64_abs [of b]
    by (simp add: uint_word_ariths unsigned_ucast_eq take_bit_int_eq_self)
  then have "uint (drop_bit 64 (ucast a * ucast b :: 128 word)) = uint a * uint b div 2 ^ 64"
    by (simp add: drop_bit_eq_div uint_div_distrib)
  then show ?thesis
    unfolding mulhu64_int128_def by (subst ucast_eq) simp
qed

text \<open>So does the portable unsigned variant.\<close>

lemma high_half_columns:
  fixes a0 a1 b0 b1 K :: nat
  assumes "0 < K"
  defines "C \<equiv> a0 * b0 div K + a0 * b1 mod K + a1 * b0 mod K"
  shows "a1 * b1 + a0 * b1 div K + a1 * b0 div K + C div K
    = (a1 * K + a0) * (b1 * K + b0) div (K * K)"
proof -
  let ?x = "a0 * b1" and ?y = "a1 * b0" and ?z = "a0 * b0"
  have "(a1 * K + a0) * (b1 * K + b0) = a1 * b1 * (K * K) + (?x + ?y) * K + ?z"
    by (simp add: algebra_simps)
  then have "(a1 * K + a0) * (b1 * K + b0) = (a1 * b1 * K + (?x + ?y)) * K + ?z"
    by (simp add: algebra_simps)
  then have "(a1 * K + a0) * (b1 * K + b0) div K = a1 * b1 * K + (?x + ?y) + ?z div K"
    using \<open>0 < K\<close> by (simp only: div_mult_self3)
  also have "\<dots> = (a1 * b1 + ?x div K + ?y div K) * K + C"
    unfolding C_def by (simp add: distrib_right)
  finally have "(a1 * K + a0) * (b1 * K + b0) div K = (a1 * b1 + ?x div K + ?y div K) * K + C" .
  then show ?thesis using \<open>0 < K\<close> by (simp add: div_mult2_eq)
qed


lemma unat_join32:
  "unat (push_bit 32 (ucast (x :: u32)) OR ucast (y :: u32) :: u64) = unat x * 2 ^ 32 + unat y"
proof -
  have "push_bit 32 (ucast x) OR ucast y = (push_bit 32 (ucast x) + ucast y :: u64)"
    by (rule disjunctive_add_eq_or [symmetric]) (rule bit_word_eqI, auto simp: bit_simps dest: bit_imp_le_length)
  moreover have "unat x * 2 ^ 32 + unat y < 2 ^ 64"
    using unsigned_less [of x, where 'a = nat] unsigned_less [of y, where 'a = nat] by simp
  ultimately show ?thesis
    by (simp add: unat_word_ariths push_bit_eq_mult unsigned_ucast_eq take_bit_nat_eq_self
        unsigned_less [THEN less_trans])
qed

lemma mulhu64_halves_eq: "mulhu64_halves a b = mulhu64 a b"
proof -
  define A0 A1 B0 B1 :: nat where d: "A0 = unat a mod 2 ^ 32" "A1 = unat a div 2 ^ 32"
    "B0 = unat b mod 2 ^ 32" "B1 = unat b div 2 ^ 32"
  have l: "A0 < 2 ^ 32" "A1 < 2 ^ 32" "B0 < 2 ^ 32" "B1 < 2 ^ 32"
    using unat_lt64 [of a] unat_lt64 [of b] by (simp_all add: d less_mult_imp_div_less)
  have u: "unat (ucast a :: u32) = A0" "unat (ucast (drop_bit 32 a) :: u32) = A1"
    "unat (ucast b :: u32) = B0" "unat (ucast (drop_bit 32 b) :: u32) = B1"
    using l by (simp_all add: d unsigned_ucast_eq take_bit_eq_mod unat_mod_distrib
        unat_div_distrib drop_bit_eq_div)
  have p: "unat (ucast (x :: u32) * ucast (y :: u32) :: u64) = unat x * unat y" for x y
    using limb_bound [of "unat x" "unat y" 0] unsigned_less [of x, where 'a = nat]
      unsigned_less [of y, where 'a = nat]
    by (subst unat_mult_small) (simp_all add: unsigned_ucast_eq take_bit_nat_eq_self)
  define r00 r01 r10 r11 :: u64 where r: "r00 = ucast (ucast a :: u32) * ucast (ucast b :: u32)"
    "r01 = ucast (ucast a :: u32) * ucast (ucast (drop_bit 32 b) :: u32)"
    "r10 = ucast (ucast (drop_bit 32 a) :: u32) * ucast (ucast b :: u32)"
    "r11 = ucast (ucast (drop_bit 32 a) :: u32) * ucast (ucast (drop_bit 32 b) :: u32)"
  have ur: "unat r00 = A0 * B0" "unat r01 = A0 * B1" "unat r10 = A1 * B0" "unat r11 = A1 * B1"
    unfolding r by (simp_all only: p u)
  define c where "c = drop_bit 32 r00 + ucast (ucast r01 :: u32) + ucast (ucast r10 :: u32)"
  define c2 where "c2 = drop_bit 32 c + drop_bit 32 r01 + drop_bit 32 r10 + ucast (ucast r11 :: u32)"
  have hi: "unat (drop_bit 32 (x :: u64)) < 2 ^ 32" for x
    using unat_lt64 [of x] by (simp add: less_mult_imp_div_less)
  have lo: "unat (ucast (ucast (x :: u64) :: u32) :: u64) < 2 ^ 32" for x by simp
  have uc: "unat c = A0 * B0 div 2 ^ 32 + A0 * B1 mod 2 ^ 32 + A1 * B0 mod 2 ^ 32" (is "_ = ?C")
    unfolding c_def using hi [of r00] lo [of r01] lo [of r10]
    by (simp add: unat_add_small ur [symmetric])
  have uc2: "unat c2 = ?C div 2 ^ 32 + A0 * B1 div 2 ^ 32 + A1 * B0 div 2 ^ 32 + A1 * B1 mod 2 ^ 32"
    unfolding uc [symmetric] unfolding c2_def ur [symmetric]
    using hi [of c] hi [of r01] hi [of r10] lo [of r11] by (simp add: unat_add_small)
  have H: "unat (mulhu64 a b) = unat c2 + A1 * B1 div 2 ^ 32 * 2 ^ 32"
    using high_half_columns [of "2 ^ 32" A1 B1 A0 B0]
    unfolding unat_mulhu64 uc2 by (simp add: d)
  have s: "unat (drop_bit 32 c2 + drop_bit 32 r11) = unat c2 div 2 ^ 32 + A1 * B1 div 2 ^ 32"
    using hi [of c2] hi [of r11] by (simp add: unat_add_small ur)
  have "unat c2 div 2 ^ 32 + A1 * B1 div 2 ^ 32 < 2 ^ 32"
    using unat_lt64 [of "mulhu64 a b"] unfolding H by simp
  then have "unat (ucast (drop_bit 32 c2 + drop_bit 32 r11) :: u32)
      = unat c2 div 2 ^ 32 + A1 * B1 div 2 ^ 32"
    by (simp only: unsigned_ucast_eq s) (simp add: take_bit_nat_eq_self)
  moreover have "unat (ucast c2 :: u32) = unat c2 mod 2 ^ 32"
    by (simp add: unsigned_ucast_eq take_bit_eq_mod unat_mod_distrib)
  ultimately have "unat (mulhu64_halves a b) = unat (mulhu64 a b)"
    unfolding mulhu64_halves_def Let_def
    unfolding r [symmetric] c_def [symmetric] c2_def [symmetric] unat_join32 H
    by (simp add: distrib_right)
  then show ?thesis by (rule unsigned_word_eqI)
qed

lemma mulh64_halves_wrong: "mulh64_halves (- 1) 1 \<noteq> mulh64 (- 1) 1"
  by code_simp

end
