(* ===== verification/Alu.thy ===== *)
theory Alu
  imports Decode Muldiv
begin

text \<open>
  The register-to-register part of the integer instructions of \<open>riscv_cpu_interp_x64\<close>
  (\<open>riscv_cpu_template.h\<close>, opcodes 0x13, 0x1b, 0x33, 0x3b and 0x63): the value an instruction
  computes from its operands, \<open>None\<close> where the C code jumps to \<open>illegal_insn\<close>. Signed C types are
  words; a cast \<open>(int32_t)\<close> of a 64-bit value followed by its promotion is \<open>sx32\<close>.
\<close>

section \<open>Casts and shifts\<close>

definition sx8 :: "u64 \<Rightarrow> u64" where "sx8 v = scast (ucast v :: u8)"
definition sx16 :: "u64 \<Rightarrow> u64" where "sx16 v = scast (ucast v :: u16)"
definition sx32 :: "u64 \<Rightarrow> u64" where "sx32 v = scast (ucast v :: u32)"
definition zx32 :: "u64 \<Rightarrow> u64" where "zx32 v = ucast (ucast v :: u32)"

text \<open>\<open>__builtin_bswap64\<close> and the byte loop of \<open>orc.b\<close>.\<close>

definition bswap64 :: "u64 \<Rightarrow> u64" where
  "bswap64 v = fold (\<lambda>i r. r OR push_bit (56 - 8 * i) (drop_bit (8 * i) v AND 0xff)) [0..<8] 0"

definition orc_b :: "u64 \<Rightarrow> u64" where
  "orc_b v = fold (\<lambda>i r. if drop_bit (8 * i) v AND 0xff \<noteq> 0 then r OR push_bit (8 * i) 0xff else r)
               [0..<8] 0"

text \<open>Rotation as the C code writes it: two shifts, the second by the negated amount.\<close>

definition rotr_c :: "'a::len word \<Rightarrow> u32 \<Rightarrow> 'a word" where
  "rotr_c v sh = drop_bit (unat sh) v OR push_bit (unat (- sh AND (of_nat LENGTH('a) - 1))) v"

definition rotl_c :: "'a::len word \<Rightarrow> u32 \<Rightarrow> 'a word" where
  "rotl_c v sh = push_bit (unat sh) v OR drop_bit (unat (- sh AND (of_nat LENGTH('a) - 1))) v"

section \<open>OP-IMM\<close>

definition op_imm_1 :: "u32 \<Rightarrow> u64 \<Rightarrow> u64 option" where
  "op_imm_1 imm v =
     (let sh = unat (imm AND 63); hi = imm AND NOT 63 in
      if hi = 0 then Some (push_bit sh v)
      else if hi = 0x480 then Some (v AND NOT (push_bit sh 1))
      else if hi = 0x680 then Some (v XOR push_bit sh 1)
      else if hi = 0x280 then Some (v OR push_bit sh 1)
      else if imm = 0x600 then Some (if v = 0 then 64 else of_nat (builtin_clz v))
      else if imm = 0x601 then Some (if v = 0 then 64 else of_nat (builtin_ctz v))
      else if imm = 0x602 then Some (of_nat (builtin_popcount v))
      else if imm = 0x604 then Some (sx8 v)
      else if imm = 0x605 then Some (sx16 v)
      else None)"

definition op_imm_5 :: "u32 \<Rightarrow> u64 \<Rightarrow> u64 option" where
  "op_imm_5 imm v =
     (let sh = unat (imm AND 63); hi = imm AND NOT 63 in
      if imm AND NOT (63 OR 0x400) = 0 then
        Some (if imm AND 0x400 \<noteq> 0 then signed_drop_bit sh v else drop_bit sh v)
      else if hi = 0x600 then Some (rotr_c v (imm AND 63))
      else if hi = 0x480 then Some (drop_bit sh v AND 1)
      else if imm = 0x287 then Some (orc_b v)
      else if imm = 0x6b8 then Some (bswap64 v)
      else None)"

definition op_imm :: "u32 \<Rightarrow> u32 \<Rightarrow> u64 \<Rightarrow> u64 option" where
  "op_imm funct3 imm v =
     (if funct3 = 0 then Some (v + scast imm)
      else if funct3 = 1 then op_imm_1 imm v
      else if funct3 = 2 then Some (of_bool (v <s scast imm))
      else if funct3 = 3 then Some (of_bool (v < scast imm))
      else if funct3 = 4 then Some (v XOR scast imm)
      else if funct3 = 5 then op_imm_5 imm v
      else if funct3 = 6 then Some (v OR scast imm)
      else Some (v AND scast imm))"

section \<open>OP-IMM-32\<close>

definition op_imm_32 :: "u32 \<Rightarrow> u32 \<Rightarrow> u64 \<Rightarrow> u64 option" where
  "op_imm_32 funct3 imm v =
     (let w = (ucast v :: u32); sh = unat (imm AND 31) in
      if funct3 = 0 then Some (sx32 (v + scast imm))
      else if funct3 = 1 then
        if imm AND NOT 31 = 0 then Some (sx32 (push_bit sh v))
        else if imm AND NOT 63 = 0x80 then Some (push_bit (unat (imm AND 63)) (zx32 v))
        else if imm = 0x600 then Some (if w = 0 then 32 else of_nat (builtin_clz w))
        else if imm = 0x601 then Some (if w = 0 then 32 else of_nat (builtin_ctz w))
        else if imm = 0x602 then Some (of_nat (builtin_popcount w))
        else None
      else if funct3 = 5 then
        if imm AND NOT (31 OR 0x400) = 0 then
          Some (if imm AND 0x400 \<noteq> 0 then scast (signed_drop_bit sh w) else scast (drop_bit sh w))
        else if imm AND NOT 31 = 0x600 then Some (scast (rotr_c w (imm AND 31)))
        else None
      else None)"

section \<open>OP\<close>

definition op_m :: "u32 \<Rightarrow> u64 \<Rightarrow> u64 \<Rightarrow> u64" where
  "op_m funct3 a b =
     (if funct3 = 0 then a * b
      else if funct3 = 1 then mulh64 a b
      else if funct3 = 2 then mulhsu64 a b
      else if funct3 = 3 then mulhu64 a b
      else if funct3 = 4 then div64 a b
      else if funct3 = 5 then divu64 a b
      else if funct3 = 6 then rem64 a b
      else remu64 a b)"

definition op_bit :: "u32 \<Rightarrow> u32 \<Rightarrow> u64 \<Rightarrow> u64 \<Rightarrow> u64 option" where
  "op_bit imm funct3 a b =
     (let sh = unat (b AND 63) in
      if imm = 5 then
        if funct3 = 4 then Some (if a <s b then a else b)
        else if funct3 = 5 then Some (if a < b then a else b)
        else if funct3 = 6 then Some (if b <s a then a else b)
        else if funct3 = 7 then Some (if a > b then a else b)
        else None
      else if imm = 0x14 \<and> funct3 = 1 then Some (a OR push_bit sh 1)
      else if imm = 0x24 then
        if funct3 = 1 then Some (a AND NOT (push_bit sh 1))
        else if funct3 = 5 then Some (drop_bit sh a AND 1)
        else None
      else if imm = 0x34 \<and> funct3 = 1 then Some (a XOR push_bit sh 1)
      else if imm = 0x10 then
        if funct3 \<noteq> 2 \<and> funct3 \<noteq> 4 \<and> funct3 \<noteq> 6 then None
        else Some (b + push_bit (unat (drop_bit 1 funct3)) a)
      else if imm = 0x30 then
        if funct3 = 1 then Some (rotl_c a (ucast (b AND 63)))
        else if funct3 = 5 then Some (rotr_c a (ucast (b AND 63)))
        else None
      else if imm = 7 then
        if funct3 = 5 then Some (if b = 0 then 0 else a)
        else if funct3 = 7 then Some (if b \<noteq> 0 then 0 else a)
        else None
      else None)"

text \<open>\<open>f\<close> is \<open>funct3\<close> with bit 30 of the instruction as bit 3.\<close>

definition op_base :: "u32 \<Rightarrow> u64 \<Rightarrow> u64 \<Rightarrow> u64 option" where
  "op_base f a b =
     (let sh = unat (b AND 63) in
      if f = 0 then Some (a + b)
      else if f = 0 OR 8 then Some (a - b)
      else if f = 1 then Some (push_bit sh a)
      else if f = 2 then Some (of_bool (a <s b))
      else if f = 3 then Some (of_bool (a < b))
      else if f = 4 then Some (a XOR b)
      else if f = 4 OR 8 then Some (NOT (a XOR b))
      else if f = 5 then Some (drop_bit sh a)
      else if f = 5 OR 8 then Some (signed_drop_bit sh a)
      else if f = 6 then Some (a OR b)
      else if f = 6 OR 8 then Some (a OR NOT b)
      else if f = 7 then Some (a AND b)
      else if f = 7 OR 8 then Some (a AND NOT b)
      else None)"

definition op_reg :: "u32 \<Rightarrow> u64 \<Rightarrow> u64 \<Rightarrow> u64 option" where
  "op_reg insn a b =
     (let imm = drop_bit 25 insn; funct3 = f_funct3 insn in
      if imm = 1 then Some (op_m funct3 a b)
      else if imm AND NOT 0x20 \<noteq> 0 then op_bit imm funct3 a b
      else op_base (funct3 OR drop_bit (30 - 3) insn AND push_bit 3 1) a b)"

section \<open>OP-32\<close>

definition op_m_32 :: "u32 \<Rightarrow> u64 \<Rightarrow> u64 \<Rightarrow> u64 option" where
  "op_m_32 funct3 a b =
     (let a = (ucast a :: u32); b = (ucast b :: u32) in
      if funct3 = 0 then Some (scast (sext (a * b) 32))
      else if funct3 = 4 then Some (scast (div32 a b))
      else if funct3 = 5 then Some (scast (divu32 a b))
      else if funct3 = 6 then Some (scast (rem32 a b))
      else if funct3 = 7 then Some (scast (remu32 a b))
      else None)"

definition op_bit_32 :: "u32 \<Rightarrow> u32 \<Rightarrow> nat \<Rightarrow> u64 \<Rightarrow> u64 \<Rightarrow> u64 option" where
  "op_bit_32 imm funct3 rs2 a b =
     (if imm = 4 \<and> funct3 = 0 then Some (zx32 a + b)
      else if imm = 4 \<and> funct3 = 4 \<and> rs2 = 0 then Some (ucast (ucast a :: u16))
      else if imm = 0x10 \<and> (funct3 = 2 \<or> funct3 = 4 \<or> funct3 = 6) then
        Some (b + push_bit (unat (drop_bit 1 funct3)) (zx32 a))
      else if imm = 0x30 then
        if funct3 = 1 then Some (scast (rotl_c (ucast a :: u32) (ucast (b AND 31))))
        else if funct3 = 5 then Some (scast (rotr_c (ucast a :: u32) (ucast (b AND 31))))
        else None
      else None)"

definition op_base_32 :: "u32 \<Rightarrow> u64 \<Rightarrow> u64 \<Rightarrow> u64 option" where
  "op_base_32 f a b =
     (let w = (ucast a :: u32); sh = unat (b AND 31) in
      if f = 0 then Some (sx32 (a + b))
      else if f = 0 OR 8 then Some (sx32 (a - b))
      else if f = 1 then Some (scast (push_bit sh w))
      else if f = 5 then Some (scast (drop_bit sh w))
      else if f = 5 OR 8 then Some (scast (signed_drop_bit sh w))
      else None)"

definition op_reg_32 :: "u32 \<Rightarrow> u64 \<Rightarrow> u64 \<Rightarrow> u64 option" where
  "op_reg_32 insn a b =
     (let imm = drop_bit 25 insn; funct3 = f_funct3 insn in
      if imm = 1 then op_m_32 funct3 a b
      else if imm AND NOT 0x20 \<noteq> 0 then op_bit_32 imm funct3 (f_rs2 insn) a b
      else op_base_32 (funct3 OR drop_bit (30 - 3) insn AND push_bit 3 1) a b)"

section \<open>Branch conditions\<close>

definition branch_cond :: "u32 \<Rightarrow> u64 \<Rightarrow> u64 \<Rightarrow> bool option" where
  "branch_cond funct3 a b =
     (let flip = (funct3 AND 1 \<noteq> 0); sel = drop_bit 1 funct3 in
      if sel = 0 then Some ((a = b) \<noteq> flip)
      else if sel = 2 then Some ((a <s b) \<noteq> flip)
      else if sel = 3 then Some ((a < b) \<noteq> flip)
      else None)"

end
