(* ===== verification/Exec.thy ===== *)
theory Exec
  imports Trap Alu
begin

text \<open>
  The integer, system and atomic instructions of the switch of \<open>riscv_cpu_interp_x64\<close>
  (\<open>riscv_cpu_template.h\<close>), one definition per opcode (two for the larger quadrants). The control
  flow of the C body is an \<open>outcome\<close>: \<open>NextInsn n\<close> for \<open>C_NEXT_INSN\<close> and \<open>NEXT_INSN\<close> (n = 2, 4),
  \<open>JumpInsn\<close> for \<open>JUMP_INSN\<close>, \<open>DoneInterp\<close>, \<open>IllegalInsn\<close> and \<open>ExceptionInsn\<close> for the three labels
  the body jumps to.
\<close>

datatype outcome = NextInsn nat | JumpInsn | DoneInterp | IllegalInsn | ExceptionInsn

section \<open>Macros of the loop\<close>

definition get_pc :: "'p Interp \<Rightarrow> target_ulong" where
  "get_pc s = code_ptr s + code_to_pc_addend s"

definition get_elapsed_cycles :: "'p Interp \<Rightarrow> u64" where
  "get_elapsed_cycles s = elapsed_cycles_addend s - of_int (n_cycles s)"

definition get_cycle_counter :: "'p Interp \<Rightarrow> u64" where
  "get_cycle_counter s = cycle_counter_addend s - of_int (n_cycles s)"

definition retire_insn :: "'p Interp \<Rightarrow> 'p Interp" where
  "retire_insn s =
     (let s = (if minstret_write s then s else s\<lparr>l_minstret_counter := l_minstret_counter s + 1\<rparr>)
      in s\<lparr>minstret_write := False\<rparr>)"

definition set_reg :: "nat \<Rightarrow> u64 \<Rightarrow> 'p Interp \<Rightarrow> 'p Interp" where
  "set_reg r v s = s\<lparr>reg := (reg s)(r := v)\<rparr>"

text \<open>\<open>if (rd != 0) s->reg[rd] = val;\<close>\<close>

definition set_rd :: "nat \<Rightarrow> u64 \<Rightarrow> 'p Interp \<Rightarrow> 'p Interp" where
  "set_rd rd v s = (if rd \<noteq> 0 then set_reg rd v s else s)"

definition set_fp :: "nat \<Rightarrow> u64 \<Rightarrow> 'p Interp \<Rightarrow> 'p Interp" where
  "set_fp r v s = s\<lparr>fp_reg := (fp_reg s)(r := v)\<rparr>"

definition load_insn ::
  "'p platform_ops \<Rightarrow> access_size \<Rightarrow> u64 \<Rightarrow> 'p Interp \<Rightarrow> (u64 \<Rightarrow> 'p Interp \<Rightarrow> outcome \<times> 'p Interp) \<Rightarrow>
   outcome \<times> 'p Interp" where
  "load_insn ops sz addr s k =
     (case target_read ops sz addr s of
        (None, s) \<Rightarrow> (ExceptionInsn, s)
      | (Some rval, s) \<Rightarrow> k rval s)"

text \<open>\<open>STORE_INSN\<close>: a completed store that asks for the host ends the run at once.\<close>

definition store_insn ::
  "'p platform_ops \<Rightarrow> access_size \<Rightarrow> u64 \<Rightarrow> u64 \<Rightarrow> nat \<Rightarrow> 'p Interp \<Rightarrow> ('p Interp \<Rightarrow> outcome \<times> 'p Interp) \<Rightarrow>
   outcome \<times> 'p Interp" where
  "store_insn ops sz addr val len s k =
     (case target_write ops sz addr val s of (err, s) \<Rightarrow>
        if err > 0 then (DoneInterp, (retire_insn s)\<lparr>pc := get_pc s + of_nat len\<rparr>)
        else if err < 0 then (ExceptionInsn, s)
        else k s)"

definition next_insn :: "nat \<Rightarrow> 'p Interp \<Rightarrow> outcome \<times> 'p Interp" where
  "next_insn n s = (NextInsn n, s)"

definition jump_to :: "target_ulong \<Rightarrow> 'p Interp \<Rightarrow> outcome \<times> 'p Interp" where
  "jump_to target s = (JumpInsn, s\<lparr>pc := target\<rparr>)"

definition illegal_insn :: "'p Interp \<Rightarrow> outcome \<times> 'p Interp" where
  "illegal_insn s = (IllegalInsn, s)"

section \<open>Compressed instructions, quadrant 0\<close>

definition exec_zcb_mem :: "'p platform_ops \<Rightarrow> u32 \<Rightarrow> 'p Interp \<Rightarrow> outcome \<times> 'p Interp" where
  "exec_zcb_mem ops insn s =
     (let rd = c_reg_2 insn; base = reg s (c_reg_7 insn);
          funct3 = drop_bit 10 insn AND 7;
          addr = base + scast (imm_c_lbu insn);
          addr_h = base + ucast (get_field1 insn 5 1 1)
      in if funct3 = 0 then load_insn ops S8 addr s (\<lambda>v s. next_insn 2 (set_reg rd v s))
         else if funct3 = 1 then
           load_insn ops S16 addr_h s
             (\<lambda>v s. next_insn 2 (set_reg rd (if insn AND push_bit 6 1 \<noteq> 0 then sx16 v else v) s))
         else if funct3 = 2 then store_insn ops S8 addr (reg s rd) 2 s (next_insn 2)
         else if funct3 = 3 then
           if insn AND push_bit 6 1 \<noteq> 0 then illegal_insn s
           else store_insn ops S16 addr_h (reg s rd) 2 s (next_insn 2)
         else illegal_insn s)"

definition exec_quadrant0 :: "'p platform_ops \<Rightarrow> u32 \<Rightarrow> 'p Interp \<Rightarrow> outcome \<times> 'p Interp" where
  "exec_quadrant0 ops insn s =
     (let funct3 = c_funct3 insn; rd = c_reg_2 insn; base = reg s (c_reg_7 insn);
          addr_d = base + scast (imm_c_ld insn);
          addr_w = base + scast (imm_c_lw insn)
      in if funct3 = 0 then
           if imm_c_addi4spn insn = 0 then illegal_insn s
           else next_insn 2 (set_reg rd (reg s 2 + scast (imm_c_addi4spn insn)) s)
         else if funct3 = 1 then
           if fs s = 0 then illegal_insn s
           else load_insn ops S64 addr_d s (\<lambda>v s. next_insn 2 ((set_fp rd v s)\<lparr>fs := 3\<rparr>))
         else if funct3 = 2 then
           load_insn ops S32 addr_w s (\<lambda>v s. next_insn 2 (set_reg rd (sx32 v) s))
         else if funct3 = 3 then
           load_insn ops S64 addr_d s (\<lambda>v s. next_insn 2 (set_reg rd v s))
         else if funct3 = 4 then exec_zcb_mem ops insn s
         else if funct3 = 5 then
           if fs s = 0 then illegal_insn s
           else store_insn ops S64 addr_d (fp_reg s rd) 2 s (next_insn 2)
         else if funct3 = 6 then store_insn ops S32 addr_w (reg s rd) 2 s (next_insn 2)
         else store_insn ops S64 addr_d (reg s rd) 2 s (next_insn 2))"

section \<open>Compressed instructions, quadrant 1\<close>

text \<open>The register operations of \<open>funct3 = 4\<close>: the new value of \<open>rd\<close>.\<close>

definition c_alu_reg :: "u32 \<Rightarrow> u64 \<Rightarrow> u64 \<Rightarrow> u64 option" where
  "c_alu_reg insn a b =
     (let funct3 = drop_bit 5 insn AND 3 OR drop_bit (12 - 2) insn AND 4;
          unary = drop_bit 2 insn AND 7
      in if funct3 = 0 then Some (a - b)
         else if funct3 = 1 then Some (a XOR b)
         else if funct3 = 2 then Some (a OR b)
         else if funct3 = 3 then Some (a AND b)
         else if funct3 = 4 then Some (sx32 (a - b))
         else if funct3 = 5 then Some (sx32 (a + b))
         else if funct3 = 6 then Some (a * b)
         else if unary = 0 then Some (ucast (ucast a :: u8))
         else if unary = 1 then Some (sx8 a)
         else if unary = 2 then Some (ucast (ucast a :: u16))
         else if unary = 3 then Some (sx16 a)
         else if unary = 4 then Some (zx32 a)
         else if unary = 5 then Some (NOT a)
         else None)"

definition c_alu :: "u32 \<Rightarrow> u64 \<Rightarrow> u64 \<Rightarrow> u64 option" where
  "c_alu insn a b =
     (let funct3 = drop_bit 10 insn AND 3; sh = unat (imm_c_shamt insn) in
      if funct3 = 0 then Some (drop_bit sh a)
      else if funct3 = 1 then Some (signed_drop_bit sh a)
      else if funct3 = 2 then Some (a AND scast (imm_c_addi insn))
      else c_alu_reg insn a b)"

definition exec_quadrant1 :: "u32 \<Rightarrow> 'p Interp \<Rightarrow> outcome \<times> 'p Interp" where
  "exec_quadrant1 insn s =
     (let funct3 = c_funct3 insn; rd = f_rd insn; imm = imm_c_addi insn in
      if funct3 = 0 then next_insn 2 (set_rd rd (reg s rd + scast imm) s)
      else if funct3 = 1 then next_insn 2 (set_rd rd (sx32 (reg s rd + scast imm)) s)
      else if funct3 = 2 then next_insn 2 (set_rd rd (scast imm) s)
      else if funct3 = 3 then
        if rd = 2 then
          if imm_c_addi16sp insn = 0 then illegal_insn s
          else next_insn 2 (set_reg 2 (reg s 2 + scast (imm_c_addi16sp insn)) s)
        else if rd \<noteq> 0 then
          if imm_c_lui insn = 0 then
            if even rd \<or> rd > 15 then illegal_insn s else next_insn 2 s
          else next_insn 2 (set_reg rd (scast (imm_c_lui insn)) s)
        else next_insn 2 s
      else if funct3 = 4 then
        (case c_alu insn (reg s (c_reg_7 insn)) (reg s (c_reg_2 insn)) of
           None \<Rightarrow> illegal_insn s
         | Some v \<Rightarrow> next_insn 2 (set_reg (c_reg_7 insn) v s))
      else if funct3 = 5 then jump_to (get_pc s + scast (imm_c_j insn)) s
      else if funct3 = 6 then
        if reg s (c_reg_7 insn) = 0 then jump_to (get_pc s + scast (imm_c_b insn)) s
        else next_insn 2 s
      else
        if reg s (c_reg_7 insn) \<noteq> 0 then jump_to (get_pc s + scast (imm_c_b insn)) s
        else next_insn 2 s)"

section \<open>Compressed instructions, quadrant 2\<close>

definition exec_c_jr_mv_add :: "u32 \<Rightarrow> 'p Interp \<Rightarrow> outcome \<times> 'p Interp" where
  "exec_c_jr_mv_add insn s =
     (let rd = f_rd insn; rs2 = c_rs2 insn in
      if drop_bit 12 insn AND 1 = 0 then
        if rs2 = 0 then
          if rd = 0 then illegal_insn s else jump_to (reg s rd AND NOT 1) s
        else next_insn 2 (set_rd rd (reg s rs2) s)
      else
        if rs2 = 0 then
          if rd = 0 then (ExceptionInsn, s\<lparr>pending_exception := CAUSE_BREAKPOINT\<rparr>)
          else jump_to (reg s rd AND NOT 1) (set_reg 1 (get_pc s + 2) s)
        else next_insn 2 (set_rd rd (reg s rd + reg s rs2) s))"

definition exec_quadrant2 :: "'p platform_ops \<Rightarrow> u32 \<Rightarrow> 'p Interp \<Rightarrow> outcome \<times> 'p Interp" where
  "exec_quadrant2 ops insn s =
     (let funct3 = c_funct3 insn; rd = f_rd insn; rs2 = c_rs2 insn; sp = reg s 2 in
      if funct3 = 0 then next_insn 2 (set_rd rd (push_bit (unat (imm_c_slli insn)) (reg s rd)) s)
      else if funct3 = 1 then
        if fs s = 0 then illegal_insn s
        else load_insn ops S64 (sp + scast (imm_c_ldsp insn)) s
               (\<lambda>v s. next_insn 2 ((set_fp rd v s)\<lparr>fs := 3\<rparr>))
      else if funct3 = 2 then
        load_insn ops S32 (sp + scast (imm_c_lwsp insn)) s (\<lambda>v s. next_insn 2 (set_rd rd (sx32 v) s))
      else if funct3 = 3 then
        load_insn ops S64 (sp + scast (imm_c_ldsp insn)) s (\<lambda>v s. next_insn 2 (set_rd rd v s))
      else if funct3 = 4 then exec_c_jr_mv_add insn s
      else if funct3 = 5 then
        if fs s = 0 then illegal_insn s
        else store_insn ops S64 (sp + scast (imm_c_sdsp insn)) (fp_reg s rs2) 2 s (next_insn 2)
      else if funct3 = 6 then
        store_insn ops S32 (sp + scast (imm_c_swsp insn)) (reg s rs2) 2 s (next_insn 2)
      else
        store_insn ops S64 (sp + scast (imm_c_sdsp insn)) (reg s rs2) 2 s (next_insn 2))"

section \<open>Base integer instructions\<close>

definition exec_lui :: "u32 \<Rightarrow> 'p Interp \<Rightarrow> outcome \<times> 'p Interp" where
  "exec_lui insn s = next_insn 4 (set_rd (f_rd insn) (scast (imm_u insn)) s)"

definition exec_auipc :: "u32 \<Rightarrow> 'p Interp \<Rightarrow> outcome \<times> 'p Interp" where
  "exec_auipc insn s = next_insn 4 (set_rd (f_rd insn) (get_pc s + scast (imm_u insn)) s)"

definition exec_jal :: "u32 \<Rightarrow> 'p Interp \<Rightarrow> outcome \<times> 'p Interp" where
  "exec_jal insn s =
     jump_to (get_pc s + scast (imm_j insn)) (set_rd (f_rd insn) (get_pc s + 4) s)"

definition exec_jalr :: "u32 \<Rightarrow> 'p Interp \<Rightarrow> outcome \<times> 'p Interp" where
  "exec_jalr insn s =
     jump_to ((reg s (f_rs1 insn) + scast (imm_i insn)) AND NOT 1)
       (set_rd (f_rd insn) (get_pc s + 4) s)"

definition exec_branch :: "u32 \<Rightarrow> 'p Interp \<Rightarrow> outcome \<times> 'p Interp" where
  "exec_branch insn s =
     (case branch_cond (f_funct3 insn) (reg s (f_rs1 insn)) (reg s (f_rs2 insn)) of
        None \<Rightarrow> illegal_insn s
      | Some True \<Rightarrow> jump_to (get_pc s + scast (imm_b insn)) s
      | Some False \<Rightarrow> next_insn 4 s)"

definition exec_load :: "'p platform_ops \<Rightarrow> u32 \<Rightarrow> 'p Interp \<Rightarrow> outcome \<times> 'p Interp" where
  "exec_load ops insn s =
     (let funct3 = f_funct3 insn;
          addr = reg s (f_rs1 insn) + scast (imm_i insn);
          fin = (\<lambda>cast v s. next_insn 4 (set_rd (f_rd insn) (cast v) s))
      in if funct3 = 0 then load_insn ops S8 addr s (fin sx8)
         else if funct3 = 1 then load_insn ops S16 addr s (fin sx16)
         else if funct3 = 2 then load_insn ops S32 addr s (fin sx32)
         else if funct3 = 4 then load_insn ops S8 addr s (fin id)
         else if funct3 = 5 then load_insn ops S16 addr s (fin id)
         else if funct3 = 3 then load_insn ops S64 addr s (fin id)
         else if funct3 = 6 then load_insn ops S32 addr s (fin id)
         else illegal_insn s)"

definition exec_store :: "'p platform_ops \<Rightarrow> u32 \<Rightarrow> 'p Interp \<Rightarrow> outcome \<times> 'p Interp" where
  "exec_store ops insn s =
     (let funct3 = f_funct3 insn;
          addr = reg s (f_rs1 insn) + scast (imm_s insn);
          val = reg s (f_rs2 insn)
      in if funct3 = 0 then store_insn ops S8 addr val 4 s (next_insn 4)
         else if funct3 = 1 then store_insn ops S16 addr val 4 s (next_insn 4)
         else if funct3 = 2 then store_insn ops S32 addr val 4 s (next_insn 4)
         else if funct3 = 3 then store_insn ops S64 addr val 4 s (next_insn 4)
         else illegal_insn s)"

text \<open>The common end of the opcodes 0x13, 0x1b, 0x33 and 0x3b.\<close>

definition exec_alu :: "u32 \<Rightarrow> u64 option \<Rightarrow> 'p Interp \<Rightarrow> outcome \<times> 'p Interp" where
  "exec_alu insn r s =
     (case r of None \<Rightarrow> illegal_insn s | Some v \<Rightarrow> next_insn 4 (set_rd (f_rd insn) v s))"

definition exec_op_imm :: "u32 \<Rightarrow> 'p Interp \<Rightarrow> outcome \<times> 'p Interp" where
  "exec_op_imm insn s = exec_alu insn (op_imm (f_funct3 insn) (imm_i insn) (reg s (f_rs1 insn))) s"

definition exec_op_imm_32 :: "u32 \<Rightarrow> 'p Interp \<Rightarrow> outcome \<times> 'p Interp" where
  "exec_op_imm_32 insn s =
     exec_alu insn (op_imm_32 (f_funct3 insn) (imm_i insn) (reg s (f_rs1 insn))) s"

definition exec_op :: "u32 \<Rightarrow> 'p Interp \<Rightarrow> outcome \<times> 'p Interp" where
  "exec_op insn s = exec_alu insn (op_reg insn (reg s (f_rs1 insn)) (reg s (f_rs2 insn))) s"

definition exec_op_32 :: "u32 \<Rightarrow> 'p Interp \<Rightarrow> outcome \<times> 'p Interp" where
  "exec_op_32 insn s = exec_alu insn (op_reg_32 insn (reg s (f_rs1 insn)) (reg s (f_rs2 insn))) s"

end
