(* ===== verification/Exec_System.thy ===== *)
theory Exec_System
  imports Exec
begin

text \<open>
  Opcodes 0x73 (SYSTEM), 0x0f (fences and cache-block operations) and 0x2f (atomics) of
  \<open>riscv_cpu_interp_x64\<close>.
\<close>

section \<open>CSR instructions\<close>

text \<open>The counters are made visible in the CPU state before a CSR access.\<close>

definition csr_sync :: "'p Interp \<Rightarrow> 'p Interp" where
  "csr_sync s = s\<lparr>elapsed_cycles := get_elapsed_cycles s, cycle_counter := get_cycle_counter s,
                  minstret_counter := l_minstret_counter s\<rparr>"

text \<open>What follows a CSR write with result \<open>err\<close>; \<open>old\<close> is the value read.\<close>

definition csr_commit ::
  "CSRWriteResult \<Rightarrow> nat \<Rightarrow> u64 \<Rightarrow> 'p Interp \<Rightarrow> outcome \<times> 'p Interp" where
  "csr_commit err rd old s =
     (if err = CSR_WRITE_ERROR then illegal_insn s
      else
        let s = s\<lparr>cycle_counter_addend := cycle_counter s + of_int (n_cycles s)\<rparr>;
            s = (if err = CSR_WRITE_MINSTRET
                 then s\<lparr>l_minstret_counter := minstret_counter s, minstret_write := True\<rparr> else s);
            err = (if err = CSR_WRITE_MINSTRET then CSR_WRITE_OK else err);
            s = set_rd rd old s
        in if err = CSR_WRITE_OK then next_insn 4 s
           else
             let s = s\<lparr>pc := get_pc s + 4\<rparr>
             in if err = CSR_WRITE_FLUSH_TLB then (JumpInsn, s)
                else (DoneInterp, retire_insn s))"

definition exec_csrrw :: "u32 \<Rightarrow> u64 \<Rightarrow> 'p Interp \<Rightarrow> outcome \<times> 'p Interp" where
  "exec_csrrw insn val s =
     (let s = csr_sync s; csr = drop_bit 20 insn in
      case csr_read s csr True of
        None \<Rightarrow> illegal_insn s
      | Some old \<Rightarrow>
          (case csr_write csr val s of (err, s) \<Rightarrow> csr_commit err (f_rd insn) old s))"

definition exec_csrrsc :: "u32 \<Rightarrow> u64 \<Rightarrow> u32 \<Rightarrow> 'p Interp \<Rightarrow> outcome \<times> 'p Interp" where
  "exec_csrrsc insn val funct3 s =
     (let s = csr_sync s; csr = drop_bit 20 insn in
      case csr_read s csr (f_rs1 insn \<noteq> 0) of
        None \<Rightarrow> illegal_insn s
      | Some old \<Rightarrow>
          if f_rs1 insn \<noteq> 0 then
            (case csr_write csr (if funct3 = 2 then old OR val else old AND NOT val) s of
               (err, s) \<Rightarrow> csr_commit err (f_rd insn) old s)
          else next_insn 4 (set_rd (f_rd insn) old s))"

section \<open>Privileged instructions\<close>

definition exec_sret :: "'p Interp \<Rightarrow> outcome \<times> 'p Interp" where
  "exec_sret s =
     (if priv s < PRV_S then illegal_insn s
      else if priv s = PRV_S \<and> mstatus s AND MSTATUS_TSR \<noteq> 0 then illegal_insn s
      else (DoneInterp, retire_insn (handle_sret (s\<lparr>pc := get_pc s\<rparr>))))"

definition exec_mret :: "'p Interp \<Rightarrow> outcome \<times> 'p Interp" where
  "exec_mret s =
     (if priv s < PRV_M then illegal_insn s
      else (DoneInterp, retire_insn (handle_mret (s\<lparr>pc := get_pc s\<rparr>))))"

definition exec_wfi :: "'p Interp \<Rightarrow> outcome \<times> 'p Interp" where
  "exec_wfi s =
     (if priv s = PRV_U then illegal_insn s
      else if priv s < PRV_M \<and> mstatus s AND MSTATUS_TW \<noteq> 0 then illegal_insn s
      else if mip s AND mie s = 0 then
        (DoneInterp, retire_insn (s\<lparr>power_down_flag := True, pc := get_pc s + 4\<rparr>))
      else next_insn 4 s)"

definition exec_sfence :: "u32 \<Rightarrow> 'p Interp \<Rightarrow> outcome \<times> 'p Interp" where
  "exec_sfence insn s =
     (if insn AND 0x00007f80 \<noteq> 0 then illegal_insn s
      else if priv s = PRV_U then illegal_insn s
      else if priv s = PRV_S \<and> mstatus s AND MSTATUS_TVM \<noteq> 0 then illegal_insn s
      else
        let s = (if f_rs1 insn = 0 then tlb_flush_all s
                 else tlb_flush_vaddr (reg s (f_rs1 insn)) s)
        in jump_to (get_pc s + 4) s)"

definition exec_priv :: "u32 \<Rightarrow> 'p Interp \<Rightarrow> outcome \<times> 'p Interp" where
  "exec_priv insn s =
     (let imm = drop_bit 20 insn; operands = (insn AND 0x000fff80 \<noteq> 0) in
      if imm = 0x000 then
        if operands then illegal_insn s
        else (ExceptionInsn, s\<lparr>pending_exception := CAUSE_USER_ECALL + uint (priv s)\<rparr>)
      else if imm = 0x001 then
        if operands then illegal_insn s
        else (ExceptionInsn, s\<lparr>pending_exception := CAUSE_BREAKPOINT\<rparr>)
      else if imm = 0x00d \<or> imm = 0x01d then
        if operands then illegal_insn s else next_insn 4 s
      else if imm = 0x102 then if operands then illegal_insn s else exec_sret s
      else if imm = 0x302 then if operands then illegal_insn s else exec_mret s
      else if imm = 0x105 then if insn AND 0x00007f80 \<noteq> 0 then illegal_insn s else exec_wfi s
      else if imm = 0x180 \<or> imm = 0x181 then
        if insn \<noteq> push_bit 20 imm OR 0x73 \<or> priv s = PRV_U then illegal_insn s else next_insn 4 s
      else if drop_bit 5 imm = 0x09 \<or> drop_bit 5 imm = 0x0b then exec_sfence insn s
      else illegal_insn s)"

definition MOP_R_MASK :: u32 where [simp, c_macro]: "MOP_R_MASK = 0xb3c0707f"
definition MOP_R_MATCH :: u32 where [simp, c_macro]: "MOP_R_MATCH = 0x81c04073"
definition MOP_RR_MASK :: u32 where [simp, c_macro]: "MOP_RR_MASK = 0xb200707f"
definition MOP_RR_MATCH :: u32 where [simp, c_macro]: "MOP_RR_MATCH = 0x82004073"

definition exec_system :: "u32 \<Rightarrow> 'p Interp \<Rightarrow> outcome \<times> 'p Interp" where
  "exec_system insn s =
     (let funct3 = f_funct3 insn;
          val = (if funct3 AND 4 \<noteq> 0 then of_nat (f_rs1 insn) else reg s (f_rs1 insn))
      in if funct3 = 4 \<and> (insn AND MOP_R_MASK = MOP_R_MATCH \<or> insn AND MOP_RR_MASK = MOP_RR_MATCH)
         then next_insn 4 (set_rd (f_rd insn) 0 s)
         else
           let funct3 = funct3 AND 3 in
           if funct3 = 1 then exec_csrrw insn val s
           else if funct3 = 2 \<or> funct3 = 3 then exec_csrrsc insn val funct3 s
           else exec_priv insn s)"

section \<open>Fences and cache-block operations\<close>

text \<open>Cache-block operation \<open>imm\<close> is enabled by the environment configuration \<open>env\<close>.\<close>

definition cbo_enabled :: "u32 \<Rightarrow> target_ulong \<Rightarrow> bool" where
  "cbo_enabled imm env \<longleftrightarrow>
     \<not> ((imm = 0 \<and> env AND ENVCFG_CBIE = 0) \<or>
        ((imm = 1 \<or> imm = 2) \<and> env AND ENVCFG_CBCFE = 0) \<or>
        (imm = 4 \<and> env AND ENVCFG_CBZE = 0))"

definition exec_cbo :: "u32 \<Rightarrow> 'p Interp \<Rightarrow> outcome \<times> 'p Interp" where
  "exec_cbo insn s =
     (let imm = drop_bit 20 insn in
      if f_rd insn \<noteq> 0 \<or> (imm > 2 \<and> imm \<noteq> 4) then illegal_insn s
      else if priv s \<noteq> PRV_M \<and>
              (\<not> cbo_enabled imm (menvcfg s) \<or> (priv s = PRV_U \<and> \<not> cbo_enabled imm (senvcfg s)))
      then illegal_insn s
      else
        let val = reg s (f_rs1 insn); addr = val AND NOT 63 in
        case get_phys_addr addr (if imm = 4 then ACCESS_WRITE else ACCESS_READ) s of
          (res, paddr, s) \<Rightarrow>
            if res \<noteq> TRANSLATE_OK then
              (ExceptionInsn, set_pending (if res = TRANSLATE_ACCESS_FAULT then CAUSE_FAULT_STORE
                                           else CAUSE_STORE_PAGE_FAULT) val s)
            else (case get_phys_mem_range (mem_map s) paddr of
               None \<Rightarrow> (ExceptionInsn, set_pending CAUSE_FAULT_STORE val s)
             | Some i \<Rightarrow>
                 let pr = phys_mem_range (mem_map s) i; offset = paddr - pr_addr pr in
                 if \<not> is_ram pr \<or> pr_size pr < 64 \<or> offset > pr_size pr - 64 \<or>
                    (imm = 4 \<and> devram_flags pr AND DEVRAM_FLAG_ROM \<noteq> 0)
                 then (ExceptionInsn, set_pending CAUSE_FAULT_STORE val s)
                 else if imm = 4 then
                   next_insn 4 (s\<lparr>mem_map := upd_range i (\<lambda>pr. phys_mem_set_dirty_bit pr offset)
                                               (mem_map s),
                                  hmem := store_bytes (replicate 64 0) (phys_mem pr + offset) (hmem s)\<rparr>)
                 else next_insn 4 s))"

definition exec_misc_mem :: "u32 \<Rightarrow> 'p Interp \<Rightarrow> outcome \<times> 'p Interp" where
  "exec_misc_mem insn s =
     (let funct3 = f_funct3 insn in
      if funct3 = 0 then if insn AND 0xf00fff80 \<noteq> 0 then illegal_insn s else next_insn 4 s
      else if funct3 = 1 then if insn \<noteq> 0x0000100f then illegal_insn s else next_insn 4 s
      else if funct3 = 2 then exec_cbo insn s
      else illegal_insn s)"

section \<open>Atomics\<close>

text \<open>The casts of \<open>OP_A(32)\<close> and \<open>OP_A(64)\<close>.\<close>

definition sx_size :: "access_size \<Rightarrow> u64 \<Rightarrow> u64" where
  "sx_size sz v = (if sz = S32 then sx32 v else v)"

definition zx_size :: "access_size \<Rightarrow> u64 \<Rightarrow> u64" where
  "zx_size sz v = (if sz = S32 then zx32 v else v)"

text \<open>The value an atomic stores, from the value in memory and \<open>rs2\<close>; \<open>None\<close> for another code.\<close>

definition amo_op :: "access_size \<Rightarrow> u32 \<Rightarrow> u64 \<Rightarrow> u64 \<Rightarrow> u64 option" where
  "amo_op sz f val val2 =
     (if f = 1 then Some val2
      else if f = 0 then Some (sx_size sz (val + val2))
      else if f = 4 then Some (sx_size sz (val XOR val2))
      else if f = 0xc then Some (sx_size sz (val AND val2))
      else if f = 0x8 then Some (sx_size sz (val OR val2))
      else if f = 0x10 then Some (if sx_size sz val <s sx_size sz val2 then sx_size sz val else val2)
      else if f = 0x14 then Some (if sx_size sz val2 <s sx_size sz val then sx_size sz val else val2)
      else if f = 0x18 then Some (if zx_size sz val < zx_size sz val2 then sx_size sz val else val2)
      else if f = 0x1c then Some (if zx_size sz val > zx_size sz val2 then sx_size sz val else val2)
      else None)"

definition misaligned :: "access_size \<Rightarrow> u64 \<Rightarrow> bool" where
  "misaligned sz addr \<longleftrightarrow> addr AND (of_nat (size_bytes sz) - 1) \<noteq> 0"

definition exec_lr :: "'p platform_ops \<Rightarrow> access_size \<Rightarrow> u32 \<Rightarrow> 'p Interp \<Rightarrow> outcome \<times> 'p Interp" where
  "exec_lr ops sz insn s =
     (let addr = reg s (f_rs1 insn) in
      if f_rs2 insn \<noteq> 0 then illegal_insn s
      else if misaligned sz addr then (ExceptionInsn, set_pending CAUSE_MISALIGNED_LOAD addr s)
      else load_insn ops sz addr s (\<lambda>rval s.
             next_insn 4 (set_rd (f_rd insn) (sx_size sz rval)
               (s\<lparr>load_res := addr, load_res_size := of_nat (size_bytes sz), load_res_valid := True\<rparr>))))"

definition exec_sc :: "'p platform_ops \<Rightarrow> access_size \<Rightarrow> u32 \<Rightarrow> 'p Interp \<Rightarrow> outcome \<times> 'p Interp" where
  "exec_sc ops sz insn s =
     (let addr = reg s (f_rs1 insn);
          fin = (\<lambda>val s. next_insn 4 (set_rd (f_rd insn) val (s\<lparr>load_res_valid := False\<rparr>)))
      in if misaligned sz addr then (ExceptionInsn, set_pending CAUSE_MISALIGNED_STORE addr s)
         else if load_res_valid s \<and> load_res s = addr \<and> load_res_size s = of_nat (size_bytes sz)
         then store_insn ops sz addr (reg s (f_rs2 insn)) 4 s (fin 0)
         else (case target_write_check addr s of
                 (False, s) \<Rightarrow> (ExceptionInsn, s)
               | (True, s) \<Rightarrow> fin 1 s))"

definition exec_amo_op :: "'p platform_ops \<Rightarrow> access_size \<Rightarrow> u32 \<Rightarrow> 'p Interp \<Rightarrow> outcome \<times> 'p Interp" where
  "exec_amo_op ops sz insn s =
     (let addr = reg s (f_rs1 insn) in
      if amo_op sz (drop_bit 27 insn) 0 0 = None then illegal_insn s
      else if misaligned sz addr then (ExceptionInsn, set_pending CAUSE_MISALIGNED_STORE addr s)
      else load_insn ops sz addr s (\<lambda>rval s.
             let val = sx_size sz rval in
             case amo_op sz (drop_bit 27 insn) val (reg s (f_rs2 insn)) of
               None \<Rightarrow> illegal_insn s
             | Some val2 \<Rightarrow>
                 store_insn ops sz addr val2 4 s (\<lambda>s. next_insn 4 (set_rd (f_rd insn) val s))))"

definition exec_amo :: "'p platform_ops \<Rightarrow> u32 \<Rightarrow> 'p Interp \<Rightarrow> outcome \<times> 'p Interp" where
  "exec_amo ops insn s =
     (let funct3 = f_funct3 insn in
      if funct3 \<noteq> 2 \<and> funct3 \<noteq> 3 then illegal_insn s
      else
        let sz = (if funct3 = 2 then S32 else S64); funct5 = drop_bit 27 insn in
        if funct5 = 2 then exec_lr ops sz insn s
        else if funct5 = 3 then exec_sc ops sz insn s
        else exec_amo_op ops sz insn s)"

end
