(* ===== verification/Softfp.thy ===== *)
theory Softfp
  imports Prelude
begin

text \<open>
  Software floating point: \<open>softfp.h\<close>, \<open>softfp.c\<close>, \<open>softfp_template.h\<close> and
  \<open>softfp_template_icvt.h\<close>. The template is instantiated in C for 32, 64 and 128 bits; here it is
  one set of definitions over \<open>'f::len word\<close> (\<open>F_UINT\<close>), with \<open>F_SIZE\<close> the length of the type and
  the field sizes a function of it, and \<open>F_ULONG\<close> the type \<open>'f bit0 word\<close> of twice the length.
  \<open>uint32_t *pfflags\<close> is threaded through: each operation takes the flags and returns them.
  Signs are booleans, exponents (\<open>int32_t\<close>) are integers.
\<close>

section \<open>Formats, flags and rounding modes\<close>

datatype RoundingModeEnum = RM_RNE | RM_RTZ | RM_RDN | RM_RUP | RM_RMM

datatype SoftFPMinMaxTypeEnum = FMINMAX_PROP | FMINMAX_IEEE754_2008 | FMINMAX_IEEE754_201X

definition FFLAG_INVALID_OP :: u32 where [c_macro]: "FFLAG_INVALID_OP = 0x10"
definition FFLAG_DIVIDE_ZERO :: u32 where [c_macro]: "FFLAG_DIVIDE_ZERO = 0x8"
definition FFLAG_OVERFLOW :: u32 where [c_macro]: "FFLAG_OVERFLOW = 0x4"
definition FFLAG_UNDERFLOW :: u32 where [c_macro]: "FFLAG_UNDERFLOW = 0x2"
definition FFLAG_INEXACT :: u32 where [c_macro]: "FFLAG_INEXACT = 0x1"

definition MANT_SIZE_of :: "nat \<Rightarrow> nat" where
  "MANT_SIZE_of f_size = (if f_size = 32 then 23 else if f_size = 64 then 52 else 112)"

definition EXP_SIZE_of :: "nat \<Rightarrow> nat" where
  "EXP_SIZE_of f_size = (if f_size = 32 then 8 else if f_size = 64 then 11 else 15)"

definition MANT_SIZE :: "'f::len itself \<Rightarrow> nat" where "MANT_SIZE t = MANT_SIZE_of LENGTH('f)"
definition EXP_SIZE :: "'f::len itself \<Rightarrow> nat" where "EXP_SIZE t = EXP_SIZE_of LENGTH('f)"
definition EXP_MASK :: "'f::len itself \<Rightarrow> int" where "EXP_MASK t = 2 ^ EXP_SIZE t - 1"
definition IMANT_SIZE :: "'f::len itself \<Rightarrow> nat" where "IMANT_SIZE t = LENGTH('f) - 2"
definition RND_SIZE :: "'f::len itself \<Rightarrow> nat" where "RND_SIZE t = IMANT_SIZE t - MANT_SIZE t"

definition MANT_MASK :: "'f::len word" where "MANT_MASK = push_bit (MANT_SIZE TYPE('f)) 1 - 1"
definition SIGN_MASK :: "'f::len word" where "SIGN_MASK = push_bit (LENGTH('f) - 1) 1"
definition QNAN_MASK :: "'f::len word" where "QNAN_MASK = push_bit (MANT_SIZE TYPE('f) - 1) 1"

definition F_QNAN :: "'f::len word" where
  "F_QNAN = push_bit (MANT_SIZE TYPE('f)) (of_int (EXP_MASK TYPE('f))) OR
            push_bit (MANT_SIZE TYPE('f) - 1) 1"

section \<open>Fields\<close>

definition sf_sign :: "'f::len word \<Rightarrow> bool" where
  "sf_sign a = bit a (LENGTH('f) - 1)"

definition sf_exp :: "'f::len word \<Rightarrow> int" where
  "sf_exp a = uint (drop_bit (MANT_SIZE TYPE('f)) a AND of_int (EXP_MASK TYPE('f)))"

definition sf_mant :: "'f::len word \<Rightarrow> 'f word" where
  "sf_mant a = a AND MANT_MASK"

definition pack_sf :: "bool \<Rightarrow> int \<Rightarrow> 'f::len word \<Rightarrow> 'f word" where
  "pack_sf a_sign a_exp a_mant =
     push_bit (LENGTH('f) - 1) (of_bool a_sign) OR
     push_bit (MANT_SIZE TYPE('f)) (of_int a_exp) OR (a_mant AND MANT_MASK)"

definition unpack_sf :: "'f::len word \<Rightarrow> bool \<times> int \<times> 'f word" where
  "unpack_sf a = (sf_sign a, sf_exp a, sf_mant a)"

definition issignan_sf :: "'f::len word \<Rightarrow> bool" where
  "issignan_sf a =
     (let a_exp1 = drop_bit (MANT_SIZE TYPE('f) - 1) a AND (push_bit (EXP_SIZE TYPE('f) + 1) 1 - 1)
      in a_exp1 = of_int (2 * EXP_MASK TYPE('f)) \<and> a AND MANT_MASK \<noteq> 0)"

definition isnan_sf :: "'f::len word \<Rightarrow> bool" where
  "isnan_sf a \<longleftrightarrow> sf_exp a = EXP_MASK TYPE('f) \<and> sf_mant a \<noteq> 0"

section \<open>Rounding\<close>

definition rshift_rnd :: "'f::len word \<Rightarrow> nat \<Rightarrow> 'f word" where
  "rshift_rnd a d =
     (if d = 0 then a
      else if d \<ge> LENGTH('f) then of_bool (a \<noteq> 0)
      else drop_bit d a OR of_bool (a AND (push_bit d 1 - 1) \<noteq> 0))"

text \<open>The \<open>addend\<close> of \<open>round_pack_sf\<close> and of the conversion to integers.\<close>

definition round_addend :: "nat \<Rightarrow> bool \<Rightarrow> RoundingModeEnum \<Rightarrow> 'f::len word" where
  "round_addend rnd_size a_sign rm =
     (case rm of
        RM_RNE \<Rightarrow> push_bit (rnd_size - 1) 1
      | RM_RMM \<Rightarrow> push_bit (rnd_size - 1) 1
      | RM_RTZ \<Rightarrow> 0
      | RM_RDN \<Rightarrow> if a_sign then push_bit rnd_size 1 - 1 else 0
      | RM_RUP \<Rightarrow> if \<not> a_sign then push_bit rnd_size 1 - 1 else 0)"

text \<open>Half-way results go to the even neighbour.\<close>

definition round_mant :: "RoundingModeEnum \<Rightarrow> 'f::len word \<Rightarrow> 'f word \<Rightarrow> 'f word" where
  "round_mant rm addend a_mant =
     (let rnd_bits = a_mant AND (push_bit (RND_SIZE TYPE('f)) 1 - 1);
          r = drop_bit (RND_SIZE TYPE('f)) (a_mant + addend)
      in if rm = RM_RNE \<and> rnd_bits = push_bit (RND_SIZE TYPE('f) - 1) 1 then r AND NOT 1 else r)"

definition round_pack_sf ::
  "bool \<Rightarrow> int \<Rightarrow> 'f::len word \<Rightarrow> RoundingModeEnum \<Rightarrow> u32 \<Rightarrow> 'f word \<times> u32" where
  "round_pack_sf a_sign a_exp a_mant rm fl =
     (let addend = round_addend (RND_SIZE TYPE('f)) a_sign rm;
          is_subnormal = (a_exp < 0 \<or> a_mant + addend < push_bit (LENGTH('f) - 1) 1);
          a_mant = (if a_exp \<le> 0 then rshift_rnd a_mant (nat (1 - a_exp)) else a_mant);
          rnd_bits = a_mant AND (push_bit (RND_SIZE TYPE('f)) 1 - 1);
          fl = (if a_exp \<le> 0 \<and> is_subnormal \<and> rnd_bits \<noteq> 0 then fl OR FFLAG_UNDERFLOW else fl);
          a_exp = (if a_exp \<le> 0 then 1 else a_exp);
          fl = (if rnd_bits \<noteq> 0 then fl OR FFLAG_INEXACT else fl);
          a_mant = round_mant rm addend a_mant;
          a_exp = a_exp + uint (drop_bit (MANT_SIZE TYPE('f) + 1) a_mant)
      in if a_mant \<le> MANT_MASK then (pack_sf a_sign 0 a_mant, fl)
         else if a_exp \<ge> EXP_MASK TYPE('f) then
           (if addend = 0 then pack_sf a_sign (EXP_MASK TYPE('f) - 1) MANT_MASK
            else pack_sf a_sign (EXP_MASK TYPE('f)) 0,
            fl OR (FFLAG_OVERFLOW OR FFLAG_INEXACT))
         else (pack_sf a_sign a_exp a_mant, fl))"

text \<open>
  \<open>normalize_sf\<close> and \<open>normalize2_sf\<close> assert that the top bit of the mantissa is clear (\<open>shift \<ge> 0\<close>);
  \<open>normalize_pre\<close> is that assertion.
\<close>

definition normalize_pre :: "'f::len word \<Rightarrow> bool" where
  "normalize_pre a_mant \<longleftrightarrow> builtin_clz a_mant \<ge> LENGTH('f) - 1 - IMANT_SIZE TYPE('f)"

definition normalize_sf ::
  "bool \<Rightarrow> int \<Rightarrow> 'f::len word \<Rightarrow> RoundingModeEnum \<Rightarrow> u32 \<Rightarrow> 'f word \<times> u32" where
  "normalize_sf a_sign a_exp a_mant rm fl =
     (let shift = builtin_clz a_mant - (LENGTH('f) - 1 - IMANT_SIZE TYPE('f))
      in round_pack_sf a_sign (a_exp - int shift) (push_bit shift a_mant) rm fl)"

definition normalize2_sf ::
  "bool \<Rightarrow> int \<Rightarrow> 'f::len word \<Rightarrow> 'f word \<Rightarrow> RoundingModeEnum \<Rightarrow> u32 \<Rightarrow> 'f word \<times> u32" where
  "normalize2_sf a_sign a_exp a_mant1 a_mant0 rm fl =
     (let l = (if a_mant1 = 0 then LENGTH('f) + builtin_clz a_mant0 else builtin_clz a_mant1);
          shift = l - (LENGTH('f) - 1 - IMANT_SIZE TYPE('f));
          a_mant1' = (if shift = 0 then a_mant1 OR of_bool (a_mant0 \<noteq> 0)
                      else if shift < LENGTH('f) then
                        push_bit shift a_mant1 OR drop_bit (LENGTH('f) - shift) a_mant0 OR
                        of_bool (push_bit shift a_mant0 \<noteq> 0)
                      else push_bit (shift - LENGTH('f)) a_mant0)
      in round_pack_sf a_sign (a_exp - int shift) a_mant1' rm fl)"

definition normalize_subnormal_sf :: "'f::len word \<Rightarrow> int \<times> 'f word" where
  "normalize_subnormal_sf a_mant =
     (let shift = int (MANT_SIZE TYPE('f)) - (int LENGTH('f) - 1 - int (builtin_clz a_mant))
      in (1 - shift, push_bit (nat shift) a_mant))"

text \<open>The exponent and mantissa of a nonzero operand, as \<open>mul_sf\<close>, \<open>div_sf\<close>, \<open>fma_sf\<close> and \<open>sqrt_sf\<close>
  prepare it.\<close>

definition norm_operand :: "'f::len word \<Rightarrow> int \<times> 'f word" where
  "norm_operand a =
     (if sf_exp a = 0 then normalize_subnormal_sf (sf_mant a)
      else (sf_exp a, sf_mant a OR push_bit (MANT_SIZE TYPE('f)) 1))"

definition is_zero_sf :: "'f::len word \<Rightarrow> bool" where
  "is_zero_sf a \<longleftrightarrow> sf_exp a = 0 \<and> sf_mant a = 0"

section \<open>Addition\<close>

text \<open>The finite case, operands ordered by magnitude: sign, exponent and mantissa to normalize.\<close>

definition add_finite :: "'f::len word \<Rightarrow> 'f word \<Rightarrow> RoundingModeEnum \<Rightarrow> bool \<times> int \<times> 'f word" where
  "add_finite a b rm =
     (let a_mant = push_bit 3 (sf_mant a); b_mant = push_bit 3 (sf_mant b);
          hidden = push_bit (MANT_SIZE TYPE('f) + 3) 1;
          a_exp = (if sf_exp a = 0 then 1 else sf_exp a);
          a_mant = (if sf_exp a = 0 then a_mant else a_mant OR hidden);
          b_exp = (if sf_exp b = 0 then 1 else sf_exp b);
          b_mant = (if sf_exp b = 0 then b_mant else b_mant OR hidden);
          b_mant = rshift_rnd b_mant (nat (a_exp - b_exp));
          r_exp = a_exp + int (RND_SIZE TYPE('f) - 3)
      in if sf_sign a = sf_sign b then (sf_sign a, r_exp, a_mant + b_mant)
         else
           let r_mant = a_mant - b_mant
           in (if r_mant = 0 then rm = RM_RDN else sf_sign a, r_exp, r_mant))"

definition add_sf :: "'f::len word \<Rightarrow> 'f word \<Rightarrow> RoundingModeEnum \<Rightarrow> u32 \<Rightarrow> 'f word \<times> u32" where
  "add_sf a0 b0 rm fl =
     (let (a, b) = (if a0 AND NOT SIGN_MASK < b0 AND NOT SIGN_MASK then (b0, a0) else (a0, b0)) in
      if sf_exp a = EXP_MASK TYPE('f) then
        if sf_mant a \<noteq> 0 then
          (F_QNAN, if sf_mant a AND QNAN_MASK = 0 \<or> issignan_sf b then fl OR FFLAG_INVALID_OP else fl)
        else if sf_exp b = EXP_MASK TYPE('f) \<and> sf_sign a \<noteq> sf_sign b then
          (F_QNAN, fl OR FFLAG_INVALID_OP)
        else (a, fl)
      else
        (case add_finite a b rm of (r_sign, r_exp, r_mant) \<Rightarrow> normalize_sf r_sign r_exp r_mant rm fl))"

definition sub_sf :: "'f::len word \<Rightarrow> 'f word \<Rightarrow> RoundingModeEnum \<Rightarrow> u32 \<Rightarrow> 'f word \<times> u32" where
  "sub_sf a b rm fl = add_sf a (b XOR SIGN_MASK) rm fl"

section \<open>Multiplication\<close>

definition mul_u :: "'f::len word \<Rightarrow> 'f word \<Rightarrow> 'f word \<times> 'f word" where
  "mul_u a b =
     (let r = (ucast a :: 'f bit0 word) * ucast b
      in (ucast (drop_bit LENGTH('f) r), ucast r))"

definition nan_result :: "bool \<Rightarrow> u32 \<Rightarrow> 'f::len word \<times> u32" where
  "nan_result signalling fl = (F_QNAN, if signalling then fl OR FFLAG_INVALID_OP else fl)"

definition mul_finite :: "'f::len word \<Rightarrow> 'f word \<Rightarrow> int \<times> 'f word" where
  "mul_finite a b =
     (case (norm_operand a, norm_operand b) of ((a_exp, a_mant), (b_exp, b_mant)) \<Rightarrow>
        let r_exp = a_exp + b_exp - 2 ^ (EXP_SIZE TYPE('f) - 1) + 2;
            (hi, lo) = mul_u (push_bit (RND_SIZE TYPE('f)) a_mant) (push_bit (RND_SIZE TYPE('f) + 1) b_mant)
        in (r_exp, hi OR of_bool (lo \<noteq> 0)))"

definition mul_sf :: "'f::len word \<Rightarrow> 'f word \<Rightarrow> RoundingModeEnum \<Rightarrow> u32 \<Rightarrow> 'f word \<times> u32" where
  "mul_sf a b rm fl =
     (let r_sign = (sf_sign a \<noteq> sf_sign b); inf = EXP_MASK TYPE('f) in
      if sf_exp a = inf \<or> sf_exp b = inf then
        if isnan_sf a \<or> isnan_sf b then nan_result (issignan_sf a \<or> issignan_sf b) fl
        else if (sf_exp a = inf \<and> is_zero_sf b) \<or> (sf_exp b = inf \<and> is_zero_sf a)
        then (F_QNAN, fl OR FFLAG_INVALID_OP)
        else (pack_sf r_sign inf 0, fl)
      else if is_zero_sf a \<or> is_zero_sf b then (pack_sf r_sign 0 0, fl)
      else (case mul_finite a b of (r_exp, r_mant) \<Rightarrow> normalize_sf r_sign r_exp r_mant rm fl))"

section \<open>Fused multiply-add\<close>

definition fma_product :: "'f::len word \<Rightarrow> 'f word \<Rightarrow> int \<times> 'f word \<times> 'f word" where
  "fma_product a b =
     (case (norm_operand a, norm_operand b) of ((a_exp, a_mant), (b_exp, b_mant)) \<Rightarrow>
        let r_exp = a_exp + b_exp - 2 ^ (EXP_SIZE TYPE('f) - 1) + 3;
            (hi, lo) = mul_u (push_bit (RND_SIZE TYPE('f)) a_mant) (push_bit (RND_SIZE TYPE('f)) b_mant)
        in if hi < push_bit (LENGTH('f) - 3) 1
           then (r_exp - 1, push_bit 1 hi OR drop_bit (LENGTH('f) - 1) lo, push_bit 1 lo)
           else (r_exp, hi, lo))"

text \<open>The right shift of the smaller addend, a double word, keeping a sticky bit.\<close>

definition fma_shift :: "int \<Rightarrow> 'f::len word \<Rightarrow> 'f word \<Rightarrow> 'f word \<times> 'f word" where
  "fma_shift shift c1 c0 =
     (if shift \<ge> 2 * int LENGTH('f) then (0, of_bool (c0 OR c1 \<noteq> 0))
      else if shift \<ge> int LENGTH('f) + 1 then (0, rshift_rnd c1 (nat shift - LENGTH('f)))
      else if shift = int LENGTH('f) then (0, c1 OR of_bool (c0 \<noteq> 0))
      else if shift \<noteq> 0 then
        let d = nat shift; msk = push_bit d 1 - 1
        in (drop_bit d c1,
            push_bit (LENGTH('f) - d) c1 OR drop_bit d c0 OR of_bool (c0 AND msk \<noteq> 0))
      else (c1, c0))"

text \<open>Addition or subtraction of the aligned double words.\<close>

definition fma_add ::
  "RoundingModeEnum \<Rightarrow> bool \<Rightarrow> 'f::len word \<Rightarrow> 'f word \<Rightarrow> bool \<Rightarrow> 'f word \<Rightarrow> 'f word \<Rightarrow>
   bool \<times> 'f word \<times> 'f word" where
  "fma_add rm r_sign r1 r0 c_sign c1 c0 =
     (if r_sign = c_sign then
        let r0' = r0 + c0 in (r_sign, r1 + (c1 + of_bool (r0' < c0)), r0')
      else
        let r0' = r0 - c0; r1' = r1 - c1 - of_bool (r0' > r0)
        in (if r0' OR r1' = 0 then rm = RM_RDN else r_sign, r1', r0'))"

definition fma_finite ::
  "'f::len word \<Rightarrow> 'f word \<Rightarrow> 'f word \<Rightarrow> RoundingModeEnum \<Rightarrow> u32 \<Rightarrow> 'f word \<times> u32" where
  "fma_finite a b c rm fl =
     (let r_sign = (sf_sign a \<noteq> sf_sign b) in
      case fma_product a b of (r_exp, r1, r0) \<Rightarrow>
        if is_zero_sf c then normalize_sf r_sign r_exp (r1 OR of_bool (r0 \<noteq> 0)) rm fl
        else
          (case norm_operand c of (c_exp, c_mant) \<Rightarrow>
             let c_exp = c_exp + 1;
                 c1 = push_bit (RND_SIZE TYPE('f) - 1) c_mant;
                 (r_sign, r_exp, r1, r0, c_sign, c_exp, c1, c0) =
                   (if \<not> (r_exp > c_exp \<or> (r_exp = c_exp \<and> r1 \<ge> c1))
                    then (sf_sign c, c_exp, c1, 0, r_sign, r_exp, r1, r0)
                    else (r_sign, r_exp, r1, r0, sf_sign c, c_exp, c1, 0));
                 (c1, c0) = fma_shift (r_exp - c_exp) c1 c0;
                 (r_sign, r1, r0) = fma_add rm r_sign r1 r0 c_sign c1 c0
             in normalize2_sf r_sign r_exp r1 r0 rm fl))"

definition fma_sf ::
  "'f::len word \<Rightarrow> 'f word \<Rightarrow> 'f word \<Rightarrow> RoundingModeEnum \<Rightarrow> u32 \<Rightarrow> 'f word \<times> u32" where
  "fma_sf a b c rm fl =
     (let r_sign = (sf_sign a \<noteq> sf_sign b); inf = EXP_MASK TYPE('f) in
      if sf_exp a = inf \<or> sf_exp b = inf \<or> sf_exp c = inf then
        if isnan_sf a \<or> isnan_sf b \<or> isnan_sf c
        then nan_result (issignan_sf a \<or> issignan_sf b \<or> issignan_sf c) fl
        else if (sf_exp a = inf \<and> is_zero_sf b) \<or> (sf_exp b = inf \<and> is_zero_sf a) \<or>
                ((sf_exp a = inf \<or> sf_exp b = inf) \<and> sf_exp c = inf \<and> r_sign \<noteq> sf_sign c)
        then (F_QNAN, fl OR FFLAG_INVALID_OP)
        else if sf_exp c = inf then (pack_sf (sf_sign c) inf 0, fl)
        else (pack_sf r_sign inf 0, fl)
      else if is_zero_sf a \<or> is_zero_sf b then
        if is_zero_sf c
        then (pack_sf (if sf_sign c \<noteq> r_sign then rm = RM_RDN else r_sign) 0 0, fl)
        else (c, fl)
      else fma_finite a b c rm fl)"

section \<open>Division\<close>

definition divrem_u :: "'f::len word \<Rightarrow> 'f word \<Rightarrow> 'f word \<Rightarrow> 'f word \<times> 'f word" where
  "divrem_u ah al b =
     (let a = push_bit LENGTH('f) (ucast ah :: 'f bit0 word) OR ucast al
      in (ucast (a div ucast b), ucast (a mod ucast b)))"

text \<open>The bit-serial variant, used where no double-width type exists: quotient and remainder.\<close>

primrec divrem_loop :: "nat \<Rightarrow> 'f::len word \<Rightarrow> 'f word \<Rightarrow> 'f word \<Rightarrow> 'f word \<times> 'f word" where
  "divrem_loop 0 a1 a0 b = (a0, a1)"
| "divrem_loop (Suc n) a1 a0 b =
     (let ab = bit a1 (LENGTH('f) - 1);
          a1 = push_bit 1 a1 OR drop_bit (LENGTH('f) - 1) a0
      in if ab \<or> a1 \<ge> b then divrem_loop n (a1 - b) (push_bit 1 a0 OR 1) b
         else divrem_loop n a1 (push_bit 1 a0 OR 0) b)"

definition divrem_u_serial :: "'f::len word \<Rightarrow> 'f word \<Rightarrow> 'f word \<Rightarrow> 'f word \<times> 'f word" where
  "divrem_u_serial a1 a0 b = divrem_loop LENGTH('f) a1 a0 b"

definition div_finite :: "'f::len word \<Rightarrow> 'f word \<Rightarrow> int \<times> 'f word" where
  "div_finite a b =
     (case (norm_operand a, norm_operand b) of ((a_exp, a_mant), (b_exp, b_mant)) \<Rightarrow>
        let r_exp = a_exp - b_exp + 2 ^ (EXP_SIZE TYPE('f) - 1) - 1;
            (q, r) = divrem_u a_mant 0 (push_bit 2 b_mant)
        in (r_exp, if r \<noteq> 0 then q OR 1 else q))"

definition div_sf :: "'f::len word \<Rightarrow> 'f word \<Rightarrow> RoundingModeEnum \<Rightarrow> u32 \<Rightarrow> 'f word \<times> u32" where
  "div_sf a b rm fl =
     (let r_sign = (sf_sign a \<noteq> sf_sign b); inf = EXP_MASK TYPE('f) in
      if sf_exp a = inf then
        if sf_mant a \<noteq> 0 \<or> isnan_sf b then nan_result (issignan_sf a \<or> issignan_sf b) fl
        else if sf_exp b = inf then (F_QNAN, fl OR FFLAG_INVALID_OP)
        else (pack_sf r_sign inf 0, fl)
      else if sf_exp b = inf then
        if sf_mant b \<noteq> 0 then nan_result (issignan_sf a \<or> issignan_sf b) fl
        else (pack_sf r_sign 0 0, fl)
      else if is_zero_sf b then
        if is_zero_sf a then (F_QNAN, fl OR FFLAG_INVALID_OP)
        else (pack_sf r_sign inf 0, fl OR FFLAG_DIVIDE_ZERO)
      else if is_zero_sf a then (pack_sf r_sign 0 0, fl)
      else (case div_finite a b of (r_exp, r_mant) \<Rightarrow> normalize_sf r_sign r_exp r_mant rm fl))"

end
