(* ===== verification/Softfp_Ops.thy ===== *)
theory Softfp_Ops
  imports Softfp
begin

text \<open>
  The rest of \<open>softfp_template.h\<close> and \<open>softfp_template_icvt.h\<close>: square root, minimum and maximum,
  comparisons, classification and conversions.
\<close>

section \<open>Square root\<close>

text \<open>
  The Newton iteration on \<open>F_ULONG\<close> (\<open>'l word\<close>). Each round that does not stop makes the estimate
  smaller.
\<close>

function sqrt_loop :: "'l::len word \<Rightarrow> 'l word \<Rightarrow> 'l word" where
  "sqrt_loop a s = (let u = (a div s + s) div 2 in if u \<ge> s then s else sqrt_loop a u)"
  by pat_completeness auto
termination
  by (relation "measure (\<lambda>(a, s). unat s)") (auto simp: word_less_nat_alt not_le)

declare sqrt_loop.simps [simp del]

definition sqrtrem_u :: "'f::len word \<Rightarrow> 'f word \<Rightarrow> bool \<times> 'f word" where
  "sqrtrem_u ah al =
     (if ah = 0 \<and> al = 0 then (False, 0)
      else
        let l = (if ah \<noteq> 0 then 2 * LENGTH('f) - builtin_clz (ah - 1)
                 else LENGTH('f) - builtin_clz (al - 1));
            a = push_bit LENGTH('f) (ucast ah :: 'f bit0 word) OR ucast al;
            s = sqrt_loop a (push_bit ((l + 1) div 2) 1)
        in (a - s * s \<noteq> 0, ucast s))"

definition sqrt_finite :: "'f::len word \<Rightarrow> int \<times> 'f word" where
  "sqrt_finite a =
     (case norm_operand a of (a_exp, a_mant) \<Rightarrow>
        let bias = EXP_MASK TYPE('f) div 2;
            a_exp = a_exp - bias;
            (a_exp, a_mant) = (if a_exp mod 2 \<noteq> 0 then (a_exp - 1, push_bit 1 a_mant)
                               else (a_exp, a_mant));
            a_exp = a_exp div 2 + bias;
            a_mant = push_bit (LENGTH('f) - 4 - MANT_SIZE TYPE('f)) a_mant;
            (inexact, r) = sqrtrem_u a_mant 0
        in (a_exp, if inexact then r OR 1 else r))"

definition sqrt_sf :: "'f::len word \<Rightarrow> RoundingModeEnum \<Rightarrow> u32 \<Rightarrow> 'f word \<times> u32" where
  "sqrt_sf a rm fl =
     (if sf_exp a = EXP_MASK TYPE('f) then
        if sf_mant a \<noteq> 0 then nan_result (issignan_sf a) fl
        else if sf_sign a then (F_QNAN, fl OR FFLAG_INVALID_OP)
        else (a, fl)
      else if sf_sign a then
        if is_zero_sf a then (a, fl) else (F_QNAN, fl OR FFLAG_INVALID_OP)
      else if is_zero_sf a then (pack_sf False 0 0, fl)
      else (case sqrt_finite a of (r_exp, r_mant) \<Rightarrow> normalize_sf (sf_sign a) r_exp r_mant rm fl))"

section \<open>Minimum, maximum and comparisons\<close>

definition min_max_nan_sf ::
  "'f::len word \<Rightarrow> 'f word \<Rightarrow> u32 \<Rightarrow> SoftFPMinMaxTypeEnum \<Rightarrow> 'f word \<times> u32" where
  "min_max_nan_sf a b fl minmax_type =
     (let sig = issignan_sf a \<or> issignan_sf b;
          fl = (if sig then fl OR FFLAG_INVALID_OP else fl)
      in if sig \<and> minmax_type = FMINMAX_IEEE754_2008 then (F_QNAN, fl)
         else if minmax_type = FMINMAX_PROP then (F_QNAN, fl)
         else if isnan_sf a then if isnan_sf b then (F_QNAN, fl) else (b, fl)
         else (a, fl))"

definition min_sf ::
  "'f::len word \<Rightarrow> 'f word \<Rightarrow> u32 \<Rightarrow> SoftFPMinMaxTypeEnum \<Rightarrow> 'f word \<times> u32" where
  "min_sf a b fl minmax_type =
     (if isnan_sf a \<or> isnan_sf b then min_max_nan_sf a b fl minmax_type
      else if sf_sign a \<noteq> sf_sign b then (if sf_sign a then a else b, fl)
      else (if (a < b) \<noteq> sf_sign a then a else b, fl))"

definition max_sf ::
  "'f::len word \<Rightarrow> 'f word \<Rightarrow> u32 \<Rightarrow> SoftFPMinMaxTypeEnum \<Rightarrow> 'f word \<times> u32" where
  "max_sf a b fl minmax_type =
     (if isnan_sf a \<or> isnan_sf b then min_max_nan_sf a b fl minmax_type
      else if sf_sign a \<noteq> sf_sign b then (if sf_sign a then b else a, fl)
      else (if (a < b) \<noteq> sf_sign a then b else a, fl))"

definition eq_quiet_sf :: "'f::len word \<Rightarrow> 'f word \<Rightarrow> u32 \<Rightarrow> bool \<times> u32" where
  "eq_quiet_sf a b fl =
     (if isnan_sf a \<or> isnan_sf b then
        (False, if issignan_sf a \<or> issignan_sf b then fl OR FFLAG_INVALID_OP else fl)
      else if push_bit 1 (a OR b) = 0 then (True, fl)
      else (a = b, fl))"

definition le_sf :: "'f::len word \<Rightarrow> 'f word \<Rightarrow> u32 \<Rightarrow> bool \<times> u32" where
  "le_sf a b fl =
     (if isnan_sf a \<or> isnan_sf b then (False, fl OR FFLAG_INVALID_OP)
      else if sf_sign a \<noteq> sf_sign b then (sf_sign a \<or> push_bit 1 (a OR b) = 0, fl)
      else (if sf_sign a then a \<ge> b else a \<le> b, fl))"

definition lt_sf :: "'f::len word \<Rightarrow> 'f word \<Rightarrow> u32 \<Rightarrow> bool \<times> u32" where
  "lt_sf a b fl =
     (if isnan_sf a \<or> isnan_sf b then (False, fl OR FFLAG_INVALID_OP)
      else if sf_sign a \<noteq> sf_sign b then (sf_sign a \<and> push_bit 1 (a OR b) \<noteq> 0, fl)
      else (if sf_sign a then a > b else a < b, fl))"

section \<open>Classification\<close>

definition FCLASS_NINF :: u32 where [c_macro]: "FCLASS_NINF = 0x1"
definition FCLASS_NNORMAL :: u32 where [c_macro]: "FCLASS_NNORMAL = 0x2"
definition FCLASS_NSUBNORMAL :: u32 where [c_macro]: "FCLASS_NSUBNORMAL = 0x4"
definition FCLASS_NZERO :: u32 where [c_macro]: "FCLASS_NZERO = 0x8"
definition FCLASS_PZERO :: u32 where [c_macro]: "FCLASS_PZERO = 0x10"
definition FCLASS_PSUBNORMAL :: u32 where [c_macro]: "FCLASS_PSUBNORMAL = 0x20"
definition FCLASS_PNORMAL :: u32 where [c_macro]: "FCLASS_PNORMAL = 0x40"
definition FCLASS_PINF :: u32 where [c_macro]: "FCLASS_PINF = 0x80"
definition FCLASS_SNAN :: u32 where [c_macro]: "FCLASS_SNAN = 0x100"
definition FCLASS_QNAN :: u32 where [c_macro]: "FCLASS_QNAN = 0x200"

definition fclass_sf :: "'f::len word \<Rightarrow> u32" where
  "fclass_sf a =
     (if sf_exp a = EXP_MASK TYPE('f) then
        if sf_mant a \<noteq> 0 then if sf_mant a AND QNAN_MASK \<noteq> 0 then FCLASS_QNAN else FCLASS_SNAN
        else if sf_sign a then FCLASS_NINF else FCLASS_PINF
      else if sf_exp a = 0 then
        if sf_mant a = 0 then if sf_sign a then FCLASS_NZERO else FCLASS_PZERO
        else if sf_sign a then FCLASS_NSUBNORMAL else FCLASS_PSUBNORMAL
      else if sf_sign a then FCLASS_NNORMAL else FCLASS_PNORMAL)"

section \<open>Conversions between formats\<close>

text \<open>\<open>cvt_sf32_sf\<close> and \<open>cvt_sf64_sf\<close>: from the narrower format \<open>'g\<close> to \<open>'f\<close>.\<close>

definition cvt_sf_widen :: "'g::len word \<Rightarrow> u32 \<Rightarrow> 'f::len word \<times> u32" where
  "cvt_sf_widen a fl =
     (if sf_exp a = EXP_MASK TYPE('g) then
        if sf_mant a \<noteq> 0 then nan_result (issignan_sf a) fl
        else (pack_sf (sf_sign a) (EXP_MASK TYPE('f)) 0, fl)
      else if is_zero_sf a then (pack_sf (sf_sign a) 0 0, fl)
      else
        let (a_exp, a_mant) = (if sf_exp a = 0 then normalize_subnormal_sf (sf_mant a)
                               else (sf_exp a, sf_mant a));
            a_exp = a_exp - EXP_MASK TYPE('g) div 2 + EXP_MASK TYPE('f) div 2;
            r_mant = push_bit (MANT_SIZE TYPE('f) - MANT_SIZE TYPE('g)) (ucast a_mant)
        in (pack_sf (sf_sign a) a_exp r_mant, fl))"

text \<open>
  \<open>cvt_sf64_sf32\<close> and \<open>cvt_sf128_sf64\<close>: to the narrower format \<open>'g\<close>. As in C, a subnormal operand
  takes the exponent of \<open>normalize_subnormal_sf\<close> but keeps its mantissa.
\<close>

definition cvt_sf_narrow :: "'f::len word \<Rightarrow> RoundingModeEnum \<Rightarrow> u32 \<Rightarrow> 'g::len word \<times> u32" where
  "cvt_sf_narrow a rm fl =
     (if sf_exp a = EXP_MASK TYPE('f) then
        if sf_mant a \<noteq> 0 then nan_result (issignan_sf a) fl
        else (pack_sf (sf_sign a) (EXP_MASK TYPE('g)) 0, fl)
      else if is_zero_sf a then (pack_sf (sf_sign a) 0 0, fl)
      else
        let (a_exp, a_mant) = (if sf_exp a = 0 then (fst (normalize_subnormal_sf (sf_mant a)), sf_mant a)
                               else (sf_exp a, sf_mant a OR push_bit (MANT_SIZE TYPE('f)) 1));
            a_exp = a_exp - EXP_MASK TYPE('f) div 2 + EXP_MASK TYPE('g) div 2;
            r_mant = (ucast (rshift_rnd a_mant (MANT_SIZE TYPE('f) - (LENGTH('g) - 2))) :: 'g word)
        in normalize_sf (sf_sign a) a_exp r_mant rm fl)"

section \<open>Conversions to and from integers\<close>

definition internal_cvt_sf_i ::
  "bool \<Rightarrow> 'f::len word \<Rightarrow> RoundingModeEnum \<Rightarrow> u32 \<Rightarrow> 'i::len word \<times> u32" where
  "internal_cvt_sf_i is_unsigned a rm fl =
     (let a_sign = (sf_sign a \<and> \<not> isnan_sf a);
          a_mant = (if sf_exp a = 0 then sf_mant a else sf_mant a OR push_bit (MANT_SIZE TYPE('f)) 1);
          a_mant = push_bit (RND_SIZE TYPE('f)) a_mant;
          a_exp = (if sf_exp a = 0 then 1 else sf_exp a) - EXP_MASK TYPE('f) div 2 -
                  int (MANT_SIZE TYPE('f));
          r_max = (if is_unsigned then of_bool a_sign - 1
                   else push_bit (LENGTH('i) - 1) 1 - of_bool (\<not> a_sign));
          overflow = (r_max, fl OR FFLAG_INVALID_OP);
          fin = (\<lambda>r. if a_sign then - r else r)
      in if a_exp \<ge> 0 then
           if a_exp \<le> int LENGTH('i) - 1 - int (MANT_SIZE TYPE('f)) then
             let r = push_bit (nat a_exp) (ucast (drop_bit (RND_SIZE TYPE('f)) a_mant))
             in if r > r_max then overflow else (fin r, fl)
           else overflow
         else
           let a_mant = rshift_rnd a_mant (nat (- a_exp));
               addend = round_addend (RND_SIZE TYPE('f)) a_sign rm;
               rnd_bits = a_mant AND (push_bit (RND_SIZE TYPE('f)) 1 - 1);
               a_mant = round_mant rm addend a_mant
           in if uint a_mant > uint r_max then overflow
              else (fin (ucast a_mant), if rnd_bits \<noteq> 0 then fl OR FFLAG_INEXACT else fl))"

definition cvt_sf_i :: "'f::len word \<Rightarrow> RoundingModeEnum \<Rightarrow> u32 \<Rightarrow> 'i::len word \<times> u32" where
  "cvt_sf_i a rm fl = internal_cvt_sf_i False a rm fl"

definition cvt_sf_u :: "'f::len word \<Rightarrow> RoundingModeEnum \<Rightarrow> u32 \<Rightarrow> 'i::len word \<times> u32" where
  "cvt_sf_u a rm fl = internal_cvt_sf_i True a rm fl"

definition internal_cvt_i_sf ::
  "bool \<Rightarrow> 'i::len word \<Rightarrow> RoundingModeEnum \<Rightarrow> u32 \<Rightarrow> 'f::len word \<times> u32" where
  "internal_cvt_i_sf is_unsigned a rm fl =
     (let a_sign = (\<not> is_unsigned \<and> a <s 0);
          r = (if a_sign then - a else a);
          a_exp = EXP_MASK TYPE('f) div 2 + int LENGTH('f) - 2;
          l = int LENGTH('i) - int (builtin_clz r) - (int LENGTH('f) - 1);
          (r, a_exp) = (if l > 0 then
                          let msk = r AND (push_bit (nat l) 1 - 1)
                          in (drop_bit (nat l) r OR of_bool (r AND msk \<noteq> 0), a_exp + l)
                        else (r, a_exp))
      in normalize_sf a_sign a_exp (ucast r) rm fl)"

definition cvt_i_sf :: "'i::len word \<Rightarrow> RoundingModeEnum \<Rightarrow> u32 \<Rightarrow> 'f::len word \<times> u32" where
  "cvt_i_sf a rm fl = internal_cvt_i_sf False a rm fl"

definition cvt_u_sf :: "'i::len word \<Rightarrow> RoundingModeEnum \<Rightarrow> u32 \<Rightarrow> 'f::len word \<times> u32" where
  "cvt_u_sf a rm fl = internal_cvt_i_sf True a rm fl"

end
