(* ===== verification/Exec_Fp.thy ===== *)
theory Exec_Fp
  imports Exec Softfp_Ops
begin

text \<open>
  Floating-point instructions: opcodes 0x07, 0x27, 0x43 to 0x4f and 0x53 of
  \<open>riscv_cpu_interp_x64\<close>, the last from \<open>riscv_cpu_fp_template.h\<close>, which C includes once for 32 and
  once for 64 bits. Single-precision values live in the low half of a 64-bit register whose high
  half is all ones (\<open>F32_HIGH\<close>); \<open>F64_HIGH\<close> is 0 and is not written.
\<close>

definition F32_HIGH :: u64 where [simp, c_macro]: "F32_HIGH = 0xffffffff00000000"

text \<open>
  \<open>FSIGN_MASK32\<close> is the \<open>int\<close> constant \<open>1 << 31\<close>: used with a 64-bit register it is sign-extended.
\<close>

definition FSIGN_MASK32 :: u32 where [simp, c_macro]: "FSIGN_MASK32 = 0x80000000"
definition FSIGN_MASK64 :: u64 where [simp, c_macro]: "FSIGN_MASK64 = 0x8000000000000000"

section \<open>Register access\<close>

text \<open>\<open>READ_FP32\<close> and \<open>F_READ\<close>: the 64-bit value of the macro; calls truncate it to 32 bits.\<close>

definition read_fp32 :: "nat \<Rightarrow> 'p Interp \<Rightarrow> u64" where
  "read_fp32 r s = (if fp_reg s r AND F32_HIGH = F32_HIGH then fp_reg s r else 0x7fc00000)"

definition read_sf32 :: "nat \<Rightarrow> 'p Interp \<Rightarrow> u32" where
  "read_sf32 r s = ucast (read_fp32 r s)"

definition set_fp32 :: "nat \<Rightarrow> u32 \<times> u32 \<Rightarrow> 'p Interp \<Rightarrow> 'p Interp" where
  "set_fp32 r v s = (set_fp r (ucast (fst v) OR F32_HIGH) s)\<lparr>fflags := snd v\<rparr>"

definition set_fp64 :: "nat \<Rightarrow> u64 \<times> u32 \<Rightarrow> 'p Interp \<Rightarrow> 'p Interp" where
  "set_fp64 r v s = (set_fp r (fst v) s)\<lparr>fflags := snd v\<rparr>"

definition fp_done :: "'p Interp \<Rightarrow> outcome \<times> 'p Interp" where
  "fp_done s = next_insn 4 (s\<lparr>fs := 3\<rparr>)"

definition rm_of :: "u32 \<Rightarrow> RoundingModeEnum" where
  "rm_of rm = (if rm = 0 then RM_RNE else if rm = 1 then RM_RTZ else if rm = 2 then RM_RDN
               else if rm = 3 then RM_RUP else RM_RMM)"

text \<open>\<open>rm = get_insn_rm(s, rm); if (rm < 0) goto illegal_insn;\<close>\<close>

definition with_rm ::
  "u32 \<Rightarrow> 'p Interp \<Rightarrow> (RoundingModeEnum \<Rightarrow> outcome \<times> 'p Interp) \<Rightarrow> outcome \<times> 'p Interp" where
  "with_rm rm s k = (case get_insn_rm s rm of None \<Rightarrow> illegal_insn s | Some rm \<Rightarrow> k (rm_of rm))"

section \<open>Loads and stores\<close>

definition exec_fp_load :: "'p platform_ops \<Rightarrow> u32 \<Rightarrow> 'p Interp \<Rightarrow> outcome \<times> 'p Interp" where
  "exec_fp_load ops insn s =
     (let funct3 = f_funct3 insn; addr = reg s (f_rs1 insn) + scast (imm_i insn) in
      if fs s = 0 then illegal_insn s
      else if funct3 = 2 then
        load_insn ops S32 addr s (\<lambda>v s. fp_done (set_fp (f_rd insn) (v OR F32_HIGH) s))
      else if funct3 = 3 then load_insn ops S64 addr s (\<lambda>v s. fp_done (set_fp (f_rd insn) v s))
      else illegal_insn s)"

definition exec_fp_store :: "'p platform_ops \<Rightarrow> u32 \<Rightarrow> 'p Interp \<Rightarrow> outcome \<times> 'p Interp" where
  "exec_fp_store ops insn s =
     (let funct3 = f_funct3 insn; addr = reg s (f_rs1 insn) + scast (imm_s insn);
          val = fp_reg s (f_rs2 insn)
      in if fs s = 0 then illegal_insn s
         else if funct3 = 2 then store_insn ops S32 addr val 4 s (next_insn 4)
         else if funct3 = 3 then store_insn ops S64 addr val 4 s (next_insn 4)
         else illegal_insn s)"

section \<open>Fused multiply-add\<close>

text \<open>
  Opcodes 0x43 (fmadd), 0x47 (fmsub), 0x4b (fnmsub) and 0x4f (fnmadd) differ only in the operands
  whose sign is flipped: \<open>neg_a\<close> for \<open>rs1\<close>, \<open>neg_c\<close> for \<open>rs3\<close>.
\<close>

definition flip :: "bool \<Rightarrow> 'f::len word \<Rightarrow> 'f word \<Rightarrow> 'f word" where
  "flip b msk v = (if b then v XOR msk else v)"

definition exec_fma :: "bool \<Rightarrow> bool \<Rightarrow> u32 \<Rightarrow> 'p Interp \<Rightarrow> outcome \<times> 'p Interp" where
  "exec_fma neg_a neg_c insn s =
     (let rd = f_rd insn; rs1 = f_rs1 insn; rs2 = f_rs2 insn; rs3 = f_rs3 insn;
          funct3 = drop_bit 25 insn AND 3
      in if fs s = 0 then illegal_insn s
         else with_rm (f_funct3 insn) s (\<lambda>rm.
           if funct3 = 0 then
             fp_done (set_fp32 rd (fma_sf (flip neg_a FSIGN_MASK32 (read_sf32 rs1 s)) (read_sf32 rs2 s)
                                     (flip neg_c FSIGN_MASK32 (read_sf32 rs3 s)) rm (fflags s)) s)
           else if funct3 = 1 then
             fp_done (set_fp64 rd (fma_sf (flip neg_a FSIGN_MASK64 (fp_reg s rs1)) (fp_reg s rs2)
                                     (flip neg_c FSIGN_MASK64 (fp_reg s rs3)) rm (fflags s)) s)
           else illegal_insn s))"

definition exec_fmadd :: "u32 \<Rightarrow> 'p Interp \<Rightarrow> outcome \<times> 'p Interp" where
  "exec_fmadd = exec_fma False False"
definition exec_fmsub :: "u32 \<Rightarrow> 'p Interp \<Rightarrow> outcome \<times> 'p Interp" where
  "exec_fmsub = exec_fma False True"
definition exec_fnmsub :: "u32 \<Rightarrow> 'p Interp \<Rightarrow> outcome \<times> 'p Interp" where
  "exec_fnmsub = exec_fma True False"
definition exec_fnmadd :: "u32 \<Rightarrow> 'p Interp \<Rightarrow> outcome \<times> 'p Interp" where
  "exec_fnmadd = exec_fma True True"

section \<open>Operations on registers, opcode 0x53\<close>

text \<open>
  The C code includes one set of cases per width; \<open>exec_fp_template\<close> is that set, with what the two
  inclusions differ in as parameters: how an operand is read and a result (value and flags) written
  back, the sign mask, the conversion between formats and the two register moves.
\<close>

definition arith_sf ::
  "u32 \<Rightarrow> 'f::len word \<Rightarrow> 'f word \<Rightarrow> RoundingModeEnum \<Rightarrow> u32 \<Rightarrow> 'f word \<times> u32" where
  "arith_sf op a b rm fl =
     (if op = 0x00 then add_sf a b rm fl
      else if op = 0x01 then sub_sf a b rm fl
      else if op = 0x02 then mul_sf a b rm fl
      else if op = 0x03 then div_sf a b rm fl
      else sqrt_sf a rm fl)"

text \<open>\<open>fsgnj\<close>, \<open>fsgnjn\<close> and \<open>fsgnjx\<close> on 64-bit registers; \<open>msk\<close> is the promoted sign mask.\<close>

definition sign_inject :: "u32 \<Rightarrow> u64 \<Rightarrow> u64 \<Rightarrow> u64 \<Rightarrow> u64 option" where
  "sign_inject rm msk a b =
     (if rm = 0 then Some ((a AND NOT msk) OR (b AND msk))
      else if rm = 1 then Some ((a AND NOT msk) OR ((b AND msk) XOR msk))
      else if rm = 2 then Some (a XOR (b AND msk))
      else None)"

definition minmax_sf :: "u32 \<Rightarrow> 'f::len word \<Rightarrow> 'f word \<Rightarrow> u32 \<Rightarrow> ('f word \<times> u32) option" where
  "minmax_sf rm a b fl =
     (if rm = 0 then Some (min_sf a b fl FMINMAX_IEEE754_201X)
      else if rm = 1 then Some (max_sf a b fl FMINMAX_IEEE754_201X)
      else None)"

definition cmp_sf :: "u32 \<Rightarrow> 'f::len word \<Rightarrow> 'f word \<Rightarrow> u32 \<Rightarrow> (bool \<times> u32) option" where
  "cmp_sf rm a b fl =
     (if rm = 0 then Some (le_sf a b fl)
      else if rm = 1 then Some (lt_sf a b fl)
      else if rm = 2 then Some (eq_quiet_sf a b fl)
      else None)"

definition cvt_to_int :: "nat \<Rightarrow> 'f::len word \<Rightarrow> RoundingModeEnum \<Rightarrow> u32 \<Rightarrow> (u64 \<times> u32) option" where
  "cvt_to_int rs2 a rm fl =
     (if rs2 = 0 then (case cvt_sf_i a rm fl of (v :: u32, fl) \<Rightarrow> Some (scast v, fl))
      else if rs2 = 1 then (case cvt_sf_u a rm fl of (v :: u32, fl) \<Rightarrow> Some (scast v, fl))
      else if rs2 = 2 then Some (cvt_sf_i a rm fl)
      else if rs2 = 3 then Some (cvt_sf_u a rm fl)
      else None)"

definition cvt_from_int :: "nat \<Rightarrow> u64 \<Rightarrow> RoundingModeEnum \<Rightarrow> u32 \<Rightarrow> ('f::len word \<times> u32) option" where
  "cvt_from_int rs2 v rm fl =
     (if rs2 = 0 then Some (cvt_i_sf (ucast v :: u32) rm fl)
      else if rs2 = 1 then Some (cvt_u_sf (ucast v :: u32) rm fl)
      else if rs2 = 2 then Some (cvt_i_sf v rm fl)
      else if rs2 = 3 then Some (cvt_u_sf v rm fl)
      else None)"

text \<open>One inclusion of the template: operation \<open>op\<close> (\<open>insn >> 27\<close>) at one width.\<close>

definition exec_fp_template ::
  "(nat \<Rightarrow> 'p Interp \<Rightarrow> 'f::len word) \<Rightarrow> (nat \<Rightarrow> 'f word \<times> u32 \<Rightarrow> 'p Interp \<Rightarrow> 'p Interp) \<Rightarrow>
   (nat \<Rightarrow> 'p Interp \<Rightarrow> u64) \<Rightarrow> u64 \<Rightarrow>
   (RoundingModeEnum \<Rightarrow> u32 \<Rightarrow> 'p Interp \<Rightarrow> outcome \<times> 'p Interp) \<Rightarrow>
   (u64 \<Rightarrow> u64) \<Rightarrow> (u64 \<Rightarrow> u64) \<Rightarrow> u32 \<Rightarrow> u32 \<Rightarrow> 'p Interp \<Rightarrow> outcome \<times> 'p Interp" where
  "exec_fp_template f_read f_write f_read64 sign_msk cvt_float to_x from_x op insn s =
     (let rd = f_rd insn; rs1 = f_rs1 insn; rs2 = f_rs2 insn; rm = f_funct3 insn;
          a = f_read rs1 s; b = f_read rs2 s; fl = fflags s
      in if op = 0x00 \<or> op = 0x01 \<or> op = 0x02 \<or> op = 0x03 then
           with_rm rm s (\<lambda>rm. fp_done (f_write rd (arith_sf op a b rm fl) s))
         else if op = 0x0b then
           with_rm rm s (\<lambda>rm. if rs2 \<noteq> 0 then illegal_insn s
                              else fp_done (f_write rd (arith_sf op a b rm fl) s))
         else if op = 0x04 then
           (case sign_inject rm sign_msk (f_read64 rs1 s) (f_read64 rs2 s) of
              None \<Rightarrow> illegal_insn s
            | Some v \<Rightarrow> fp_done (set_fp rd v s))
         else if op = 0x05 then
           (case minmax_sf rm a b fl of
              None \<Rightarrow> illegal_insn s
            | Some v \<Rightarrow> fp_done (f_write rd v s))
         else if op = 0x18 then
           with_rm rm s (\<lambda>rm. case cvt_to_int rs2 a rm fl of
              None \<Rightarrow> illegal_insn s
            | Some (v, fl) \<Rightarrow> fp_done (set_rd rd v (s\<lparr>fflags := fl\<rparr>)))
         else if op = 0x14 then
           (case cmp_sf rm a b fl of
              None \<Rightarrow> illegal_insn s
            | Some (v, fl) \<Rightarrow> fp_done (set_rd rd (of_bool v) (s\<lparr>fflags := fl\<rparr>)))
         else if op = 0x1a then
           with_rm rm s (\<lambda>rm. case cvt_from_int rs2 (reg s rs1) rm fl of
              None \<Rightarrow> illegal_insn s
            | Some v \<Rightarrow> fp_done (f_write rd v s))
         else if op = 0x08 then with_rm rm s (\<lambda>rm. cvt_float rm insn s)
         else if op = 0x1c then
           if rs2 \<noteq> 0 then illegal_insn s
           else if rm = 0 then next_insn 4 (set_rd rd (to_x (fp_reg s rs1)) s)
           else if rm = 1 then next_insn 4 (set_rd rd (ucast (fclass_sf a)) s)
           else illegal_insn s
         else if op = 0x1e then
           if rs2 \<noteq> 0 \<or> rm \<noteq> 0 then illegal_insn s
           else fp_done (set_fp rd (from_x (reg s rs1)) s)
         else illegal_insn s)"

definition cvt_float_32 :: "RoundingModeEnum \<Rightarrow> u32 \<Rightarrow> 'p Interp \<Rightarrow> outcome \<times> 'p Interp" where
  "cvt_float_32 rm insn s =
     (if f_rs2 insn = 1
      then fp_done (set_fp32 (f_rd insn) (cvt_sf_narrow (fp_reg s (f_rs1 insn)) rm (fflags s)) s)
      else illegal_insn s)"

definition cvt_float_64 :: "RoundingModeEnum \<Rightarrow> u32 \<Rightarrow> 'p Interp \<Rightarrow> outcome \<times> 'p Interp" where
  "cvt_float_64 rm insn s =
     (if f_rs2 insn = 0
      then fp_done (set_fp64 (f_rd insn) (cvt_sf_widen (read_sf32 (f_rs1 insn) s) (fflags s)) s)
      else illegal_insn s)"

definition exec_fp_32 :: "u32 \<Rightarrow> u32 \<Rightarrow> 'p Interp \<Rightarrow> outcome \<times> 'p Interp" where
  "exec_fp_32 = exec_fp_template read_sf32 set_fp32 read_fp32 (scast FSIGN_MASK32) cvt_float_32
     sx32 (\<lambda>v. zx32 v OR F32_HIGH)"

definition exec_fp_64 :: "u32 \<Rightarrow> u32 \<Rightarrow> 'p Interp \<Rightarrow> outcome \<times> 'p Interp" where
  "exec_fp_64 = exec_fp_template (\<lambda>r s. fp_reg s r) set_fp64 (\<lambda>r s. fp_reg s r) FSIGN_MASK64
     cvt_float_64 id id"

definition exec_fp :: "u32 \<Rightarrow> 'p Interp \<Rightarrow> outcome \<times> 'p Interp" where
  "exec_fp insn s =
     (let imm = drop_bit 25 insn in
      if fs s = 0 then illegal_insn s
      else if imm AND 3 = 0 then exec_fp_32 (drop_bit 2 imm) insn s
      else if imm AND 3 = 1 then exec_fp_64 (drop_bit 2 imm) insn s
      else illegal_insn s)"

end
