(* ===== verification/Interp.thy ===== *)
theory Interp
  imports Exec_System Exec_Fp
begin

text \<open>
  The instruction loop \<open>riscv_cpu_interp_x64\<close> (\<open>riscv_cpu_template.h\<close>) and its driver
  \<open>riscv_cpu_interp\<close> (\<open>riscv_cpu.c\<close>). One iteration of the C \<open>for(;;)\<close> is \<open>interp_step\<close>. Both loops
  take fuel; \<open>None\<close> is running out of it.
\<close>

section \<open>Fetch\<close>

text \<open>\<open>FetchEnd\<close>: \<open>goto the_end\<close>; \<open>FetchFault\<close>: \<open>goto mmu_exception\<close>.\<close>

datatype fetch_result = Fetched u32 | FetchEnd | FetchFault

text \<open>After the pointer of \<open>fetch_addr\<close> is known: set up the code window and read the instruction,
  which may continue on the next page.\<close>

definition fetch_window :: "u64 \<Rightarrow> u64 \<Rightarrow> 'p Interp \<Rightarrow> fetch_result \<times> 'p Interp" where
  "fetch_window fetch_addr ptr s =
     (let code_span = (PG_MASK + 1) - (fetch_addr AND PG_MASK);
          s = s\<lparr>code_ptr := ptr, code_end := ptr + code_span - 2,
                code_to_pc_addend := fetch_addr - ptr\<rparr>
      in if code_ptr s \<ge> code_end s then
           let insn = (load_le 2 (hmem s) ptr :: u32) in
           if insn AND 3 = 3 then
             (case target_read_insn_u16 (fetch_addr + 2) s of
                (None, s) \<Rightarrow> (FetchFault, s)
              | (Some insn_high, s) \<Rightarrow> (Fetched (insn OR push_bit 16 (ucast insn_high)), s))
           else (Fetched insn, s)
         else (Fetched (get_insn32 (hmem s) ptr), s))"

text \<open>The translation of \<open>s->pc\<close>, after the cycle and interrupt checks.\<close>

definition fetch_translate :: "'p Interp \<Rightarrow> fetch_result \<times> 'p Interp" where
  "fetch_translate s =
     (case fetch_ptr (pc s) s of
        (None, s) \<Rightarrow> (FetchFault, s)
      | (Some ptr, s) \<Rightarrow> fetch_window (pc s) ptr s)"

definition fetch :: "'p Interp \<Rightarrow> fetch_result \<times> 'p Interp" where
  "fetch s =
     (if code_ptr s \<ge> code_end s then
        let s = s\<lparr>pc := get_pc s\<rparr> in
        if n_cycles s \<le> 0 then (FetchEnd, s)
        else if mip s AND mie s \<noteq> 0 then
          (case raise_interrupt s of
             (True, s) \<Rightarrow> (FetchEnd, s\<lparr>n_cycles := n_cycles s - 1\<rparr>)
           | (False, s) \<Rightarrow> fetch_translate s)
        else fetch_translate s
      else (Fetched (get_insn32 (hmem s) (code_ptr s)), s))"

section \<open>One instruction\<close>

definition exec_insn :: "'p platform_ops \<Rightarrow> u32 \<Rightarrow> 'p Interp \<Rightarrow> outcome \<times> 'p Interp" where
  "exec_insn ops insn s =
     (let opcode = f_opcode insn; quadrant = opcode AND 3 in
      if quadrant = 0 then exec_quadrant0 ops insn s
      else if quadrant = 1 then exec_quadrant1 insn s
      else if quadrant = 2 then exec_quadrant2 ops insn s
      else if opcode = 0x37 then exec_lui insn s
      else if opcode = 0x17 then exec_auipc insn s
      else if opcode = 0x6f then exec_jal insn s
      else if opcode = 0x67 then exec_jalr insn s
      else if opcode = 0x63 then exec_branch insn s
      else if opcode = 0x03 then exec_load ops insn s
      else if opcode = 0x23 then exec_store ops insn s
      else if opcode = 0x13 then exec_op_imm insn s
      else if opcode = 0x1b then exec_op_imm_32 insn s
      else if opcode = 0x33 then exec_op insn s
      else if opcode = 0x3b then exec_op_32 insn s
      else if opcode = 0x73 then exec_system insn s
      else if opcode = 0x0f then exec_misc_mem insn s
      else if opcode = 0x2f then exec_amo ops insn s
      else if opcode = 0x07 then exec_fp_load ops insn s
      else if opcode = 0x27 then exec_fp_store ops insn s
      else if opcode = 0x43 then exec_fmadd insn s
      else if opcode = 0x47 then exec_fmsub insn s
      else if opcode = 0x4b then exec_fnmsub insn s
      else if opcode = 0x4f then exec_fnmadd insn s
      else if opcode = 0x53 then exec_fp insn s
      else illegal_insn s)"

text \<open>The labels \<open>illegal_insn\<close> and \<open>exception\<close> after the loop.\<close>

definition take_exception :: "'p Interp \<Rightarrow> 'p Interp" where
  "take_exception s =
     (let s = s\<lparr>pc := get_pc s\<rparr>
      in if pending_exception s \<ge> 0 then
           raise_exception2 (word_of_int (pending_exception s)) (pending_tval s)
             (s\<lparr>n_cycles := n_cycles s - 1\<rparr>)
         else s)"

definition take_illegal :: "u32 \<Rightarrow> 'p Interp \<Rightarrow> 'p Interp" where
  "take_illegal insn s =
     take_exception (set_pending CAUSE_ILLEGAL_INSTRUCTION
       (ucast (if insn AND 3 = 3 then insn else insn AND 0xffff)) s)"

text \<open>What the macros \<open>C_NEXT_INSN\<close>, \<open>NEXT_INSN\<close> and \<open>JUMP_INSN\<close> and the labels do with an outcome.
  \<open>True\<close>: the loop continues.\<close>

definition finish_insn :: "u32 \<Rightarrow> outcome \<times> 'p Interp \<Rightarrow> bool \<times> 'p Interp" where
  "finish_insn insn r =
     (case r of (out, s) \<Rightarrow>
        case out of
          NextInsn n \<Rightarrow> (True, (retire_insn s)\<lparr>code_ptr := code_ptr s + of_nat n\<rparr>)
        | JumpInsn \<Rightarrow> (True, (retire_insn s)\<lparr>code_ptr := 0, code_end := 0, code_to_pc_addend := pc s\<rparr>)
        | DoneInterp \<Rightarrow> (False, s)
        | IllegalInsn \<Rightarrow> (False, take_illegal insn s)
        | ExceptionInsn \<Rightarrow> (False, take_exception s))"

definition interp_step :: "'p platform_ops \<Rightarrow> 'p Interp \<Rightarrow> bool \<times> 'p Interp" where
  "interp_step ops s =
     (case fetch s of
        (FetchEnd, s) \<Rightarrow> (False, s)
      | (FetchFault, s) \<Rightarrow> (False, take_exception s)
      | (Fetched insn, s) \<Rightarrow>
          finish_insn insn (exec_insn ops insn (s\<lparr>n_cycles := n_cycles s - 1\<rparr>)))"

primrec interp_loop :: "nat \<Rightarrow> 'p platform_ops \<Rightarrow> 'p Interp \<Rightarrow> 'p Interp option" where
  "interp_loop 0 ops s = None"
| "interp_loop (Suc fuel) ops s =
     (case interp_step ops s of
        (False, s) \<Rightarrow> Some s
      | (True, s) \<Rightarrow> interp_loop fuel ops s)"

section \<open>The interpreter\<close>

definition interp_enter :: "int \<Rightarrow> 'p TinyemuCore \<Rightarrow> 'p Interp" where
  "interp_enter n_cycles1 s =
     TinyemuCore.extend (s\<lparr>n_cycles := n_cycles1\<rparr>)
       (Interp.fields 0 0 0 (elapsed_cycles s + of_int n_cycles1) (cycle_counter s + of_int n_cycles1)
          (minstret_counter s) False)"

definition interp_leave :: "'p Interp \<Rightarrow> 'p TinyemuCore" where
  "interp_leave s =
     TinyemuCore.truncate (s\<lparr>elapsed_cycles := get_elapsed_cycles s,
       cycle_counter := get_cycle_counter s, minstret_counter := l_minstret_counter s\<rparr>)"

text \<open>The start of the loop: nothing pending, an empty code window at \<open>s->pc\<close>.\<close>

definition interp_begin :: "'p Interp \<Rightarrow> 'p Interp" where
  "interp_begin s = s\<lparr>pending_exception := - 1, pending_tval := 0, code_ptr := 0, code_end := 0,
                      code_to_pc_addend := pc s\<rparr>"

definition riscv_cpu_interp_x64 ::
  "nat \<Rightarrow> 'p platform_ops \<Rightarrow> int \<Rightarrow> 'p TinyemuCore \<Rightarrow> 'p TinyemuCore option" where
  "riscv_cpu_interp_x64 fuel ops n_cycles1 c =
     (if n_cycles1 = 0 then Some c
      else
        let s = interp_enter n_cycles1 c;
            (taken, s) = (if mip s AND mie s \<noteq> 0 then raise_interrupt s else (False, s))
        in if taken then Some (interp_leave (s\<lparr>n_cycles := n_cycles s - 1\<rparr>))
           else map_option interp_leave (interp_loop fuel ops (interp_begin s)))"

text \<open>An \<open>int\<close> from a 64-bit value, as the C cast does.\<close>

definition int_of_u64 :: "u64 \<Rightarrow> int" where
  "int_of_u64 v = sint (ucast v :: u32)"

text \<open>
  Instructions per call are bounded by the cycles asked for plus one page of straight-line code
  (2048 parcels) and the final check; each call consumes a cycle, so \<open>n\<close> calls are enough.
\<close>

definition insn_fuel :: "int \<Rightarrow> nat" where
  "insn_fuel n = nat n + 2049"

primrec interp_driver ::
  "nat \<Rightarrow> 'p platform_ops \<Rightarrow> u64 \<Rightarrow> 'p TinyemuCore \<Rightarrow> 'p TinyemuCore option" where
  "interp_driver 0 ops timeout s =
     (if \<not> power_down_flag s \<and> \<not> host_service_requested s \<and> int_of_u64 (timeout - elapsed_cycles s) > 0
      then None else Some s)"
| "interp_driver (Suc calls) ops timeout s =
     (if \<not> power_down_flag s \<and> \<not> host_service_requested s \<and> int_of_u64 (timeout - elapsed_cycles s) > 0
      then
        let n = int_of_u64 (timeout - elapsed_cycles s) in
        case riscv_cpu_interp_x64 (insn_fuel n) ops n s of
          None \<Rightarrow> None
        | Some s \<Rightarrow> interp_driver calls ops timeout s
      else Some s)"

definition riscv_cpu_interp :: "'p platform_ops \<Rightarrow> int \<Rightarrow> 'p TinyemuCore \<Rightarrow> 'p TinyemuCore option" where
  "riscv_cpu_interp ops n s = interp_driver (nat n) ops (elapsed_cycles s + of_int n) s"

end
