(* ===== verification/Mem_Relation.thy ===== *)
theory Mem_Relation
  imports Interp Walk
begin

text \<open>
  The interface between the memory accessors and the properties stated about them. A
  \<open>mem_relation\<close> is a preorder on states that holds across each elementary effect of an access
  (a TLB fill, a store into RAM, a DMA write of the platform, \<dots>); inside the locale it is shown,
  once, to hold across every accessor. \<open>exec_relation\<close> extends it with the effects of instructions
  and carries it to \<open>exec_insn\<close> and \<open>interp_step\<close>.
\<close>

section \<open>Effects on RAM\<close>

text \<open>\<open>paddr\<close> lies in RAM range \<open>i\<close>; the host address it maps to.\<close>

definition ram_hit :: "PhysMemoryMap \<Rightarrow> u64 \<Rightarrow> nat \<Rightarrow> bool" where
  "ram_hit m paddr i \<longleftrightarrow> get_phys_mem_range m paddr = Some i \<and> is_ram (phys_mem_range m i)"

definition host_ptr :: "PhysMemoryMap \<Rightarrow> nat \<Rightarrow> u64 \<Rightarrow> u64" where
  "host_ptr m i paddr = phys_mem (phys_mem_range m i) + (paddr - pr_addr (phys_mem_range m i))"

definition mark_dirty :: "nat \<Rightarrow> u64 \<Rightarrow> PhysMemoryMap \<Rightarrow> PhysMemoryMap" where
  "mark_dirty i paddr m =
     upd_range i (\<lambda>pr. phys_mem_set_dirty_bit pr (paddr - pr_addr pr)) m"

text \<open>Marking a page dirty moves no range.\<close>

lemma set_dirty_sel [simp]:
  "pr_addr (phys_mem_set_dirty_bit pr off) = pr_addr pr"
  "pr_size (phys_mem_set_dirty_bit pr off) = pr_size pr"
  "org_size (phys_mem_set_dirty_bit pr off) = org_size pr"
  "is_ram (phys_mem_set_dirty_bit pr off) = is_ram pr"
  "phys_mem (phys_mem_set_dirty_bit pr off) = phys_mem pr"
  "devram_flags (phys_mem_set_dirty_bit pr off) = devram_flags pr"
  "dirty_bits (phys_mem_set_dirty_bit pr off) = dirty_bits pr"
  "dirty_bits_size (phys_mem_set_dirty_bit pr off) = dirty_bits_size pr"
  "dirty_bits_index (phys_mem_set_dirty_bit pr off) = dirty_bits_index pr"
  by (simp_all add: phys_mem_set_dirty_bit_def Let_def split: option.split)

lemma get_range_upd_dirty [simp]:
  "get_phys_mem_range (upd_range i (\<lambda>pr. phys_mem_set_dirty_bit pr (off pr)) m) = get_phys_mem_range m"
proof
  fix paddr
  have "range_contains (phys_mem_range (upd_range i (\<lambda>pr. phys_mem_set_dirty_bit pr (off pr)) m) j) paddr =
        range_contains (phys_mem_range m j) paddr" for j
    by (simp add: upd_range_def range_contains_def)
  then show "get_phys_mem_range (upd_range i (\<lambda>pr. phys_mem_set_dirty_bit pr (off pr)) m) paddr =
        get_phys_mem_range m paddr"
    by (simp add: get_phys_mem_range_def) (simp add: upd_range_def)
qed

lemma mark_dirty_hit [simp]: "ram_hit (mark_dirty i p m) paddr j = ram_hit m paddr j"
  by (simp add: ram_hit_def mark_dirty_def) (simp add: upd_range_def)

lemma mark_dirty_ptr [simp]: "host_ptr (mark_dirty i p m) j paddr = host_ptr m j paddr"
  by (simp add: host_ptr_def mark_dirty_def upd_range_def)

section \<open>Aligned accesses stay in a page\<close>

lemma page_offset_mod: "page_offset va = unat va mod 4096"
proof -
  have "unat (va AND mask 12) = unat va mod 2 ^ 12"
    by (simp flip: take_bit_eq_mask add: take_bit_eq_mod unat_mod_distrib)
  then show ?thesis unfolding page_offset_def PG_MASK_def pg_mask_mask by simp
qed

lemma page_offset_room:
  assumes "2 ^ k dvd unat va" and "k \<le> 12"
  shows "page_offset va + 2 ^ k \<le> 4096"
proof -
  have d: "2 ^ k dvd (4096 :: nat)" using le_imp_power_dvd [OF assms(2), of "2 :: nat"] by simp
  then have "2 ^ k dvd page_offset va" using assms(1) by (simp add: page_offset_mod dvd_mod)
  then obtain x where x: "page_offset va = 2 ^ k * x" by (auto elim: dvdE)
  obtain y where y: "4096 = 2 ^ k * (y :: nat)" using d by (auto elim: dvdE)
  have "2 ^ k * x < 2 ^ k * y" using page_offset_less [of va] by (simp only: x y [symmetric])
  then have "x + 1 \<le> y" by simp
  then have "2 ^ k * (x + 1) \<le> 2 ^ k * y" by (rule mult_le_mono2)
  then show ?thesis using x y by simp
qed

lemma aligned_dvd:
  assumes "(va :: u64) AND (of_nat (size_bytes sz) - 1) = 0"
  shows "2 ^ size_log2 sz dvd unat va"
proof -
  have "take_bit (size_log2 sz) va = 0" using assms unfolding size_mask by (simp add: take_bit_eq_mask)
  then have "take_bit (size_log2 sz) (unat va) = 0"
    by (metis unsigned_0 unsigned_take_bit_eq)
  then show ?thesis by (simp add: take_bit_eq_mod dvd_eq_mod_eq_0)
qed

lemma aligned_room:
  assumes "(va :: u64) AND (of_nat (size_bytes sz) - 1) = 0"
  shows "page_offset va + size_bytes sz \<le> 4096"
  using page_offset_room [OF aligned_dvd [OF assms]] size_log2_le [of sz]
  by (simp add: size_bytes_def)

section \<open>Relations kept by memory accesses\<close>

locale mem_relation =
  fixes R :: "('p, 'x) TinyemuCore_scheme \<Rightarrow> ('p, 'x) TinyemuCore_scheme \<Rightarrow> bool"
  assumes R_refl: "R s s"
    and R_trans: "R s t \<Longrightarrow> R t u \<Longrightarrow> R s u"
    and R_pending: "R s (set_pending c v s)"
    and R_fill_read: "ram_hit (mem_map s) paddr i \<Longrightarrow> page_offset paddr = page_offset va \<Longrightarrow>
       R s (s\<lparr>tlb_read := tlb_fill va (host_ptr (mem_map s) i paddr) (tlb_read s)\<rparr>)"
    and R_fill_code: "ram_hit (mem_map s) paddr i \<Longrightarrow> page_offset paddr = page_offset va \<Longrightarrow>
       R s (s\<lparr>tlb_code := tlb_fill va (host_ptr (mem_map s) i paddr) (tlb_code s)\<rparr>)"
    and R_ram_store: "ram_hit (mem_map s) paddr i \<Longrightarrow> page_offset paddr + n \<le> 4096 \<Longrightarrow>
       (\<And>q. q \<notin> span (host_ptr (mem_map s) i paddr) n \<Longrightarrow> h q = hmem s q) \<Longrightarrow>
       R s (s\<lparr>mem_map := mark_dirty i paddr (mem_map s), hmem := h\<rparr>)"
    and R_ram_store_fill: "ram_hit (mem_map s) paddr i \<Longrightarrow> page_offset paddr = page_offset va \<Longrightarrow>
       page_offset paddr + n \<le> 4096 \<Longrightarrow>
       (\<And>q. q \<notin> span (host_ptr (mem_map s) i paddr) n \<Longrightarrow> h q = hmem s q) \<Longrightarrow>
       R s (s\<lparr>mem_map := mark_dirty i paddr (mem_map s),
              tlb_write := tlb_fill va (host_ptr (mem_map s) i paddr) (tlb_write s), hmem := h\<rparr>)"
    and R_tlb_store: "tlb_hit sz (tlb_write s) va \<Longrightarrow>
       R s (s\<lparr>hmem := store_le (size_bytes sz) (v :: u64) (tlb_ptr (tlb_write s) va) (hmem s)\<rparr>)"
    and R_dma: "R s (do_dma w s)"
    and R_platform: "R s (s\<lparr>platform := p\<rparr>)"
    and R_interrupts: "R s (tinyemu_core_set_interrupts m s)"
    and R_service: "R s (s\<lparr>host_service_requested := b\<rparr>)"
begin

lemma R_fold_dma: "R s (fold do_dma ws s)"
  by (induction ws arbitrary: s) (auto intro: R_refl R_trans R_dma)

lemma R_platform_read: "R s (snd (tinyemu_platform_read ops a w s))"
  by (auto simp: tinyemu_platform_read_def prod.case_eq_if split: option.split
      intro: R_refl R_trans [OF R_platform R_fold_dma])

lemma R_platform_write: "R s (snd (tinyemu_platform_write ops a w v s))"
  by (auto simp: tinyemu_platform_write_def prod.case_eq_if split: option.split
      intro: R_refl R_trans [OF R_platform R_fold_dma])

lemma R_read_device: "R s (snd (read_device ops d off sz s))"
  unfolding read_device_def prod.case_eq_if
  by (simp add: R_trans [OF R_platform_read R_interrupts])

lemma R_write_device: "R s (snd (write_device ops d off v sz s))"
  unfolding write_device_def prod.case_eq_if Let_def
  by (auto intro: R_trans [OF R_platform_write R_interrupts]
      R_trans [OF R_trans [OF R_platform_write R_interrupts] R_service])

lemma R_device_read: "R s (snd (device_read ops pr off sz s))"
  unfolding device_read_def prod.case_eq_if
  by (auto split: option.split intro: R_refl R_read_device R_trans [OF R_read_device R_read_device])

lemma R_device_write: "R s (snd (device_write ops pr off v sz s))"
  unfolding device_write_def prod.case_eq_if
  by (auto split: bool.split intro: R_refl R_write_device R_trans [OF R_write_device R_write_device])

section \<open>Accessors\<close>

lemma R_phys_write_pte:
  assumes "phys_write_pte s paddr v = Some s'" and "8 dvd unat paddr"
  shows "R s s'"
proof -
  from assms(1) obtain i where i: "phys_ram_access_ok s paddr 8 = Some i"
    and s': "s' = s\<lparr>mem_map := mark_dirty i paddr (mem_map s),
                    hmem := store_le 8 v (host_ptr (mem_map s) i paddr) (hmem s)\<rparr>"
    by (auto simp: phys_write_pte_def Let_def mark_dirty_def host_ptr_def upd_range_def
        split: option.splits if_splits)
  from i have "ram_hit (mem_map s) paddr i"
    by (auto simp: phys_ram_access_ok_def ram_hit_def Let_def split: option.splits if_splits)
  moreover have "page_offset paddr + 8 \<le> 4096"
    using page_offset_room [of 3 paddr] assms(2) by simp
  ultimately show ?thesis unfolding s' by (rule R_ram_store) (rule store_le_outside)
qed

lemma R_walk_leaf: "8 dvd unat addr \<Longrightarrow> R s (snd (snd (walk_leaf prv addr pte i va acc s)))"
  by (auto simp: walk_leaf_def Let_def R_refl intro: R_phys_write_pte split: option.splits)

lemma R_walk: "8 dvd unat table \<Longrightarrow> R s (snd (snd (walk n prv table va acc s)))"
proof (induction n arbitrary: table)
  case 0
  then show ?case by (simp add: R_refl)
next
  case (Suc n)
  have slot: "8 dvd unat (table + (drop_bit (PG_SHIFT + SV39_VPN_BITS * (SV39_LEVELS - 1 -
      (SV39_LEVELS - Suc n))) va AND (push_bit SV39_VPN_BITS 1 - 1)) * 8)"
    using pte_slot_dvd [OF Suc.prems, of "SV39_LEVELS - Suc n" va] by (simp add: pte_slot_def)
  show ?case
    unfolding walk.simps Let_def
    by (auto simp only: R_refl Suc.IH [OF table_dvd] R_walk_leaf [OF slot] snd_conv
        split: option.split if_split)
qed

lemma R_get_phys_addr: "R s (snd (snd (get_phys_addr va acc s)))"
  unfolding get_phys_addr_def Let_def
  by (auto simp only: R_refl R_walk [OF table_dvd] snd_conv split: if_split)

lemma R_read_slow_aligned: "R s (snd (target_read_slow_aligned ops sz va s))"
proof -
  obtain res paddr s1 where g: "get_phys_addr va ACCESS_READ s = (res, paddr, s1)"
    by (metis prod_cases3)
  have 1: "R s s1" using R_get_phys_addr [of s va ACCESS_READ] g by simp
  have o: "res = TRANSLATE_OK \<Longrightarrow> page_offset paddr = page_offset va"
    using get_phys_addr_offset g by simp
  have 2: "R s1 (s1\<lparr>tlb_read := tlb_fill va (phys_mem (phys_mem_range (mem_map s1) i) +
        (paddr - pr_addr (phys_mem_range (mem_map s1) i))) (tlb_read s1)\<rparr>)"
    if "get_phys_mem_range (mem_map s1) paddr = Some i" "is_ram (phys_mem_range (mem_map s1) i)"
      "res = TRANSLATE_OK" for i
    using R_fill_read [of s1 paddr i va] that o by (simp add: ram_hit_def host_ptr_def)
  show ?thesis
    unfolding target_read_slow_aligned_def g prod.case Let_def
    using o by (auto simp: prod.case_eq_if intro: R_trans [OF 1 R_pending] R_trans [OF 1 2]
        R_trans [OF 1 R_device_read] R_trans [OF R_trans [OF 1 R_device_read] R_pending]
        split: option.split)
qed

lemma R_truncate: "R s (snd r) \<Longrightarrow> R s (snd (truncate_read sz r))"
  by (cases r) (simp add: truncate_read_def)

lemma R_read_aligned: "R s (snd (target_read_aligned ops sz va s))"
  by (auto simp: target_read_aligned_def R_refl intro: R_truncate R_read_slow_aligned)

lemma R_read_slow: "R s (snd (target_read_slow ops sz va s))"
  unfolding target_read_slow_def Let_def prod.case_eq_if
  by (auto intro: R_read_aligned R_read_slow_aligned R_trans [OF R_read_aligned R_read_aligned]
      split: option.split)

lemma R_target_read: "R s (snd (target_read ops sz va s))"
  by (auto simp: target_read_def R_refl intro: R_truncate R_read_slow)

lemma R_write_slow_aligned:
  assumes "va AND (of_nat (size_bytes sz) - 1) = 0"
  shows "R s (snd (target_write_slow_aligned ops sz va v s))"
proof -
  obtain res paddr s1 where g: "get_phys_addr va ACCESS_WRITE s = (res, paddr, s1)"
    by (metis prod_cases3)
  have 1: "R s s1" using R_get_phys_addr [of s va ACCESS_WRITE] g by simp
  have o: "res = TRANSLATE_OK \<Longrightarrow> page_offset paddr = page_offset va"
    using get_phys_addr_offset g by simp
  have 2: "R s1 (s1\<lparr>mem_map := upd_range i
        (\<lambda>pr. phys_mem_set_dirty_bit pr (paddr - pr_addr pr)) (mem_map s1),
      tlb_write := tlb_fill va (phys_mem (phys_mem_range (mem_map s1) i) +
        (paddr - pr_addr (phys_mem_range (mem_map s1) i))) (tlb_write s1),
      hmem := store_le (size_bytes sz) v (phys_mem (phys_mem_range (mem_map s1) i) +
        (paddr - pr_addr (phys_mem_range (mem_map s1) i))) (hmem s1)\<rparr>)"
    if "get_phys_mem_range (mem_map s1) paddr = Some i" "is_ram (phys_mem_range (mem_map s1) i)"
      "res = TRANSLATE_OK" for i
    using R_ram_store_fill [of s1 paddr i va "size_bytes sz"
        "store_le (size_bytes sz) v (host_ptr (mem_map s1) i paddr) (hmem s1)"] that o
      aligned_room [OF assms]
    by (simp add: ram_hit_def host_ptr_def mark_dirty_def store_le_outside)
  show ?thesis
    unfolding target_write_slow_aligned_def g prod.case Let_def
    using o by (auto simp: prod.case_eq_if intro: R_trans [OF 1 R_pending] R_trans [OF 1 2]
        R_trans [OF 1 R_device_write] R_trans [OF R_trans [OF 1 R_device_write] R_pending]
        split: option.split bool.split)
qed

lemma R_write_byte: "R s (snd (target_write_aligned ops S8 va v s))"
  unfolding target_write_aligned_def
  by (auto intro: R_tlb_store [of S8, simplified] R_write_slow_aligned)

lemma R_write_bytes_loop: "R s (snd (write_bytes_loop ops n i va v s))"
proof (induction n arbitrary: i s)
  case 0
  then show ?case by (simp add: R_refl)
next
  case (Suc n)
  show ?case
    unfolding write_bytes_loop.simps prod.case_eq_if
    by (auto intro: R_write_byte R_trans [OF R_write_byte Suc.IH])
qed

lemma R_target_write: "R s (snd (target_write ops sz va v s))"
  unfolding target_write_def target_write_slow_def Let_def
  by (auto intro: R_tlb_store R_write_bytes_loop R_write_slow_aligned)

lemma R_write_check: "R s (snd (target_write_check va s))"
proof -
  obtain res paddr s1 where g: "get_phys_addr va ACCESS_WRITE s = (res, paddr, s1)"
    by (metis prod_cases3)
  then have "R s s1" using R_get_phys_addr [of s va ACCESS_WRITE] by simp
  then show ?thesis unfolding target_write_check_def g by (auto intro: R_trans [OF _ R_pending])
qed

lemma R_insn_slow: "R s (snd (target_read_insn_slow va s))"
proof -
  obtain res paddr s1 where g: "get_phys_addr va ACCESS_CODE s = (res, paddr, s1)"
    by (metis prod_cases3)
  have 1: "R s s1" using R_get_phys_addr [of s va ACCESS_CODE] g by simp
  have 2: "R s1 (s1\<lparr>tlb_code := tlb_fill va (phys_mem (phys_mem_range (mem_map s1) i) +
        (paddr - pr_addr (phys_mem_range (mem_map s1) i))) (tlb_code s1)\<rparr>)"
    if "get_phys_mem_range (mem_map s1) paddr = Some i" "is_ram (phys_mem_range (mem_map s1) i)"
      "res = TRANSLATE_OK" for i
    using R_fill_code [of s1 paddr i va] that get_phys_addr_offset [of va ACCESS_CODE s paddr s1] g
    by (simp add: ram_hit_def host_ptr_def)
  show ?thesis
    unfolding target_read_insn_slow_def g prod.case Let_def
    by (auto intro: R_trans [OF 1 R_pending] R_trans [OF 1 2] split: option.split)
qed

lemma R_fetch_ptr: "R s (snd (fetch_ptr va s))"
  by (simp add: fetch_ptr_def R_refl R_insn_slow)

lemma R_insn_u16: "R s (snd (target_read_insn_u16 va s))"
  unfolding target_read_insn_u16_def prod.case_eq_if
  by (auto intro: R_fetch_ptr split: option.split)

end

section \<open>Failed accesses leave an exception pending\<close>

lemma set_pending_sel [simp]:
  "pending_exception (set_pending c v s) = c" "pending_tval (set_pending c v s) = v"
  by (simp_all add: set_pending_def)

lemma read_slow_aligned_pending:
  "fst (target_read_slow_aligned ops sz va s) = None \<Longrightarrow>
   pending_exception (snd (target_read_slow_aligned ops sz va s)) \<ge> 0"
  unfolding target_read_slow_aligned_def Let_def prod.case_eq_if
  by (auto split: option.splits if_splits)

lemma read_aligned_pending:
  "fst (target_read_aligned ops sz va s) = None \<Longrightarrow>
   pending_exception (snd (target_read_aligned ops sz va s)) \<ge> 0"
  using read_slow_aligned_pending [of ops sz va s]
  by (auto simp: target_read_aligned_def truncate_read_def prod.case_eq_if split: if_splits)

lemma read_slow_pending:
  "fst (target_read_slow ops sz va s) = None \<Longrightarrow>
   pending_exception (snd (target_read_slow ops sz va s)) \<ge> 0"
  unfolding target_read_slow_def Let_def prod.case_eq_if
  by (auto split: option.splits if_splits intro: read_slow_aligned_pending read_aligned_pending)

lemma target_read_pending:
  "fst (target_read ops sz va s) = None \<Longrightarrow> pending_exception (snd (target_read ops sz va s)) \<ge> 0"
  using read_slow_pending [of ops sz va s]
  by (auto simp: target_read_def truncate_read_def prod.case_eq_if split: if_splits)

lemma write_slow_aligned_pending:
  "fst (target_write_slow_aligned ops sz va v s) < 0 \<Longrightarrow>
   pending_exception (snd (target_write_slow_aligned ops sz va v s)) \<ge> 0"
  unfolding target_write_slow_aligned_def Let_def prod.case_eq_if
  by (auto simp: write_status_def split: option.splits bool.splits if_splits)

lemma write_aligned_pending:
  "fst (target_write_aligned ops sz va v s) < 0 \<Longrightarrow>
   pending_exception (snd (target_write_aligned ops sz va v s)) \<ge> 0"
  using write_slow_aligned_pending [of ops sz va v s]
  by (auto simp: target_write_aligned_def split: if_splits)

lemma write_bytes_loop_pending:
  "fst (write_bytes_loop ops n i va v s) < 0 \<Longrightarrow>
   pending_exception (snd (write_bytes_loop ops n i va v s)) \<ge> 0"
proof (induction n arbitrary: i s)
  case 0
  then show ?case by (simp add: write_status_def split: if_splits)
next
  case (Suc n)
  then show ?case
    unfolding write_bytes_loop.simps prod.case_eq_if
    by (auto split: if_splits intro: write_aligned_pending)
qed

lemma target_write_pending:
  "fst (target_write ops sz va v s) < 0 \<Longrightarrow> pending_exception (snd (target_write ops sz va v s)) \<ge> 0"
  unfolding target_write_def target_write_slow_def Let_def
  by (auto split: if_splits intro: write_bytes_loop_pending write_slow_aligned_pending)

lemma write_check_pending:
  "\<not> fst (target_write_check va s) \<Longrightarrow> pending_exception (snd (target_write_check va s)) \<ge> 0"
  by (auto simp: target_write_check_def prod.case_eq_if split: if_splits)

end
