(* ===== verification/Csr_Legal.thy ===== *)
theory Csr_Legal
  imports Csr
begin

text \<open>
  Legal values of the control and status registers. \<open>csr_ok\<close> lists the fields of the WARL registers
  that the C code masks; \<open>pmp_kept\<close> says that locked PMP entries do not change. \<open>csr_step\<close> is both,
  and every write of \<open>csr_write\<close> satisfies it. No other operation touches these registers.
\<close>

definition csr_ok :: "'a RISCVCPUState_scheme \<Rightarrow> bool" where
  "csr_ok s \<longleftrightarrow>
     (drop_bit SATP_MODE_SHIFT (satp s) = SATP_MODE_BARE \<or> drop_bit SATP_MODE_SHIFT (satp s) = SATP_MODE_SV39) \<and>
     mie s AND NOT (MIP_MSIP OR MIP_MTIP OR MIP_SSIP OR MIP_STIP OR MIP_SEIP) = 0 \<and>
     mideleg s AND NOT (MIP_SSIP OR MIP_STIP OR MIP_SEIP) = 0 \<and>
     medeleg s AND NOT 0xffff = 0 \<and> mtvec s AND 3 = 0 \<and> stvec s AND 3 = 0 \<and>
     mcounteren s AND NOT 7 = 0 \<and> scounteren s AND NOT 7 = 0 \<and>
     menvcfg s AND NOT MENVCFG_MASK = 0 \<and> menvcfg s AND ENVCFG_CBIE \<noteq> 0x20 \<and>
     senvcfg s AND NOT ENVCFG_CBO_MASK = 0 \<and> senvcfg s AND ENVCFG_CBIE \<noteq> 0x20 \<and>
     (\<forall>i. pmpcfg s i AND (PMP_CFG_R OR PMP_CFG_W) \<noteq> PMP_CFG_W \<and> pmpaddr s i AND NOT PMP_ADDR_MASK = 0)"

definition pmp_locked :: "'a RISCVCPUState_scheme \<Rightarrow> nat \<Rightarrow> bool" where
  "pmp_locked s i \<longleftrightarrow> i < PMP_ENTRY_COUNT \<and> pmpcfg s i AND PMP_CFG_L \<noteq> 0"

text \<open>A locked entry in top-of-range mode also locks the address below it.\<close>

definition pmp_kept :: "'a RISCVCPUState_scheme \<Rightarrow> 'b RISCVCPUState_scheme \<Rightarrow> bool" where
  "pmp_kept s t \<longleftrightarrow> (\<forall>i. pmp_locked s i \<longrightarrow>
     pmpcfg t i = pmpcfg s i \<and> pmpaddr t i = pmpaddr s i \<and>
     (pmpcfg s i AND PMP_CFG_A_MASK = PMP_CFG_A_TOR \<and> 0 < i \<longrightarrow> pmpaddr t (i - 1) = pmpaddr s (i - 1)))"

definition csr_step :: "'a RISCVCPUState_scheme \<Rightarrow> 'b RISCVCPUState_scheme \<Rightarrow> bool" where
  "csr_step s t \<longleftrightarrow> (csr_ok s \<longrightarrow> csr_ok t) \<and> pmp_kept s t"

section \<open>A preorder\<close>

lemma pmp_kept_trans: "pmp_kept s t \<Longrightarrow> pmp_kept t u \<Longrightarrow> pmp_kept s u"
  unfolding pmp_kept_def pmp_locked_def by (metis (no_types, lifting))

lemma csr_step_trans: "csr_step s t \<Longrightarrow> csr_step t u \<Longrightarrow> csr_step s u"
  unfolding csr_step_def using pmp_kept_trans by blast

lemma csr_step_same [simp]:
  assumes "satp t = satp s" "mie t = mie s" "mideleg t = mideleg s" "medeleg t = medeleg s"
    "mtvec t = mtvec s" "stvec t = stvec s" "mcounteren t = mcounteren s" "scounteren t = scounteren s"
    "menvcfg t = menvcfg s" "senvcfg t = senvcfg s" "pmpcfg t = pmpcfg s" "pmpaddr t = pmpaddr s"
  shows "csr_step s t"
  using assms by (simp only: csr_step_def csr_ok_def pmp_kept_def simp_thms)

lemma csr_step_flush [simp]: "csr_step s (tlb_flush_all t) = csr_step s t"
proof -
  have "csr_step t (tlb_flush_all t)" "csr_step (tlb_flush_all t) t"
    by (rule csr_step_same; simp add: tlb_flush_all_def tlb_init_def)+
  then show ?thesis using csr_step_trans by blast
qed

text \<open>The registers that keep only the legal bits of a write.\<close>

lemma merge_legal:
  fixes a b m :: "'a::len word"
  assumes "a AND NOT l = 0" "m AND NOT l = 0"
  shows "(a AND NOT m OR (b AND m)) AND NOT l = 0"
proof (rule bit_word_eqI)
  fix n assume n: "n < LENGTH('a)"
  have "bit (a AND NOT l) n = False" "bit (m AND NOT l) n = False" by (simp_all add: assms)
  with n show "bit ((a AND NOT m OR (b AND m)) AND NOT l) n = bit 0 n" by (auto simp: bit_simps)
qed

lemma legal_subset:
  fixes a l :: "'a::len word"
  assumes "a AND NOT l = 0"
  shows "a = a AND l"
proof (rule bit_word_eqI)
  fix n assume "n < LENGTH('a)"
  moreover have "bit (a AND NOT l) n = False" by (simp add: assms)
  ultimately show "bit a n = bit (a AND l) n" by (auto simp: bit_simps)
qed

lemma merge_own:
  fixes a b m :: "'a::len word"
  assumes "a AND NOT m = 0"
  shows "(a AND NOT m OR (b AND m)) AND NOT m = 0"
  using assms merge_legal [of a m m b] by simp

text \<open>Updates of one register by a legal value.\<close>

lemma csr_step_regs:
  "(csr_ok s \<Longrightarrow> m AND NOT (MIP_MSIP OR MIP_MTIP OR MIP_SSIP OR MIP_STIP OR MIP_SEIP) = 0) \<Longrightarrow> csr_step s (s\<lparr>mie := m\<rparr>)"
  "(csr_ok s \<Longrightarrow> m AND NOT (MIP_SSIP OR MIP_STIP OR MIP_SEIP) = 0) \<Longrightarrow> csr_step s (s\<lparr>mideleg := m\<rparr>)"
  "(csr_ok s \<Longrightarrow> m AND NOT 0xffff = 0) \<Longrightarrow> csr_step s (s\<lparr>medeleg := m\<rparr>)"
  "x AND 3 = 0 \<Longrightarrow> csr_step s (s\<lparr>mtvec := x\<rparr>)" "x AND 3 = 0 \<Longrightarrow> csr_step s (s\<lparr>stvec := x\<rparr>)"
  "m AND NOT 7 = 0 \<Longrightarrow> csr_step s (s\<lparr>mcounteren := m\<rparr>)" "m AND NOT 7 = 0 \<Longrightarrow> csr_step s (s\<lparr>scounteren := m\<rparr>)"
  "x AND NOT MENVCFG_MASK = 0 \<Longrightarrow> x AND ENVCFG_CBIE \<noteq> 0x20 \<Longrightarrow> csr_step s (s\<lparr>menvcfg := x\<rparr>)"
  "x AND NOT ENVCFG_CBO_MASK = 0 \<Longrightarrow> x AND ENVCFG_CBIE \<noteq> 0x20 \<Longrightarrow> csr_step s (s\<lparr>senvcfg := x\<rparr>)"
  "(csr_ok s \<Longrightarrow> drop_bit 60 x = 0 \<or> drop_bit 60 x = 8) \<Longrightarrow> csr_step s (s\<lparr>satp := x\<rparr>)"
  by (simp_all add: csr_step_def pmp_kept_def) (simp_all add: csr_ok_def)

lemma csr_step_mie: "csr_step s (s\<lparr>mie := (mie s AND NOT m) OR (v AND m)\<rparr>)"
  if "m = MIP_MSIP OR MIP_MTIP OR MIP_SSIP OR MIP_STIP OR MIP_SEIP \<or> m = mideleg s"
proof (rule csr_step_regs(1), rule merge_legal)
  assume ok: "csr_ok s"
  show "mie s AND NOT (MIP_MSIP OR MIP_MTIP OR MIP_SSIP OR MIP_STIP OR MIP_SEIP) = 0"
    using ok by (simp add: csr_ok_def)
  have "mideleg s = mideleg s AND 0x222"
    using ok by (intro legal_subset) (simp add: csr_ok_def)
  then have "mideleg s AND NOT 0x2aa = mideleg s AND (0x222 AND NOT 0x2aa)"
    by (metis and.assoc)
  then show "m AND NOT (MIP_MSIP OR MIP_MTIP OR MIP_SSIP OR MIP_STIP OR MIP_SEIP) = 0"
    using that by auto
qed

lemma csr_step_mideleg:
  "csr_step s (s\<lparr>mideleg := (mideleg s AND NOT (MIP_SSIP OR MIP_STIP OR MIP_SEIP)) OR
     (v AND (MIP_SSIP OR MIP_STIP OR MIP_SEIP))\<rparr>)"
  by (rule csr_step_regs(2), rule merge_own) (simp add: csr_ok_def)

lemma csr_step_medeleg: "csr_step s (s\<lparr>medeleg := (medeleg s AND NOT 0xffff) OR (v AND 0xffff)\<rparr>)"
  by (rule csr_step_regs(3), rule merge_own) (simp add: csr_ok_def)

lemma and_not_and: "(x AND NOT m) AND m = (0 :: 'a::len word)" "(x AND m) AND NOT m = (0 :: 'a::len word)"
  by (rule bit_word_eqI, simp add: bit_simps)+

lemma csr_step_tvec: "csr_step s (s\<lparr>mtvec := x AND NOT 3\<rparr>)" "csr_step s (s\<lparr>stvec := x AND NOT 3\<rparr>)"
  by (rule csr_step_regs(4,5), rule and_not_and)+

lemma counteren_legal: "(ucast ((x :: u64) AND COUNTEREN_MASK) :: u32) AND NOT 7 = 0"
proof -
  have m: "(7 :: 'a::len word) = mask 3" by (simp add: mask_eq_exp_minus_1)
  show ?thesis unfolding COUNTEREN_MASK_def m by (rule bit_word_eqI) (auto simp: bit_simps)
qed

lemmas csr_step_counteren = csr_step_regs(6,7) [OF counteren_legal]

lemma legal_envcfg_ok:
  assumes "msk = MENVCFG_MASK \<or> msk = ENVCFG_CBO_MASK"
  shows "legal_envcfg msk v AND NOT msk = 0" "legal_envcfg msk v AND ENVCFG_CBIE \<noteq> 0x20"
proof -
  have "((x AND msk) AND c) AND NOT msk = 0" for x c by (rule bit_word_eqI) (simp add: bit_simps)
  then show "legal_envcfg msk v AND NOT msk = 0"
    by (simp add: legal_envcfg_def Let_def and_not_and)
  have "(x AND NOT ENVCFG_CBIE) AND ENVCFG_CBIE \<noteq> 0x20" for x
    unfolding and_not_and by simp
  then show "legal_envcfg msk v AND ENVCFG_CBIE \<noteq> 0x20"
    by (simp add: legal_envcfg_def Let_def)
qed

lemmas csr_step_envcfg =
  csr_step_regs(8) [OF legal_envcfg_ok(1) legal_envcfg_ok(2), OF disjI1 [OF refl] disjI1 [OF refl]]
  csr_step_regs(9) [OF legal_envcfg_ok(1) legal_envcfg_ok(2), OF disjI2 [OF refl] disjI2 [OF refl]]

text \<open>A mode that is not implemented leaves the old one.\<close>

lemma csr_step_satp: "csr_step s (snd (csr_write_satp v s))"
proof -
  have m: "(0xfffffffffff :: u64) = mask 44" by (simp add: mask_eq_exp_minus_1)
  have d: "drop_bit 60 ((v AND 0xfffffffffff) OR push_bit 60 x) = take_bit 4 x" for x
    unfolding m by (rule bit_word_eqI) (auto simp: bit_simps)
  have "csr_step s (s\<lparr>satp := (v AND 0xfffffffffff) OR push_bit 60 x\<rparr>)"
    if "csr_ok s \<Longrightarrow> x = 0 \<or> x = 8" for x
    using that by (intro csr_step_regs(10)) (auto simp: d)
  then show ?thesis by (simp add: csr_write_satp_def Let_def csr_ok_def)
qed

section \<open>Physical memory protection\<close>

lemma new_pmpcfg_locked: "old AND PMP_CFG_L \<noteq> 0 \<Longrightarrow> new_pmpcfg old v i = old"
  by (simp add: new_pmpcfg_def)

lemma new_pmpcfg_legal:
  assumes "old AND (PMP_CFG_R OR PMP_CFG_W) \<noteq> PMP_CFG_W"
  shows "new_pmpcfg old v i AND (PMP_CFG_R OR PMP_CFG_W) \<noteq> PMP_CFG_W"
proof -
  have w: "(x AND NOT 2) AND 3 \<noteq> (2 :: u8)" for x
  proof
    assume "(x AND NOT 2) AND 3 = (2 :: u8)"
    then have "((x AND NOT 2) AND 3) AND 2 = (2 :: u8)" by simp
    moreover have "((x AND NOT 2) AND 3) AND 2 = (0 :: u8)" by (rule bit_word_eqI) (auto simp: bit_simps)
    ultimately show False by simp
  qed
  then show ?thesis using assms unfolding new_pmpcfg_def Let_def by (simp split: if_split)
qed

lemma csr_step_pmpcfg_one:
  "csr_step s (s\<lparr>pmpcfg := (pmpcfg s)(k := new_pmpcfg (pmpcfg s k) v i)\<rparr>)"
  using new_pmpcfg_legal [of "pmpcfg s k" v i] new_pmpcfg_locked [of "pmpcfg s k" v i]
  by (simp add: csr_step_def pmp_kept_def pmp_locked_def) (simp add: csr_ok_def)

lemma csr_step_pmpcfg: "csr_step s (snd (set_pmpcfg k v s))"
proof -
  have "csr_step s (snd (fold (\<lambda>i (changed, s).
         let cfg = new_pmpcfg (pmpcfg s (k + i)) v i in
         if pmpcfg s (k + i) = cfg then (changed, s)
         else (True, s\<lparr>pmpcfg := (pmpcfg s)(k + i := cfg)\<rparr>)) xs (b, s)))" for xs b
  proof (induction xs arbitrary: b s)
    case (Cons i xs)
    show ?case
      using Cons.IH csr_step_trans [OF csr_step_pmpcfg_one Cons.IH] by (simp add: Let_def)
  qed simp
  then show ?thesis unfolding set_pmpcfg_def .
qed

lemma csr_step_pmpaddr:
  assumes "k < PMP_ENTRY_COUNT"
  shows "csr_step s (snd (set_pmpaddr k v s))"
proof (cases "pmpcfg s k AND PMP_CFG_L \<noteq> 0 \<or> (k + 1 < PMP_ENTRY_COUNT \<and>
    pmpcfg s (k + 1) AND (PMP_CFG_L OR PMP_CFG_A_MASK) = PMP_CFG_L OR PMP_CFG_A_TOR)")
  case True
  then show ?thesis unfolding set_pmpaddr_def by (cases "pmpcfg s k AND PMP_CFG_L = 0") simp_all
next
  case False
  let ?t = "s\<lparr>pmpaddr := (pmpaddr s)(k := v AND PMP_ADDR_MASK)\<rparr>"
  have tor: "(c AND 0x80 \<noteq> 0 \<and> c AND 0x18 = 0x08) \<longrightarrow> c AND 0x98 = 0x88" for c :: u8
  proof
    assume c: "c AND 0x80 \<noteq> 0 \<and> c AND 0x18 = 0x08"
    have "c AND 0x80 = 0x80"
    proof (rule bit_word_eqI)
      fix n assume "n < LENGTH(8)"
      have p: "(0x80 :: u8) = 2 ^ 7" by simp
      have "bit c 7" using c and_exp_eq_0_iff_not_bit [of c 7] by simp
      then show "bit (c AND 0x80) n = bit (0x80 :: u8) n"
        unfolding p by (simp only: bit_and_iff bit_exp_iff possible_bit_word) auto
    qed
    moreover have "c AND 0x98 = (c AND 0x80) OR (c AND 0x18)"
      by (simp flip: bit.conj_disj_distrib)
    ultimately show "c AND 0x98 = 0x88" using c by simp
  qed
  have "pmp_kept s ?t"
    unfolding pmp_kept_def
  proof (intro allI impI conjI)
    fix i assume l: "pmp_locked s i"
    then have "i \<noteq> k" using False by (auto simp: pmp_locked_def)
    then show "pmpcfg ?t i = pmpcfg s i" "pmpaddr ?t i = pmpaddr s i" by simp_all
    assume tor': "pmpcfg s i AND PMP_CFG_A_MASK = PMP_CFG_A_TOR \<and> 0 < i"
    have "i - 1 \<noteq> k"
    proof
      assume "i - 1 = k"
      then have "i = k + 1" using tor' by linarith
      with l tor' tor [of "pmpcfg s i"] False show False by (simp add: pmp_locked_def)
    qed
    then show "pmpaddr ?t (i - 1) = pmpaddr s (i - 1)" by simp
  qed
  moreover have "(v AND PMP_ADDR_MASK) AND NOT PMP_ADDR_MASK = 0" by (rule and_not_and)
  then have "csr_ok s \<Longrightarrow> csr_ok ?t" by (simp add: csr_ok_def)
  ultimately have "csr_step s ?t" unfolding csr_step_def by blast
  then show ?thesis using False unfolding set_pmpaddr_def Let_def by simp
qed

lemma csr_step_update_time [simp]: "csr_step s (update_stimecmp_irq t) = csr_step s t"
proof -
  have "csr_step t (update_stimecmp_irq t)" "csr_step (update_stimecmp_irq t) t"
    by (rule csr_step_same; simp add: update_stimecmp_irq_def riscv_cpu_update_time_def Let_def)+
  then show ?thesis using csr_step_trans by blast
qed

lemmas csr_step_writes = csr_step_mie csr_step_mideleg csr_step_medeleg csr_step_tvec csr_step_counteren
  csr_step_envcfg

end
