(* ===== verification/Exec_Relation.thy ===== *)
theory Exec_Relation
  imports Mem_Relation Csr_Legal
begin

text \<open>
  Relations kept by instructions. \<open>keeps\<close> is what an instruction preserves outside memory accesses
  and TLB flushes: memory, the TLBs, the code window, the cycle counter, register x0, the host side
  of the core, and the legality of the control and status registers. An \<open>exec_relation\<close> contains \<open>keeps\<close> and TLB flushes; the locale carries it
  through every instruction, one iteration of the loop and a trap.
\<close>

definition keeps :: "'p Interp \<Rightarrow> 'p Interp \<Rightarrow> bool" where
  "keeps s t \<longleftrightarrow>
     mem_map t = mem_map s \<and> hmem t = hmem s \<and> tlb_read t = tlb_read s \<and> tlb_write t = tlb_write s \<and>
     tlb_code t = tlb_code s \<and> code_ptr t = code_ptr s \<and> code_end t = code_end s \<and>
     code_to_pc_addend t = code_to_pc_addend s \<and> n_cycles t = n_cycles s \<and>
     elapsed_cycles_addend t = elapsed_cycles_addend s \<and> reg t 0 = reg s 0 \<and>
     get_time_set t = get_time_set s \<and> guest_timer_ticks t = guest_timer_ticks s \<and>
     platform t = platform s \<and> devices t = devices s \<and> device_count t = device_count s \<and>
     csr_step s t"

text \<open>Lengths of instructions, and an exception has a cause.\<close>

definition out_ok :: "outcome \<times> 'p Interp \<Rightarrow> bool" where
  "out_ok r \<longleftrightarrow> (case fst r of NextInsn n \<Rightarrow> n = 2 \<or> n = 4
                 | ExceptionInsn \<Rightarrow> pending_exception (snd r) \<ge> 0 | _ \<Rightarrow> True)"

lemma keeps_refl: "keeps s s"
  by (simp add: keeps_def)

lemma unat_or8 [simp]: "unat ((x :: u32) AND 7 OR 8) \<noteq> 0"
proof
  assume "unat (x AND 7 OR 8) = 0"
  then have "x AND 7 OR 8 = 0" by (simp add: unat_eq_zero)
  then have "\<not> bit (x AND 7 OR 8) 3" by simp
  moreover have "bit (8 :: u32) 3" by simp
  ultimately show False by (simp add: bit_or_iff)
qed

lemma c_reg_neq_0 [simp]: "c_reg_2 insn \<noteq> 0" "c_reg_7 insn \<noteq> 0"
  by (simp_all only: c_reg_2_def c_reg_7_def unat_or8 not_False_eq_True)

locale exec_relation = mem_relation R for R :: "'p Interp \<Rightarrow> 'p Interp \<Rightarrow> bool" +
  assumes R_keeps: "keeps s t \<Longrightarrow> R s t"
    and R_flush: "R s (tlb_flush_all s)"
begin

definition ok :: "'p Interp \<Rightarrow> outcome \<times> 'p Interp \<Rightarrow> bool" where
  "ok s r \<longleftrightarrow> R s (snd r) \<and> out_ok r"

section \<open>Register updates\<close>

lemma R_then_keeps: "R s t \<Longrightarrow> keeps t u \<Longrightarrow> R s u"
  by (rule R_trans [OF _ R_keeps])

lemma R_set_reg: "R s t \<Longrightarrow> r \<noteq> 0 \<Longrightarrow> R s (set_reg r v t)"
  by (erule R_then_keeps) (simp add: keeps_def set_reg_def)

lemma R_set_rd: "R s t \<Longrightarrow> R s (set_rd r v t)"
  by (simp add: set_rd_def R_set_reg)

lemma R_set_fp: "R s t \<Longrightarrow> R s (set_fp r v t)"
  by (erule R_then_keeps) (simp add: keeps_def set_fp_def)

lemma R_fs: "R s t \<Longrightarrow> R s (t\<lparr>fs := v\<rparr>)"
  by (erule R_then_keeps) (simp add: keeps_def)

lemma R_fflags: "R s t \<Longrightarrow> R s (t\<lparr>fflags := v\<rparr>)"
  by (erule R_then_keeps) (simp add: keeps_def)

lemma R_pc: "R s t \<Longrightarrow> R s (t\<lparr>pc := v\<rparr>)"
  by (erule R_then_keeps) (simp add: keeps_def)

lemma R_exc: "R s t \<Longrightarrow> R s (t\<lparr>pending_exception := v\<rparr>)"
  by (erule R_then_keeps) (simp add: keeps_def)

lemma R_retire: "R s t \<Longrightarrow> R s (retire_insn t)"
  by (erule R_then_keeps) (simp add: keeps_def retire_insn_def Let_def)

lemma R_flush': "R s t \<Longrightarrow> R s (tlb_flush_all t)"
  by (rule R_trans [OF _ R_flush])

lemma R_pending': "R s t \<Longrightarrow> R s (set_pending c v t)"
  by (rule R_trans [OF _ R_pending])

lemmas R_upd = R_refl R_set_reg R_set_rd R_set_fp R_fs R_fflags R_pc R_exc R_retire R_flush' R_pending'

lemma R_mstatus: "R s t \<Longrightarrow> R s (t\<lparr>mstatus := v\<rparr>)"
  by (erule R_then_keeps) (simp add: keeps_def)

lemma R_sndI: "R s t \<Longrightarrow> R s (snd (c, t))"
  by simp

lemma R_if: "(b \<Longrightarrow> R s x) \<Longrightarrow> (\<not> b \<Longrightarrow> R s y) \<Longrightarrow> R s (if b then x else y)"
  by simp

lemma R_snd_if: "(b \<Longrightarrow> R s (snd x)) \<Longrightarrow> (\<not> b \<Longrightarrow> R s (snd y)) \<Longrightarrow> R s (snd (if b then x else y))"
  by simp

section \<open>Outcomes\<close>

lemma ok_next: "R s t \<Longrightarrow> n = 2 \<or> n = 4 \<Longrightarrow> ok s (next_insn n t)"
  by (simp add: ok_def next_insn_def out_ok_def)

lemma ok_next2: "R s t \<Longrightarrow> ok s (next_insn 2 t)" and ok_next4: "R s t \<Longrightarrow> ok s (next_insn 4 t)"
  by (simp_all add: ok_next)

lemma ok_jump: "R s t \<Longrightarrow> ok s (jump_to a t)"
  by (simp add: ok_def jump_to_def out_ok_def R_pc)

lemma ok_jump': "R s t \<Longrightarrow> ok s (JumpInsn, t)"
  by (simp add: ok_def out_ok_def)

lemma ok_done: "R s t \<Longrightarrow> ok s (DoneInterp, t)"
  by (simp add: ok_def out_ok_def)

lemma ok_illegal: "R s t \<Longrightarrow> ok s (illegal_insn t)"
  by (simp add: ok_def illegal_insn_def out_ok_def)

lemma ok_exception: "R s t \<Longrightarrow> pending_exception t \<ge> 0 \<Longrightarrow> ok s (ExceptionInsn, t)"
  by (simp add: ok_def out_ok_def)

lemma ok_trans: "R s t \<Longrightarrow> ok t r \<Longrightarrow> ok s r"
  by (auto simp: ok_def intro: R_trans)

lemma ok_load:
  assumes "R s t" and "\<And>v u. R s u \<Longrightarrow> ok s (k v u)"
  shows "ok s (load_insn ops sz a t k)"
  unfolding load_insn_def prod.case_eq_if
  using assms target_read_pending [of ops sz a t] R_trans [OF assms(1) R_target_read [of t ops sz a]]
  by (auto split: option.split intro: ok_exception)

lemma ok_store:
  assumes "R s t" and "\<And>u. R s u \<Longrightarrow> ok s (k u)"
  shows "ok s (store_insn ops sz a v n t k)"
  unfolding store_insn_def prod.case_eq_if
  using assms target_write_pending [of ops sz a v t] R_trans [OF assms(1) R_target_write [of t ops sz a v]]
  by (auto intro: ok_exception ok_done R_pc R_retire)

lemma ok_if: "(b \<Longrightarrow> ok s x) \<Longrightarrow> (\<not> b \<Longrightarrow> ok s y) \<Longrightarrow> ok s (if b then x else y)"
  by simp

lemma ok_option:
  "(r = None \<Longrightarrow> ok s x) \<Longrightarrow> (\<And>v. r = Some v \<Longrightarrow> ok s (f v)) \<Longrightarrow>
   ok s (case r of None \<Rightarrow> x | Some v \<Rightarrow> f v)"
  by (simp split: option.split)

lemma ok_pair: "(\<And>a b. r = (a, b) \<Longrightarrow> ok s (f a b)) \<Longrightarrow> ok s (case r of (a, b) \<Rightarrow> f a b)"
  by (simp split: prod.split)

lemma ok_bool: "(b \<Longrightarrow> ok s x) \<Longrightarrow> (\<not> b \<Longrightarrow> ok s y) \<Longrightarrow> ok s (case b of True \<Rightarrow> x | False \<Rightarrow> y)"
  by (simp split: bool.split)

lemmas ok_intros = ok_if ok_option ok_pair ok_bool ok_next2 ok_next4 ok_jump ok_done ok_illegal ok_load
  ok_store R_upd

section \<open>Integer instructions\<close>

lemma ok_quadrant0: "ok s (exec_quadrant0 ops insn s)"
  unfolding exec_quadrant0_def exec_zcb_mem_def Let_def
  by (intro ok_intros; simp)+

lemma ok_quadrant1: "ok s (exec_quadrant1 insn s)"
  unfolding exec_quadrant1_def Let_def
  by (intro ok_intros; simp)+

lemma ok_quadrant2: "ok s (exec_quadrant2 ops insn s)"
  unfolding exec_quadrant2_def exec_c_jr_mv_add_def Let_def
  by (intro ok_intros ok_exception; simp)+

lemma ok_alu: "ok s (exec_alu insn r s)"
  unfolding exec_alu_def by (intro ok_intros; simp)+

lemma ok_base:
  "ok s (exec_lui insn s)" "ok s (exec_auipc insn s)" "ok s (exec_jal insn s)" "ok s (exec_jalr insn s)"
  unfolding exec_lui_def exec_auipc_def exec_jal_def exec_jalr_def
  by (intro ok_intros; simp)+

lemma ok_branch: "ok s (exec_branch insn s)"
  unfolding exec_branch_def by (intro ok_intros; simp)+

lemma ok_load_store: "ok s (exec_load ops insn s)" "ok s (exec_store ops insn s)"
  unfolding exec_load_def exec_store_def Let_def by (intro ok_intros; simp)+

lemma ok_ops:
  "ok s (exec_op_imm insn s)" "ok s (exec_op_imm_32 insn s)" "ok s (exec_op insn s)" "ok s (exec_op_32 insn s)"
  unfolding exec_op_imm_def exec_op_imm_32_def exec_op_def exec_op_32_def by (rule ok_alu)+

section \<open>Floating point\<close>

lemma R_set_fp_flags: "R s t \<Longrightarrow> R s (set_fp32 r v t)" "R s t \<Longrightarrow> R s (set_fp64 r w t)"
  unfolding set_fp32_def set_fp64_def by (auto intro!: R_upd)

lemma ok_fp_done: "R s t \<Longrightarrow> ok s (fp_done t)"
  unfolding fp_done_def by (intro ok_intros; simp)+

lemma ok_with_rm: "(\<And>rm. ok s (k rm)) \<Longrightarrow> ok s (with_rm rm s k)"
  unfolding with_rm_def by (auto intro: ok_illegal R_refl split: option.split)

lemma ok_fp_mem: "ok s (exec_fp_load ops insn s)" "ok s (exec_fp_store ops insn s)"
  unfolding exec_fp_load_def exec_fp_store_def Let_def by (intro ok_intros ok_fp_done; simp)+

lemma ok_fma: "ok s (exec_fma na nc insn s)"
  unfolding exec_fma_def Let_def
  by (intro ok_intros ok_fp_done ok_with_rm R_set_fp_flags; simp)+

lemma ok_fp_template:
  assumes "\<And>rd v t. R s t \<Longrightarrow> R s (f_write rd v t)" and "\<And>rm. ok s (cvt rm insn s)"
  shows "ok s (exec_fp_template f_read f_write f_read64 msk cvt to_x from_x op insn s)"
  unfolding exec_fp_template_def Let_def
  by (intro ok_intros ok_fp_done ok_with_rm assms; simp)+

lemma ok_fp: "ok s (exec_fp insn s)"
proof -
  have "ok s (cvt_float_32 rm insn s)" "ok s (cvt_float_64 rm insn s)" for rm
    unfolding cvt_float_32_def cvt_float_64_def
    by (intro ok_intros ok_fp_done R_set_fp_flags; simp)+
  then show ?thesis
    unfolding exec_fp_def exec_fp_32_def exec_fp_64_def Let_def
    by (intro ok_intros ok_fp_template R_set_fp_flags; simp)+
qed

section \<open>Control and status registers\<close>

lemma R_update_time: "R s (update_stimecmp_irq s)"
  by (rule R_keeps)
    (simp add: keeps_def update_stimecmp_irq_def riscv_cpu_update_time_def Let_def)

lemma R_set_mstatus: "R s (set_mstatus v s)"
  unfolding set_mstatus_def Let_def by (intro R_mstatus R_fs R_if R_flush R_refl)

lemma R_set_pmpcfg: "R s (snd (set_pmpcfg k v s))"
proof -
  have "keeps s (snd (fold (\<lambda>i (changed, s).
         let cfg = new_pmpcfg (pmpcfg s (k + i)) v i in
         if pmpcfg s (k + i) = cfg then (changed, s)
         else (True, s\<lparr>pmpcfg := (pmpcfg s)(k + i := cfg)\<rparr>)) xs (b, s)))" for xs b
    by (induction xs arbitrary: b s)
      (auto simp: keeps_def Let_def intro: csr_step_trans [OF csr_step_pmpcfg_one])
  then show ?thesis unfolding set_pmpcfg_def by (rule R_keeps)
qed

lemma R_set_pmpaddr: "k < PMP_ENTRY_COUNT \<Longrightarrow> R s (snd (set_pmpaddr k v s))"
  by (rule R_keeps, unfold keeps_def, intro conjI csr_step_pmpaddr; simp add: set_pmpaddr_def Let_def)

text \<open>The writes of the registers with reserved bits.\<close>

lemma R_legal:
  "m = MIP_MSIP OR MIP_MTIP OR MIP_SSIP OR MIP_STIP OR MIP_SEIP \<or> m = mideleg s \<Longrightarrow>
   R s (s\<lparr>mie := (mie s AND NOT m) OR (w AND m)\<rparr>)"
  "R s (s\<lparr>mideleg := (mideleg s AND NOT (MIP_SSIP OR MIP_STIP OR MIP_SEIP)) OR
     (w AND (MIP_SSIP OR MIP_STIP OR MIP_SEIP))\<rparr>)"
  "R s (s\<lparr>medeleg := (medeleg s AND NOT 0xffff) OR (w AND 0xffff)\<rparr>)"
  "R s (s\<lparr>mtvec := x AND NOT 3\<rparr>)" "R s (s\<lparr>stvec := x AND NOT 3\<rparr>)"
  "R s (s\<lparr>mcounteren := ucast (x AND COUNTEREN_MASK)\<rparr>)"
  "R s (s\<lparr>scounteren := ucast (x AND COUNTEREN_MASK)\<rparr>)"
  "R s (s\<lparr>menvcfg := legal_envcfg MENVCFG_MASK x\<rparr>)"
  "R s (s\<lparr>senvcfg := legal_envcfg ENVCFG_CBO_MASK x\<rparr>)"
  by (rule R_keeps, unfold keeps_def, intro conjI csr_step_writes; simp)+

lemma medeleg_mask: "push_bit (nat CAUSE_STORE_PAGE_FAULT + 1) 1 - 1 = (0xffff :: u32)"
  by simp

lemma pmpaddr_index:
  "csr \<ge> 0x3b0 \<and> csr < 0x3b0 + of_nat PMP_ENTRY_COUNT \<Longrightarrow> unat ((csr :: u32) - 0x3b0) < PMP_ENTRY_COUNT"
  by (auto simp: unat_sub word_le_nat_alt word_less_nat_alt)

lemma R_flush_if: "R s (snd r) \<Longrightarrow> R s (snd (flush_if r))"
  by (cases r) (auto simp: flush_if_def intro: R_flush')

lemma R_menvcfg: "R s (snd (csr_write_menvcfg v s))"
proof -
  let ?s = "s\<lparr>menvcfg := legal_envcfg MENVCFG_MASK v\<rparr>"
  have 1: "R s ?s" by (rule R_legal)
  have 2: "R s (update_stimecmp_irq ?s)" by (rule R_trans [OF 1 R_update_time])
  have 3: "R s (?s\<lparr>mip := m\<rparr>)" for m by (rule R_then_keeps [OF 1]) (simp add: keeps_def)
  have h: "R s t \<Longrightarrow> R s (t\<lparr>host_service_requested := True, timer_reprogrammed := True\<rparr>)" for t
    by (erule R_then_keeps) (simp add: keeps_def)
  show ?thesis
    unfolding csr_write_menvcfg_def Let_def
    by (intro R_snd_if R_sndI R_flush' R_if h 1 2 3)
qed

lemma R_satp: "R s (snd (csr_write_satp v s))"
proof -
  let ?x = "(v AND SATP_PPN_MASK) OR push_bit SATP_MODE_SHIFT
      (if drop_bit SATP_MODE_SHIFT v AND SATP_MODE_MASK = SATP_MODE_BARE \<or>
          drop_bit SATP_MODE_SHIFT v AND SATP_MODE_MASK = SATP_MODE_SV39
       then drop_bit SATP_MODE_SHIFT v AND SATP_MODE_MASK else drop_bit SATP_MODE_SHIFT (satp s))"
  have w: "csr_write_satp v s = (CSR_WRITE_FLUSH_TLB, tlb_flush_all (s\<lparr>satp := ?x\<rparr>))"
    by (simp only: csr_write_satp_def Let_def)
  have "csr_step s (s\<lparr>satp := ?x\<rparr>)" using csr_step_satp [of s v] unfolding w by (simp only: snd_conv csr_step_flush)
  then have "R s (s\<lparr>satp := ?x\<rparr>)" by (intro R_keeps) (simp add: keeps_def)
  then show ?thesis unfolding w by (simp only: snd_conv R_flush')
qed

lemma R_stimecmp:
  "R s ((update_stimecmp_irq (s\<lparr>stimecmp := v\<rparr>))\<lparr>host_service_requested := True, timer_reprogrammed := True\<rparr>)"
  by (rule R_keeps)
    (simp add: keeps_def update_stimecmp_irq_def riscv_cpu_update_time_def Let_def)

definition R_opt :: "'p Interp \<Rightarrow> (CSRWriteResult \<times> 'p Interp) option \<Rightarrow> bool" where
  "R_opt s r \<longleftrightarrow> (case r of None \<Rightarrow> True | Some p \<Rightarrow> R s (snd p))"

lemma R_opt_if: "(b \<Longrightarrow> R_opt s x) \<Longrightarrow> (\<not> b \<Longrightarrow> R_opt s y) \<Longrightarrow> R_opt s (if b then x else y)"
  by simp

lemma R_opt_Some: "R s (snd p) \<Longrightarrow> R_opt s (Some p)" and R_opt_None: "R_opt s None"
  by (simp_all add: R_opt_def)

lemma R_csr_write_machine: "R s (snd (csr_write_machine csr v s))"
  unfolding csr_write_machine_def Let_def medeleg_mask
  by (intro R_snd_if R_flush_if R_set_pmpcfg R_set_pmpaddr pmpaddr_index R_menvcfg R_sndI R_set_mstatus
        R_legal disjI1 [OF refl] R_refl;
      (assumption | rule R_keeps; simp add: keeps_def))

lemma R_csr_write_super: "R_opt s (csr_write_super csr v s)"
  unfolding csr_write_super_def Let_def
  by (intro R_opt_if R_opt_Some R_opt_None R_satp R_sndI R_set_mstatus R_stimecmp R_legal
        disjI2 [OF refl] R_refl;
      rule R_keeps; simp add: keeps_def set_frm_def)

lemma R_csr_write: "R s (snd (csr_write csr v s))"
  using R_csr_write_super [of s csr v] R_csr_write_machine [of s csr v]
  unfolding csr_write_def R_opt_def by (auto intro: R_refl split: option.split)

lemma R_csr_sync: "R s (csr_sync s)"
  by (rule R_keeps) (simp add: csr_sync_def keeps_def)

lemma ok_csr_commit:
  assumes "R s t"
  shows "ok s (csr_commit err rd old t)"
proof -
  let ?t = "t\<lparr>cycle_counter_addend := cycle_counter t + of_int (n_cycles t)\<rparr>"
  have 1: "R s ?t" by (rule R_then_keeps [OF assms]) (simp add: keeps_def)
  have 2: "R s (?t\<lparr>l_minstret_counter := x, minstret_write := y\<rparr>)" for x y
    by (rule R_then_keeps [OF 1]) (simp add: keeps_def)
  show ?thesis
    unfolding csr_commit_def Let_def
    by (intro ok_if ok_illegal ok_next4 ok_jump' ok_done R_retire R_pc R_set_rd R_if assms 1 2)
qed

lemma ok_csrrw: "ok s (exec_csrrw insn v s)"
  unfolding exec_csrrw_def Let_def prod.case_eq_if
  by (intro ok_option ok_illegal ok_csr_commit R_csr_sync R_trans [OF R_csr_sync R_csr_write])

lemma ok_csrrsc: "ok s (exec_csrrsc insn v f s)"
  unfolding exec_csrrsc_def Let_def prod.case_eq_if
  by (intro ok_option ok_if ok_illegal ok_next4 ok_csr_commit R_set_rd R_csr_sync
      R_trans [OF R_csr_sync R_csr_write])

section \<open>Traps and privileged instructions\<close>

lemma R_set_priv: "R s t \<Longrightarrow> R s (set_priv p t)"
  unfolding set_priv_def
  by (auto intro: R_then_keeps [OF R_flush'] simp: keeps_def)

lemma R_raise_exception2: "R s (raise_exception2 cause tval s)"
proof -
  have "R s (s\<lparr>scause := a, sepc := b, stval := c\<rparr>)" "R s (s\<lparr>mcause := a, mepc := b, mtval := c\<rparr>)" for a b c
    by (rule R_keeps; simp add: keeps_def)+
  then show ?thesis
    unfolding raise_exception2_def Let_def by (intro R_if R_pc R_set_priv R_mstatus)
qed

lemma R_raise_interrupt: "R s (snd (raise_interrupt s))"
  unfolding raise_interrupt_def raise_exception_def Let_def
  by (intro R_snd_if R_sndI R_refl R_raise_exception2)

lemma R_sret: "R s t \<Longrightarrow> R s (handle_sret t)"
  unfolding handle_sret_def Let_def by (intro R_pc R_set_priv R_mstatus)

lemma R_mret: "R s t \<Longrightarrow> R s (handle_mret t)"
  unfolding handle_mret_def Let_def by (intro R_pc R_set_priv R_mstatus R_if)

lemma R_power_down: "R s (s\<lparr>power_down_flag := b, pc := v\<rparr>)"
  by (rule R_keeps) (simp add: keeps_def)

lemma ok_priv: "ok s (exec_priv insn s)"
  unfolding exec_priv_def exec_sret_def exec_mret_def exec_wfi_def exec_sfence_def
    tlb_flush_vaddr_def Let_def
  by (intro ok_if ok_illegal ok_next4 ok_exception ok_done ok_jump R_retire R_sret R_mret R_power_down
      R_upd R_if; simp)

lemma ok_system: "ok s (exec_system insn s)"
  unfolding exec_system_def Let_def
  by (intro ok_if ok_next4 ok_csrrw ok_csrrsc ok_priv R_upd)

section \<open>Fences and cache-block operations\<close>

lemma R_cbo_zero:
  assumes "get_phys_mem_range (mem_map s) paddr = Some i" "is_ram (phys_mem_range (mem_map s) i)"
    and "page_offset paddr + 64 \<le> 4096"
  shows "R s (s\<lparr>mem_map := upd_range i (\<lambda>pr. phys_mem_set_dirty_bit pr
        (paddr - pr_addr (phys_mem_range (mem_map s) i))) (mem_map s),
      hmem := store_bytes (replicate 64 0) (phys_mem (phys_mem_range (mem_map s) i) +
        (paddr - pr_addr (phys_mem_range (mem_map s) i))) (hmem s)\<rparr>)"
proof -
  have "upd_range i (\<lambda>pr. phys_mem_set_dirty_bit pr (paddr - pr_addr (phys_mem_range (mem_map s) i)))
      (mem_map s) = mark_dirty i paddr (mem_map s)"
    by (simp add: mark_dirty_def upd_range_def)
  then show ?thesis
    using assms(3) R_ram_store [of s paddr i 64 "store_bytes (replicate 64 0) (host_ptr (mem_map s) i paddr)
      (hmem s)"] assms(1,2) store_bytes_outside [of _ _ "replicate 64 0"]
    by (simp add: ram_hit_def host_ptr_def)
qed

lemma block_dvd: "2 ^ 6 dvd unat ((v :: u64) AND NOT 63)"
proof -
  have m: "(63 :: u64) = mask 6" by (simp add: mask_eq_exp_minus_1)
  have "v AND NOT (mask 6) = push_bit 6 (drop_bit 6 v)"
    by (rule bit_word_eqI) (auto simp: bit_simps)
  then show ?thesis using unat_push_dvd [of 6 6 "drop_bit 6 v"] unfolding m by simp
qed

lemma ok_cbo: "ok s (exec_cbo insn s)"
proof -
  let ?val = "reg s (f_rs1 insn)"
  let ?acc = "if drop_bit 20 insn = 4 then ACCESS_WRITE else ACCESS_READ"
  obtain res paddr s1 where g: "get_phys_addr (?val AND NOT 63) ?acc s = (res, paddr, s1)"
    by (metis prod_cases3)
  have 1: "R s s1" using R_get_phys_addr [of s "?val AND NOT 63" ?acc] unfolding g by simp
  have room: "page_offset paddr + 64 \<le> 4096" if "res = TRANSLATE_OK"
    using get_phys_addr_offset g that page_offset_room [OF block_dvd, of ?val] by force
  note 2 = R_trans [OF 1 R_cbo_zero]
  show ?thesis
    unfolding exec_cbo_def Let_def g prod.case
    by (intro ok_if ok_illegal ok_option ok_exception ok_next4 R_pending' 1 2 R_refl) (simp_all add: room)
qed

lemma ok_misc_mem: "ok s (exec_misc_mem insn s)"
  unfolding exec_misc_mem_def Let_def by (intro ok_if ok_illegal ok_next4 ok_cbo R_refl)

section \<open>Atomics\<close>

lemma R_load_res: "R s t \<Longrightarrow> R s (t\<lparr>load_res := a, load_res_size := b, load_res_valid := c\<rparr>)"
  by (erule R_then_keeps) (simp add: keeps_def)

lemma R_load_res_valid: "R s t \<Longrightarrow> R s (t\<lparr>load_res_valid := c\<rparr>)"
  by (erule R_then_keeps) (simp add: keeps_def)

lemma ok_write_check:
  assumes "\<And>t. R s t \<Longrightarrow> ok s (k t)"
  shows "ok s (case target_write_check a s of (False, s) \<Rightarrow> (ExceptionInsn, s) | (True, s) \<Rightarrow> k s)"
  using R_write_check [of s a] write_check_pending [of a s] assms
  by (auto simp: prod.case_eq_if intro: ok_exception split: bool.split)

lemma ok_amo: "ok s (exec_amo ops insn s)"
  unfolding exec_amo_def exec_lr_def exec_sc_def exec_amo_op_def Let_def
  by (intro ok_if ok_option ok_illegal ok_exception ok_next4 ok_load ok_store ok_write_check
      R_load_res R_load_res_valid R_upd; simp)

section \<open>One iteration of the loop\<close>

lemma ok_exec_insn: "ok s (exec_insn ops insn s)"
  unfolding exec_insn_def Let_def exec_fmadd_def exec_fmsub_def exec_fnmsub_def exec_fnmadd_def
  by (intro ok_if ok_quadrant0 ok_quadrant1 ok_quadrant2 ok_base ok_branch ok_load_store ok_ops
      ok_system ok_misc_mem ok_amo ok_fp_mem ok_fma ok_fp ok_illegal R_refl)

end

section \<open>Relations kept by a whole run\<close>

text \<open>A relation that also ignores the code window and the cycle counter holds across the loop.\<close>

locale run_relation = exec_relation R for R :: "'p Interp \<Rightarrow> 'p Interp \<Rightarrow> bool" +
  assumes R_cycles: "R s (s\<lparr>n_cycles := n\<rparr>)"
    and R_window: "R s (s\<lparr>code_ptr := a, code_end := b, code_to_pc_addend := c\<rparr>)"
    and R_code_ptr: "R s (s\<lparr>code_ptr := a\<rparr>)"
begin

lemma R_take_exception: "R s t \<Longrightarrow> R s (take_exception t)"
  unfolding take_exception_def Let_def
  by (intro R_if R_trans [OF R_trans [OF R_pc R_cycles] R_raise_exception2] R_pc)

lemma R_fetch_window: "R s (snd (fetch_window a p s))"
proof -
  have 1: "R s (s\<lparr>code_ptr := p, code_end := b, code_to_pc_addend := c\<rparr>)" for b c by (rule R_window)
  have 2: "R s (snd (target_read_insn_u16 (a + 2)
      (s\<lparr>code_ptr := p, code_end := b, code_to_pc_addend := c\<rparr>)))" for b c
    by (rule R_trans [OF 1 R_insn_u16])
  show ?thesis
    unfolding fetch_window_def Let_def prod.case_eq_if
    by (intro R_snd_if R_sndI 1) (auto intro: 2 split: option.split)
qed

lemma R_fetch_translate: "R s (snd (fetch_translate s))"
  unfolding fetch_translate_def prod.case_eq_if
  by (auto intro: R_fetch_ptr R_trans [OF R_fetch_ptr R_fetch_window] split: option.split)

lemma R_fetch: "R s (snd (fetch s))"
proof -
  let ?s = "s\<lparr>pc := get_pc s\<rparr>"
  have 1: "R s ?s" by (rule R_pc [OF R_refl])
  have 2: "R s (snd (raise_interrupt ?s))" by (rule R_trans [OF 1 R_raise_interrupt])
  have 3: "R s ((snd (raise_interrupt ?s))\<lparr>n_cycles := n\<rparr>)" for n by (rule R_trans [OF 2 R_cycles])
  show ?thesis
    unfolding fetch_def Let_def prod.case_eq_if
    by (intro R_snd_if R_sndI R_refl 1 R_trans [OF 1 R_fetch_translate])
      (auto intro: 3 R_trans [OF 2 R_fetch_translate] split: bool.split)
qed

lemma R_finish:
  assumes "R s (snd r)"
  shows "R s (snd (finish_insn insn r))"
  using assms
  by (cases r; cases "fst r")
    (auto simp: finish_insn_def take_illegal_def intro!: R_take_exception R_pending'
      intro: R_trans [OF R_retire R_code_ptr] R_trans [OF R_retire R_window])

lemma R_step: "R s (snd (interp_step ops s))"
proof (cases "fetch s")
  case (Pair f t)
  have 1: "R s t" using R_fetch [of s] Pair by simp
  have 2: "R s (snd (exec_insn ops insn (t\<lparr>n_cycles := n\<rparr>)))" for insn n
    using ok_exec_insn [of "t\<lparr>n_cycles := n\<rparr>" ops insn] R_trans [OF 1 R_cycles [of t n]]
    by (auto simp: ok_def intro: R_trans)
  show ?thesis
    unfolding interp_step_def Pair prod.case
    by (cases f) (auto intro: 1 2 R_finish R_take_exception)
qed

lemma R_loop: "interp_loop fuel ops s = Some t \<Longrightarrow> R s t"
proof (induction fuel arbitrary: s)
  case 0
  then show ?case by simp
next
  case (Suc fuel)
  have "R s (snd (interp_step ops s))" by (rule R_step)
  with Suc show ?case
    by (auto simp: prod.case_eq_if split: bool.splits intro: R_trans)
qed

end

end
