(* ===== verification/Frame.thy ===== *)
theory Frame
  imports Exec_Relation
begin

text \<open>
  What the memory accessors leave alone. \<open>arch\<close> blanks the fields that a guest memory access may
  change: the TLBs, the dirty bitmaps inside \<open>mem_map\<close>, host memory, the pending exception and what
  a device callback touches. Each accessor keeps \<open>arch\<close>, so registers, privilege, program counter,
  cycle counter and the locals of the loop survive it.
\<close>

definition arch :: "('p, 'x) TinyemuCore_scheme \<Rightarrow> ('p, 'x) TinyemuCore_scheme" where
  "arch s = s\<lparr>tlb_read := (\<lambda>_. invalid_entry), tlb_write := (\<lambda>_. invalid_entry),
     tlb_code := (\<lambda>_. invalid_entry), mem_map := phys_mem_map_init, hmem := (\<lambda>_. 0),
     pending_exception := 0, pending_tval := 0, mip := 0, power_down_flag := False,
     host_service_requested := False, platform := None\<rparr>"

lemma arch_upd [simp]:
  "arch (tlb_read_update f s) = arch s"
  "arch (tlb_write_update f s) = arch s"
  "arch (tlb_code_update f s) = arch s"
  "arch (mem_map_update g s) = arch s"
  "arch (hmem_update h s) = arch s"
  "arch (pending_exception_update e s) = arch s"
  "arch (pending_tval_update t s) = arch s"
  "arch (mip_update m s) = arch s"
  "arch (power_down_flag_update b s) = arch s"
  "arch (host_service_requested_update b s) = arch s"
  "arch (platform_update p s) = arch s"
  by (simp_all add: arch_def)

section \<open>Accesses keep it\<close>

lemma arch_flush [simp]: "arch (tlb_flush_all s) = arch s"
  by (simp add: tlb_flush_all_def tlb_init_def)

lemma arch_set_pending [simp]: "arch (set_pending c v s) = arch s"
  by (simp add: set_pending_def)

lemma arch_set_interrupts [simp]: "arch (tinyemu_core_set_interrupts m s) = arch s"
  by (simp add: tinyemu_core_set_interrupts_def riscv_cpu_reset_mip_def riscv_cpu_set_mip_def Let_def)

lemma arch_ram_range [simp]: "arch (snd (tinyemu_core_ram_range a l w s)) = arch s"
  by (simp add: tinyemu_core_ram_range_def Let_def split: option.split)

lemma arch_do_dma [simp]: "arch (do_dma w s) = arch s"
  by (cases w) (auto simp: do_dma_def prod.case_eq_if split: option.split)

interpretation ar: mem_relation "\<lambda>s t. arch t = arch s"
  by unfold_locales simp_all

text \<open>The part of \<open>keeps\<close> outside memory: the code window, the cycle counter, x0 and the host side.\<close>

definition loop_frame :: "'p Interp \<Rightarrow> 'p Interp \<Rightarrow> bool" where
  "loop_frame s t \<longleftrightarrow>
     code_ptr t = code_ptr s \<and> code_end t = code_end s \<and>
     code_to_pc_addend t = code_to_pc_addend s \<and> n_cycles t = n_cycles s \<and>
     elapsed_cycles_addend t = elapsed_cycles_addend s \<and> reg t 0 = reg s 0 \<and>
     get_time_set t = get_time_set s \<and> guest_timer_ticks t = guest_timer_ticks s \<and>
     devices t = devices s \<and> device_count t = device_count s"

lemma arch_loop_frame:
  assumes "arch t = arch s"
  shows "loop_frame s t"
proof -
  note h = arg_cong [OF assms]
  have "code_ptr t = code_ptr s" using h [of code_ptr] by (simp add: arch_def)
  moreover have "code_end t = code_end s" using h [of code_end] by (simp add: arch_def)
  moreover have "code_to_pc_addend t = code_to_pc_addend s"
    using h [of code_to_pc_addend] by (simp add: arch_def)
  moreover have "n_cycles t = n_cycles s" using h [of n_cycles] by (simp add: arch_def)
  moreover have "elapsed_cycles_addend t = elapsed_cycles_addend s"
    using h [of elapsed_cycles_addend] by (simp add: arch_def)
  moreover have "reg t = reg s" using h [of reg] by (simp add: arch_def)
  moreover have "get_time_set t = get_time_set s" using h [of get_time_set] by (simp add: arch_def)
  moreover have "guest_timer_ticks t = guest_timer_ticks s"
    using h [of guest_timer_ticks] by (simp add: arch_def)
  moreover have "devices t = devices s" "device_count t = device_count s"
    using h [of devices] h [of device_count] by (simp_all add: arch_def)
  ultimately show ?thesis by (simp add: loop_frame_def)
qed

interpretation lf: exec_relation loop_frame
proof unfold_locales
  show "\<And>s t u. loop_frame s t \<Longrightarrow> loop_frame t u \<Longrightarrow> loop_frame s u"
    "\<And>s t. keeps s t \<Longrightarrow> loop_frame s t"
    by (simp_all add: loop_frame_def keeps_def)
qed (rule arch_loop_frame, simp)+

text \<open>What survives a whole run: x0 and the host side.\<close>

definition host_frame :: "'p Interp \<Rightarrow> 'p Interp \<Rightarrow> bool" where
  "host_frame s t \<longleftrightarrow> reg t 0 = reg s 0 \<and> get_time_set t = get_time_set s \<and>
     guest_timer_ticks t = guest_timer_ticks s \<and> devices t = devices s \<and> device_count t = device_count s"

lemma arch_host_frame: "arch t = arch s \<Longrightarrow> host_frame s t"
  using arch_loop_frame [of t s] by (simp add: loop_frame_def host_frame_def)

interpretation hf: run_relation host_frame
proof unfold_locales
  show "\<And>s t u. host_frame s t \<Longrightarrow> host_frame t u \<Longrightarrow> host_frame s u"
    "\<And>s t. keeps s t \<Longrightarrow> host_frame s t"
    by (simp_all add: host_frame_def keeps_def)
  show "\<And>s n. host_frame s (s\<lparr>n_cycles := n\<rparr>)"
    "\<And>s a b c. host_frame s (s\<lparr>code_ptr := a, code_end := b, code_to_pc_addend := c\<rparr>)"
    "\<And>s a. host_frame s (s\<lparr>code_ptr := a\<rparr>)" by (simp_all add: host_frame_def)
qed (rule arch_host_frame, simp)+

end
