(* ===== verification/Safety.thy ===== *)
theory Safety
  imports Frame
begin

text \<open>
  Memory safety and dirty tracking. \<open>map_ok\<close> is the well-formedness of the physical map, \<open>tlb_ok\<close> says
  that every valid TLB entry points to a page of a registered RAM buffer and, for the write TLB,
  that the page is already marked dirty. \<open>evolves\<close> is the promise to the host: ranges do not move,
  dirty marks are not lost, and every host byte that changed lies in a RAM buffer, in a page that
  is marked. Every access of the guest and every DMA write of the platform keeps both.
\<close>

section \<open>Well-formed maps\<close>

text \<open>
  A RAM range: page-aligned base and size, the buffer inside the address space of the host and not
  at its very end, the two bitmaps of the length \<open>default_register_ram\<close> gives them.
\<close>

definition ram_ok :: "PhysMemoryRange \<Rightarrow> bool" where
  "ram_ok pr \<longleftrightarrow>
     4096 dvd unat (pr_addr pr) \<and> 4096 dvd unat (org_size pr) \<and>
     (pr_size pr = 0 \<or> pr_size pr = org_size pr) \<and>
     unat (pr_addr pr) + unat (org_size pr) < 2 ^ 64 \<and>
     unat (phys_mem pr) + unat (org_size pr) + 4096 \<le> 2 ^ 64 \<and>
     (\<forall>t. dirty_bits pr = Some t \<longrightarrow> t = dirty_bits_index pr \<and> t < 2 \<and>
        length (dirty_bits_tab pr 0) = dirty_bits_size pr div 4 \<and>
        length (dirty_bits_tab pr 1) = dirty_bits_size pr div 4 \<and>
        unat (org_size pr) div 4096 \<le> 32 * (dirty_bits_size pr div 4))"

definition map_ok :: "PhysMemoryMap \<Rightarrow> bool" where
  "map_ok m \<longleftrightarrow> n_phys_mem_range m \<le> PHYS_MEM_RANGE_MAX \<and>
     (\<forall>i < n_phys_mem_range m. is_ram (phys_mem_range m i) \<longrightarrow> ram_ok (phys_mem_range m i))"

text \<open>Host address \<open>q\<close> is byte \<open>off\<close> of the buffer of RAM range \<open>i\<close>.\<close>

definition ram_byte :: "PhysMemoryMap \<Rightarrow> nat \<Rightarrow> nat \<Rightarrow> u64 \<Rightarrow> bool" where
  "ram_byte m i off q \<longleftrightarrow> i < n_phys_mem_range m \<and> is_ram (phys_mem_range m i) \<and>
     pr_size (phys_mem_range m i) \<noteq> 0 \<and>
     off < unat (org_size (phys_mem_range m i)) \<and> q = phys_mem (phys_mem_range m i) + of_nat off"

definition page_dirty :: "PhysMemoryMap \<Rightarrow> nat \<Rightarrow> nat \<Rightarrow> bool" where
  "page_dirty m i off \<longleftrightarrow> phys_mem_is_dirty_bit (phys_mem_range m i) (of_nat off)"

text \<open>An entry of a TLB is empty or maps a whole page of RAM.\<close>

definition entry_ok :: "(PhysMemoryMap \<Rightarrow> nat \<Rightarrow> nat \<Rightarrow> bool) \<Rightarrow> PhysMemoryMap \<Rightarrow> TLBEntry \<Rightarrow> bool" where
  "entry_ok P m e \<longleftrightarrow> vaddr e = - 1 \<or>
     (page_base (vaddr e) = vaddr e \<and>
      (\<exists>i off. 4096 dvd off \<and> ram_byte m i off (mem_addend e + vaddr e) \<and> P m i off))"

definition tlb_ok :: "('p, 'x) TinyemuCore_scheme \<Rightarrow> bool" where
  "tlb_ok s \<longleftrightarrow> (\<forall>k < TLB_SIZE.
     entry_ok (\<lambda>_ _ _. True) (mem_map s) (tlb_read s k) \<and>
     entry_ok page_dirty (mem_map s) (tlb_write s k) \<and>
     entry_ok (\<lambda>_ _ _. True) (mem_map s) (tlb_code s k))"

definition core_ok :: "('p, 'x) TinyemuCore_scheme \<Rightarrow> bool" where
  "core_ok s \<longleftrightarrow> map_ok (mem_map s) \<and> tlb_ok s"

section \<open>What changes\<close>

definition same_layout :: "PhysMemoryRange \<Rightarrow> PhysMemoryRange \<Rightarrow> bool" where
  "same_layout a b \<longleftrightarrow> b\<lparr>dirty_bits_tab := dirty_bits_tab a\<rparr> = a"

definition changed_ok :: "PhysMemoryMap \<Rightarrow> u64 \<Rightarrow> bool" where
  "changed_ok m q \<longleftrightarrow> (\<exists>i off. ram_byte m i off q \<and> page_dirty m i off)"

definition evolves :: "('p, 'x) TinyemuCore_scheme \<Rightarrow> ('p, 'x) TinyemuCore_scheme \<Rightarrow> bool" where
  "evolves s t \<longleftrightarrow>
     n_phys_mem_range (mem_map t) = n_phys_mem_range (mem_map s) \<and>
     (\<forall>i. same_layout (phys_mem_range (mem_map s) i) (phys_mem_range (mem_map t) i)) \<and>
     (\<forall>i off. page_dirty (mem_map s) i off \<longrightarrow> page_dirty (mem_map t) i off) \<and>
     (\<forall>q. hmem t q \<noteq> hmem s q \<longrightarrow> changed_ok (mem_map t) q)"

definition safe_step :: "('p, 'x) TinyemuCore_scheme \<Rightarrow> ('p, 'x) TinyemuCore_scheme \<Rightarrow> bool" where
  "safe_step s t \<longleftrightarrow> (core_ok s \<longrightarrow> core_ok t \<and> evolves s t)"

lemma same_layout_sel:
  assumes "same_layout a b"
  shows "pr_addr b = pr_addr a" "org_size b = org_size a" "pr_size b = pr_size a"
    "is_ram b = is_ram a" "phys_mem b = phys_mem a" "dirty_bits b = dirty_bits a"
    "dirty_bits_size b = dirty_bits_size a" "dirty_bits_index b = dirty_bits_index a"
    "devram_flags b = devram_flags a"
  using assms by (cases a; cases b; simp add: same_layout_def)+

lemma same_layout_trans: "same_layout a b \<Longrightarrow> same_layout b c \<Longrightarrow> same_layout a c"
  by (cases a; cases b; cases c) (simp add: same_layout_def)

lemma ram_byte_layout:
  assumes "n_phys_mem_range m' = n_phys_mem_range m"
    and "\<forall>i. same_layout (phys_mem_range m i) (phys_mem_range m' i)"
  shows "ram_byte m' i off q = ram_byte m i off q"
  using assms(1) same_layout_sel [OF assms(2) [rule_format, of i]] by (simp add: ram_byte_def)

lemma evolves_refl: "evolves s s"
  by (simp add: evolves_def same_layout_def)

lemma changed_ok_evolves:
  assumes "evolves s t" and "changed_ok (mem_map s) q"
  shows "changed_ok (mem_map t) q"
proof -
  from assms(2) obtain i off where "ram_byte (mem_map s) i off q" "page_dirty (mem_map s) i off"
    by (auto simp: changed_ok_def)
  with assms(1) ram_byte_layout [of "mem_map t" "mem_map s" i off q]
  have "ram_byte (mem_map t) i off q \<and> page_dirty (mem_map t) i off" by (simp add: evolves_def)
  then show ?thesis by (auto simp: changed_ok_def)
qed

lemma evolves_trans:
  assumes "evolves s t" and "evolves t u"
  shows "evolves s u"
proof -
  have "changed_ok (mem_map u) q" if "hmem u q \<noteq> hmem s q" for q
  proof (cases "hmem t q = hmem s q")
    case True
    with that assms(2) show ?thesis by (simp add: evolves_def)
  next
    case False
    then have "changed_ok (mem_map t) q" using assms(1) by (simp add: evolves_def)
    then show ?thesis by (rule changed_ok_evolves [OF assms(2)])
  qed
  then show ?thesis
    using assms unfolding evolves_def by (metis same_layout_trans)
qed

text \<open>A state that agrees on memory and the TLBs.\<close>

lemma safe_step_same:
  assumes "mem_map t = mem_map s" "hmem t = hmem s"
    "tlb_read t = tlb_read s" "tlb_write t = tlb_write s" "tlb_code t = tlb_code s"
  shows "safe_step s t"
  using assms by (simp add: safe_step_def core_ok_def tlb_ok_def evolves_def same_layout_def)

lemma safe_step_trans: "safe_step s t \<Longrightarrow> safe_step t u \<Longrightarrow> safe_step s u"
  unfolding safe_step_def using evolves_trans by blast

section \<open>Dirty marks\<close>

lemma map_okD: "map_ok m \<Longrightarrow> i < n_phys_mem_range m \<Longrightarrow> is_ram (phys_mem_range m i) \<Longrightarrow>
   ram_ok (phys_mem_range m i)"
  by (simp add: map_ok_def)

text \<open>The bitmap slot of an offset inside the buffer exists.\<close>

lemma dirty_slot:
  assumes "ram_ok pr" "dirty_bits pr = Some t" "off < unat (org_size pr)"
  shows "unat (drop_bit DEVRAM_PAGE_SIZE_LOG2 (of_nat off :: u64)) = off div 4096"
    and "off div 4096 div 32 < length (dirty_bits_tab pr t)"
proof -
  have "off < 2 ^ 64" using assms(1,3) by (simp add: ram_ok_def)
  then have u: "unat (of_nat off :: u64) = off" by (simp add: unsigned_of_nat take_bit_nat_eq_self)
  then show "unat (drop_bit DEVRAM_PAGE_SIZE_LOG2 (of_nat off :: u64)) = off div 4096"
    using \<open>off < 2 ^ 64\<close> unfolding unsigned_drop_bit_eq u
    by (simp add: drop_bit_eq_div take_bit_nat_eq_self)
  have t: "t = 0 \<or> t = 1" and l: "length (dirty_bits_tab pr t) = dirty_bits_size pr div 4"
    and n: "unat (org_size pr) div 4096 \<le> 32 * (dirty_bits_size pr div 4)"
    and d: "4096 dvd unat (org_size pr)"
    using assms(1,2) by (auto simp: ram_ok_def less_2_cases_iff)
  have "off div 4096 < unat (org_size pr) div 4096"
    using assms(3) d by (simp add: div_less_iff_less_mult)
  then show "off div 4096 div 32 < length (dirty_bits_tab pr t)" using n l by linarith
qed

lemma set_dirty_layout: "same_layout pr (phys_mem_set_dirty_bit pr off)"
  by (simp add: same_layout_def phys_mem_set_dirty_bit_def Let_def split: option.split)

lemma bit_word_set: "bit (w OR push_bit k 1) n \<longleftrightarrow> bit w n \<or> (n = k \<and> n < LENGTH('a))"
  for w :: "'a::len word"
  by (auto simp: bit_simps)

text \<open>Marking sets the bit of the page and clears none.\<close>

lemma set_dirty_mono: "phys_mem_is_dirty_bit pr o' \<Longrightarrow> phys_mem_is_dirty_bit (phys_mem_set_dirty_bit pr off) o'"
proof (cases "dirty_bits pr")
  case None
  then show ?thesis by (simp add: phys_mem_is_dirty_bit_def)
next
  case (Some t)
  let ?k = "unat (drop_bit 12 off) div 32" and ?tab = "dirty_bits_tab pr t"
  assume "phys_mem_is_dirty_bit pr o'"
  then have "bit (?tab ! (unat (drop_bit 12 o') div 32)) (unat (drop_bit 12 o') mod 32)"
    by (simp add: phys_mem_is_dirty_bit_def Some Let_def)
  then show ?thesis
    by (cases "?k < length ?tab")
      (auto simp: phys_mem_is_dirty_bit_def phys_mem_set_dirty_bit_def Some Let_def nth_list_update
        bit_or_iff list_update_beyond)
qed

lemma set_dirty_marks:
  assumes "ram_ok pr" and "off < unat (org_size pr)" and "off div 4096 = off' div 4096"
    and "off' < unat (org_size pr)"
  shows "phys_mem_is_dirty_bit (phys_mem_set_dirty_bit pr (of_nat off)) (of_nat off')"
proof (cases "dirty_bits pr")
  case None
  then show ?thesis by (simp add: phys_mem_is_dirty_bit_def phys_mem_set_dirty_bit_def)
next
  case (Some t)
  note a = dirty_slot [OF assms(1) Some assms(2), simplified]
  note b = dirty_slot(1) [OF assms(1) Some assms(4), simplified]
  show ?thesis
    using a assms(3) by (simp add: phys_mem_is_dirty_bit_def phys_mem_set_dirty_bit_def Some b Let_def
        bit_simps)
qed

lemma page_dirty_mark:
  assumes "page_dirty m i off"
  shows "page_dirty (mark_dirty j p m) i off"
  using assms by (auto simp: page_dirty_def mark_dirty_def upd_range_def intro: set_dirty_mono)

lemma mark_layout: "\<forall>i. same_layout (phys_mem_range m i) (phys_mem_range (mark_dirty j p m) i)"
  by (simp add: mark_dirty_def upd_range_def set_dirty_layout) (simp add: same_layout_def)

lemma mark_n [simp]: "n_phys_mem_range (mark_dirty j p m) = n_phys_mem_range m"
  by (simp add: mark_dirty_def upd_range_def)

lemma set_dirty_ram_ok: "ram_ok pr \<Longrightarrow> ram_ok (phys_mem_set_dirty_bit pr off)"
  by (auto simp: ram_ok_def phys_mem_set_dirty_bit_def Let_def split: option.split)

lemma mark_map_ok: "map_ok m \<Longrightarrow> map_ok (mark_dirty j p m)"
  by (auto simp: map_ok_def mark_dirty_def upd_range_def set_dirty_ram_ok)

lemma ram_byte_mark [simp]: "ram_byte (mark_dirty j p m) i off q = ram_byte m i off q"
  by (rule ram_byte_layout [OF _ mark_layout]) simp

text \<open>Entries survive marks.\<close>

lemma entry_ok_mark:
  assumes "entry_ok P m e" and "\<And>i off. P m i off \<Longrightarrow> P (mark_dirty j p m) i off"
  shows "entry_ok P (mark_dirty j p m) e"
  using assms unfolding entry_ok_def ram_byte_mark by blast

section \<open>Physical addresses\<close>

text \<open>A RAM hit is a byte of the buffer, in the page of the address.\<close>

lemma ram_hit_byte:
  assumes "map_ok m" "ram_hit m paddr i"
  defines "off \<equiv> unat (paddr - pr_addr (phys_mem_range m i))"
  shows "ram_byte m i off (host_ptr m i paddr)" and "off mod 4096 = page_offset paddr"
    and "of_nat off = paddr - pr_addr (phys_mem_range m i)"
proof -
  let ?pr = "phys_mem_range m i"
  from assms(2) have f: "find (\<lambda>i. range_contains (phys_mem_range m i) paddr) [0..<n_phys_mem_range m] = Some i"
    and r: "is_ram ?pr" by (auto simp: ram_hit_def get_phys_mem_range_def)
  from f have i: "i < n_phys_mem_range m" and c: "range_contains ?pr paddr"
    by (auto simp: find_Some_iff)
  have ok: "ram_ok ?pr" using map_okD [OF assms(1) i r] .
  have le: "pr_addr ?pr \<le> paddr" and lt: "paddr < pr_addr ?pr + pr_size ?pr"
    using c by (auto simp: range_contains_def)
  have sz: "pr_size ?pr = org_size ?pr"
    using ok le lt by (auto simp: ram_ok_def)
  have nz: "pr_size ?pr \<noteq> 0" using le lt by auto
  have sum: "unat (pr_addr ?pr + pr_size ?pr) = unat (pr_addr ?pr) + unat (org_size ?pr)"
    using ok unfolding sz by (simp add: ram_ok_def unat_word_ariths)
  have off: "off = unat paddr - unat (pr_addr ?pr)"
    unfolding off_def using le by (simp add: unat_sub)
  have lo: "off < unat (org_size ?pr)"
    using lt le sum off by (simp add: word_less_nat_alt word_le_nat_alt)
  show "of_nat off = paddr - pr_addr ?pr" unfolding off_def by simp
  then show "ram_byte m i off (host_ptr m i paddr)"
    using i r nz lo by (simp add: ram_byte_def host_ptr_def)
  have "unat paddr = off + unat (pr_addr ?pr)" using off le by (simp add: word_le_nat_alt)
  then show "off mod 4096 = page_offset paddr"
    using ok by (auto simp: page_offset_mod ram_ok_def elim!: dvdE)
qed

lemma ram_byteD:
  assumes "map_ok m" "ram_byte m i off q"
  shows "ram_ok (phys_mem_range m i)" "off < unat (org_size (phys_mem_range m i))" "off < 2 ^ 64"
    "4096 dvd unat (org_size (phys_mem_range m i))"
proof -
  show r: "ram_ok (phys_mem_range m i)" using assms map_okD by (simp add: ram_byte_def)
  show "off < unat (org_size (phys_mem_range m i))" using assms(2) by (simp add: ram_byte_def)
  with r show "off < 2 ^ 64" "4096 dvd unat (org_size (phys_mem_range m i))" by (simp_all add: ram_ok_def)
qed

text \<open>The rest of the page is in the buffer too.\<close>

lemma same_page_in:
  assumes "4096 dvd n" "off < n" "off div 4096 = off' div 4096"
  shows "off' < (n :: nat)"
proof -
  from assms(1) obtain k where k: "n = 4096 * k" by (auto elim: dvdE)
  with assms(2) have "off div 4096 < k" by (simp add: div_less_iff_less_mult mult.commute)
  with assms(3) show ?thesis unfolding k by (simp add: div_less_iff_less_mult mult.commute)
qed

lemma ram_byte_span:
  assumes "map_ok m" "ram_byte m i off p" "off mod 4096 + n \<le> 4096" "q \<in> span p n"
  shows "\<exists>off'. ram_byte m i off' q \<and> off' div 4096 = off div 4096"
proof -
  from assms(4) obtain k where k: "k < n" "q = p + of_nat k" by (auto simp: in_span_iff)
  have d: "(off + k) div 4096 = off div 4096" 
    by (rule div_nat_eqI) (use mult_div_mod_eq [of 4096 off] k(1) assms(3)
        mult_Suc_right [of 4096 "off div 4096"] in linarith)+
  note b = ram_byteD [OF assms(1,2)]
  have "off + k < unat (org_size (phys_mem_range m i))"
    using same_page_in [OF b(4,2), of "off + k"] d by simp
  then have "ram_byte m i (off + k) q" using assms(2) k(2) by (simp add: ram_byte_def add.assoc)
  with d show ?thesis by blast
qed

lemma page_dirty_same_page:
  assumes "off < 2 ^ 64" "off' < 2 ^ 64" "off div 4096 = off' div 4096"
  shows "page_dirty m i off = page_dirty m i off'"
proof -
  have u: "unat (drop_bit 12 (of_nat x :: u64)) = x div 4096" if "x < 2 ^ 64" for x
    using that unfolding unsigned_drop_bit_eq
    by (simp add: unsigned_of_nat take_bit_nat_eq_self drop_bit_eq_div)
  have "phys_mem_is_dirty_bit pr (of_nat off) = phys_mem_is_dirty_bit pr (of_nat off')" for pr
    unfolding phys_mem_is_dirty_bit_def Let_def DEVRAM_PAGE_SIZE_LOG2_def
      u [OF assms(1)] u [OF assms(2)] assms(3) ..
  then show ?thesis by (simp add: page_dirty_def)
qed

lemma mark_dirty_marks:
  assumes "map_ok m" "ram_hit m paddr i" "ram_byte m i off' q"
    and "off' div 4096 = unat (paddr - pr_addr (phys_mem_range m i)) div 4096"
  shows "page_dirty (mark_dirty i paddr m) i off'"
proof -
  note h = ram_hit_byte [OF assms(1,2)]
  note b = ram_byteD [OF assms(1) h(1)] and b' = ram_byteD [OF assms(1,3)]
  have "phys_mem_is_dirty_bit (phys_mem_set_dirty_bit (phys_mem_range m i)
      (of_nat (unat (paddr - pr_addr (phys_mem_range m i))))) (of_nat off')"
    by (rule set_dirty_marks [OF b(1,2) _ b'(2)]) (simp add: assms(4))
  then show ?thesis by (simp add: page_dirty_def mark_dirty_def upd_range_def)
qed

section \<open>Elementary effects\<close>

lemma fill_entry_ok:
  assumes "map_ok m" "ram_byte m i off ptr" "off mod 4096 = page_offset va"
    and "P m i (off - off mod 4096)"
  shows "entry_ok P m \<lparr>vaddr = va AND NOT PG_MASK, mem_addend = ptr - va\<rparr>"
proof -
  let ?off = "off - off mod 4096"
  have pb: "va AND NOT PG_MASK = page_base va" by (simp add: page_base_def)
  have "page_base (page_base va) = page_base va"
    by (rule bit_word_eqI) (auto simp: page_base_bits)
  moreover have "4096 dvd ?off" by (simp add: dvd_minus_mod)
  moreover have "ram_byte m i ?off (ptr - va + page_base va)"
  proof -
    have "page_base va = va - of_nat (page_offset va)" using page_base_offset [of va] by (simp add: eq_diff_eq)
    then have "ptr - va + page_base va = ptr - of_nat (off mod 4096)" using assms(3) by simp
    also have "\<dots> = phys_mem (phys_mem_range m i) + of_nat ?off"
      using assms(2) by (simp add: ram_byte_def of_nat_diff)
    finally show ?thesis
      using assms(2) by (auto simp: ram_byte_def intro: le_less_trans [OF diff_le_self])
  qed
  ultimately show ?thesis using assms(4) unfolding entry_ok_def pb by auto
qed

lemma evolves_tlb:
  "mem_map t = mem_map s \<Longrightarrow> hmem t = hmem s \<Longrightarrow> evolves s t"
  by (simp add: evolves_def same_layout_def)

lemma tlb_fill_all:
  "(\<And>k. k < TLB_SIZE \<Longrightarrow> Q (tlb k)) \<Longrightarrow> Q \<lparr>vaddr = va AND NOT PG_MASK, mem_addend = ptr - va\<rparr> \<Longrightarrow>
   k < TLB_SIZE \<Longrightarrow> Q (tlb_fill va ptr tlb k)"
  by (simp add: tlb_fill_def)

lemma safe_fill_read:
  assumes "ram_hit (mem_map s) paddr i" "page_offset paddr = page_offset va"
  shows "safe_step s (s\<lparr>tlb_read := tlb_fill va (host_ptr (mem_map s) i paddr) (tlb_read s)\<rparr>)"
  unfolding safe_step_def
proof
  assume ok: "core_ok s"
  then have m: "map_ok (mem_map s)" by (simp add: core_ok_def)
  note h = ram_hit_byte [OF m assms(1)]
  have "entry_ok (\<lambda>_ _ _. True) (mem_map s)
      \<lparr>vaddr = va AND NOT PG_MASK, mem_addend = host_ptr (mem_map s) i paddr - va\<rparr>"
    by (rule fill_entry_ok [OF m h(1)]) (simp_all add: h(2) assms(2))
  with ok show "core_ok (s\<lparr>tlb_read := tlb_fill va (host_ptr (mem_map s) i paddr) (tlb_read s)\<rparr>) \<and>
      evolves s (s\<lparr>tlb_read := tlb_fill va (host_ptr (mem_map s) i paddr) (tlb_read s)\<rparr>)"
    by (simp add: core_ok_def tlb_ok_def evolves_tlb tlb_fill_def)
qed

lemma safe_fill_code:
  assumes "ram_hit (mem_map s) paddr i" "page_offset paddr = page_offset va"
  shows "safe_step s (s\<lparr>tlb_code := tlb_fill va (host_ptr (mem_map s) i paddr) (tlb_code s)\<rparr>)"
  unfolding safe_step_def
proof
  assume ok: "core_ok s"
  then have m: "map_ok (mem_map s)" by (simp add: core_ok_def)
  note h = ram_hit_byte [OF m assms(1)]
  have "entry_ok (\<lambda>_ _ _. True) (mem_map s)
      \<lparr>vaddr = va AND NOT PG_MASK, mem_addend = host_ptr (mem_map s) i paddr - va\<rparr>"
    by (rule fill_entry_ok [OF m h(1)]) (simp_all add: h(2) assms(2))
  with ok show "core_ok (s\<lparr>tlb_code := tlb_fill va (host_ptr (mem_map s) i paddr) (tlb_code s)\<rparr>) \<and>
      evolves s (s\<lparr>tlb_code := tlb_fill va (host_ptr (mem_map s) i paddr) (tlb_code s)\<rparr>)"
    by (simp add: core_ok_def tlb_ok_def evolves_tlb tlb_fill_def)
qed

text \<open>A store into one page, with its dirty mark.\<close>

lemma safe_ram_store:
  assumes "ram_hit (mem_map s) paddr i" "page_offset paddr + n \<le> 4096"
    and h: "\<And>q. q \<notin> span (host_ptr (mem_map s) i paddr) n \<Longrightarrow> h q = hmem s q"
  shows "safe_step s (s\<lparr>mem_map := mark_dirty i paddr (mem_map s), hmem := h\<rparr>)"
  unfolding safe_step_def
proof
  let ?m = "mark_dirty i paddr (mem_map s)"
  assume ok: "core_ok s"
  then have m: "map_ok (mem_map s)" by (simp add: core_ok_def)
  note b = ram_hit_byte [OF m assms(1)]
  have "changed_ok ?m q" if "h q \<noteq> hmem s q" for q
  proof -
    have "q \<in> span (host_ptr (mem_map s) i paddr) n" using h that by blast
    from ram_byte_span [OF m b(1) _ this] assms(2) b(2) obtain off'
      where "ram_byte (mem_map s) i off' q"
        "off' div 4096 = unat (paddr - pr_addr (phys_mem_range (mem_map s) i)) div 4096" by auto
    with mark_dirty_marks [OF m assms(1)] show ?thesis unfolding changed_ok_def by force
  qed
  then have "evolves s (s\<lparr>mem_map := ?m, hmem := h\<rparr>)"
    by (simp add: evolves_def mark_layout page_dirty_mark)
  moreover have "core_ok (s\<lparr>mem_map := ?m, hmem := h\<rparr>)"
    using ok by (simp add: core_ok_def tlb_ok_def mark_map_ok entry_ok_mark page_dirty_mark)
  ultimately show "core_ok (s\<lparr>mem_map := ?m, hmem := h\<rparr>) \<and> evolves s (s\<lparr>mem_map := ?m, hmem := h\<rparr>)"
    by blast
qed

lemma safe_ram_store_fill:
  assumes hit: "ram_hit (mem_map s) paddr i" "page_offset paddr = page_offset va"
    and "page_offset paddr + n \<le> 4096"
    and "\<And>q. q \<notin> span (host_ptr (mem_map s) i paddr) n \<Longrightarrow> h q = hmem s q"
  shows "safe_step s (s\<lparr>mem_map := mark_dirty i paddr (mem_map s),
      tlb_write := tlb_fill va (host_ptr (mem_map s) i paddr) (tlb_write s), hmem := h\<rparr>)"
  unfolding safe_step_def
proof
  let ?m = "mark_dirty i paddr (mem_map s)" and ?ptr = "host_ptr (mem_map s) i paddr"
  let ?s = "s\<lparr>mem_map := ?m, hmem := h\<rparr>"
  let ?off = "unat (paddr - pr_addr (phys_mem_range (mem_map s) i))"
  assume ok: "core_ok s"
  then have m: "map_ok (mem_map s)" by (simp add: core_ok_def)
  have 1: "core_ok ?s" "evolves s ?s"
    using safe_ram_store [OF hit(1) assms(3,4)] ok by (simp_all add: safe_step_def)
  note b = ram_hit_byte [OF m hit(1)]
  have d: "(?off - ?off mod 4096) div 4096 = ?off div 4096" by (simp add: minus_mod_eq_mult_div)
  have "ram_byte (mem_map s) i (?off - ?off mod 4096)
      (phys_mem (phys_mem_range (mem_map s) i) + of_nat (?off - ?off mod 4096))"
    using b(1) by (auto simp: ram_byte_def intro: le_less_trans [OF diff_le_self])
  from mark_dirty_marks [OF m hit(1) this d]
  have "entry_ok page_dirty ?m \<lparr>vaddr = va AND NOT PG_MASK, mem_addend = ?ptr - va\<rparr>"
    by (intro fill_entry_ok [OF mark_map_ok [OF m], where i = i and off = ?off])
      (simp_all add: b(1,2) hit(2))
  then show "core_ok (s\<lparr>mem_map := ?m, tlb_write := tlb_fill va ?ptr (tlb_write s), hmem := h\<rparr>) \<and>
      evolves s (s\<lparr>mem_map := ?m, tlb_write := tlb_fill va ?ptr (tlb_write s), hmem := h\<rparr>)"
    using 1 by (simp add: core_ok_def tlb_ok_def tlb_fill_def evolves_def)
qed

text \<open>A store through the write TLB.\<close>

lemma tlb_hit_byte:
  assumes "entry_ok P m (tlb (tlb_index va))" "tlb_hit sz tlb va" "map_ok m"
  obtains i off where "ram_byte m i off (tlb_ptr tlb va)" "off mod 4096 = page_offset va"
    "aligned sz va" "P m i (off - off mod 4096)"
proof -
  let ?e = "tlb (tlb_index va)"
  have tag: "vaddr ?e = tlb_tag sz va" using assms(2) by (simp add: tlb_hit_def)
  then have "vaddr ?e \<noteq> - 1" using tlb_tag_not_minus_1 by simp
  with assms(1) obtain i off where pb: "page_base (vaddr ?e) = vaddr ?e" and d: "4096 dvd off"
    and r: "ram_byte m i off (mem_addend ?e + vaddr ?e)" and P: "P m i off"
    by (auto simp: entry_ok_def)
  have t: "tlb_tag sz va = page_base (vaddr ?e)" using tag pb by simp
  have al: "aligned sz va" and va: "page_base va = vaddr ?e"
    using tlb_tag_page [OF t] pb by simp_all
  have m: "(off + page_offset va) mod 4096 = page_offset va"
    "(off + page_offset va) div 4096 = off div 4096"
    using d page_offset_less [of va] by (auto elim!: dvdE)
  have "tlb_ptr tlb va = mem_addend ?e + vaddr ?e + of_nat (page_offset va)"
    using page_base_offset [of va] va by (simp add: tlb_ptr_def add.assoc)
  moreover have "off + page_offset va < unat (org_size (phys_mem_range m i))"
    using same_page_in [OF ram_byteD(4,2) [OF assms(3) r]] m(2) by simp
  ultimately have "ram_byte m i (off + page_offset va) (tlb_ptr tlb va)"
    using r by (simp add: ram_byte_def add.assoc)
  then show thesis using that m(1) al P by simp
qed

lemma aligned_page_room: "aligned sz va \<Longrightarrow> page_offset va + size_bytes sz \<le> 4096"
  using aligned_room [of va sz] by (simp add: aligned_def)

lemma safe_tlb_store:
  assumes "tlb_hit sz (tlb_write s) va"
  shows "safe_step s (s\<lparr>hmem := store_le (size_bytes sz) (v :: u64) (tlb_ptr (tlb_write s) va) (hmem s)\<rparr>)"
  unfolding safe_step_def
proof
  let ?h = "store_le (size_bytes sz) v (tlb_ptr (tlb_write s) va) (hmem s)"
  assume ok: "core_ok s"
  then have m: "map_ok (mem_map s)"
    and e: "entry_ok page_dirty (mem_map s) (tlb_write s (tlb_index va))"
    using tlb_index_less [of va] by (simp_all add: core_ok_def tlb_ok_def)
  from tlb_hit_byte [OF e assms m] obtain i off
    where b: "ram_byte (mem_map s) i off (tlb_ptr (tlb_write s) va)" "off mod 4096 = page_offset va"
      "aligned sz va" "page_dirty (mem_map s) i (off - off mod 4096)" .
  have "changed_ok (mem_map s) q" if "?h q \<noteq> hmem s q" for q
  proof -
    have "q \<in> span (tlb_ptr (tlb_write s) va) (size_bytes sz)" using that store_le_outside by blast
    from ram_byte_span [OF m b(1) _ this] aligned_page_room [OF b(3)] b(2) obtain off'
      where o: "ram_byte (mem_map s) i off' q" "off' div 4096 = off div 4096" by auto
    have "(off - off mod 4096) div 4096 = off' div 4096"
      using o(2) by (simp add: minus_mod_eq_mult_div)
    then have "page_dirty (mem_map s) i off'"
      using page_dirty_same_page [of "off - off mod 4096" off'] b(4) ram_byteD(3) [OF m b(1)]
        ram_byteD(3) [OF m o(1)] by simp
    with o(1) show ?thesis by (auto simp: changed_ok_def)
  qed
  then show "core_ok (s\<lparr>hmem := ?h\<rparr>) \<and> evolves s (s\<lparr>hmem := ?h\<rparr>)"
    using ok by (simp add: core_ok_def tlb_ok_def evolves_def same_layout_def)
qed

section \<open>Direct memory access of the platform\<close>

lemma set_dirty_pages_layout: "same_layout pr (set_dirty_pages a b pr)"
proof -
  have "same_layout pr (fold (\<lambda>page pr. phys_mem_set_dirty_bit pr (push_bit k (of_nat page))) xs pr)"
    for xs k by (induction xs arbitrary: pr)
      (auto simp: same_layout_def intro: same_layout_trans [unfolded same_layout_def, OF _ _]
        set_dirty_layout [unfolded same_layout_def])
  then show ?thesis by (simp add: set_dirty_pages_def)
qed

lemma set_dirty_pages_mono:
  "phys_mem_is_dirty_bit pr x \<Longrightarrow> phys_mem_is_dirty_bit (set_dirty_pages a b pr) x"
proof -
  have "phys_mem_is_dirty_bit pr x \<Longrightarrow> phys_mem_is_dirty_bit
      (fold (\<lambda>page pr. phys_mem_set_dirty_bit pr (push_bit k (of_nat page))) xs pr) x" for xs k
    by (induction xs arbitrary: pr) (auto intro: set_dirty_mono)
  then show "phys_mem_is_dirty_bit pr x \<Longrightarrow> ?thesis" by (simp add: set_dirty_pages_def)
qed

lemma set_dirty_pages_ram_ok: "ram_ok pr \<Longrightarrow> ram_ok (set_dirty_pages a b pr)"
proof -
  have "ram_ok pr \<Longrightarrow> ram_ok
      (fold (\<lambda>page pr. phys_mem_set_dirty_bit pr (push_bit k (of_nat page))) xs pr)" for xs k
    by (induction xs arbitrary: pr) (auto intro: set_dirty_ram_ok)
  then show "ram_ok pr \<Longrightarrow> ?thesis" by (simp add: set_dirty_pages_def)
qed

text \<open>Every page from \<open>a\<close> to \<open>b\<close> gets its mark.\<close>

lemma set_dirty_pages_marks:
  assumes "ram_ok pr" "off < unat (org_size pr)" "a \<le> off div 4096" "off div 4096 \<le> b"
  shows "phys_mem_is_dirty_bit (set_dirty_pages a b pr) (of_nat off)"
proof -
  have "phys_mem_is_dirty_bit
      (fold (\<lambda>page pr. phys_mem_set_dirty_bit pr (push_bit DEVRAM_PAGE_SIZE_LOG2 (of_nat page))) xs pr)
      (of_nat off)"
    if "off div 4096 \<in> set xs" "ram_ok pr" "off < unat (org_size pr)" for xs pr
    using that
  proof (induction xs arbitrary: pr)
    case Nil
    then show ?case by simp
  next
    case (Cons x xs)
    show ?case
    proof (cases "off div 4096 \<in> set xs")
      case True
      with Cons show ?thesis by (simp add: set_dirty_ram_ok)
    next
      case False
      with Cons.prems have x: "x = off div 4096" by simp
      have p: "push_bit DEVRAM_PAGE_SIZE_LOG2 (of_nat x) = (of_nat (off div 4096 * 4096) :: u64)"
        by (simp add: x push_bit_eq_mult)
      have "phys_mem_is_dirty_bit (phys_mem_set_dirty_bit pr (of_nat (off div 4096 * 4096))) (of_nat off)"
        by (rule set_dirty_marks [OF Cons.prems(2)])
          (use Cons.prems(3) in \<open>auto intro: le_less_trans [OF div_times_less_eq_dividend]\<close>)
      moreover have "phys_mem_is_dirty_bit pr x \<Longrightarrow> phys_mem_is_dirty_bit
          (fold (\<lambda>page pr. phys_mem_set_dirty_bit pr (push_bit k (of_nat page))) xs pr) x" for pr x k
        by (induction xs arbitrary: pr) (auto intro: set_dirty_mono)
      ultimately show ?thesis by (simp only: fold.simps comp_def p)
    qed
  qed
  moreover have "off div 4096 \<in> set [a..<Suc b]" using assms(3,4) by (simp del: upt_Suc)
  ultimately show ?thesis unfolding set_dirty_pages_def using assms(1,2) by blast
qed

lemma entry_ok_evolve:
  assumes "entry_ok P m e" "n_phys_mem_range m' = n_phys_mem_range m"
    "\<forall>i. same_layout (phys_mem_range m i) (phys_mem_range m' i)" "\<And>i off. P m i off \<Longrightarrow> P m' i off"
  shows "entry_ok P m' e"
  using assms unfolding entry_ok_def ram_byte_layout [OF assms(2,3)] by blast

lemma safe_remap:
  assumes "n_phys_mem_range m' = n_phys_mem_range (mem_map s)"
    and "\<forall>i. same_layout (phys_mem_range (mem_map s) i) (phys_mem_range m' i)"
    and "\<And>i off. page_dirty (mem_map s) i off \<Longrightarrow> page_dirty m' i off"
    and "map_ok (mem_map s) \<Longrightarrow> map_ok m'"
    and "\<And>q. map_ok (mem_map s) \<Longrightarrow> h q \<noteq> hmem s q \<Longrightarrow> changed_ok m' q"
  shows "safe_step s (s\<lparr>mem_map := m', hmem := h\<rparr>)"
  unfolding safe_step_def
proof
  assume ok: "core_ok s"
  with assms have "evolves s (s\<lparr>mem_map := m', hmem := h\<rparr>)" by (simp add: evolves_def core_ok_def)
  moreover have "core_ok (s\<lparr>mem_map := m', hmem := h\<rparr>)"
    using ok assms(4) entry_ok_evolve [OF _ assms(1,2)] assms(3) by (simp add: core_ok_def tlb_ok_def)
  ultimately show "core_ok (s\<lparr>mem_map := m', hmem := h\<rparr>) \<and> evolves s (s\<lparr>mem_map := m', hmem := h\<rparr>)"
    by blast
qed

text \<open>What \<open>tinyemu_core_ram_range\<close> hands out for writing: a stretch of one buffer, all of its pages
  marked.\<close>

lemma ram_range_write:
  assumes "tinyemu_core_ram_range a l True s = (Some ptr, s')"
  obtains i off where "ram_hit (mem_map s) a i" "ptr = host_ptr (mem_map s) i a"
    "off = unat (a - pr_addr (phys_mem_range (mem_map s) i))"
    "l \<le> pr_size (phys_mem_range (mem_map s) i) - (a - pr_addr (phys_mem_range (mem_map s) i))"
    "l = 0 \<longrightarrow> s' = s"
    "l \<noteq> 0 \<longrightarrow> s' = s\<lparr>mem_map := upd_range i (set_dirty_pages
       (unat (drop_bit DEVRAM_PAGE_SIZE_LOG2 (a - pr_addr (phys_mem_range (mem_map s) i))))
       (unat (drop_bit DEVRAM_PAGE_SIZE_LOG2 (a - pr_addr (phys_mem_range (mem_map s) i) + l - 1))))
       (mem_map s)\<rparr>"
proof -
  from assms obtain i where i: "get_phys_mem_range (mem_map s) a = Some i"
    by (auto simp: tinyemu_core_ram_range_def split: option.splits)
  let ?pr = "phys_mem_range (mem_map s) i"
  let ?t = "s\<lparr>mem_map := upd_range i (set_dirty_pages
       (unat (drop_bit DEVRAM_PAGE_SIZE_LOG2 (a - pr_addr ?pr)))
       (unat (drop_bit DEVRAM_PAGE_SIZE_LOG2 (a - pr_addr ?pr + l - 1)))) (mem_map s)\<rparr>"
  have c: "is_ram ?pr" "\<not> l > pr_size ?pr - (a - pr_addr ?pr)"
    using assms unfolding tinyemu_core_ram_range_def i option.case Let_def
    by (simp_all split: if_splits)
  then have "(Some ptr, s') = (Some (phys_mem ?pr + (a - pr_addr ?pr)), if l \<noteq> 0 then ?t else s)"
    using assms unfolding tinyemu_core_ram_range_def i option.case Let_def
    by (simp only: simp_thms if_False if_True split: if_splits) simp_all
  then have "ptr = phys_mem ?pr + (a - pr_addr ?pr)" "s' = (if l \<noteq> 0 then ?t else s)"
    by simp_all
  with c i show thesis
    by (intro that [of i "unat (a - pr_addr ?pr)"]) (simp_all add: ram_hit_def host_ptr_def not_less)
qed

lemma span_pages:
  assumes "map_ok m" "ram_hit m a i" "q \<in> span (host_ptr m i a) (unat l)"
    and "l \<le> pr_size (phys_mem_range m i) - (a - pr_addr (phys_mem_range m i))"
  shows "\<exists>off. ram_byte m i off q \<and>
     unat (drop_bit DEVRAM_PAGE_SIZE_LOG2 (a - pr_addr (phys_mem_range m i))) \<le> off div 4096 \<and>
     off div 4096 \<le> unat (drop_bit DEVRAM_PAGE_SIZE_LOG2 (a - pr_addr (phys_mem_range m i) + l - 1))"
proof -
  let ?w = "a - pr_addr (phys_mem_range m i)" and ?n = "unat (org_size (phys_mem_range m i))"
  let ?off = "unat ?w"
  note h = ram_hit_byte [OF assms(1,2)] and b = ram_byteD [OF assms(1) ram_hit_byte(1) [OF assms(1,2)]]
  have sz: "pr_size (phys_mem_range m i) = org_size (phys_mem_range m i)"
    using b(1) h(1) by (auto simp: ram_ok_def ram_byte_def)
  have "?w \<le> org_size (phys_mem_range m i)" using b(2) by (simp add: word_le_nat_alt)
  then have "unat (org_size (phys_mem_range m i) - ?w) = ?n - ?off" by (rule unat_sub)
  then have l: "?off + unat l \<le> ?n" using assms(4) b(2) unfolding sz word_le_nat_alt by simp
  from assms(3) obtain k where k: "k < unat l" "q = host_ptr m i a + of_nat k"
    by (auto simp: in_span_iff)
  have "ram_byte m i (?off + k) q"
    using h(1) k l unfolding ram_byte_def by (simp add: add.assoc)
  moreover have "unat (drop_bit 12 ?w) = ?off div 4096"
    by (simp add: unsigned_drop_bit_eq drop_bit_eq_div unat_div_distrib flip: )
  moreover have "unat (drop_bit 12 (?w + l - 1)) = (?off + unat l - 1) div 4096"
  proof -
    have n: "?n < 2 ^ 64" using b(1) by (simp add: ram_ok_def)
    have "unat (?w + l) = ?off + unat l" using l n by (simp add: unat_word_ariths)
    moreover have "1 \<le> ?w + l" using k(1) calculation by (simp add: word_le_nat_alt)
    ultimately have "unat (?w + l - 1) = ?off + unat l - 1" by (simp add: unat_sub)
    then show ?thesis by (simp add: drop_bit_eq_div unat_div_distrib)
  qed
  moreover have "(?off + k) div 4096 \<le> (?off + unat l - 1) div 4096"
    using k(1) by (intro div_le_mono) simp
  moreover have "?off div 4096 \<le> (?off + k) div 4096" by (intro div_le_mono) simp
  ultimately show ?thesis unfolding DEVRAM_PAGE_SIZE_LOG2_def by metis
qed

lemma pages_map:
  defines "m' m i a b \<equiv> upd_range i (set_dirty_pages a b) m"
  shows "n_phys_mem_range (m' m i a b) = n_phys_mem_range m"
    and "\<forall>j. same_layout (phys_mem_range m j) (phys_mem_range (m' m i a b) j)"
    and "page_dirty m j off \<Longrightarrow> page_dirty (m' m i a b) j off"
    and "map_ok m \<Longrightarrow> map_ok (m' m i a b)"
  unfolding m'_def
  by (auto simp: upd_range_def page_dirty_def map_ok_def set_dirty_pages_layout set_dirty_pages_mono
      set_dirty_pages_ram_ok same_layout_sel [OF set_dirty_pages_layout] same_layout_def
      set_dirty_pages_layout [unfolded same_layout_def])

lemma safe_dma: "safe_step s (do_dma w s)"
proof (cases w)
  case (Pair a bs)
  let ?l = "of_nat (length bs) :: u64"
  consider "length bs \<ge> 2 ^ 64" | s' where "tinyemu_core_ram_range a ?l True s = (None, s')" "length bs < 2 ^ 64"
    | ptr s' where "tinyemu_core_ram_range a ?l True s = (Some ptr, s')" "length bs < 2 ^ 64"
    by (metis not_le option.exhaust surj_pair)
  then show ?thesis
  proof cases
    case 1
    then show ?thesis by (simp add: do_dma_def Pair safe_step_same)
  next
    case (2 s')
    then have "s' = s"
      unfolding tinyemu_core_ram_range_def Let_def by (auto split: option.splits if_splits)
    with 2 show ?thesis by (simp add: do_dma_def Pair safe_step_same)
  next
    case (3 ptr s')
    have ul: "unat ?l = length bs" using 3(2) by (simp add: unsigned_of_nat take_bit_nat_eq_self)
    have d: "do_dma w s = s'\<lparr>hmem := store_bytes bs ptr (hmem s')\<rparr>" using 3 by (simp add: do_dma_def Pair)
    from ram_range_write [OF 3(1)] obtain i where hit: "ram_hit (mem_map s) a i"
      and ptr: "ptr = host_ptr (mem_map s) i a"
      and l: "?l \<le> pr_size (phys_mem_range (mem_map s) i) - (a - pr_addr (phys_mem_range (mem_map s) i))"
      and z: "?l = 0 \<longrightarrow> s' = s"
      and s': "?l \<noteq> 0 \<longrightarrow> s' = s\<lparr>mem_map := upd_range i (set_dirty_pages
         (unat (drop_bit DEVRAM_PAGE_SIZE_LOG2 (a - pr_addr (phys_mem_range (mem_map s) i))))
         (unat (drop_bit DEVRAM_PAGE_SIZE_LOG2 (a - pr_addr (phys_mem_range (mem_map s) i) + ?l - 1))))
         (mem_map s)\<rparr>" by metis
    show ?thesis
    proof (cases "?l = 0")
      case True
      then have "bs = []" using ul by simp
      then show ?thesis unfolding d using z True by (simp add: safe_step_same)
    next
      case False
      let ?a = "unat (drop_bit DEVRAM_PAGE_SIZE_LOG2 (a - pr_addr (phys_mem_range (mem_map s) i)))"
      let ?b = "unat (drop_bit DEVRAM_PAGE_SIZE_LOG2 (a - pr_addr (phys_mem_range (mem_map s) i) + ?l - 1))"
      let ?m = "upd_range i (set_dirty_pages ?a ?b) (mem_map s)"
      have "changed_ok ?m q"
        if m: "map_ok (mem_map s)" and q: "store_bytes bs ptr (hmem s) q \<noteq> hmem s q" for q
      proof -
        have "q \<in> span (host_ptr (mem_map s) i a) (unat ?l)"
          using q store_bytes_outside unfolding ptr ul by blast
        from span_pages [OF m hit this l] obtain off where o: "ram_byte (mem_map s) i off q"
          "?a \<le> off div 4096" "off div 4096 \<le> ?b" by auto
        note b = ram_byteD [OF m o(1)]
        have "page_dirty ?m i off"
          using set_dirty_pages_marks [OF b(1,2) o(2,3)] by (simp add: page_dirty_def upd_range_def)
        with o(1) ram_byte_layout [OF pages_map(1,2), of i ?a ?b "mem_map s" i off q] show ?thesis
          unfolding changed_ok_def by blast
      qed
      then have "safe_step s (s\<lparr>mem_map := ?m, hmem := store_bytes bs ptr (hmem s)\<rparr>)"
        by (intro safe_remap pages_map)
      then show ?thesis unfolding d using s' False by simp
    qed
  qed
qed

section \<open>Every access and every instruction is safe\<close>

lemma safe_flush: "safe_step s (tlb_flush_all s)"
  by (simp add: safe_step_def core_ok_def tlb_ok_def tlb_flush_all_def tlb_init_def tlb_clear_def
      entry_ok_def evolves_def same_layout_def)

interpretation sf: mem_relation safe_step
proof unfold_locales
  show "\<And>s t u. safe_step s t \<Longrightarrow> safe_step t u \<Longrightarrow> safe_step s u" by (rule safe_step_trans)
qed (auto simp: set_pending_def tinyemu_core_set_interrupts_def riscv_cpu_reset_mip_def
    riscv_cpu_set_mip_def Let_def intro: safe_step_same safe_fill_read safe_fill_code safe_ram_store
    safe_ram_store_fill safe_tlb_store safe_dma)

interpretation sr: run_relation safe_step
  by unfold_locales (auto simp: keeps_def intro: safe_step_same safe_flush)

end
