(* ===== verification/Cycles.thy ===== *)
theory Cycles
  imports Safety
begin

text \<open>
  Termination and cycle accounting. The loop tests the cycle counter only when the code window is
  empty, so a call may run past its budget by the instructions of one page. \<open>room\<close> counts the
  parcels left in the window; it and the cycle counter bound the number of iterations.
\<close>

section \<open>The code window\<close>

definition win_ok :: "'p Interp \<Rightarrow> bool" where
  "win_ok s \<longleftrightarrow> (code_ptr s < code_end s \<longrightarrow>
     unat (code_end s) + 4 \<le> 2 ^ 64 \<and> unat (code_end s) - unat (code_ptr s) \<le> 4094)"

definition room :: "'p Interp \<Rightarrow> nat" where
  "room s = (if code_ptr s < code_end s then (unat (code_end s) - unat (code_ptr s) + 1) div 2 else 0)"

lemma room_le: "win_ok s \<Longrightarrow> room s \<le> 2047"
  by (auto simp: win_ok_def room_def)

lemma win_cong:
  "code_ptr t = code_ptr s \<Longrightarrow> code_end t = code_end s \<Longrightarrow> win_ok t = win_ok s"
  "code_ptr t = code_ptr s \<Longrightarrow> code_end t = code_end s \<Longrightarrow> room t = room s"
  by (simp_all add: win_ok_def room_def)

text \<open>Moving on by an instruction uses up room.\<close>

lemma room_advance:
  assumes "win_ok s" "unat (code_ptr s) + 4 < 2 ^ 64" "n = 2 \<or> n = 4"
    and "code_ptr t = code_ptr s + of_nat n" "code_end t = code_end s"
  shows "win_ok t" and "code_ptr s < code_end s \<Longrightarrow> room t < room s"
proof -
  have u: "unat (code_ptr t) = unat (code_ptr s) + n"
    unfolding assms(4) using assms(2,3) by (auto simp: unat_word_ariths)
  show "code_ptr s < code_end s \<Longrightarrow> room t < room s"
    using u assms(3,5) by (auto simp: room_def word_less_nat_alt)
  show "win_ok t"
    using u assms(1,5) by (auto simp: win_ok_def word_less_nat_alt)
qed

section \<open>Fetch\<close>

lemma insn_slow_pending:
  "fst (target_read_insn_slow va s) = None \<Longrightarrow> pending_exception (snd (target_read_insn_slow va s)) \<ge> 0"
  unfolding target_read_insn_slow_def Let_def prod.case_eq_if
  by (auto split: option.splits if_splits)

lemma fetch_ptr_pending:
  "fst (fetch_ptr va s) = None \<Longrightarrow> pending_exception (snd (fetch_ptr va s)) \<ge> 0"
  using insn_slow_pending [of va s] by (auto simp: fetch_ptr_def split: if_splits)

lemma insn_u16_pending:
  "fst (target_read_insn_u16 va s) = None \<Longrightarrow> pending_exception (snd (target_read_insn_u16 va s)) \<ge> 0"
  using fetch_ptr_pending [of va s]
  by (auto simp: target_read_insn_u16_def prod.case_eq_if split: option.splits)

lemma code_hit_tlb_hit: "code_tlb_hit s va = tlb_hit S8 (tlb_code s) va"
  using tlb_tag_aligned [of S8 va] by (simp add: code_tlb_hit_def tlb_hit_def page_base_def aligned_def)

text \<open>The host pointer of a fetch is in a RAM buffer, at the page offset of the address.\<close>

lemma fetch_ptr_byte:
  assumes "core_ok s" "fetch_ptr va s = (Some ptr, t)"
  obtains i off where "ram_byte (mem_map t) i off ptr" "off mod 4096 = page_offset va" "map_ok (mem_map t)"
proof (cases "code_tlb_hit s va")
  case True
  with assms have t: "t = s" "ptr = tlb_ptr (tlb_code s) va" by (auto simp: fetch_ptr_def)
  have m: "map_ok (mem_map s)"
    and e: "entry_ok (\<lambda>_ _ _. True) (mem_map s) (tlb_code s (tlb_index va))"
    using assms(1) tlb_index_less [of va] by (simp_all add: core_ok_def tlb_ok_def)
  from tlb_hit_byte [OF e True [unfolded code_hit_tlb_hit] m] t m that show thesis by metis
next
  case False
  with assms(2) have slow: "target_read_insn_slow va s = (Some ptr, t)" by (simp add: fetch_ptr_def)
  obtain res paddr s1 where g: "get_phys_addr va ACCESS_CODE s = (res, paddr, s1)"
    by (metis prod_cases3)
  have "core_ok s1"
    using sf.R_get_phys_addr [of s va ACCESS_CODE] assms(1) g by (simp add: safe_step_def)
  then have m: "map_ok (mem_map s1)" by (simp add: core_ok_def)
  from slow g obtain i where hit: "ram_hit (mem_map s1) paddr i" and r: "res = TRANSLATE_OK"
    and p: "ptr = host_ptr (mem_map s1) i paddr" and t: "mem_map t = mem_map s1"
    by (auto simp: target_read_insn_slow_def ram_hit_def host_ptr_def Let_def
        split: if_splits option.splits)
  have "page_offset paddr = page_offset va" using get_phys_addr_offset g r by blast
  with ram_hit_byte [OF m hit] p t m that show thesis by metis
qed

text \<open>So the window never reaches the end of the host address space.\<close>

lemma window_bounds:
  assumes "map_ok m" "ram_byte m i off ptr" "off mod 4096 = page_offset va"
  defines "e \<equiv> ptr + ((PG_MASK + 1) - (va AND PG_MASK)) - 2"
  shows "unat ptr + 4 < 2 ^ 64" and "ptr < e \<Longrightarrow> unat e + 4 \<le> 2 ^ 64 \<and> unat e - unat ptr \<le> 4094"
proof -
  let ?pr = "phys_mem_range m i" and ?o = "page_offset va"
  note b = ram_byteD [OF assms(1,2)]
  have host: "unat (phys_mem ?pr) + unat (org_size ?pr) + 4096 \<le> 2 ^ 64" using b(1) by (simp add: ram_ok_def)
  have p: "unat ptr = unat (phys_mem ?pr) + off"
    using assms(2) b(2,3) host by (simp add: ram_byte_def unat_word_ariths unsigned_of_nat take_bit_nat_eq_self)
  with host b(2) show "unat ptr + 4 < 2 ^ 64" by simp
  have "(PG_MASK + 1) - (va AND PG_MASK) = (of_nat (4096 - ?o) :: u64)"
    using page_offset_less [of va] by (simp add: page_offset_def of_nat_diff)
  then have e: "e = ptr + of_nat (4096 - ?o) - 2" by (simp add: e_def)
  have o: "?o < 4096" "?o \<le> off" using page_offset_less assms(3) by (auto intro: mod_less_eq_dividend)
  have s: "unat (ptr + of_nat (4096 - ?o)) = unat ptr + (4096 - ?o)"
    using p host b(2) by (simp add: unat_word_ariths unsigned_of_nat take_bit_nat_eq_self)
  have "unat ptr + (4096 - ?o) \<ge> 2" using o p by (cases "?o = 4095") auto
  then have "unat e = unat ptr + (4096 - ?o) - 2"
    unfolding e by (subst unat_sub) (simp_all add: word_le_nat_alt s)
  moreover have "off + (4096 - ?o) \<le> unat (org_size ?pr)"
  proof -
    have "off div 4096 = (off + (4095 - ?o)) div 4096"
      by (rule div_nat_eqI [symmetric]) (use mult_div_mod_eq [of 4096 off] assms(3) o(1)
          mult_Suc_right [of 4096 "off div 4096"] in linarith)+
    from same_page_in [OF b(4,2) this] o(1) show ?thesis by simp
  qed
  ultimately show "ptr < e \<Longrightarrow> unat e + 4 \<le> 2 ^ 64 \<and> unat e - unat ptr \<le> 4094"
    using p host by simp
qed

lemma lf_elapsed:
  "loop_frame s t \<Longrightarrow> n_cycles t = n_cycles s \<and> elapsed_cycles_addend t = elapsed_cycles_addend s \<and>
   code_ptr t = code_ptr s \<and> code_end t = code_end s"
  by (simp add: loop_frame_def)

lemma fetch_window_ok:
  assumes "map_ok (mem_map s)" "ram_byte (mem_map s) i off ptr" "off mod 4096 = page_offset va"
    and "fetch_window va ptr s = (f, t)"
  shows "n_cycles t = n_cycles s" "elapsed_cycles_addend t = elapsed_cycles_addend s" "f \<noteq> FetchEnd"
    and "f = FetchFault \<Longrightarrow> pending_exception t \<ge> 0"
    and "win_ok t" "unat (code_ptr t) + 4 < 2 ^ 64"
proof -
  let ?e = "ptr + ((PG_MASK + 1) - (va AND PG_MASK)) - 2"
  let ?s = "s\<lparr>code_ptr := ptr, code_end := ?e, code_to_pc_addend := va - ptr\<rparr>"
  let ?u = "target_read_insn_u16 (va + 2) ?s"
  note w = window_bounds [OF assms(1-3)]
  have ws: "win_ok ?s" using w(2) by (simp add: win_ok_def)
  have u: "loop_frame ?s (snd ?u)" by (rule lf.R_insn_u16)
  have t: "t = ?s \<or> t = snd ?u"
    using assms(4) unfolding fetch_window_def Let_def
    by (auto simp: prod.case_eq_if split: option.splits if_splits)
  then have lf: "loop_frame ?s t" using u lf.R_refl by blast
  from lf_elapsed [OF lf] w(1) ws show "n_cycles t = n_cycles s"
    "elapsed_cycles_addend t = elapsed_cycles_addend s" "win_ok t" "unat (code_ptr t) + 4 < 2 ^ 64"
    by (simp_all add: win_ok_def)
  show "f \<noteq> FetchEnd" "f = FetchFault \<Longrightarrow> pending_exception t \<ge> 0"
    using assms(4) insn_u16_pending [of "va + 2" ?s] unfolding fetch_window_def Let_def
    by (auto simp: prod.case_eq_if split: option.splits if_splits)
qed

lemma fetch_translate_ok:
  assumes "core_ok s" "fetch_translate s = (f, t)"
  shows "n_cycles t = n_cycles s" "elapsed_cycles_addend t = elapsed_cycles_addend s" "f \<noteq> FetchEnd"
    and "f = FetchFault \<Longrightarrow> pending_exception t \<ge> 0"
    and "f \<noteq> FetchFault \<Longrightarrow> win_ok t \<and> unat (code_ptr t) + 4 < 2 ^ 64"
proof -
  obtain r s1 where p: "fetch_ptr (pc s) s = (r, s1)" by (cases "fetch_ptr (pc s) s")
  have l: "n_cycles s1 = n_cycles s" "elapsed_cycles_addend s1 = elapsed_cycles_addend s"
    using lf_elapsed [OF lf.R_fetch_ptr [of s "pc s"]] p by simp_all
  have a: "arch s1 = arch s" using ar.R_fetch_ptr [of "pc s" s] p by simp
  have pc: "pc s1 = pc s" using arg_cong [OF a, of pc] by (simp add: arch_def)
  have "n_cycles t = n_cycles s \<and> elapsed_cycles_addend t = elapsed_cycles_addend s \<and> f \<noteq> FetchEnd \<and>
    (f = FetchFault \<longrightarrow> pending_exception t \<ge> 0) \<and>
    (f \<noteq> FetchFault \<longrightarrow> win_ok t \<and> unat (code_ptr t) + 4 < 2 ^ 64)"
  proof (cases r)
    case None
    with assms(2) p l fetch_ptr_pending [of "pc s" s] show ?thesis by (auto simp: fetch_translate_def)
  next
    case (Some ptr)
    from fetch_ptr_byte [OF assms(1), of "pc s" ptr s1] p Some obtain i off
      where b: "ram_byte (mem_map s1) i off ptr" "off mod 4096 = page_offset (pc s1)" "map_ok (mem_map s1)"
      unfolding pc by metis
    have "fetch_window (pc s1) ptr s1 = (f, t)" using assms(2) p Some by (simp add: fetch_translate_def)
    from fetch_window_ok [OF b(3,1,2) this] l show ?thesis by simp
  qed
  then show "n_cycles t = n_cycles s" "elapsed_cycles_addend t = elapsed_cycles_addend s" "f \<noteq> FetchEnd"
    "f = FetchFault \<Longrightarrow> pending_exception t \<ge> 0"
    "f \<noteq> FetchFault \<Longrightarrow> win_ok t \<and> unat (code_ptr t) + 4 < 2 ^ 64"
    by auto
qed

text \<open>
  Outcomes of a fetch: an instruction, with budget left or from the window; the end, with the
  budget used up or one cycle for an interrupt; a fault with its cause.
\<close>

lemma fetch_ok:
  assumes "core_ok s" "win_ok s" "fetch s = (f, t)"
  shows "elapsed_cycles_addend t = elapsed_cycles_addend s"
    and "f = FetchEnd \<Longrightarrow> (n_cycles s \<le> 0 \<and> n_cycles t = n_cycles s) \<or>
           (n_cycles s > 0 \<and> n_cycles t = n_cycles s - 1)"
    and "f = FetchFault \<Longrightarrow> n_cycles s > 0 \<and> n_cycles t = n_cycles s \<and> pending_exception t \<ge> 0"
    and "f = Fetched insn \<Longrightarrow> n_cycles t = n_cycles s \<and> win_ok t \<and> unat (code_ptr t) + 4 < 2 ^ 64 \<and>
           (n_cycles s > 0 \<or> (code_ptr t < code_end t \<and> room t = room s))"
proof -
  have "elapsed_cycles_addend t = elapsed_cycles_addend s \<and>
    (f = FetchEnd \<longrightarrow> (n_cycles s \<le> 0 \<and> n_cycles t = n_cycles s) \<or>
           (n_cycles s > 0 \<and> n_cycles t = n_cycles s - 1)) \<and>
    (f = FetchFault \<longrightarrow> n_cycles s > 0 \<and> n_cycles t = n_cycles s \<and> pending_exception t \<ge> 0) \<and>
    (f = Fetched insn \<longrightarrow> n_cycles t = n_cycles s \<and> win_ok t \<and> unat (code_ptr t) + 4 < 2 ^ 64 \<and>
           (n_cycles s > 0 \<or> (code_ptr t < code_end t \<and> room t = room s)))"
  proof (cases "code_ptr s \<ge> code_end s")
    case False
    then have "f = Fetched (get_insn32 (hmem s) (code_ptr s))" "t = s"
      using assms(3) by (auto simp: fetch_def)
    moreover have "unat (code_ptr s) + 4 < 2 ^ 64"
      using False assms(2) by (simp add: win_ok_def not_le word_less_nat_alt)
    ultimately show ?thesis using False assms(2) by (simp add: not_le)
  next
    case empty: True
    let ?s = "s\<lparr>pc := get_pc s\<rparr>" let ?r = "raise_interrupt ?s"
    have ok: "core_ok ?s" "core_ok (snd ?r)"
      using sr.R_pc [OF sf.R_refl, of s "get_pc s"] sr.R_raise_interrupt [of ?s] assms(1)
      by (auto simp: safe_step_def)
    have r: "n_cycles (snd ?r) = n_cycles s" "elapsed_cycles_addend (snd ?r) = elapsed_cycles_addend s"
      using lf_elapsed [OF lf.R_raise_interrupt [of ?s]] by simp_all
    consider "n_cycles s \<le> 0" "(f, t) = (FetchEnd, ?s)"
      | "n_cycles s > 0" "(f, t) = (FetchEnd, (snd ?r)\<lparr>n_cycles := n_cycles (snd ?r) - 1\<rparr>)"
      | "n_cycles s > 0" "fetch_translate ?s = (f, t)"
      | "n_cycles s > 0" "fetch_translate (snd ?r) = (f, t)"
      using assms(3) empty unfolding fetch_def Let_def
      by (cases "?r"; cases "fst ?r") (auto split: if_splits)
    then show ?thesis
    proof cases
      case 3
      from fetch_translate_ok [OF ok(1) 3(2)] 3(1) show ?thesis by auto
    next
      case 4
      from fetch_translate_ok [OF ok(2) 4(2)] 4(1) r show ?thesis by auto
    qed (use r in auto)
  qed
  then show "elapsed_cycles_addend t = elapsed_cycles_addend s"
    "f = FetchEnd \<Longrightarrow> (n_cycles s \<le> 0 \<and> n_cycles t = n_cycles s) \<or>
           (n_cycles s > 0 \<and> n_cycles t = n_cycles s - 1)"
    "f = FetchFault \<Longrightarrow> n_cycles s > 0 \<and> n_cycles t = n_cycles s \<and> pending_exception t \<ge> 0"
    "f = Fetched insn \<Longrightarrow> n_cycles t = n_cycles s \<and> win_ok t \<and> unat (code_ptr t) + 4 < 2 ^ 64 \<and>
           (n_cycles s > 0 \<or> (code_ptr t < code_end t \<and> room t = room s))"
    by blast+
qed

section \<open>One iteration\<close>

lemma take_exception_cycles:
  assumes "pending_exception s \<ge> 0"
  shows "n_cycles (take_exception s) = n_cycles s - 1"
    and "elapsed_cycles_addend (take_exception s) = elapsed_cycles_addend s"
  using assms lf_elapsed [OF lf.R_raise_exception2 [of "s\<lparr>pc := get_pc s, n_cycles := n_cycles s - 1\<rparr>"]]
  by (simp_all add: take_exception_def Let_def)

lemma retire_sel [simp]:
  "n_cycles (retire_insn s) = n_cycles s" "code_end (retire_insn s) = code_end s"
  "code_ptr (retire_insn s) = code_ptr s" "elapsed_cycles_addend (retire_insn s) = elapsed_cycles_addend s"
  by (simp_all add: retire_insn_def Let_def)

lemma finish_ok:
  assumes "out_ok r" "win_ok (snd r)" "unat (code_ptr (snd r)) + 4 < 2 ^ 64"
    and "finish_insn insn r = (c, t)"
  shows "elapsed_cycles_addend t = elapsed_cycles_addend (snd r)"
    and "c \<Longrightarrow> n_cycles t = n_cycles (snd r) \<and> win_ok t \<and>
           (code_ptr (snd r) < code_end (snd r) \<longrightarrow> room t < room (snd r))"
    and "\<not> c \<Longrightarrow> n_cycles t = n_cycles (snd r) \<or> n_cycles t = n_cycles (snd r) - 1"
proof -
  obtain out s where r: "r = (out, s)" by (cases r)
  let ?P = "elapsed_cycles_addend t = elapsed_cycles_addend s \<and>
    (c \<longrightarrow> n_cycles t = n_cycles s \<and> win_ok t \<and> (code_ptr s < code_end s \<longrightarrow> room t < room s)) \<and>
    (\<not> c \<longrightarrow> n_cycles t = n_cycles s \<or> n_cycles t = n_cycles s - 1)"
  have ?P
  proof (cases out)
    case (NextInsn n)
    then have t: "c" "t = (retire_insn s)\<lparr>code_ptr := code_ptr s + of_nat n\<rparr>" and n: "n = 2 \<or> n = 4"
      using assms(1,4) by (auto simp: r finish_insn_def out_ok_def)
    have "win_ok t" "code_ptr s < code_end s \<Longrightarrow> room t < room s"
      by (rule room_advance [where s = s and n = n]; use assms(2,3) n t in \<open>simp add: r\<close>)+
    with t show ?thesis by simp
  next
    case JumpInsn
    then have "c" "t = (retire_insn s)\<lparr>code_ptr := 0, code_end := 0, code_to_pc_addend := pc s\<rparr>"
      using assms(4) by (auto simp: r finish_insn_def)
    then show ?thesis by (auto simp: win_ok_def room_def word_less_nat_alt)
  next
    case IllegalInsn
    then have "\<not> c" "t = take_illegal insn s" using assms(4) by (auto simp: r finish_insn_def)
    then show ?thesis
      using take_exception_cycles [of "set_pending CAUSE_ILLEGAL_INSTRUCTION
        (ucast (if insn AND 3 = 3 then insn else insn AND 0xffff)) s"]
      by (simp add: take_illegal_def) (simp add: set_pending_def)
  next
    case ExceptionInsn
    then have "\<not> c" "t = take_exception s" "pending_exception s \<ge> 0"
      using assms(1,4) by (auto simp: r finish_insn_def out_ok_def)
    then show ?thesis using take_exception_cycles [of s] by simp
  qed (use assms(4) in \<open>auto simp: r finish_insn_def\<close>)
  then show "elapsed_cycles_addend t = elapsed_cycles_addend (snd r)"
    "c \<Longrightarrow> n_cycles t = n_cycles (snd r) \<and> win_ok t \<and>
       (code_ptr (snd r) < code_end (snd r) \<longrightarrow> room t < room (snd r))"
    "\<not> c \<Longrightarrow> n_cycles t = n_cycles (snd r) \<or> n_cycles t = n_cycles (snd r) - 1"
    by (simp_all add: r)
qed

text \<open>An iteration that continues costs one cycle and, once the budget is used up, room; one that
  ends the loop costs at most two.\<close>

lemma step_ok:
  assumes "core_ok s" "win_ok s" "interp_step ops s = (c, t)"
  shows "core_ok t" and "elapsed_cycles_addend t = elapsed_cycles_addend s"
    and "c \<Longrightarrow> n_cycles t = n_cycles s - 1 \<and> win_ok t \<and> (n_cycles s > 0 \<or> room t < room s)"
    and "\<not> c \<Longrightarrow> n_cycles s - 2 \<le> n_cycles t \<and> n_cycles t \<le> n_cycles s \<and>
           (n_cycles s > 0 \<longrightarrow> n_cycles t < n_cycles s)"
proof -
  show "core_ok t"
    using sr.R_step [of s ops] assms(1,3) by (simp add: safe_step_def)
  obtain f s1 where f: "fetch s = (f, s1)" by (cases "fetch s")
  note fo = fetch_ok [OF assms(1,2) f]
  have "elapsed_cycles_addend t = elapsed_cycles_addend s \<and>
    (c \<longrightarrow> n_cycles t = n_cycles s - 1 \<and> win_ok t \<and> (n_cycles s > 0 \<or> room t < room s)) \<and>
    (\<not> c \<longrightarrow> n_cycles s - 2 \<le> n_cycles t \<and> n_cycles t \<le> n_cycles s \<and>
           (n_cycles s > 0 \<longrightarrow> n_cycles t < n_cycles s))"
  proof (cases f)
    case (Fetched insn)
    let ?s = "s1\<lparr>n_cycles := n_cycles s1 - 1\<rparr>"
    let ?r = "exec_insn ops insn ?s"
    have fin: "finish_insn insn ?r = (c, t)" using assms(3) f Fetched by (simp add: interp_step_def)
    have ok: "out_ok ?r" and lf: "loop_frame ?s (snd ?r)"
      using lf.ok_exec_insn [of ?s ops insn] by (simp_all add: lf.ok_def)
    note l = lf_elapsed [OF lf] and h = fo(4) [OF Fetched]
    have w: "win_ok (snd ?r)" "room (snd ?r) = room s1"
      using win_cong [of "snd ?r" s1] l h by simp_all
    note fi = finish_ok [OF ok w(1) _ fin]
    show ?thesis using fi l h w fo(1) by auto
  next
    case FetchEnd
    then show ?thesis using assms(3) f fo by (auto simp: interp_step_def)
  next
    case FetchFault
    then show ?thesis
      using assms(3) f fo(1) fo(3) [OF FetchFault] take_exception_cycles [of s1]
      by (auto simp: interp_step_def)
  qed
  then show "elapsed_cycles_addend t = elapsed_cycles_addend s"
    "c \<Longrightarrow> n_cycles t = n_cycles s - 1 \<and> win_ok t \<and> (n_cycles s > 0 \<or> room t < room s)"
    "\<not> c \<Longrightarrow> n_cycles s - 2 \<le> n_cycles t \<and> n_cycles t \<le> n_cycles s \<and>
           (n_cycles s > 0 \<longrightarrow> n_cycles t < n_cycles s)" by blast+
qed

section \<open>The loops\<close>

definition slack :: "'p Interp \<Rightarrow> nat" where
  "slack s = nat (n_cycles s) + (if n_cycles s > 0 then 2047 else room s)"

lemma loop_terminates:
  assumes "core_ok s" "win_ok s" "slack s < fuel"
  shows "\<exists>t. interp_loop fuel ops s = Some t \<and> core_ok t \<and>
     elapsed_cycles_addend t = elapsed_cycles_addend s \<and>
     n_cycles s - int (slack s) - 2 \<le> n_cycles t \<and> n_cycles t \<le> n_cycles s \<and>
     (n_cycles s > 0 \<longrightarrow> n_cycles t < n_cycles s)"
  using assms
proof (induction fuel arbitrary: s)
  case 0
  then show ?case by simp
next
  case (Suc fuel)
  obtain c u where st: "interp_step ops s = (c, u)" by (cases "interp_step ops s")
  note o = step_ok [OF Suc.prems(1,2) st]
  show ?case
  proof (cases c)
    case True
    note h = o(3) [OF True]
    have sl: "slack u < slack s"
      using h room_le [of u] by (auto simp: slack_def)
    then obtain t where "interp_loop fuel ops u = Some t" "core_ok t"
      "elapsed_cycles_addend t = elapsed_cycles_addend u"
      "n_cycles u - int (slack u) - 2 \<le> n_cycles t" "n_cycles t \<le> n_cycles u"
      using Suc.IH [OF o(1)] h Suc.prems(3) by auto
    with True st h o(2) sl show ?thesis by (auto split: if_splits)
  next
    case False
    with st o(1,2) o(4) [OF False] show ?thesis by auto
  qed
qed

end
