(* ===== verification/Bridge.thy ===== *)
theory Bridge
  imports Interp
begin

text \<open>
  The host interface, \<open>bridge.c\<close>: creation, reset, registration, host access to guest memory, dirty
  tracking, timers, interrupts and \<open>tinyemu_core_run_cpu\<close>, with the public CPU functions of
  \<open>riscv_cpu.c\<close> they call. A C status of \<open>-1\<close> is \<open>None\<close> (or \<open>False\<close>); allocation failure is a
  parameter.
\<close>

section \<open>Life cycle\<close>

text \<open>A zeroed CPU with the fields that \<open>riscv_cpu_init\<close> sets.\<close>

definition riscv_cpu_init :: RISCVCPUState where
  "riscv_cpu_init = tlb_init
     \<lparr>pc = 0x1000, reg = (\<lambda>_. 0), fp_reg = (\<lambda>_. 0), fflags = 0, frm = 0, priv = PRV_M, fs = 0,
      n_cycles = 0, elapsed_cycles = 0, cycle_counter = 0, minstret_counter = 0,
      get_time_set = False, power_down_flag = False, host_service_requested = False,
      timer_reprogrammed = False, pending_exception = 0, pending_tval = 0, mstatus = 0, mtvec = 0,
      mscratch = 0, mepc = 0, mcause = 0, mtval = 0, mhartid = 0, misa = MISA_RESET, mie = 0,
      mip = 0, medeleg = 0, mideleg = 0, mcounteren = 0, menvcfg = 0, stimecmp = - 1,
      pmpcfg = (\<lambda>_. 0), pmpaddr = (\<lambda>_. 0), stvec = 0, sscratch = 0, sepc = 0, scause = 0,
      stval = 0, senvcfg = 0, satp = 0, scounteren = 0, load_res = 0, load_res_size = 0,
      load_res_valid = False, tlb_read = (\<lambda>_. \<lparr>vaddr = 0, mem_addend = 0\<rparr>),
      tlb_write = (\<lambda>_. \<lparr>vaddr = 0, mem_addend = 0\<rparr>),
      tlb_code = (\<lambda>_. \<lparr>vaddr = 0, mem_addend = 0\<rparr>)\<rparr>"

definition riscv_cpu_set_time_source :: "'a RISCVCPUState_scheme \<Rightarrow> 'a RISCVCPUState_scheme" where
  "riscv_cpu_set_time_source s = s\<lparr>get_time_set := True\<rparr>"

text \<open>The arguments say which of the three allocations (core, map, CPU) succeed.\<close>

definition tinyemu_core_create :: "bool \<Rightarrow> bool \<Rightarrow> bool \<Rightarrow> heap \<Rightarrow> 'p TinyemuCore option" where
  "tinyemu_core_create core_ok map_ok cpu_ok h =
     (if \<not> core_ok \<or> \<not> map_ok \<or> \<not> cpu_ok then None
      else Some (RISCVCPUState.extend (riscv_cpu_set_time_source riscv_cpu_init)
             (TinyemuCore.fields phys_mem_map_init h 0 None (\<lambda>_. 0) 0)))"

text \<open>Reset replaces the CPU; the map, host memory and devices stay.\<close>

definition tinyemu_core_reset_cpu :: "bool \<Rightarrow> 'p TinyemuCore \<Rightarrow> bool \<times> 'p TinyemuCore" where
  "tinyemu_core_reset_cpu cpu_ok s =
     (if \<not> cpu_ok then (False, s)
      else (True, RISCVCPUState.extend (riscv_cpu_set_time_source riscv_cpu_init)
                    (RISCVCPUState.more s)))"

section \<open>Registration\<close>

text \<open>The host is a 64-bit one: \<open>size_t\<close> has 64 bits.\<close>

definition SIZE_MAX :: u64 where [simp, c_macro]: "SIZE_MAX = - 1"

definition tinyemu_core_register_ram ::
  "alloc_results \<Rightarrow> u64 \<Rightarrow> u64 \<Rightarrow> u32 \<Rightarrow> 'p TinyemuCore \<Rightarrow> (nat option \<times> 'p TinyemuCore) option" where
  "tinyemu_core_register_ram al base len flags s =
     (if n_phys_mem_range (mem_map s) = PHYS_MEM_RANGE_MAX \<or> len = 0 \<or>
         len AND (DEVRAM_PAGE_SIZE - 1) \<noteq> 0 \<or> len > SIZE_MAX \<or> base > - 1 - len
      then Some (None, s)
      else default_register_ram al base len flags s)"

definition tinyemu_core_register_device ::
  "u64 \<Rightarrow> u64 \<Rightarrow> u32 \<Rightarrow> 'p TinyemuCore \<Rightarrow> (nat option \<times> 'p TinyemuCore) option" where
  "tinyemu_core_register_device base len widths s =
     (if n_phys_mem_range (mem_map s) = PHYS_MEM_RANGE_MAX \<or> device_count s = PHYS_MEM_RANGE_MAX \<or>
         len = 0 \<or> len > 0xffffffff \<or> base > - 1 - len
      then Some (None, s)
      else
        let d = device_count s;
            s = s\<lparr>devices := (devices s)(d := base), device_count := d + 1\<rparr>
        in case cpu_register_device (mem_map s) base len d widths of
             None \<Rightarrow> None
           | Some (m, i) \<Rightarrow> Some (Some i, s\<lparr>mem_map := m\<rparr>))"

section \<open>Host access to guest memory\<close>

definition valid_width :: "nat \<Rightarrow> bool" where
  "valid_width width \<longleftrightarrow> width = 1 \<or> width = 2 \<or> width = 4 \<or> width = 8"

definition tinyemu_core_read :: "u64 \<Rightarrow> nat \<Rightarrow> 'p TinyemuCore \<Rightarrow> u64 option" where
  "tinyemu_core_read address width s =
     (if \<not> valid_width width then None
      else case fst (tinyemu_core_ram_range address (of_nat width) False s) of
             None \<Rightarrow> None
           | Some ptr \<Rightarrow>
               Some (fold (\<lambda>i r. r OR push_bit (8 * i) (ucast (hmem s (ptr + of_nat i)))) [0..<width] 0))"

definition tinyemu_core_write ::
  "u64 \<Rightarrow> nat \<Rightarrow> u64 \<Rightarrow> 'p TinyemuCore \<Rightarrow> bool \<times> 'p TinyemuCore" where
  "tinyemu_core_write address width val s =
     (if \<not> valid_width width then (False, s)
      else case tinyemu_core_ram_range address (of_nat width) True s of
             (None, s) \<Rightarrow> (False, s)
           | (Some ptr, s) \<Rightarrow>
               (True, s\<lparr>hmem := fold (\<lambda>i h. h(ptr + of_nat i := ucast (drop_bit (8 * i) val)))
                                 [0..<width] (hmem s)\<rparr>))"

section \<open>Dirty tracking\<close>

definition tinyemu_core_take_dirty ::
  "int \<Rightarrow> nat \<Rightarrow> 'p TinyemuCore \<Rightarrow> u32 list option \<times> 'p TinyemuCore" where
  "tinyemu_core_take_dirty region count s =
     (if region < 0 \<or> region \<ge> int (n_phys_mem_range (mem_map s)) then (None, s)
      else
        let range = phys_mem_range (mem_map s) (nat region) in
        if \<not> is_ram range \<or> dirty_bits range = None \<or> count \<noteq> dirty_bits_size range div 4
        then (None, s)
        else case default_get_dirty_bits (nat region) s of
               (snapshot, s) \<Rightarrow> (map_option (take count) snapshot, s))"

definition tinyemu_core_clear_dirty ::
  "int \<Rightarrow> u64 \<Rightarrow> 'p TinyemuCore \<Rightarrow> bool \<times> 'p TinyemuCore" where
  "tinyemu_core_clear_dirty region offset s =
     (if region < 0 \<or> region \<ge> int (n_phys_mem_range (mem_map s)) then (False, s)
      else
        let range = phys_mem_range (mem_map s) (nat region) in
        if \<not> is_ram range \<or> offset \<ge> org_size range then (False, s)
        else (True, phys_mem_reset_dirty_bit (nat region) offset s))"

section \<open>Time, interrupts and running\<close>

definition tinyemu_core_set_guest_timer_ticks :: "u64 \<Rightarrow> 'p TinyemuCore \<Rightarrow> 'p TinyemuCore" where
  "tinyemu_core_set_guest_timer_ticks ticks s =
     riscv_cpu_update_time ticks (s\<lparr>guest_timer_ticks := ticks\<rparr>)"

definition riscv_cpu_get_mip :: "'a RISCVCPUState_scheme \<Rightarrow> u32" where
  "riscv_cpu_get_mip s = mip s"

definition riscv_cpu_get_power_down :: "'a RISCVCPUState_scheme \<Rightarrow> bool" where
  "riscv_cpu_get_power_down s = power_down_flag s"

definition riscv_cpu_get_cycles :: "'a RISCVCPUState_scheme \<Rightarrow> u64" where
  "riscv_cpu_get_cycles s = elapsed_cycles s"

definition tinyemu_core_stimecmp :: "'p TinyemuCore \<Rightarrow> u64" where
  "tinyemu_core_stimecmp s =
     (if riscv_cpu_get_mip s AND MIP_STIP \<noteq> 0 then - 1 else riscv_cpu_get_stimecmp s)"

definition tinyemu_core_is_wfi_sleeping :: "'p TinyemuCore \<Rightarrow> u32" where
  "tinyemu_core_is_wfi_sleeping s = (if riscv_cpu_get_power_down s then 1 else 0)"

datatype run_reason =
  TINYEMU_CPU_LIMIT_REACHED | TINYEMU_CPU_WFI_SLEEP | TINYEMU_CPU_HOST_SERVICE_REQUESTED |
  TINYEMU_CPU_TIMER_REPROGRAMMED

record TinyemuCpuRunResult =
  consumed_cycles :: u32
  reason :: run_reason

text \<open>\<open>None\<close>: the interpreter did not return.\<close>

definition tinyemu_core_run_cpu ::
  "'p platform_ops \<Rightarrow> u32 \<Rightarrow> 'p \<Rightarrow> 'p TinyemuCore \<Rightarrow>
   (TinyemuCpuRunResult \<times> 'p option \<times> 'p TinyemuCore) option" where
  "tinyemu_core_run_cpu ops cycle_limit p s =
     (let s = s\<lparr>platform := Some p, host_service_requested := False, timer_reprogrammed := False\<rparr>;
          before = riscv_cpu_get_cycles s
      in case riscv_cpu_interp ops (sint cycle_limit) s of
           None \<Rightarrow> None
         | Some s \<Rightarrow>
             let p = platform s; s = s\<lparr>platform := None\<rparr>;
                 r = (if timer_reprogrammed s then TINYEMU_CPU_TIMER_REPROGRAMMED
                      else if host_service_requested s then TINYEMU_CPU_HOST_SERVICE_REQUESTED
                      else if riscv_cpu_get_power_down s then TINYEMU_CPU_WFI_SLEEP
                      else TINYEMU_CPU_LIMIT_REACHED)
             in Some (\<lparr>consumed_cycles = ucast (riscv_cpu_get_cycles s - before), reason = r\<rparr>, p, s))"

section \<open>Accessors\<close>

definition tinyemu_core_pc :: "'p TinyemuCore \<Rightarrow> u64" where "tinyemu_core_pc s = pc s"

definition tinyemu_core_register :: "'p TinyemuCore \<Rightarrow> nat \<Rightarrow> u64" where
  "tinyemu_core_register s index = (if index < 32 then reg s index else 0)"

definition tinyemu_core_mcause :: "'p TinyemuCore \<Rightarrow> u64" where "tinyemu_core_mcause s = mcause s"
definition tinyemu_core_mtval :: "'p TinyemuCore \<Rightarrow> u64" where "tinyemu_core_mtval s = mtval s"

end
