(* ===== verification/Run.thy ===== *)
theory Run
  imports Cycles Bridge
begin

text \<open>
  Whole runs: \<open>riscv_cpu_interp_x64\<close>, its driver and \<open>tinyemu_core_run_cpu\<close> return, stay within the
  cycle limit up to one page of instructions, and keep the invariant and the promise to the host.
  Then the host side: creation, registration, host writes and the dirty-page snapshots.
\<close>

section \<open>Entering and leaving the loop\<close>

lemma enter_sel [simp]:
  "mem_map (interp_enter n c) = mem_map c" "hmem (interp_enter n c) = hmem c"
  "tlb_read (interp_enter n c) = tlb_read c" "tlb_write (interp_enter n c) = tlb_write c"
  "tlb_code (interp_enter n c) = tlb_code c" "n_cycles (interp_enter n c) = n"
  "elapsed_cycles_addend (interp_enter n c) = elapsed_cycles c + of_int n"
  "reg (interp_enter n c) = reg c"
  by (cases c; simp add: interp_enter_def TinyemuCore.defs Interp.defs)+

lemma leave_sel [simp]:
  "mem_map (interp_leave s) = mem_map s" "hmem (interp_leave s) = hmem s"
  "tlb_read (interp_leave s) = tlb_read s" "tlb_write (interp_leave s) = tlb_write s"
  "tlb_code (interp_leave s) = tlb_code s"
  "elapsed_cycles (interp_leave s) = elapsed_cycles_addend s - of_int (n_cycles s)"
  "reg (interp_leave s) = reg s"
  by (cases s; simp add: interp_leave_def TinyemuCore.defs get_elapsed_cycles_def)+

lemma begin_sel [simp]:
  "mem_map (interp_begin s) = mem_map s" "hmem (interp_begin s) = hmem s"
  "tlb_read (interp_begin s) = tlb_read s" "tlb_write (interp_begin s) = tlb_write s"
  "tlb_code (interp_begin s) = tlb_code s" "n_cycles (interp_begin s) = n_cycles s"
  "elapsed_cycles_addend (interp_begin s) = elapsed_cycles_addend s" "reg (interp_begin s) = reg s"
  by (simp_all add: interp_begin_def)

lemma win_begin: "win_ok (interp_begin s)"
  by (simp add: win_ok_def interp_begin_def)

lemma core_ok_cong:
  "mem_map t = mem_map s \<Longrightarrow> tlb_read t = tlb_read s \<Longrightarrow> tlb_write t = tlb_write s \<Longrightarrow>
   tlb_code t = tlb_code s \<Longrightarrow> core_ok t = core_ok s"
  by (simp add: core_ok_def tlb_ok_def)

lemma evolves_cong:
  "mem_map s' = mem_map s \<Longrightarrow> hmem s' = hmem s \<Longrightarrow> mem_map t' = mem_map t \<Longrightarrow> hmem t' = hmem t \<Longrightarrow>
   evolves s' t' = evolves s t"
  by (simp add: evolves_def)

section \<open>One call of the interpreter\<close>

lemma interp_x64_ok:
  assumes "core_ok c" "n > 0"
  shows "\<exists>c' k. riscv_cpu_interp_x64 (insn_fuel n) ops n c = Some c' \<and> core_ok c' \<and> evolves c c' \<and>
     reg c' 0 = reg c 0 \<and> elapsed_cycles c' = elapsed_cycles c + of_int k \<and> 1 \<le> k \<and> k \<le> n + 2049"
proof -
  let ?e = "interp_enter n c" let ?p = "if mip ?e AND mie ?e \<noteq> 0 then raise_interrupt ?e else (False, ?e)"
  obtain taken s where p: "?p = (taken, s)" by (cases ?p)
  have e: "core_ok ?e" using assms(1) core_ok_cong [of ?e c] by simp
  have "safe_step ?e s" "loop_frame ?e s"
    using p sr.R_raise_interrupt [of ?e] lf.R_raise_interrupt [of ?e] sf.R_refl [of ?e] lf.R_refl [of ?e]
    by (auto split: if_splits)
  with e have s: "core_ok s" "evolves ?e s" "n_cycles s = n" "reg s 0 = reg c 0"
    "elapsed_cycles_addend s = elapsed_cycles c + of_int n"
    by (simp_all add: safe_step_def loop_frame_def)
  show ?thesis
  proof (cases taken)
    case True
    let ?c = "interp_leave (s\<lparr>n_cycles := n_cycles s - 1\<rparr>)"
    have "riscv_cpu_interp_x64 (insn_fuel n) ops n c = Some ?c"
      using assms(2) p True by (simp add: riscv_cpu_interp_x64_def Let_def)
    moreover have "core_ok ?c" using s(1) core_ok_cong [of ?c s] by simp
    moreover have "evolves c ?c" using s(2) evolves_cong [of c ?e ?c s] by simp
    ultimately show ?thesis using s assms(2) by (intro exI [of _ ?c] exI [of _ 1]) simp
  next
    case False
    let ?b = "interp_begin s"
    have b: "core_ok ?b" using s(1) core_ok_cong [of ?b s] by simp
    have sl: "slack ?b < insn_fuel n" using assms(2) s(3) by (simp add: slack_def insn_fuel_def)
    from loop_terminates [OF b win_begin sl, of ops] obtain t
      where t: "interp_loop (insn_fuel n) ops ?b = Some t" "core_ok t"
        "elapsed_cycles_addend t = elapsed_cycles_addend ?b"
        "n_cycles ?b - int (slack ?b) - 2 \<le> n_cycles t" "n_cycles t < n_cycles ?b"
      using assms(2) s(3) by auto
    let ?c = "interp_leave t" and ?k = "n - n_cycles t"
    have R: "safe_step ?b t" using sr.R_loop [OF t(1)] .
    have "evolves ?e t"
      using R b s(2) evolves_trans [of ?e ?b t] evolves_cong [of ?e ?e ?b s] by (simp add: safe_step_def)
    then have "evolves c ?c" using evolves_cong [of c ?e ?c t] by simp
    moreover have "riscv_cpu_interp_x64 (insn_fuel n) ops n c = Some ?c"
      using assms(2) p False t(1) by (simp add: riscv_cpu_interp_x64_def Let_def)
    moreover have "core_ok ?c" using t(2) core_ok_cong [of ?c t] by simp
    moreover have "1 \<le> ?k" "?k \<le> n + 2049" using t(4,5) s(3) assms(2) by (simp_all add: slack_def)
    moreover have "reg ?c 0 = reg c 0" using hf.R_loop [OF t(1)] s(4) by (simp add: host_frame_def)
    ultimately show ?thesis using t(3) s(5) by (intro exI [of _ ?c] exI [of _ ?k]) simp
  qed
qed

section \<open>The driver\<close>

text \<open>Subtraction inside the range of \<open>int\<close>.\<close>

lemma ucast_diff_32: "(ucast (v - w) :: u32) = ucast v - ucast w" for v w :: u64
proof (transfer, simp)
  fix v w :: int
  show "take_bit 32 (v - w) = take_bit 32 (take_bit 64 v - take_bit 64 w)"
    using take_bit_diff [of 32 "take_bit 64 v" "take_bit 64 w"] take_bit_diff [of 32 v w] by simp
qed

lemma ucast_of_int_32: "(ucast (word_of_int k :: u64) :: u32) = word_of_int k"
  by transfer simp

lemma int_of_u64_diff:
  assumes "- (2 ^ 31) \<le> int_of_u64 v - k" "int_of_u64 v - k < 2 ^ 31"
  shows "int_of_u64 (v - of_int k) = int_of_u64 v - k"
proof -
  let ?w = "ucast v :: u32"
  have "?w - word_of_int k = word_of_int (sint ?w - k)" unfolding wi_hom_sub [symmetric] by simp
  then have "sint (?w - word_of_int k) = signed_take_bit 31 (sint ?w - k)"
    by (simp only: sint_sbintrunc') simp
  with assms signed_take_bit_int_eq_self [of 31 "sint ?w - k"] show ?thesis
    by (simp add: int_of_u64_def ucast_diff_32 ucast_of_int_32)
qed

lemma int_of_u64_of_int: "- (2 ^ 31) \<le> n \<Longrightarrow> n < 2 ^ 31 \<Longrightarrow> int_of_u64 (of_int n) = n"
  using int_of_u64_diff [of 0 "- n"] by (simp add: int_of_u64_def)

lemma int_of_u64_less: "int_of_u64 v < 2 ^ 31"
  using sint_lt [of "ucast v :: u32"] by (simp add: int_of_u64_def)

text \<open>The condition of the driver's loop, and the driver as one rule.\<close>

definition driver_runs :: "u64 \<Rightarrow> 'p TinyemuCore \<Rightarrow> bool" where
  "driver_runs timeout s \<longleftrightarrow>
     \<not> power_down_flag s \<and> \<not> host_service_requested s \<and> int_of_u64 (timeout - elapsed_cycles s) > 0"

lemma driver_stop: "\<not> driver_runs timeout s \<Longrightarrow> interp_driver calls ops timeout s = Some s"
  by (cases calls) (auto simp: driver_runs_def)

lemma driver_step:
  "driver_runs timeout s \<Longrightarrow> n = int_of_u64 (timeout - elapsed_cycles s) \<Longrightarrow>
   riscv_cpu_interp_x64 (insn_fuel n) ops n s = Some t \<Longrightarrow>
   interp_driver (Suc calls) ops timeout s = interp_driver calls ops timeout t"
  by (simp add: driver_runs_def)

lemma driver_ok:
  assumes "core_ok s" "int_of_u64 (timeout - elapsed_cycles s) \<le> int calls"
  shows "\<exists>t k. interp_driver calls ops timeout s = Some t \<and> core_ok t \<and> evolves s t \<and>
     reg t 0 = reg s 0 \<and> elapsed_cycles t = elapsed_cycles s + of_int k \<and> 0 \<le> k \<and>
     k \<le> max 0 (int_of_u64 (timeout - elapsed_cycles s)) + 2049 \<and> \<not> driver_runs timeout t \<and>
     (k > 0 \<longleftrightarrow> driver_runs timeout s)"
  using assms
proof (induction calls arbitrary: s)
  case 0
  then have "\<not> driver_runs timeout s" by (simp add: driver_runs_def)
  with driver_stop [OF this, of 0 ops] 0 evolves_refl show ?case by (auto intro: exI [of _ 0])
next
  case (Suc calls)
  let ?n = "int_of_u64 (timeout - elapsed_cycles s)"
  show ?case
  proof (cases "driver_runs timeout s")
    case False
    with driver_stop [OF this, of "Suc calls" ops] Suc.prems evolves_refl
    show ?thesis by (auto simp del: interp_driver.simps intro: exI [of _ 0])
  next
    case True
    then have n: "?n > 0" by (simp add: driver_runs_def)
    from interp_x64_ok [OF Suc.prems(1) n, of ops] obtain u k
      where u: "riscv_cpu_interp_x64 (insn_fuel ?n) ops ?n s = Some u" "core_ok u" "evolves s u"
        "reg u 0 = reg s 0" "elapsed_cycles u = elapsed_cycles s + of_int k" "1 \<le> k" "k \<le> ?n + 2049"
      by blast
    have r: "int_of_u64 (timeout - elapsed_cycles u) = ?n - k"
      using int_of_u64_diff [of "timeout - elapsed_cycles s" k] u(5-7)
        int_of_u64_less [of "timeout - elapsed_cycles s"]
      by (simp add: algebra_simps)
    from Suc.IH [OF u(2)] r Suc.prems(2) u(6) obtain t j
      where t: "interp_driver calls ops timeout u = Some t" "core_ok t" "evolves u t" "reg t 0 = reg u 0"
        "elapsed_cycles t = elapsed_cycles u + of_int j" "0 \<le> j" "j \<le> max 0 (?n - k) + 2049"
        "\<not> driver_runs timeout t" "j > 0 \<longleftrightarrow> driver_runs timeout u" by auto
    have j: "k + j \<le> max 0 ?n + 2049"
    proof (cases "?n - k > 0")
      case True
      then show ?thesis using t(7) by simp
    next
      case False
      then have "\<not> driver_runs timeout u" using r by (simp add: driver_runs_def)
      then show ?thesis using t(6,9) u(7) by simp
    qed
    show ?thesis
      using driver_step [OF True refl u(1)] True t u j evolves_trans [OF u(3) t(3)]
      by (intro exI [of _ t] exI [of _ "k + j"]) (simp add: add.assoc)
  qed
qed

section \<open>A run of the core\<close>

lemma interp_ok:
  assumes "core_ok s" "- (2 ^ 31) \<le> n" "n < 2 ^ 31"
  shows "\<exists>t k. riscv_cpu_interp ops n s = Some t \<and> core_ok t \<and> evolves s t \<and>
     reg t 0 = reg s 0 \<and> elapsed_cycles t = elapsed_cycles s + of_int k \<and> 0 \<le> k \<and>
     k \<le> max 0 n + 2049 \<and> (power_down_flag t \<or> host_service_requested t \<or> n \<le> k) \<and>
     (k > 0 \<longleftrightarrow> \<not> power_down_flag s \<and> \<not> host_service_requested s \<and> n > 0)"
proof -
  let ?to = "elapsed_cycles s + of_int n"
  have n: "int_of_u64 (?to - elapsed_cycles s) = n" using int_of_u64_of_int [OF assms(2,3)] by simp
  have "n \<le> int (nat n)" by simp
  from driver_ok [OF assms(1), of ?to "nat n" ops, unfolded n, OF this] obtain t k
    where t: "interp_driver (nat n) ops ?to s = Some t" "core_ok t" "evolves s t" "reg t 0 = reg s 0"
      "elapsed_cycles t = elapsed_cycles s + of_int k" "0 \<le> k" "k \<le> max 0 n + 2049"
      "\<not> driver_runs ?to t" "k > 0 \<longleftrightarrow> driver_runs ?to s" by blast
  have "k = 0 \<or> n > 0" using t(6,9) n by (auto simp: driver_runs_def)
  then have b: "- (2 ^ 31) \<le> n - k" "n - k < 2 ^ 31" using t(6,7) assms(2,3) by auto
  have "int_of_u64 (?to - elapsed_cycles t) = n - k"
    using int_of_u64_diff [of "of_int n" k] int_of_u64_of_int [OF assms(2,3)] b t(5) by simp
  with t n show ?thesis
    by (intro exI [of _ t] exI [of _ k]) (auto simp: riscv_cpu_interp_def driver_runs_def)
qed

lemma core_ok_run_sel [simp]:
  "core_ok (s\<lparr>platform := p, host_service_requested := b, timer_reprogrammed := c\<rparr>) = core_ok s"
  "core_ok (s\<lparr>platform := p\<rparr>) = core_ok s"
  by (simp_all add: core_ok_def tlb_ok_def)

text \<open>The reason reported by a run.\<close>

definition run_reason_of :: "'p TinyemuCore \<Rightarrow> run_reason" where
  "run_reason_of s =
     (if timer_reprogrammed s then TINYEMU_CPU_TIMER_REPROGRAMMED
      else if host_service_requested s then TINYEMU_CPU_HOST_SERVICE_REQUESTED
      else if power_down_flag s then TINYEMU_CPU_WFI_SLEEP else TINYEMU_CPU_LIMIT_REACHED)"

lemma run_ok:
  assumes "core_ok s"
  shows "\<exists>res p' t. tinyemu_core_run_cpu ops cycle_limit p s = Some (res, p', t) \<and>
     core_ok t \<and> evolves s t \<and> reg t 0 = reg s 0 \<and> platform t = None \<and>
     reason res = run_reason_of t \<and>
     uint (consumed_cycles res) \<le> max 0 (sint cycle_limit) + 2049 \<and>
     (reason res = TINYEMU_CPU_LIMIT_REACHED \<longrightarrow> sint cycle_limit \<le> uint (consumed_cycles res)) \<and>
     (consumed_cycles res = 0 \<longleftrightarrow> power_down_flag s \<or> sint cycle_limit \<le> 0)"
proof -
  let ?s = "s\<lparr>platform := Some p, host_service_requested := False, timer_reprogrammed := False\<rparr>"
  let ?n = "sint cycle_limit"
  have n: "- (2 ^ 31) \<le> ?n" "?n < 2 ^ 31" using sint_ge [of cycle_limit] sint_lt [of cycle_limit] by simp_all
  have ok: "core_ok ?s" using assms by simp
  from interp_ok [OF ok n, of ops] obtain t k
    where t: "riscv_cpu_interp ops ?n ?s = Some t" "core_ok t" "evolves ?s t" "reg t 0 = reg s 0"
      "elapsed_cycles t = elapsed_cycles s + of_int k" "0 \<le> k" "k \<le> max 0 ?n + 2049"
      "power_down_flag t \<or> host_service_requested t \<or> ?n \<le> k"
      "k > 0 \<longleftrightarrow> \<not> power_down_flag s \<and> ?n > 0" by auto
  let ?t = "t\<lparr>platform := None\<rparr>"
  let ?res = "\<lparr>consumed_cycles = ucast (elapsed_cycles t - elapsed_cycles s), reason = run_reason_of ?t\<rparr>"
  have run: "tinyemu_core_run_cpu ops cycle_limit p s = Some (?res, platform t, ?t)"
    using t(1) by (simp add: tinyemu_core_run_cpu_def riscv_cpu_get_cycles_def run_reason_of_def
        riscv_cpu_get_power_down_def Let_def)
  have k: "uint (consumed_cycles ?res) = k"
    using t(5-7) n(2) by (simp add: ucast_of_int_32 uint_word_of_int take_bit_int_eq_self)
  then have "consumed_cycles ?res = 0 \<longleftrightarrow> k = 0" by (metis uint_0_iff)
  with run k t evolves_cong [of s ?s ?t t] show ?thesis
    by (intro exI [of _ ?res] exI [of _ "platform t"] exI [of _ ?t])
      (auto simp: run_reason_of_def split: if_splits)
qed

end
