(* ===== verification/Host.thy ===== *)
theory Host
  imports Run
begin

text \<open>
  The host side. The invariant \<open>core_ok\<close> holds after creation and is kept by registration, host
  writes, dirty-page snapshots, clearing and reset; \<open>machine\<close> is the transition system of the calls
  a host makes, and its reachable states are the ones the theorems about \<open>bridge.c\<close> speak of.
\<close>

section \<open>Creation and reset\<close>

lemma fresh_cpu_sel [simp]:
  "tlb_read (RISCVCPUState.extend (riscv_cpu_set_time_source riscv_cpu_init) x) = tlb_clear (\<lambda>_. \<lparr>vaddr = 0, mem_addend = 0\<rparr>)"
  "tlb_write (RISCVCPUState.extend (riscv_cpu_set_time_source riscv_cpu_init) x) = tlb_clear (\<lambda>_. \<lparr>vaddr = 0, mem_addend = 0\<rparr>)"
  "tlb_code (RISCVCPUState.extend (riscv_cpu_set_time_source riscv_cpu_init) x) = tlb_clear (\<lambda>_. \<lparr>vaddr = 0, mem_addend = 0\<rparr>)"
  "reg (RISCVCPUState.extend (riscv_cpu_set_time_source riscv_cpu_init) x) = (\<lambda>_. 0)"
  by (simp_all add: riscv_cpu_set_time_source_def riscv_cpu_init_def RISCVCPUState.defs tlb_init_def)

lemma fresh_cpu_more [simp]:
  "mem_map (RISCVCPUState.extend c (RISCVCPUState.more s)) = mem_map s"
  "hmem (RISCVCPUState.extend c (RISCVCPUState.more s)) = hmem s"
  for s :: "'p TinyemuCore"
  by (cases s; simp add: RISCVCPUState.defs)+

lemma tlb_ok_clear:
  assumes "tlb_read s = tlb_clear a" "tlb_write s = tlb_clear b" "tlb_code s = tlb_clear c"
  shows "tlb_ok s"
  using assms by (simp add: tlb_ok_def tlb_clear_def entry_ok_def)

lemma create_ok:
  assumes "tinyemu_core_create a b c h = Some s"
  shows "core_ok s" "reg s 0 = 0" "n_phys_mem_range (mem_map s) = 0" "device_count s = 0"
proof -
  let ?x = "TinyemuCore.fields phys_mem_map_init h 0 (None :: 'a option) (\<lambda>_. 0) 0"
  have s: "s = RISCVCPUState.extend (riscv_cpu_set_time_source riscv_cpu_init) ?x"
    using assms by (simp add: tinyemu_core_create_def split: if_splits)
  have m: "mem_map s = phys_mem_map_init" "device_count s = 0"
    by (simp_all add: s RISCVCPUState.defs TinyemuCore.defs)
  have t: "tlb_ok s" by (rule tlb_ok_clear) (simp_all add: s)
  show "core_ok s" using t by (simp add: core_ok_def m map_ok_def phys_mem_map_init_def)
  show "reg s 0 = 0" by (simp add: s)
  show "n_phys_mem_range (mem_map s) = 0" "device_count s = 0" by (simp_all add: m phys_mem_map_init_def)
qed

lemma reset_ok:
  assumes "tinyemu_core_reset_cpu ok s = (r, t)" "core_ok s" "reg s 0 = 0"
  shows "core_ok t" "reg t 0 = 0" "mem_map t = mem_map s" "hmem t = hmem s"
proof -
  let ?t = "RISCVCPUState.extend (riscv_cpu_set_time_source riscv_cpu_init) (RISCVCPUState.more s)"
  have "tlb_ok ?t" by (rule tlb_ok_clear) simp_all
  moreover have "t = s \<or> t = ?t" using assms(1) by (simp add: tinyemu_core_reset_cpu_def split: if_splits)
  ultimately show "core_ok t" "reg t 0 = 0" "mem_map t = mem_map s" "hmem t = hmem s"
    using assms(2,3) by (auto simp: core_ok_def)
qed

section \<open>Registration\<close>

text \<open>
  What the code relies on from the host: the allocator returns NULL or a buffer that lies below the
  last page of the address space and shares no byte with the buffers in use.
\<close>

definition buffer :: "PhysMemoryRange \<Rightarrow> u64 set" where
  "buffer pr = span (phys_mem pr) (unat (org_size pr))"

definition disjoint_ram :: "PhysMemoryMap \<Rightarrow> bool" where
  "disjoint_ram m \<longleftrightarrow> (\<forall>i < n_phys_mem_range m. \<forall>j < n_phys_mem_range m.
     is_ram (phys_mem_range m i) \<and> is_ram (phys_mem_range m j) \<and> i \<noteq> j \<longrightarrow>
     buffer (phys_mem_range m i) \<inter> buffer (phys_mem_range m j) = {})"

definition alloc_ok :: "PhysMemoryMap \<Rightarrow> u64 \<Rightarrow> alloc_results \<Rightarrow> bool" where
  "alloc_ok m len al \<longleftrightarrow> mem_ptr al = 0 \<or>
     (unat (mem_ptr al) + unat len + 4096 \<le> 2 ^ 64 \<and>
      (\<forall>i < n_phys_mem_range m. is_ram (phys_mem_range m i) \<longrightarrow>
         buffer (phys_mem_range m i) \<inter> span (mem_ptr al) (unat len) = {}))"

text \<open>A map with one more slot in use, the older ones unchanged.\<close>

definition grows :: "PhysMemoryMap \<Rightarrow> PhysMemoryMap \<Rightarrow> bool" where
  "grows m m' \<longleftrightarrow> n_phys_mem_range m \<le> n_phys_mem_range m' \<and>
     (\<forall>i < n_phys_mem_range m. phys_mem_range m' i = phys_mem_range m i)"

lemma entry_ok_grows:
  assumes "entry_ok P m e" "grows m m'"
    and "\<And>i off. i < n_phys_mem_range m \<Longrightarrow> P m i off \<Longrightarrow> P m' i off"
  shows "entry_ok P m' e"
proof (cases "vaddr e = - 1")
  case False
  with assms(1) obtain i off where pb: "page_base (vaddr e) = vaddr e" and d: "4096 dvd off"
    and r: "ram_byte m i off (mem_addend e + vaddr e)" and P: "P m i off"
    by (auto simp: entry_ok_def)
  have i: "i < n_phys_mem_range m" using r by (simp add: ram_byte_def)
  have "ram_byte m' i off (mem_addend e + vaddr e)"
    using r assms(2) by (simp add: ram_byte_def grows_def)
  with pb d assms(3) [OF i P] show ?thesis unfolding entry_ok_def by blast
qed (simp add: entry_ok_def)

lemma core_ok_grows:
  assumes "core_ok s" "grows (mem_map s) (mem_map t)" "map_ok (mem_map t)"
    "tlb_read t = tlb_read s" "tlb_write t = tlb_write s" "tlb_code t = tlb_code s"
  shows "core_ok t"
proof -
  have "page_dirty (mem_map t) i off"
    if "i < n_phys_mem_range (mem_map s)" "page_dirty (mem_map s) i off" for i off
    using that assms(2) by (simp add: grows_def page_dirty_def)
  then show ?thesis
    using assms(1,3-6) entry_ok_grows [OF _ assms(2)] by (simp add: core_ok_def tlb_ok_def)
qed

lemma page_multiple: "(len :: u64) AND (DEVRAM_PAGE_SIZE - 1) = 0 \<longleftrightarrow> 4096 dvd unat len"
proof -
  have "len AND 0xfff = 0 \<longleftrightarrow> unat (len AND 0xfff) = 0" by (simp add: unat_eq_0)
  also have "unat (len AND 0xfff) = unat len mod 4096"
    using page_offset_mod [of len] by (simp add: page_offset_def)
  finally show ?thesis by (simp add: dvd_eq_mod_eq_0)
qed

lemma register_entry:
  assumes "n_phys_mem_range m < PHYS_MEM_RANGE_MAX" "4096 dvd unat len" "len \<noteq> 0"
  shows "\<exists>m'. register_ram_entry m base len flags = Some (m', n_phys_mem_range m) \<and>
    n_phys_mem_range m' = Suc (n_phys_mem_range m) \<and>
    (\<forall>i. i \<noteq> n_phys_mem_range m \<longrightarrow> phys_mem_range m' i = phys_mem_range m i) \<and>
    (let pr = phys_mem_range m' (n_phys_mem_range m) in
       is_ram pr \<and> pr_addr pr = base \<and> org_size pr = len \<and> (pr_size pr = 0 \<or> pr_size pr = len) \<and>
       dirty_bits pr = None \<and> (pr_size pr = 0 \<longleftrightarrow> flags AND DEVRAM_FLAG_DISABLED \<noteq> 0) \<and>
       devram_flags pr = flags AND NOT DEVRAM_FLAG_DISABLED)"
  using assms page_multiple [of len]
  by (auto simp: register_ram_entry_def upd_range_def Let_def)

text \<open>
  What a RAM registration may do: refuse the range, fail to allocate the buffer or the two bitmaps,
  or append the range, with a zeroed buffer.
\<close>

definition ram_refused :: "('p, 'x) TinyemuCore_scheme \<Rightarrow> u64 \<Rightarrow> u64 \<Rightarrow> bool" where
  "ram_refused s base len \<longleftrightarrow> n_phys_mem_range (mem_map s) = PHYS_MEM_RANGE_MAX \<or>
     unat len = 0 \<or> \<not> 4096 dvd unat len \<or> 2 ^ 64 \<le> unat base + unat len"

definition alloc_failed :: "alloc_results \<Rightarrow> u32 \<Rightarrow> bool" where
  "alloc_failed al flags \<longleftrightarrow>
     mem_ptr al = 0 \<or> (flags AND DEVRAM_FLAG_DIRTY_BITS \<noteq> 0 \<and> \<not> (tab_ok al 0 \<and> tab_ok al 1))"

definition ram_appended ::
  "alloc_results \<Rightarrow> u64 \<Rightarrow> u64 \<Rightarrow> u32 \<Rightarrow> ('p, 'x) TinyemuCore_scheme \<Rightarrow> ('p, 'x) TinyemuCore_scheme \<Rightarrow> bool" where
  "ram_appended al base len flags s t \<longleftrightarrow>
     (let n = n_phys_mem_range (mem_map s); pr = phys_mem_range (mem_map t) n in
        n_phys_mem_range (mem_map t) = Suc n \<and> is_ram pr \<and> pr_addr pr = base \<and> org_size pr = len \<and>
        pr_size pr = (if flags AND DEVRAM_FLAG_DISABLED \<noteq> 0 then 0 else len) \<and>
        devram_flags pr = flags AND NOT DEVRAM_FLAG_DISABLED \<and> phys_mem pr = mem_ptr al \<and>
        (dirty_bits pr \<noteq> None \<longleftrightarrow> flags AND DEVRAM_FLAG_DIRTY_BITS \<noteq> 0) \<and>
        (\<forall>off < unat len. hmem t (mem_ptr al + of_nat off) = 0))"

text \<open>
  The map after a registration: the old one grown by the new RAM range, or the old one when an
  allocation failed. Only the new buffer is written.
\<close>

lemma default_register_ram_map:
  assumes "n_phys_mem_range (mem_map s) < PHYS_MEM_RANGE_MAX" "4096 dvd unat len" "len \<noteq> 0"
    "4096 dvd unat base" "unat base + unat len < 2 ^ 64" "alloc_ok (mem_map s) len al"
  defines "n \<equiv> n_phys_mem_range (mem_map s)"
  shows "\<exists>r t. default_register_ram al base len flags s = Some (r, t) \<and>
    grows (mem_map s) (mem_map t) \<and> tlb_read t = tlb_read s \<and> tlb_write t = tlb_write s \<and>
    tlb_code t = tlb_code s \<and> reg t = reg s \<and> devices t = devices s \<and> device_count t = device_count s \<and>
    (\<forall>q. \<not> unat (q - mem_ptr al) < unat len \<longrightarrow> hmem t q = hmem s q) \<and>
    (if alloc_failed al flags then r = None \<and> n_phys_mem_range (mem_map t) = n
     else r = Some n \<and> mem_ptr al \<noteq> 0 \<and> ram_appended al base len flags s t \<and>
       ram_ok (phys_mem_range (mem_map t) n))"
proof -
  from register_entry [OF assms(1-3), of base flags] obtain m' where
    e: "register_ram_entry (mem_map s) base len flags = Some (m', n)"
      "n_phys_mem_range m' = Suc n" "\<forall>i. i \<noteq> n \<longrightarrow> phys_mem_range m' i = phys_mem_range (mem_map s) i"
    and p: "is_ram (phys_mem_range m' n)" "pr_addr (phys_mem_range m' n) = base"
      "org_size (phys_mem_range m' n) = len" "dirty_bits (phys_mem_range m' n) = None"
      "pr_size (phys_mem_range m' n) = (if flags AND DEVRAM_FLAG_DISABLED \<noteq> 0 then 0 else len)"
      "devram_flags (phys_mem_range m' n) = flags AND NOT DEVRAM_FLAG_DISABLED"
    unfolding n_def Let_def by (metis (no_types, lifting))
  have pages: "unat len div 4096 \<le> 32 * ((unat (drop_bit 12 len) + 31) div 32 * 4 div 4)"
    by (simp add: drop_bit_eq_div unat_div_distrib)
  have al: "mem_ptr al \<noteq> 0 \<Longrightarrow> unat (mem_ptr al) + unat len + 4096 \<le> 2 ^ 64"
    using assms(6) by (simp add: alloc_ok_def)
  have z: "alloc_zeroed (mem_ptr al) (unat len) h (mem_ptr al + of_nat off) = 0" if "off < unat len" for off h
  proof -
    have "unat len < 2 ^ 64" by (rule order_less_le_trans [OF unsigned_less]) simp
    then show ?thesis using that by (simp add: alloc_zeroed_def unat_of_nat)
  qed
  have o: "\<not> unat (q - mem_ptr al) < unat len \<Longrightarrow> alloc_zeroed (mem_ptr al) (unat len) h q = h q" for q h
    by (simp add: alloc_zeroed_def)
  show ?thesis
    unfolding default_register_ram_def e(1) option.case prod.case Let_def
    using e(2,3) p assms(2,4,5) al pages z o n_def [symmetric]
    by (simp add: upd_range_def grows_def ram_ok_def alloc_failed_def ram_appended_def split: if_splits)
qed

lemma above_end: "base > - 1 - (len :: u64) \<longleftrightarrow> 2 ^ 64 \<le> unat base + unat len"
proof -
  have "unat (- 1 - len) = 2 ^ 64 - 1 - unat len"
    by (subst unat_sub) (simp_all add: unsigned_minus_1_eq_mask mask_eq_exp_minus_1)
  moreover have "unat len < 2 ^ 64" by (rule order_less_le_trans [OF unsigned_less]) simp
  ultimately show ?thesis unfolding word_less_nat_alt by linarith
qed

lemma map_ok_grow_ram:
  assumes "map_ok m" "grows m m'" "n_phys_mem_range m' = Suc (n_phys_mem_range m)"
    "n_phys_mem_range m < PHYS_MEM_RANGE_MAX"
    "is_ram (phys_mem_range m' (n_phys_mem_range m)) \<longrightarrow> ram_ok (phys_mem_range m' (n_phys_mem_range m))"
  shows "map_ok m'"
  using assms by (auto simp: map_ok_def grows_def less_Suc_eq)

lemma disjoint_ram_grow:
  assumes "disjoint_ram m" "grows m m'" "n_phys_mem_range m' = Suc (n_phys_mem_range m)"
    "is_ram (phys_mem_range m' (n_phys_mem_range m)) \<longrightarrow>
     (\<forall>i < n_phys_mem_range m. is_ram (phys_mem_range m i) \<longrightarrow>
        buffer (phys_mem_range m i) \<inter> buffer (phys_mem_range m' (n_phys_mem_range m)) = {})"
  shows "disjoint_ram m'"
  using assms unfolding disjoint_ram_def grows_def by (auto simp: less_Suc_eq)

lemma same_map_grows:
  assumes "grows m m'" "n_phys_mem_range m' = n_phys_mem_range m"
  shows "map_ok m \<Longrightarrow> map_ok m'" "disjoint_ram m \<Longrightarrow> disjoint_ram m'"
  using assms by (auto simp: map_ok_def disjoint_ram_def grows_def)

text \<open>The assertions of \<open>iomem.c\<close> cannot fail from the bridge, and the invariant is kept.\<close>

lemma ram_refused_iff:
  "ram_refused s base len \<longleftrightarrow> n_phys_mem_range (mem_map s) = PHYS_MEM_RANGE_MAX \<or> len = 0 \<or>
     len AND (DEVRAM_PAGE_SIZE - 1) \<noteq> 0 \<or> len > SIZE_MAX \<or> base > - 1 - len"
proof -
  have "\<not> len > SIZE_MAX" by (simp add: not_less)
  then show ?thesis unfolding ram_refused_def above_end unat_eq_0 page_multiple by blast
qed

lemma register_ram_ok:
  assumes "core_ok s" "disjoint_ram (mem_map s)" "4096 dvd unat base" "alloc_ok (mem_map s) len al"
  shows "\<exists>r t. tinyemu_core_register_ram al base len flags s = Some (r, t) \<and>
    core_ok t \<and> disjoint_ram (mem_map t) \<and> reg t = reg s \<and> grows (mem_map s) (mem_map t) \<and>
    devices t = devices s \<and> device_count t = device_count s \<and>
    (\<forall>q. \<not> unat (q - mem_ptr al) < unat len \<longrightarrow> hmem t q = hmem s q) \<and>
    (if ram_refused s base len then r = None \<and> t = s
     else if alloc_failed al flags then r = None \<and> n_phys_mem_range (mem_map t) = n_phys_mem_range (mem_map s)
     else r = Some (n_phys_mem_range (mem_map s)) \<and> ram_appended al base len flags s t)"
proof (cases "ram_refused s base len")
  case True
  then have "tinyemu_core_register_ram al base len flags s = Some (None, s)"
    unfolding tinyemu_core_register_ram_def ram_refused_iff by (rule if_P)
  then show ?thesis using assms(1,2) True by (simp add: grows_def)
next
  case False
  note f = False [unfolded ram_refused_iff]
  let ?n = "n_phys_mem_range (mem_map s)"
  have m: "map_ok (mem_map s)" using assms(1) by (simp add: core_ok_def)
  then have n: "?n < PHYS_MEM_RANGE_MAX" using f by (auto simp: map_ok_def)
  have l: "len \<noteq> 0" "4096 dvd unat len" "unat base + unat len < 2 ^ 64"
    using False unat_eq_0 [of len] by (auto simp: ram_refused_def not_le)
  from default_register_ram_map [OF n l(2,1) assms(3) l(3) assms(4), of flags] obtain r t where
    t: "default_register_ram al base len flags s = Some (r, t)" "grows (mem_map s) (mem_map t)"
      "tlb_read t = tlb_read s" "tlb_write t = tlb_write s" "tlb_code t = tlb_code s" "reg t = reg s"
      "devices t = devices s" "device_count t = device_count s"
      "\<forall>q. \<not> unat (q - mem_ptr al) < unat len \<longrightarrow> hmem t q = hmem s q"
    and r: "if alloc_failed al flags then r = None \<and> n_phys_mem_range (mem_map t) = ?n
       else r = Some ?n \<and> mem_ptr al \<noteq> 0 \<and> ram_appended al base len flags s t \<and>
         ram_ok (phys_mem_range (mem_map t) ?n)"
    by blast
  have "map_ok (mem_map t) \<and> disjoint_ram (mem_map t)"
  proof (cases "alloc_failed al flags")
    case True
    then show ?thesis using same_map_grows [OF t(2)] r m assms(2) by simp
  next
    case ok: False
    then have a: "ram_appended al base len flags s t" "mem_ptr al \<noteq> 0" "ram_ok (phys_mem_range (mem_map t) ?n)"
      using r by simp_all
    then have "\<forall>j < ?n. is_ram (phys_mem_range (mem_map s) j) \<longrightarrow>
        buffer (phys_mem_range (mem_map s) j) \<inter> buffer (phys_mem_range (mem_map t) ?n) = {}"
      using assms(4) by (simp add: alloc_ok_def ram_appended_def Let_def buffer_def [of "phys_mem_range (mem_map t) ?n"])
    moreover have "n_phys_mem_range (mem_map t) = Suc ?n" using a(1) by (simp add: ram_appended_def Let_def)
    ultimately show ?thesis
      using map_ok_grow_ram [OF m t(2) _ n] disjoint_ram_grow [OF assms(2) t(2)] a(3) by simp
  qed
  moreover from this have "core_ok t" using core_ok_grows [OF assms(1) t(2) _ t(3-5)] by blast
  moreover have "tinyemu_core_register_ram al base len flags s = Some (r, t)"
    unfolding tinyemu_core_register_ram_def if_not_P [OF f] by (rule t(1))
  ultimately show ?thesis using t(2,6-9) r False by (auto split: if_splits)
qed

text \<open>
  A device registration refuses without a change, or appends the device: one slot of the map
  with the range and the widths it was asked for, whose \<open>opaque\<close> is the new entry of the device table.
\<close>

definition device_refused :: "'p TinyemuCore \<Rightarrow> u64 \<Rightarrow> u64 \<Rightarrow> bool" where
  "device_refused s base len \<longleftrightarrow> n_phys_mem_range (mem_map s) = PHYS_MEM_RANGE_MAX \<or>
     device_count s = PHYS_MEM_RANGE_MAX \<or> unat len = 0 \<or> 2 ^ 32 \<le> unat len \<or> 2 ^ 64 \<le> unat base + unat len"

definition device_appended :: "u64 \<Rightarrow> u64 \<Rightarrow> u32 \<Rightarrow> 'p TinyemuCore \<Rightarrow> 'p TinyemuCore \<Rightarrow> bool" where
  "device_appended base len widths s t \<longleftrightarrow>
     (let n = n_phys_mem_range (mem_map s); d = device_count s; pr = phys_mem_range (mem_map t) n in
        n_phys_mem_range (mem_map t) = Suc n \<and> grows (mem_map s) (mem_map t) \<and>
        \<not> is_ram pr \<and> pr_addr pr = base \<and> org_size pr = len \<and> devio_flags pr = widths \<and>
        pr_size pr = (if widths AND DEVIO_DISABLED \<noteq> 0 then 0 else len) \<and> opaque pr = d \<and>
        device_count t = Suc d \<and> devices t = (devices s)(d := base) \<and> hmem t = hmem s)"

lemma device_refused_iff:
  "device_refused s base len \<longleftrightarrow> n_phys_mem_range (mem_map s) = PHYS_MEM_RANGE_MAX \<or>
     device_count s = PHYS_MEM_RANGE_MAX \<or> len = 0 \<or> len > 0xffffffff \<or> base > - 1 - len"
proof -
  have "len > 0xffffffff \<longleftrightarrow> 2 ^ 32 \<le> unat len" unfolding word_less_nat_alt by (simp add: Suc_le_eq [symmetric])
  then show ?thesis unfolding device_refused_def above_end unat_eq_0 by blast
qed

lemma register_device_ok:
  assumes "core_ok s" "disjoint_ram (mem_map s)"
  shows "\<exists>r t. tinyemu_core_register_device base len widths s = Some (r, t) \<and>
    core_ok t \<and> disjoint_ram (mem_map t) \<and> reg t = reg s \<and>
    (if device_refused s base len then r = None \<and> t = s
     else r = Some (n_phys_mem_range (mem_map s)) \<and> device_appended base len widths s t)"
proof (cases "device_refused s base len")
  case True
  then have "tinyemu_core_register_device base len widths s = Some (None, s)"
    unfolding tinyemu_core_register_device_def device_refused_iff by (rule if_P)
  then show ?thesis using assms True by simp
next
  case False
  note f = False [unfolded device_refused_iff]
  let ?n = "n_phys_mem_range (mem_map s)"
  have m: "map_ok (mem_map s)" using assms(1) by (simp add: core_ok_def)
  then have n: "?n < PHYS_MEM_RANGE_MAX" using f by (auto simp: map_ok_def)
  moreover have "len \<le> 0xffffffff" using f by (simp add: not_less)
  ultimately obtain t where t: "tinyemu_core_register_device base len widths s = Some (Some ?n, t)"
      "device_appended base len widths s t" "reg t = reg s"
      "tlb_read t = tlb_read s" "tlb_write t = tlb_write s" "tlb_code t = tlb_code s"
    unfolding tinyemu_core_register_device_def if_not_P [OF f]
    by (simp add: cpu_register_device_def Let_def upd_range_def grows_def device_appended_def)
  have g: "grows (mem_map s) (mem_map t)" "n_phys_mem_range (mem_map t) = Suc ?n"
    "\<not> is_ram (phys_mem_range (mem_map t) ?n)"
    using t(2) by (simp_all add: device_appended_def Let_def)
  have "map_ok (mem_map t)" "disjoint_ram (mem_map t)"
    using map_ok_grow_ram [OF m g(1,2) n] disjoint_ram_grow [OF assms(2) g(1,2)] g(3) by blast+
  with core_ok_grows [OF assms(1) g(1) _ t(4-6)] t(1-3) False show ?thesis by auto
qed

section \<open>Host writes\<close>

definition value_bytes :: "nat \<Rightarrow> u64 \<Rightarrow> u8 list" where
  "value_bytes n val = map (\<lambda>i. ucast (drop_bit (8 * i) val)) [0..<n]"

lemma write_fold:
  "fold (\<lambda>i h. h(p + of_nat i := ucast (drop_bit (8 * i) val))) [0..<n] h = store_le n val p h"
proof -
  have "fold (\<lambda>i h. h(p + of_nat i := ucast (drop_bit (8 * i) val))) [k..<k + n] h =
      store_le n (drop_bit (8 * k) val) (p + of_nat k) h" for k
  proof (induction n arbitrary: k h)
    case 0
    then show ?case by simp
  next
    case (Suc n)
    have "[k..<k + Suc n] = k # [Suc k..<Suc k + n]" by (simp add: upt_conv_Cons)
    moreover have "drop_bit 8 (drop_bit (8 * k) val) = drop_bit (8 * Suc k) val" by (simp add: add.commute)
    moreover have "p + of_nat k + 1 = p + of_nat (Suc k)" by simp
    ultimately show ?case
      using Suc.IH [of "Suc k" "h(p + of_nat k := ucast (drop_bit (8 * k) val))"]
      by (simp only: fold.simps comp_def store_le.simps)
  qed
  from this [of 0] show ?thesis by simp
qed

lemma read_fold:
  "fold (\<lambda>i r. r OR push_bit (8 * i) (ucast (h (p + of_nat i)))) [0..<n] 0 = (load_le n h p :: u64)"
proof -
  have "fold (\<lambda>i r. r OR push_bit (8 * i) (ucast (h (p + of_nat i)))) [k..<k + n] a =
      a OR push_bit (8 * k) (load_le n h (p + of_nat k) :: u64)" for k a
  proof (induction n arbitrary: k a)
    case 0
    then show ?case by simp
  next
    case (Suc n)
    have "[k..<k + Suc n] = k # [Suc k..<Suc k + n]" by (simp add: upt_conv_Cons)
    moreover have "push_bit (8 * Suc k) w = push_bit (8 * k) (push_bit 8 w)" for w :: u64
      by (simp add: add.commute)
    moreover have "p + of_nat k + 1 = p + of_nat (Suc k)" by simp
    ultimately show ?case
      using Suc.IH [of "Suc k"]
      by (simp only: fold.simps comp_def load_le.simps push_bit_or or.assoc)
  qed
  from this [of 0 0] show ?thesis by simp
qed

lemma store_le_bytes: "store_le n val p h = store_bytes (value_bytes n val) p h"
proof (induction n arbitrary: val p h)
  case 0
  then show ?case by (simp add: value_bytes_def)
next
  case (Suc n)
  have "value_bytes (Suc n) val = ucast val # value_bytes n (drop_bit 8 val)"
    by (simp add: value_bytes_def map_upt_Suc add.commute del: upt_Suc)
  then show ?case by (simp only: store_le.simps store_bytes.simps Suc)
qed

text \<open>A host write has the effect of one DMA write of the platform.\<close>

lemma host_write_dma:
  assumes "valid_width width"
  shows "snd (tinyemu_core_write a width val s) = do_dma (a, value_bytes width val) s"
proof -
  have "length (value_bytes width val) = width" "width < 2 ^ 64"
    using assms by (auto simp: value_bytes_def valid_width_def)
  then show ?thesis
    using assms unfolding tinyemu_core_write_def do_dma_def write_fold
    by (simp add: store_le_bytes prod.case_eq_if split: option.split)
qed

lemma write_safe: "safe_step s (snd (tinyemu_core_write a width val s))"
proof (cases "valid_width width")
  case True
  then show ?thesis using safe_dma by (simp add: host_write_dma)
qed (simp add: tinyemu_core_write_def safe_step_same)

lemma ram_range_read:
  assumes "tinyemu_core_ram_range a l True s = (Some ptr, s')"
  shows "fst (tinyemu_core_ram_range a l False s') = Some ptr"
proof -
  from assms obtain i where i: "get_phys_mem_range (mem_map s) a = Some i"
    by (auto simp: tinyemu_core_ram_range_def split: option.splits)
  from ram_range_write [OF assms] obtain j where j: "ram_hit (mem_map s) a j" "ptr = host_ptr (mem_map s) j a"
    "l \<le> pr_size (phys_mem_range (mem_map s) j) - (a - pr_addr (phys_mem_range (mem_map s) j))"
    "s' = s \<or> (\<exists>x y. s' = s\<lparr>mem_map := upd_range j (set_dirty_pages x y) (mem_map s)\<rparr>)" by metis
  have ij: "j = i" using j(1) i by (simp add: ram_hit_def)
  let ?m = "mem_map s'"
  have n: "n_phys_mem_range ?m = n_phys_mem_range (mem_map s)"
    and lay: "same_layout (phys_mem_range (mem_map s) k) (phys_mem_range ?m k)" for k
    using j(4) pages_map(1,2) by (auto simp: same_layout_def)
  have "range_contains (phys_mem_range ?m k) a = range_contains (phys_mem_range (mem_map s) k) a" for k
    using same_layout_sel [OF lay [of k]] by (simp add: range_contains_def)
  then have "get_phys_mem_range ?m a = Some i" using i n by (simp add: get_phys_mem_range_def)
  then show ?thesis
    using j(1-3) ij same_layout_sel [OF lay [of i]]
    by (simp add: tinyemu_core_ram_range_def ram_hit_def host_ptr_def Let_def not_less)
qed

lemma host_write_read:
  assumes "tinyemu_core_write a width val s = (True, t)"
  shows "tinyemu_core_read a width t = Some (take_bit (8 * width) val)"
proof -
  have w: "valid_width width" using assms by (auto simp: tinyemu_core_write_def split: if_splits)
  then obtain ptr s' where r: "tinyemu_core_ram_range a (of_nat width) True s = (Some ptr, s')"
    and t: "t = s'\<lparr>hmem := store_le width val ptr (hmem s')\<rparr>"
    using assms unfolding tinyemu_core_write_def write_fold
    by (cases "tinyemu_core_ram_range a (of_nat width) True s") (auto split: option.splits)
  have "fst (tinyemu_core_ram_range a (of_nat width) False t) =
      fst (tinyemu_core_ram_range a (of_nat width) False s')"
    by (simp add: t tinyemu_core_ram_range_def Let_def split: option.split)
  then have "tinyemu_core_read a width t = Some (load_le width (hmem t) ptr)"
    using w ram_range_read [OF r] by (simp add: tinyemu_core_read_def read_fold)
  then show ?thesis
    using load_store_le [of width val ptr "hmem s'"] w by (auto simp: t valid_width_def)
qed

section \<open>Dirty-page snapshots\<close>

text \<open>
  Dropping dirty marks is safe when the write TLB keeps no entry of a page that lost its mark.
\<close>

lemma core_ok_unmark:
  assumes "core_ok s" "map_ok (mem_map u)"
    and "\<And>i off q. ram_byte (mem_map u) i off q = ram_byte (mem_map s) i off q"
    and "tlb_read u = tlb_read s" "tlb_code u = tlb_code s"
    and "\<And>k. k < TLB_SIZE \<Longrightarrow> tlb_write u k = tlb_write s k \<or> vaddr (tlb_write u k) = - 1"
    and "\<And>k i off. k < TLB_SIZE \<Longrightarrow> tlb_write u k = tlb_write s k \<Longrightarrow> vaddr (tlb_write s k) \<noteq> - 1 \<Longrightarrow>
      4096 dvd off \<Longrightarrow>
      ram_byte (mem_map s) i off (mem_addend (tlb_write s k) + vaddr (tlb_write s k)) \<Longrightarrow>
      page_dirty (mem_map s) i off \<Longrightarrow> page_dirty (mem_map u) i off"
  shows "core_ok u"
proof -
  have keep: "entry_ok (\<lambda>_ _ _. True) (mem_map u) e = entry_ok (\<lambda>_ _ _. True) (mem_map s) e" for e
    by (simp add: entry_ok_def assms(3))
  have "entry_ok page_dirty (mem_map u) (tlb_write u k)" if k: "k < TLB_SIZE" for k
  proof (cases "vaddr (tlb_write u k) = - 1")
    case True
    then show ?thesis by (simp add: entry_ok_def)
  next
    case False
    let ?e = "tlb_write s k"
    have e: "tlb_write u k = ?e" "vaddr ?e \<noteq> - 1" using assms(6) [OF k] False by auto
    have "entry_ok page_dirty (mem_map s) ?e" using assms(1) k by (simp add: core_ok_def tlb_ok_def)
    then obtain i off where b: "page_base (vaddr ?e) = vaddr ?e" "4096 dvd off"
      "ram_byte (mem_map s) i off (mem_addend ?e + vaddr ?e)" "page_dirty (mem_map s) i off"
      using e(2) by (auto simp: entry_ok_def)
    have "page_dirty (mem_map u) i off" by (rule assms(7) [OF k e b(2-4)])
    with b e(1) assms(3) show ?thesis by (metis entry_ok_def)
  qed
  then show ?thesis using assms(1,2,4,5) by (simp add: core_ok_def tlb_ok_def keep)
qed

lemma flush_write_sel [simp]:
  "tlb_read (flush_write_tlb a l s) = tlb_read s" "tlb_code (flush_write_tlb a l s) = tlb_code s"
  "mem_map (flush_write_tlb a l s) = mem_map s" "hmem (flush_write_tlb a l s) = hmem s"
  "reg (flush_write_tlb a l s) = reg s"
  by (simp_all add: flush_write_tlb_def riscv_cpu_flush_tlb_write_range_ram_def)

text \<open>What survives a flush of a host range does not point into it.\<close>

lemma flush_write_entry:
  assumes "k < TLB_SIZE"
  shows "tlb_write (flush_write_tlb a l s) k = tlb_write s k \<or>
         vaddr (tlb_write (flush_write_tlb a l s) k) = - 1"
    and "tlb_write (flush_write_tlb a l s) k = tlb_write s k \<Longrightarrow> vaddr (tlb_write s k) \<noteq> - 1 \<Longrightarrow>
      \<not> (a \<le> mem_addend (tlb_write s k) + vaddr (tlb_write s k) \<and>
         mem_addend (tlb_write s k) + vaddr (tlb_write s k) < a + l)"
  using assms
  by (auto simp: flush_write_tlb_def riscv_cpu_flush_tlb_write_range_ram_def Let_def split: if_splits)
    (metis TLBEntry.select_convs(1) TLBEntry.surjective TLBEntry.update_convs(1))

lemma ram_byte_in_buffer:
  assumes "map_ok m" "ram_byte m i off q"
  shows "phys_mem (phys_mem_range m i) \<le> q"
    "q < phys_mem (phys_mem_range m i) + org_size (phys_mem_range m i)"
    "unat q = unat (phys_mem (phys_mem_range m i)) + off"
proof -
  let ?pr = "phys_mem_range m i"
  note b = ram_byteD [OF assms]
  have h: "unat (phys_mem ?pr) + unat (org_size ?pr) < 2 ^ 64" using b(1) by (simp add: ram_ok_def)
  have q: "q = phys_mem ?pr + of_nat off" using assms(2) by (simp add: ram_byte_def)
  show u: "unat q = unat (phys_mem ?pr) + off"
    using h b(2,3) unfolding q by (simp add: unat_word_ariths unsigned_of_nat take_bit_nat_eq_self)
  have "unat (phys_mem ?pr + org_size ?pr) = unat (phys_mem ?pr) + unat (org_size ?pr)"
    using h by (simp add: unat_word_ariths)
  with u b(2) show "phys_mem ?pr \<le> q" "q < phys_mem ?pr + org_size ?pr"
    by (simp_all add: word_le_nat_alt word_less_nat_alt)
qed

text \<open>The bit of an offset in a bitmap of \<open>u32\<close> words, as the host reads a snapshot.\<close>

definition snapshot_bit :: "u32 list \<Rightarrow> nat \<Rightarrow> bool" where
  "snapshot_bit snap off \<longleftrightarrow> off div 4096 div 32 < length snap \<and>
     bit (snap ! (off div 4096 div 32)) (off div 4096 mod 32)"

lemma page_dirty_snapshot:
  assumes "ram_ok (phys_mem_range m i)" "dirty_bits (phys_mem_range m i) = Some t"
    "off < unat (org_size (phys_mem_range m i))"
  shows "page_dirty m i off \<longleftrightarrow> snapshot_bit (dirty_bits_tab (phys_mem_range m i) t) off"
  using dirty_slot [OF assms]
  by (simp add: page_dirty_def phys_mem_is_dirty_bit_def assms(2) snapshot_bit_def Let_def)

lemma snapshot_bit_nonzero: "snapshot_bit snap off \<Longrightarrow> \<exists>w \<in> set snap. w \<noteq> 0"
  unfolding snapshot_bit_def by (metis bit_0_eq bot_apply bot_bool_def nth_mem)

lemma snapshot_bit_zero [simp]: "\<not> snapshot_bit (replicate n 0) off"
  using snapshot_bit_nonzero by fastforce

lemma ram_byte_upd:
  assumes "is_ram pr = is_ram (phys_mem_range m i)" "pr_size pr = pr_size (phys_mem_range m i)"
    "org_size pr = org_size (phys_mem_range m i)" "phys_mem pr = phys_mem (phys_mem_range m i)"
  shows "ram_byte (upd_range i (\<lambda>_. pr) m) j off q = ram_byte m j off q"
  using assms by (simp add: ram_byte_def upd_range_def)

text \<open>
  A snapshot: the bitmap in use is handed out, the other one is cleared and takes its place; the
  rest of the core stays, apart from the write TLB.
\<close>

lemma get_dirty_ok:
  assumes "core_ok s" "i < n_phys_mem_range (mem_map s)" "is_ram (phys_mem_range (mem_map s) i)"
    and t: "dirty_bits (phys_mem_range (mem_map s) i) = Some t"
    and "default_get_dirty_bits i s = (snap, u)"
  shows "snap = Some (dirty_bits_tab (phys_mem_range (mem_map s) i) t)"
    and "core_ok u" "hmem u = hmem s" "reg u = reg s"
    and "\<forall>j. j \<noteq> i \<longrightarrow> phys_mem_range (mem_map u) j = phys_mem_range (mem_map s) j"
    and "\<forall>off. \<not> (off < unat (org_size (phys_mem_range (mem_map s) i)) \<and> page_dirty (mem_map u) i off)"
    and "disjoint_ram (mem_map s) \<Longrightarrow> disjoint_ram (mem_map u)"
proof -
  let ?pr = "phys_mem_range (mem_map s) i" and ?m = "mem_map s"
  let ?n = "dirty_bits_size ?pr div 4" and ?idx = "dirty_bits_index ?pr XOR 1"
  let ?dirty = "(\<exists>w \<in> set (take ?n (dirty_bits_tab ?pr t)). w \<noteq> 0) \<and> pr_size ?pr \<noteq> 0"
  let ?pr' = "?pr\<lparr>dirty_bits_index := ?idx, dirty_bits := Some ?idx,
      dirty_bits_tab := (dirty_bits_tab ?pr)(?idx := replicate ?n 0)\<rparr>"
  let ?m' = "upd_range i (\<lambda>_. ?pr') ?m"
  have m: "map_ok ?m" using assms(1) by (simp add: core_ok_def)
  have ok: "ram_ok ?pr" using map_okD [OF m assms(2,3)] .
  have ti: "t = dirty_bits_index ?pr" "t = 0 \<or> t = 1" "length (dirty_bits_tab ?pr t) = ?n"
    using ok t by (auto simp: ram_ok_def less_2_cases_iff)
  have idx: "?idx \<noteq> t" "?idx < 2" using ti by auto
  have res: "snap = Some (dirty_bits_tab ?pr t)"
    "u = (if ?dirty then flush_write_tlb (phys_mem ?pr) (org_size ?pr) s else s)\<lparr>mem_map := ?m'\<rparr>"
    using assms(5) idx(1) unfolding default_get_dirty_bits_def Let_def t option.case by auto
  then have u: "mem_map u = ?m'" "hmem u = hmem s" "reg u = reg s" "tlb_read u = tlb_read s"
    "tlb_code u = tlb_code s"
    "tlb_write u = tlb_write (if ?dirty then flush_write_tlb (phys_mem ?pr) (org_size ?pr) s else s)"
    by simp_all
  show "snap = Some (dirty_bits_tab ?pr t)" "hmem u = hmem s" "reg u = reg s" by (fact res u)+
  have pr': "phys_mem_range ?m' i = ?pr'" by (simp add: upd_range_def)
  show other: "\<forall>j. j \<noteq> i \<longrightarrow> phys_mem_range (mem_map u) j = phys_mem_range ?m j"
    unfolding u(1) by (simp add: upd_range_def)
  have ok': "ram_ok ?pr'" using ok t idx(2) ti by (auto simp: ram_ok_def less_2_cases_iff)
  have m': "map_ok ?m'" using m ok' by (simp add: map_ok_def upd_range_def)
  have bytes: "ram_byte ?m' j off q = ram_byte ?m j off q" for j off q
    by (rule ram_byte_upd) simp_all
  show "disjoint_ram ?m \<Longrightarrow> disjoint_ram (mem_map u)"
    unfolding u(1) by (auto simp: disjoint_ram_def upd_range_def buffer_def)
  show "\<forall>off. \<not> (off < unat (org_size ?pr) \<and> page_dirty (mem_map u) i off)"
    using page_dirty_snapshot [of ?m' i ?idx] ok' unfolding u(1) pr' by simp
  show "core_ok u"
  proof (rule core_ok_unmark [OF assms(1)])
    show "map_ok (mem_map u)" using m' u(1) by simp
    show "ram_byte (mem_map u) j off q = ram_byte ?m j off q" for j off q using bytes u(1) by simp
    show "tlb_read u = tlb_read s" "tlb_code u = tlb_code s" by (fact u)+
    show "tlb_write u k = tlb_write s k \<or> vaddr (tlb_write u k) = - 1" if "k < TLB_SIZE" for k
      using flush_write_entry(1) [OF that, of "phys_mem ?pr" "org_size ?pr" s] unfolding u(6) by simp
    fix k j off
    let ?e = "tlb_write s k"
    assume k: "k < TLB_SIZE" "tlb_write u k = ?e" "vaddr ?e \<noteq> - 1"
      and b: "ram_byte ?m j off (mem_addend ?e + vaddr ?e)" "page_dirty ?m j off"
    have "j \<noteq> i"
    proof
      assume j: "j = i"
      note in_buf = ram_byte_in_buffer [OF m b(1) [unfolded j]]
      have "snapshot_bit (dirty_bits_tab ?pr t) off"
        using page_dirty_snapshot [OF ok t ram_byteD(2) [OF m b(1) [unfolded j]]] b(2) j by simp
      from snapshot_bit_nonzero [OF this] have ?dirty
        using b(1) ti(3) j by (simp add: ram_byte_def)
      then have "tlb_write (flush_write_tlb (phys_mem ?pr) (org_size ?pr) s) k = ?e"
        using k(2) unfolding u(6) by simp
      from flush_write_entry(2) [OF k(1) this k(3)] in_buf show False by blast
    qed
    then show "page_dirty (mem_map u) j off" using b(2) other by (simp add: page_dirty_def)
  qed
qed

lemma take_dirty_ok:
  assumes "core_ok s" "tinyemu_core_take_dirty region count s = (r, u)"
  shows "core_ok u" "hmem u = hmem s" "reg u = reg s" "disjoint_ram (mem_map s) \<Longrightarrow> disjoint_ram (mem_map u)"
    and "r = Some snap \<Longrightarrow> length snap = count \<and> 0 \<le> region \<and>
      (\<forall>off < unat (org_size (phys_mem_range (mem_map s) (nat region))).
         snapshot_bit snap off = page_dirty (mem_map s) (nat region) off \<and>
         \<not> page_dirty (mem_map u) (nat region) off) \<and>
      (\<forall>j. j \<noteq> nat region \<longrightarrow> phys_mem_range (mem_map u) j = phys_mem_range (mem_map s) j)"
proof -
  let ?i = "nat region" let ?pr = "phys_mem_range (mem_map s) ?i"
  have "core_ok u \<and> hmem u = hmem s \<and> reg u = reg s \<and>
    (disjoint_ram (mem_map s) \<longrightarrow> disjoint_ram (mem_map u)) \<and>
    (r = Some snap \<longrightarrow> length snap = count \<and> 0 \<le> region \<and>
      (\<forall>off < unat (org_size ?pr). snapshot_bit snap off = page_dirty (mem_map s) ?i off \<and>
         \<not> page_dirty (mem_map u) ?i off) \<and>
      (\<forall>j. j \<noteq> ?i \<longrightarrow> phys_mem_range (mem_map u) j = phys_mem_range (mem_map s) j))"
  proof (cases "region < 0 \<or> region \<ge> int (n_phys_mem_range (mem_map s)) \<or> \<not> is_ram ?pr \<or>
      dirty_bits ?pr = None \<or> count \<noteq> dirty_bits_size ?pr div 4")
    case True
    then have "(r, u) = (None, s)"
      using assms(2) unfolding tinyemu_core_take_dirty_def Let_def by (auto split: if_splits)
    then show ?thesis using assms(1) by simp
  next
    case False
    then obtain t where i: "?i < n_phys_mem_range (mem_map s)" "is_ram ?pr" and t: "dirty_bits ?pr = Some t"
      and c: "count = dirty_bits_size ?pr div 4" "0 \<le> region" by auto
    obtain sn where g: "default_get_dirty_bits ?i s = (sn, u)" and r: "r = map_option (take count) sn"
      using assms(2) False unfolding tinyemu_core_take_dirty_def Let_def
      by (cases "default_get_dirty_bits ?i s") auto
    note ok = get_dirty_ok [OF assms(1) i t g]
    have ro: "ram_ok ?pr" using map_okD i assms(1) by (simp add: core_ok_def)
    then have "length (dirty_bits_tab ?pr t) = count"
      using t c(1) by (auto simp: ram_ok_def less_2_cases_iff)
    then have "r = Some (dirty_bits_tab ?pr t)" "length (dirty_bits_tab ?pr t) = count" using r ok(1) by simp_all
    with ok c(2) page_dirty_snapshot [OF ro t] show ?thesis by auto
  qed
  then show "core_ok u" "hmem u = hmem s" "reg u = reg s" "disjoint_ram (mem_map s) \<Longrightarrow> disjoint_ram (mem_map u)"
    "r = Some snap \<Longrightarrow> length snap = count \<and> 0 \<le> region \<and>
      (\<forall>off < unat (org_size ?pr). snapshot_bit snap off = page_dirty (mem_map s) ?i off \<and>
         \<not> page_dirty (mem_map u) ?i off) \<and>
      (\<forall>j. j \<noteq> ?i \<longrightarrow> phys_mem_range (mem_map u) j = phys_mem_range (mem_map s) j)"
    by blast+
qed

text \<open>With disjoint buffers a host byte belongs to one range only.\<close>

lemma ram_byte_unique:
  assumes "map_ok m" "disjoint_ram m" "ram_byte m i off q" "ram_byte m j off' q"
  shows "i = j \<and> off = off'"
proof -
  have buf: "q \<in> buffer (phys_mem_range m k)" if "ram_byte m k x q" for k x
    using that by (auto simp: ram_byte_def buffer_def in_span_iff)
  have "i = j"
    using assms(2) buf [OF assms(3)] buf [OF assms(4)] assms(3,4)
    unfolding disjoint_ram_def by (fastforce simp: ram_byte_def)
  with ram_byte_in_buffer(3) [OF assms(1,3)] ram_byte_in_buffer(3) [OF assms(1,4)] show ?thesis by simp
qed

text \<open>A byte that changed since some earlier state shows in the next snapshot of its range.\<close>

lemma snapshot_sound:
  assumes "evolves s t" "core_ok t" "disjoint_ram (mem_map t)"
    and "tinyemu_core_take_dirty region count t = (Some snap, u)"
    and "ram_byte (mem_map t) (nat region) off q" "hmem t q \<noteq> hmem s q"
  shows "snapshot_bit snap off"
proof -
  have m: "map_ok (mem_map t)" using assms(2) by (simp add: core_ok_def)
  obtain j x where "ram_byte (mem_map t) j x q" "page_dirty (mem_map t) j x"
    using assms(1,6) by (auto simp: evolves_def changed_ok_def)
  with ram_byte_unique [OF m assms(3,5)] have "page_dirty (mem_map t) (nat region) off" by blast
  with take_dirty_ok(5) [OF assms(2,4) refl] ram_byteD(2) [OF m assms(5)] show ?thesis by blast
qed

lemma page_addr:
  "unat ((offset :: u64) AND NOT (DEVRAM_PAGE_SIZE - 1)) = unat offset div 4096 * 4096"
proof -
  have "offset AND NOT (DEVRAM_PAGE_SIZE - 1) = page_base offset" by (simp add: page_base_def)
  also have "\<dots> = offset - of_nat (page_offset offset)"
    using page_base_offset [of offset] by (simp add: eq_diff_eq)
  finally have "unat (offset AND NOT (DEVRAM_PAGE_SIZE - 1)) = unat offset - page_offset offset"
    using page_offset_mod [of offset] page_offset_less [of offset]
    by (simp add: unat_sub word_le_nat_alt unsigned_of_nat take_bit_nat_eq_self)
  then show ?thesis by (simp add: page_offset_mod minus_mod_eq_div_mult)
qed

lemma unat_drop_page: "unat (drop_bit 12 (w :: u64)) = unat w div 4096"
  by (simp add: drop_bit_eq_div unat_div_distrib)

text \<open>Clearing a mark: only marks of that page go, and the page leaves the write TLB.\<close>

lemma reset_page_flushed:
  assumes "ram_ok pr" "off < unat (org_size pr)" "4096 dvd off" "off div 4096 = unat offset div 4096"
    and q: "unat (q :: u64) = unat (phys_mem pr) + off"
  defines "a \<equiv> phys_mem pr + (offset AND NOT (DEVRAM_PAGE_SIZE - 1))"
  shows "a \<le> q \<and> q < a + DEVRAM_PAGE_SIZE"
proof -
  have "off = unat offset div 4096 * 4096" using assms(3,4) by (metis dvd_div_mult_self)
  then have o: "unat (offset AND NOT (DEVRAM_PAGE_SIZE - 1)) = off" by (simp only: page_addr)
  have "unat (phys_mem pr) + unat (org_size pr) + 4096 \<le> 2 ^ 64" using assms(1) by (simp add: ram_ok_def)
  then have "unat a = unat (phys_mem pr) + off" "unat (a + DEVRAM_PAGE_SIZE) = unat (phys_mem pr) + off + 4096"
    using assms(2) o by (simp_all add: a_def unat_word_ariths)
  then show ?thesis using q by (simp add: word_le_nat_alt word_less_nat_alt)
qed

text \<open>Clearing the bit of one page leaves the bit of every other page.\<close>

lemma reset_other_page:
  fixes pr :: PhysMemoryRange and offset :: u64
  defines "k \<equiv> unat (drop_bit DEVRAM_PAGE_SIZE_LOG2 offset) div 32"
    and "b \<equiv> unat (drop_bit DEVRAM_PAGE_SIZE_LOG2 offset) mod 32"
  assumes "ram_ok pr" "dirty_bits pr = Some t" "off < unat (org_size pr)" "unat offset < unat (org_size pr)"
    and "off div 4096 \<noteq> unat offset div 4096" "phys_mem_is_dirty_bit pr (of_nat off)"
  shows "phys_mem_is_dirty_bit (pr\<lparr>dirty_bits_tab := (dirty_bits_tab pr)
    (t := (dirty_bits_tab pr t)[k := dirty_bits_tab pr t ! k AND NOT (push_bit b 1)])\<rparr>) (of_nat off)"
proof -
  have "unat (drop_bit 12 (of_nat off :: u64)) = off div 4096" using dirty_slot(1) [OF assms(3-5)] by simp
  then show ?thesis
    using assms(4,7,8) dirty_slot(2) [OF assms(3,4,6)]
    by (auto simp: k_def b_def phys_mem_is_dirty_bit_def Let_def nth_list_update unat_drop_page bit_simps)
      (metis div_mult_mod_eq)
qed

lemma reset_dirty_ok:
  assumes "core_ok s" "i < n_phys_mem_range (mem_map s)" "is_ram (phys_mem_range (mem_map s) i)"
    "unat offset < unat (org_size (phys_mem_range (mem_map s) i))"
  defines "u \<equiv> phys_mem_reset_dirty_bit i offset s"
  shows "core_ok u" "hmem u = hmem s" "reg u = reg s" "disjoint_ram (mem_map s) \<Longrightarrow> disjoint_ram (mem_map u)"
proof -
  let ?pr = "phys_mem_range (mem_map s) i" and ?m = "mem_map s"
  let ?k = "unat (drop_bit DEVRAM_PAGE_SIZE_LOG2 offset) div 32"
  let ?b = "unat (drop_bit DEVRAM_PAGE_SIZE_LOG2 offset) mod 32"
  have "core_ok u \<and> hmem u = hmem s \<and> reg u = reg s \<and> (disjoint_ram ?m \<longrightarrow> disjoint_ram (mem_map u))"
  proof (cases "\<exists>t. dirty_bits ?pr = Some t \<and> dirty_bits_tab ?pr t ! ?k AND push_bit ?b 1 \<noteq> 0")
    case False
    then have "u = s" by (auto simp: u_def phys_mem_reset_dirty_bit_def Let_def split: option.split)
    then show ?thesis using assms(1) by simp
  next
    case True
    then obtain t where t: "dirty_bits ?pr = Some t" "dirty_bits_tab ?pr t ! ?k AND push_bit ?b 1 \<noteq> 0" by blast
    let ?tab = "dirty_bits_tab ?pr t"
    let ?pr' = "?pr\<lparr>dirty_bits_tab := (dirty_bits_tab ?pr)(t := ?tab[?k := ?tab ! ?k AND NOT (push_bit ?b 1)])\<rparr>"
    let ?a = "phys_mem ?pr + (offset AND NOT (DEVRAM_PAGE_SIZE - 1))"
    let ?s = "s\<lparr>mem_map := upd_range i (\<lambda>_. ?pr') ?m\<rparr>"
    have u: "u = flush_write_tlb ?a DEVRAM_PAGE_SIZE ?s"
      using t unfolding u_def phys_mem_reset_dirty_bit_def Let_def by simp
    have m: "map_ok ?m" using assms(1) by (simp add: core_ok_def)
    have ok: "ram_ok ?pr" using map_okD [OF m assms(2,3)] .
    have "t = 0 \<or> t = 1" using ok t(1) by (auto simp: ram_ok_def less_2_cases_iff)
    then have "length (dirty_bits_tab ?pr t) = dirty_bits_size ?pr div 4"
      using ok t(1) by (auto simp: ram_ok_def)
    then have "ram_ok ?pr'" using ok t(1) by (simp add: ram_ok_def)
    then have m': "map_ok (mem_map u)" using m by (simp add: u map_ok_def upd_range_def)
    have "core_ok u"
    proof (rule core_ok_unmark [OF assms(1) m'])
      show "ram_byte (mem_map u) j off q = ram_byte ?m j off q" for j off q
        using ram_byte_upd [of ?pr' ?m i j off q] by (simp add: u)
      show "tlb_read u = tlb_read s" "tlb_code u = tlb_code s" by (simp_all add: u)
      show "tlb_write u k = tlb_write s k \<or> vaddr (tlb_write u k) = - 1" if "k < TLB_SIZE" for k
        using flush_write_entry(1) [OF that, of ?a DEVRAM_PAGE_SIZE ?s] by (simp add: u)
      fix k j off
      let ?e = "tlb_write s k"
      assume k: "k < TLB_SIZE" "tlb_write u k = ?e" "vaddr ?e \<noteq> - 1" and d: "4096 dvd off"
        and b: "ram_byte ?m j off (mem_addend ?e + vaddr ?e)" "page_dirty ?m j off"
      show "page_dirty (mem_map u) j off"
      proof (cases "j = i")
        case False
        then show ?thesis using b(2) by (simp add: u page_dirty_def upd_range_def)
      next
        case j: True
        note q = ram_byteD(2) [OF m b(1)] ram_byte_in_buffer(3) [OF m b(1)]
        have "off div 4096 \<noteq> unat offset div 4096"
          using reset_page_flushed [OF ok _ d _ q(2) [unfolded j], of offset] q(1) j
            flush_write_entry(2) [OF k(1), of ?a DEVRAM_PAGE_SIZE ?s] k(2,3) by (auto simp: u)
        then have "phys_mem_is_dirty_bit ?pr' (of_nat off)"
          using reset_other_page [OF ok t(1) _ assms(4)] q(1) b(2) j by (simp add: page_dirty_def)
        then show ?thesis using j by (simp add: u page_dirty_def upd_range_def)
      qed
    qed
    moreover have "disjoint_ram ?m \<longrightarrow> disjoint_ram (mem_map u)"
      by (auto simp: u disjoint_ram_def upd_range_def buffer_def)
    ultimately show ?thesis by (simp add: u)
  qed
  then show "core_ok u" "hmem u = hmem s" "reg u = reg s" "disjoint_ram ?m \<Longrightarrow> disjoint_ram (mem_map u)"
    by blast+
qed

lemma clear_dirty_ok:
  assumes "core_ok s" "tinyemu_core_clear_dirty region offset s = (r, u)"
  shows "core_ok u" "hmem u = hmem s" "reg u = reg s" "disjoint_ram (mem_map s) \<Longrightarrow> disjoint_ram (mem_map u)"
proof -
  consider "u = s" | "u = phys_mem_reset_dirty_bit (nat region) offset s"
      "nat region < n_phys_mem_range (mem_map s)" "is_ram (phys_mem_range (mem_map s) (nat region))"
      "unat offset < unat (org_size (phys_mem_range (mem_map s) (nat region)))"
    using assms(2) by (auto simp: tinyemu_core_clear_dirty_def Let_def word_less_nat_alt not_le split: if_splits)
  then show "core_ok u" "hmem u = hmem s" "reg u = reg s" "disjoint_ram (mem_map s) \<Longrightarrow> disjoint_ram (mem_map u)"
    using assms(1) reset_dirty_ok by (cases; blast)+
qed

section \<open>The calls of the host as a transition system\<close>

lemma ticks_sel [simp]:
  "mem_map (tinyemu_core_set_guest_timer_ticks n s) = mem_map s"
  "hmem (tinyemu_core_set_guest_timer_ticks n s) = hmem s"
  "tlb_read (tinyemu_core_set_guest_timer_ticks n s) = tlb_read s"
  "tlb_write (tinyemu_core_set_guest_timer_ticks n s) = tlb_write s"
  "tlb_code (tinyemu_core_set_guest_timer_ticks n s) = tlb_code s"
  "reg (tinyemu_core_set_guest_timer_ticks n s) = reg s"
  by (simp_all add: tinyemu_core_set_guest_timer_ticks_def riscv_cpu_update_time_def
      update_stimecmp_irq_def riscv_cpu_set_mip_def riscv_cpu_reset_mip_def Let_def)

lemma interrupts_sel [simp]:
  "mem_map (tinyemu_core_set_interrupts n s) = mem_map s"
  "hmem (tinyemu_core_set_interrupts n s) = hmem s"
  "tlb_read (tinyemu_core_set_interrupts n s) = tlb_read s"
  "tlb_write (tinyemu_core_set_interrupts n s) = tlb_write s"
  "tlb_code (tinyemu_core_set_interrupts n s) = tlb_code s"
  "reg (tinyemu_core_set_interrupts n s) = reg s"
  by (simp_all add: tinyemu_core_set_interrupts_def riscv_cpu_set_mip_def riscv_cpu_reset_mip_def Let_def)

lemma write_reg: "reg (snd (tinyemu_core_write a w v s)) = reg s"
  by (simp add: tinyemu_core_write_def tinyemu_core_ram_range_def Let_def prod.case_eq_if split: option.split)

text \<open>The calls that may happen between two snapshots of a range.\<close>

inductive running :: "'p platform_ops \<Rightarrow> 'p TinyemuCore \<Rightarrow> 'p TinyemuCore \<Rightarrow> bool" for ops where
  start: "running ops s s"
| run: "running ops s t \<Longrightarrow> tinyemu_core_run_cpu ops limit p t = Some (res, p', u) \<Longrightarrow> running ops s u"
| host_write: "running ops s t \<Longrightarrow> running ops s (snd (tinyemu_core_write address width val t))"
| ticks: "running ops s t \<Longrightarrow> running ops s (tinyemu_core_set_guest_timer_ticks n t)"
| interrupts: "running ops s t \<Longrightarrow> running ops s (tinyemu_core_set_interrupts msk t)"
| reset: "running ops s t \<Longrightarrow> running ops s (snd (tinyemu_core_reset_cpu ok t))"

text \<open>All states a host can bring a core into.\<close>

inductive machine :: "'p platform_ops \<Rightarrow> 'p TinyemuCore \<Rightarrow> bool" for ops where
  create: "tinyemu_core_create a b c h = Some s \<Longrightarrow> machine ops s"
| ram: "machine ops s \<Longrightarrow> 4096 dvd unat base \<Longrightarrow> alloc_ok (mem_map s) len al \<Longrightarrow>
    tinyemu_core_register_ram al base len flags s = Some (r, t) \<Longrightarrow> machine ops t"
| device: "machine ops s \<Longrightarrow> tinyemu_core_register_device base len widths s = Some (r, t) \<Longrightarrow> machine ops t"
| running: "machine ops s \<Longrightarrow> running ops s t \<Longrightarrow> machine ops t"
| take: "machine ops s \<Longrightarrow> machine ops (snd (tinyemu_core_take_dirty region count s))"
| clear: "machine ops s \<Longrightarrow> machine ops (snd (tinyemu_core_clear_dirty region offset s))"

definition machine_ok :: "'p TinyemuCore \<Rightarrow> bool" where
  "machine_ok s \<longleftrightarrow> core_ok s \<and> disjoint_ram (mem_map s) \<and> reg s 0 = 0"

lemma disjoint_ram_evolves: "evolves s t \<Longrightarrow> disjoint_ram (mem_map t) = disjoint_ram (mem_map s)"
proof -
  assume e: "evolves s t"
  have l: "same_layout (phys_mem_range (mem_map s) i) (phys_mem_range (mem_map t) i)" for i
    using e by (simp add: evolves_def)
  have "n_phys_mem_range (mem_map t) = n_phys_mem_range (mem_map s)" using e by (simp add: evolves_def)
  then show ?thesis
    by (simp only: disjoint_ram_def buffer_def same_layout_sel(2,4,5) [OF l])
qed

lemma running_ok:
  assumes "running ops s t" "machine_ok s"
  shows "machine_ok t \<and> evolves s t"
  using assms
proof (induction rule: running.induct)
  case (start s)
  then show ?case by (simp add: evolves_refl)
next
  case (run s t limit p res p' u)
  then have t: "machine_ok t" "evolves s t" by blast+
  from run_ok [of t ops limit p] t(1) run(2) have "core_ok u" "evolves t u" "reg u 0 = reg t 0"
    by (auto simp: machine_ok_def)
  with t disjoint_ram_evolves evolves_trans show ?case unfolding machine_ok_def by metis
next
  case (host_write s t address width val)
  then have t: "machine_ok t" "evolves s t" by blast+
  from write_safe [of t address width val] t(1) write_reg [of address width val t]
  have "core_ok (snd (tinyemu_core_write address width val t))"
    "evolves t (snd (tinyemu_core_write address width val t))"
    by (simp_all add: machine_ok_def safe_step_def)
  with t disjoint_ram_evolves evolves_trans write_reg show ?case unfolding machine_ok_def by metis
next
  case (ticks s t n)
  then show ?case
    using core_ok_cong [of "tinyemu_core_set_guest_timer_ticks n t" t]
      evolves_cong [of s s "tinyemu_core_set_guest_timer_ticks n t" t] by (simp add: machine_ok_def)
next
  case (interrupts s t msk)
  then show ?case
    using core_ok_cong [of "tinyemu_core_set_interrupts msk t" t]
      evolves_cong [of s s "tinyemu_core_set_interrupts msk t" t] by (simp add: machine_ok_def)
next
  case (reset s t ok)
  let ?u = "snd (tinyemu_core_reset_cpu ok t)"
  have t: "machine_ok t" "evolves s t" using reset by blast+
  have "tinyemu_core_reset_cpu ok t = (fst (tinyemu_core_reset_cpu ok t), ?u)" by simp
  note r = reset_ok [OF this] 
  have "core_ok ?u" "reg ?u 0 = 0" "mem_map ?u = mem_map t" "hmem ?u = hmem t"
    using r t(1) by (simp_all add: machine_ok_def)
  with t evolves_cong [of s s ?u t] show ?case by (simp add: machine_ok_def)
qed

lemma machine_invariant: "machine ops s \<Longrightarrow> machine_ok s"
proof (induction rule: machine.induct)
  case (create a b c h s)
  then show ?case using create_ok [OF create] by (simp add: machine_ok_def disjoint_ram_def)
next
  case (ram s base len al flags r t)
  then show ?case using register_ram_ok [of s base len al flags] by (auto simp: machine_ok_def)
next
  case (device s base len widths r t)
  then show ?case using register_device_ok [of s base len widths] by (auto simp: machine_ok_def)
next
  case (running s t)
  then show ?case using running_ok by blast
next
  case (take s region count)
  then show ?case
    using take_dirty_ok(1-4) [of s region count "fst (tinyemu_core_take_dirty region count s)"
        "snd (tinyemu_core_take_dirty region count s)"] by (simp add: machine_ok_def)
next
  case (clear s region offset)
  then show ?case
    using clear_dirty_ok [of s region offset "fst (tinyemu_core_clear_dirty region offset s)"
        "snd (tinyemu_core_clear_dirty region offset s)"] by (simp add: machine_ok_def)
qed

end
