(* ===== verification/Flat.thy ===== *)
theory Flat
  imports Host
begin

text \<open>
  Guest memory as a flat array of bytes. Without address translation, and where the pages touched are
  plain RAM, the load and store helpers with their TLBs, slow paths and unaligned cases behave as
  little-endian loads and stores on \<open>guest_mem\<close>.
\<close>

section \<open>Specification\<close>

definition guest_mem :: "('p, 'x) TinyemuCore_scheme \<Rightarrow> u64 \<Rightarrow> u8" where
  "guest_mem s a =
     (case get_phys_mem_range (mem_map s) a of
        None \<Rightarrow> 0
      | Some i \<Rightarrow> if is_ram (phys_mem_range (mem_map s) i)
                  then hmem s (host_ptr (mem_map s) i a) else 0)"

text \<open>The whole page of \<open>va\<close> belongs to RAM range \<open>i\<close>; no device range registered before it shadows a
  part of it.\<close>

definition ram_page :: "PhysMemoryMap \<Rightarrow> u64 \<Rightarrow> nat \<Rightarrow> bool" where
  "ram_page m va i \<longleftrightarrow> (\<forall>a. page_base a = page_base va \<longrightarrow> ram_hit m a i)"

text \<open>A page of RAM that is not ROM, the pages a program may store to.\<close>

definition writable_page :: "PhysMemoryMap \<Rightarrow> u64 \<Rightarrow> nat \<Rightarrow> bool" where
  "writable_page m va i \<longleftrightarrow> ram_page m va i \<and> devram_flags (phys_mem_range m i) AND DEVRAM_FLAG_ROM = 0"

text \<open>Addresses are not translated, and neither are the entries the TLBs hold.\<close>

definition tlb_flat :: "PhysMemoryMap \<Rightarrow> (nat \<Rightarrow> TLBEntry) \<Rightarrow> bool" where
  "tlb_flat m tlb \<longleftrightarrow> (\<forall>sz va. tlb_hit sz tlb va \<longrightarrow>
     aligned sz va \<and> (\<exists>i. ram_page m va i \<and> tlb_ptr tlb va = host_ptr m i va))"

definition flat :: "('p, 'x) TinyemuCore_scheme \<Rightarrow> bool" where
  "flat s \<longleftrightarrow> map_ok (mem_map s) \<and> disjoint_ram (mem_map s) \<and>
     \<not> sv39_active s ACCESS_READ \<and> \<not> sv39_active s ACCESS_WRITE \<and>
     tlb_flat (mem_map s) (tlb_read s) \<and> tlb_flat (mem_map s) (tlb_write s)"

section \<open>Bytes of loads and stores\<close>

lemma load_le_bit:
  "bit (load_le n h p :: u64) b \<longleftrightarrow> b < 8 * n \<and> b < 64 \<and> bit (h (p + of_nat (b div 8))) (b mod 8)"
proof (induction n arbitrary: p b)
  case (Suc n)
  show ?case
  proof (cases "b < 8")
    case True
    then show ?thesis by (simp add: bit_or_iff bit_push_bit_iff bit_unsigned_iff)
  next
    case False
    have z: "bit (h p) b = False" using False bit_imp_le_length [of "h p" b] by auto
    have d: "(b - 8) div 8 + 1 = b div 8" "(b - 8) mod 8 = b mod 8"
      using False by (simp_all add: le_div_geq le_mod_geq)
    have q: "p + 1 + of_nat ((b - 8) div 8) = p + of_nat (b div 8)"
      unfolding d(1) [symmetric] by (simp add: add.assoc)
    have "bit (load_le n h (p + 1) :: u64) (b - 8) \<longleftrightarrow>
        b - 8 < 8 * n \<and> b - 8 < 64 \<and> bit (h (p + of_nat (b div 8))) (b mod 8)"
      unfolding Suc.IH [of "p + 1" "b - 8"] q d(2) ..
    then show ?thesis using False z by (auto simp: bit_or_iff bit_push_bit_iff bit_unsigned_iff)
  qed
qed simp

lemma load_le_take [simp]: "take_bit (8 * n) (load_le n h p :: u64) = load_le n h p"
  by (rule bit_word_eqI) (auto simp: bit_take_bit_iff load_le_bit)

lemma load_le_shift:
  "(\<And>k. k < n \<Longrightarrow> h (p + of_nat k) = g (a + of_nat k)) \<Longrightarrow> (load_le n h p :: u64) = load_le n g a"
  by (rule bit_word_eqI) (auto simp: load_le_bit less_mult_imp_div_less mult.commute)

lemma store_le_apply:
  "n < 2 ^ 64 \<Longrightarrow> store_le n v p h q =
     (if unat (q - p) < n then ucast (drop_bit (8 * unat (q - p)) (v :: u64)) else h q)"
proof (induction n arbitrary: v p h)
  case (Suc n)
  let ?h = "h(p := ucast v)"
  have IH: "store_le n (drop_bit 8 v) (p + 1) ?h q = (if unat (q - (p + 1)) < n
      then ucast (drop_bit (8 * unat (q - (p + 1))) (drop_bit 8 v)) else ?h q)"
    using Suc.prems by (intro Suc.IH) simp
  show ?case
  proof (cases "q = p")
    case True
    have "unat (p - (p + 1)) = 2 ^ 64 - 1" by (simp add: unsigned_minus_1_eq_mask mask_eq_exp_minus_1)
    then show ?thesis using IH True Suc.prems by simp
  next
    case False
    have "q - p = (q - (p + 1)) + 1" by simp
    moreover have "unat (q - (p + 1)) + 1 < 2 ^ 64"
    proof (rule ccontr)
      assume "\<not> unat (q - (p + 1)) + 1 < 2 ^ 64"
      moreover have "unat (q - (p + 1)) < 2 ^ 64" by (rule order_less_le_trans [OF unsigned_less]) simp
      ultimately have "unat (q - (p + 1)) = 2 ^ 64 - 1" by simp
      then have "unat (q - (p + 1)) = unat (- 1 :: u64)"
        by (simp add: unsigned_minus_1_eq_mask mask_eq_exp_minus_1)
      then have "q - (p + 1) = - 1" by (rule unsigned_word_eqI)
      then have "q = p" by (simp add: algebra_simps)
      with False show False by blast
    qed
    ultimately have u: "unat (q - p) = Suc (unat (q - (p + 1)))"
      using unat_add_small [of "q - (p + 1)" 1] by simp
    show ?thesis using IH False by (simp add: u add.commute)
  qed
qed simp

section \<open>Pages\<close>

lemma page_base_unat: "unat (page_base a) = unat a div 4096 * 4096"
  using page_addr [of a] by (simp add: page_base_def)

lemma page_base_add:
  assumes "page_offset va + k < 4096"
  shows "page_base (va + of_nat k) = page_base va"
proof -
  have o: "unat va mod 4096 + k < 4096" using assms by (simp add: page_offset_mod)
  have "unat va < 2 ^ 64" by (rule order_less_le_trans [OF unsigned_less]) simp
  then have "unat va div 4096 < 2 ^ 52" by (simp add: less_mult_imp_div_less)
  then have d: "unat va div 4096 * 4096 + 4096 \<le> 2 ^ 64" by simp
  have "unat va + k < 2 ^ 64"
    using o d div_mult_mod_eq [of "unat va" 4096] by linarith
  moreover have "k < 2 ^ 64" using o by simp
  ultimately have "unat (va + of_nat k) = unat va + k"
    by (simp add: unat_word_ariths unsigned_of_nat take_bit_nat_eq_self)
  moreover have "(unat va + k) div 4096 = unat va div 4096"
    using o div_add1_eq [of "unat va" k 4096] by simp
  ultimately have "unat (page_base (va + of_nat k)) = unat (page_base va)"
    by (simp add: page_base_unat)
  then show ?thesis by (rule unsigned_word_eqI)
qed

lemma aligned_same_page: "aligned sz va \<Longrightarrow> k < size_bytes sz \<Longrightarrow> page_base (va + of_nat k) = page_base va"
  using aligned_page_room [of sz va] by (intro page_base_add) simp

lemma ram_page_hit: "ram_page m va i \<Longrightarrow> page_base a = page_base va \<Longrightarrow> ram_hit m a i"
  by (simp add: ram_page_def)

lemma ram_page_cong: "page_base a = page_base va \<Longrightarrow> ram_page m a i = ram_page m va i"
  by (simp add: ram_page_def)

lemma disjoint_ram_mark [simp]: "disjoint_ram (mark_dirty j p m) = disjoint_ram m"
proof -
  have l: "same_layout (phys_mem_range m i) (phys_mem_range (mark_dirty j p m) i)" for i
    using mark_layout [of m j p] by blast
  show ?thesis by (simp only: disjoint_ram_def buffer_def mark_n same_layout_sel(2,4,5) [OF l])
qed

lemma ram_page_mark [simp]: "ram_page (mark_dirty j p m) va i = ram_page m va i"
  by (simp add: ram_page_def)

lemma tlb_flat_mark [simp]: "tlb_flat (mark_dirty j p m) tlb = tlb_flat m tlb"
  by (simp add: tlb_flat_def)

lemma host_ptr_add: "host_ptr m i (va + k) = host_ptr m i va + k"
  by (simp add: host_ptr_def algebra_simps)

lemma guest_mem_cong: "mem_map t = mem_map s \<Longrightarrow> hmem t = hmem s \<Longrightarrow> guest_mem t = guest_mem s"
  by (rule ext) (simp add: guest_mem_def split: option.split)

lemma guest_mem_hit: "ram_hit (mem_map s) a i \<Longrightarrow> guest_mem s a = hmem s (host_ptr (mem_map s) i a)"
  by (simp add: guest_mem_def ram_hit_def)

lemma guest_load:
  assumes "ram_page (mem_map s) va i" "aligned sz va"
  shows "(load_le (size_bytes sz) (hmem s) (host_ptr (mem_map s) i va) :: u64) =
         load_le (size_bytes sz) (guest_mem s) va"
proof (rule load_le_shift)
  fix k assume "k < size_bytes sz"
  then have "ram_hit (mem_map s) (va + of_nat k) i"
    using assms aligned_same_page by (blast intro: ram_page_hit)
  then show "hmem s (host_ptr (mem_map s) i va + of_nat k) = guest_mem s (va + of_nat k)"
    by (simp add: guest_mem_hit host_ptr_add)
qed

lemma sv39_active_cong:
  "mstatus t = mstatus s \<Longrightarrow> priv t = priv s \<Longrightarrow> satp t = satp s \<Longrightarrow> sv39_active t acc = sv39_active s acc"
  by (simp only: sv39_active_def get_effective_priv_def)

text \<open>A store of host bytes is a store of guest bytes.\<close>

lemma guest_store:
  assumes m: "map_ok (mem_map s)" "disjoint_ram (mem_map s)" and p: "ram_page (mem_map s) va i" "aligned sz va"
    and t: "hmem t = store_le (size_bytes sz) (v :: u64) (host_ptr (mem_map s) i va) (hmem s)"
      "mem_map t = mem_map s \<or> mem_map t = mark_dirty j q (mem_map s)"
  shows "guest_mem t = store_le (size_bytes sz) v va (guest_mem s)"
proof
  fix a
  let ?n = "size_bytes sz" and ?m = "mem_map s"
  have n: "?n < 2 ^ 64" by (cases sz) simp_all
  have hit: "ram_hit (mem_map t) b k = ram_hit ?m b k" "host_ptr (mem_map t) k b = host_ptr ?m k b" for b k
    using t(2) by auto
  show "guest_mem t a = store_le ?n v va (guest_mem s) a"
  proof (cases "\<exists>k. ram_hit ?m a k")
    case True
    then obtain k where k: "ram_hit ?m a k" by blast
    have g: "guest_mem t a = store_le ?n v (host_ptr ?m i va) (hmem s) (host_ptr ?m k a)"
      using k by (simp add: guest_mem_hit [of t a k] hit t(1))
    show ?thesis
    proof (cases "k = i")
      case True
      then have "host_ptr ?m k a - host_ptr ?m i va = a - va" by (simp add: host_ptr_def)
      then show ?thesis using g k by (simp add: store_le_apply [OF n] guest_mem_hit)
    next
      case False
      have "\<not> unat (host_ptr ?m k a - host_ptr ?m i va) < ?n"
      proof
        assume lt: "unat (host_ptr ?m k a - host_ptr ?m i va) < ?n"
        define d where "d = unat (host_ptr ?m k a - host_ptr ?m i va)"
        have h: "ram_hit ?m (va + of_nat d) i"
          using lt p aligned_same_page [of sz va d] by (auto simp: d_def intro: ram_page_hit)
        have "host_ptr ?m k a = host_ptr ?m i (va + of_nat d)" by (simp add: host_ptr_add d_def)
        then show False
          using ram_byte_unique [OF m ram_hit_byte(1) [OF m(1) k]] ram_hit_byte(1) [OF m(1) h] False
          by metis
      qed
      moreover have "\<not> unat (a - va) < ?n"
      proof
        assume "unat (a - va) < ?n"
        then have "ram_hit ?m (va + of_nat (unat (a - va))) i"
          using p aligned_same_page [of sz va "unat (a - va)"] by (auto intro: ram_page_hit)
        then show False using k False by (simp add: ram_hit_def)
      qed
      ultimately show ?thesis using g k by (simp add: store_le_apply [OF n] guest_mem_hit)
    qed
  next
    case False
    then have "guest_mem s a = 0" "guest_mem t a = 0"
      using hit(1) by (auto simp: guest_mem_def ram_hit_def split: option.splits)
    moreover have "\<not> unat (a - va) < ?n"
    proof
      assume "unat (a - va) < ?n"
      then have "ram_hit ?m (va + of_nat (unat (a - va))) i"
        using p aligned_same_page [of sz va "unat (a - va)"] by (auto intro: ram_page_hit)
      then show False using False by simp
    qed
    ultimately show ?thesis by (simp add: store_le_apply [OF n])
  qed
qed

section \<open>Aligned accesses\<close>

lemma tlb_flat_fill:
  assumes "tlb_flat m tlb" "ram_page m va i"
  shows "tlb_flat m (tlb_fill va (host_ptr m i va) tlb)"
  unfolding tlb_flat_def
proof (intro allI impI)
  fix sz w assume hit: "tlb_hit sz (tlb_fill va (host_ptr m i va) tlb) w"
  show "aligned sz w \<and> (\<exists>j. ram_page m w j \<and> tlb_ptr (tlb_fill va (host_ptr m i va) tlb) w = host_ptr m j w)"
  proof (cases "tlb_index w = tlb_index va")
    case True
    then have "tlb_tag sz w = page_base va" using hit by (simp add: tlb_hit_def tlb_fill_def page_base_def)
    then have "aligned sz w" "page_base w = page_base va" by (rule tlb_tag_page)+
    moreover from this have "ram_page m w i" using ram_page_cong assms(2) by blast
    moreover have "tlb_ptr (tlb_fill va (host_ptr m i va) tlb) w = host_ptr m i w"
      using True by (simp add: tlb_ptr_def tlb_fill_def host_ptr_def)
    ultimately show ?thesis by blast
  next
    case False
    then have "tlb_hit sz tlb w" "tlb_ptr (tlb_fill va (host_ptr m i va) tlb) w = tlb_ptr tlb w"
      using hit by (simp_all add: tlb_hit_def tlb_fill_def tlb_ptr_def)
    then show ?thesis using assms(1) by (auto simp: tlb_flat_def)
  qed
qed

lemma tlb_flat_ptr:
  assumes "tlb_flat m tlb" "tlb_hit sz tlb va" "ram_page m va i"
  shows "tlb_ptr tlb va = host_ptr m i va"
proof -
  obtain j where "ram_page m va j" "tlb_ptr tlb va = host_ptr m j va"
    using assms(1,2) by (auto simp: tlb_flat_def)
  moreover have "j = i" if "ram_page m va j"
    using ram_page_hit [OF that refl] ram_page_hit [OF assms(3) refl] by (simp add: ram_hit_def)
  ultimately show ?thesis by blast
qed

lemma flat_read_aligned:
  assumes s: "flat s" and p: "ram_page (mem_map s) va i" "aligned sz va"
  shows "\<exists>t. target_read_aligned ops sz va s = (Some (load_le (size_bytes sz) (guest_mem s) va), t) \<and>
     flat t \<and> guest_mem t = guest_mem s \<and> mem_map t = mem_map s"
proof (cases "tlb_hit sz (tlb_read s) va")
  case True
  then have "tlb_ptr (tlb_read s) va = host_ptr (mem_map s) i va"
    using s p(1) by (auto simp: flat_def intro: tlb_flat_ptr)
  then show ?thesis using True s guest_load [OF p] by (simp add: target_read_aligned_def)
next
  case False
  let ?t = "s\<lparr>tlb_read := tlb_fill va (host_ptr (mem_map s) i va) (tlb_read s)\<rparr>"
  have tr: "get_phys_addr va ACCESS_READ s = (TRANSLATE_OK, va, s)"
    using s by (intro get_phys_addr_inactive) (simp add: flat_def)
  have h: "get_phys_mem_range (mem_map s) va = Some i" "is_ram (phys_mem_range (mem_map s) i)"
    using ram_page_hit [OF p(1) refl] by (simp_all add: ram_hit_def)
  have "target_read_slow_aligned ops sz va s = (Some (load_le (size_bytes sz) (guest_mem s) va), ?t)"
    unfolding target_read_slow_aligned_def tr prod.case
    by (simp add: h Let_def flip: host_ptr_def) (rule guest_load [OF p])
  then have "target_read_aligned ops sz va s = (Some (load_le (size_bytes sz) (guest_mem s) va), ?t)"
    using False by (simp add: target_read_aligned_def truncate_read_def)
  moreover have "flat ?t"
    using s tlb_flat_fill [OF _ p(1), of "tlb_read s"] sv39_active_cong [of ?t s]
    by (simp add: flat_def)
  moreover have "guest_mem ?t = guest_mem s" by (rule guest_mem_cong) simp_all
  ultimately show ?thesis by (intro exI [of _ ?t]) simp
qed

lemma flat_write_aligned:
  assumes s: "flat s" and p: "ram_page (mem_map s) va i" "aligned sz va"
  shows "\<exists>st t. target_write_aligned ops sz va val s = (st, t) \<and> 0 \<le> st \<and> flat t \<and>
     guest_mem t = store_le (size_bytes sz) val va (guest_mem s) \<and>
     (\<forall>a j. ram_page (mem_map t) a j = ram_page (mem_map s) a j)"
proof -
  have m: "map_ok (mem_map s)" "disjoint_ram (mem_map s)" using s by (simp_all add: flat_def)
  show ?thesis
  proof (cases "tlb_hit sz (tlb_write s) va")
    case True
    let ?t = "s\<lparr>hmem := store_le (size_bytes sz) val (host_ptr (mem_map s) i va) (hmem s)\<rparr>"
    have "tlb_ptr (tlb_write s) va = host_ptr (mem_map s) i va"
      using s p(1) True by (auto simp: flat_def intro: tlb_flat_ptr)
    then have "target_write_aligned ops sz va val s = (0, ?t)"
      using True by (simp add: target_write_aligned_def)
    moreover have "flat ?t"
      using s sv39_active_cong [of ?t s] by (simp add: flat_def)
    moreover have "guest_mem ?t = store_le (size_bytes sz) val va (guest_mem s)"
      by (rule guest_store [OF m p]) simp_all
    ultimately show ?thesis by (intro exI [of _ 0] exI [of _ ?t]) simp
  next
    case False
    let ?t = "s\<lparr>mem_map := mark_dirty i va (mem_map s),
      tlb_write := tlb_fill va (host_ptr (mem_map s) i va) (tlb_write s),
      hmem := store_le (size_bytes sz) val (host_ptr (mem_map s) i va) (hmem s)\<rparr>"
    have tr: "get_phys_addr va ACCESS_WRITE s = (TRANSLATE_OK, va, s)"
      using s by (intro get_phys_addr_inactive) (simp add: flat_def)
    have h: "get_phys_mem_range (mem_map s) va = Some i" "is_ram (phys_mem_range (mem_map s) i)"
      using ram_page_hit [OF p(1) refl] by (simp_all add: ram_hit_def)
    have "target_write_slow_aligned ops sz va val s = (write_status ?t, ?t)"
      unfolding target_write_slow_aligned_def tr prod.case
      by (simp add: h mark_dirty_def Let_def flip: host_ptr_def)
    then have "target_write_aligned ops sz va val s = (write_status ?t, ?t)"
      using False by (simp add: target_write_aligned_def)
    moreover have "flat ?t"
      using s tlb_flat_fill [OF _ p(1), of "tlb_write s"] mark_map_ok [OF m(1)]
        sv39_active_cong [of ?t s]
      by (simp add: flat_def)
    moreover have "guest_mem ?t = store_le (size_bytes sz) val va (guest_mem s)"
      by (rule guest_store [OF m p, where j = i and q = va]) simp_all
    moreover have "0 \<le> write_status ?t" by (simp add: write_status_def)
    ultimately show ?thesis by (intro exI [of _ "write_status ?t"] exI [of _ ?t]) simp
  qed
qed

section \<open>Unaligned accesses\<close>

lemma dvd_aligned:
  assumes "2 ^ size_log2 sz dvd unat va"
  shows "aligned sz va"
proof -
  have "take_bit (size_log2 sz) (unat va) = 0" using assms by (simp add: take_bit_eq_mod dvd_eq_mod_eq_0)
  then have "unat (take_bit (size_log2 sz) va) = 0" by (simp only: unsigned_take_bit_eq)
  then show ?thesis unfolding aligned_def size_mask by (simp add: unat_eq_0 take_bit_eq_mask)
qed

lemma align_down:
  fixes va :: u64 and sz :: access_size
  defines "al \<equiv> va AND (of_nat (size_bytes sz) - 1)"
  shows "aligned sz (va - al)" "page_base (va - al) = page_base va" "unat al < size_bytes sz"
    "aligned sz (va - al + of_nat (size_bytes sz))"
    "al \<noteq> 0 \<Longrightarrow> page_base (va - al + of_nat (size_bytes sz)) = page_base (va + of_nat (size_bytes sz - 1))"
proof -
  let ?n = "size_bytes sz" and ?l = "size_log2 sz"
  have al: "al = va AND mask ?l" unfolding al_def size_mask ..
  have "(va AND NOT (mask ?l)) + al = (va AND NOT (mask ?l)) OR al"
    unfolding al by (rule disjunctive_add_eq_or) (rule bit_word_eqI, simp add: bit_simps)
  also have "\<dots> = va" unfolding al by (rule bit_word_eqI) (auto simp: bit_simps)
  finally have d: "va - al = va AND NOT (mask ?l)" by (simp add: algebra_simps)
  have l: "?l \<le> 3" by (rule size_log2_le)
  show a: "aligned sz (va - al)" unfolding d aligned_bits using l by (auto simp: bit_simps)
  show "page_base (va - al) = page_base va"
    unfolding d by (rule bit_word_eqI) (use l in \<open>auto simp: page_base_bits bit_simps\<close>)
  show u: "unat al < ?n" unfolding al size_bytes_def by (rule unat_and_mask_less)
  have n: "(of_nat ?n :: u64) = push_bit ?l 1" by (cases sz) simp_all
  have "2 ^ ?l dvd unat (va - al)" using a by (simp add: aligned_def aligned_dvd)
  moreover have "2 ^ ?l dvd unat (of_nat ?n :: u64)" unfolding n using l by (intro unat_push_dvd) simp_all
  ultimately have "2 ^ ?l dvd unat (va - al + of_nat ?n)" using l by (intro unat_add_dvd) simp_all
  then show b: "aligned sz (va - al + of_nat ?n)" by (rule dvd_aligned)
  assume "al \<noteq> 0"
  then have "0 < unat al" by (simp add: unat_gt_0)
  then have k: "unat al - 1 < ?n" using u by simp
  have "va + of_nat (?n - 1) = va - al + of_nat ?n + of_nat (unat al - 1)"
    using \<open>0 < unat al\<close> u by (simp add: of_nat_diff)
  then show "page_base (va - al + of_nat ?n) = page_base (va + of_nat (?n - 1))"
    by (simp only: aligned_same_page [OF b k])
qed

text \<open>The two aligned words around an unaligned one hold its bytes.\<close>

lemma load_le_join:
  fixes va :: u64 and g :: heap and k n :: nat
  assumes "k < n" "n \<le> 8"
  defines "lo \<equiv> load_le n g (va - of_nat k) :: u64" and "hi \<equiv> load_le n g (va - of_nat k + of_nat n) :: u64"
  shows "take_bit (8 * n) (drop_bit (k * 8) lo OR push_bit (8 * n - k * 8) hi) = (load_le n g va :: u64)"
proof (rule bit_word_eqI)
  fix b :: nat assume "b < LENGTH(64)"
  then have b: "b < 64" by simp
  show "bit (take_bit (8 * n) (drop_bit (k * 8) lo OR push_bit (8 * n - k * 8) hi)) b = bit (load_le n g va :: u64) b"
  proof (cases "b + k * 8 < 8 * n")
    case True
    have "(k * 8 + b) div 8 = k + b div 8" "(k * 8 + b) mod 8 = b mod 8" by simp_all
    then have "bit (drop_bit (k * 8) lo) b \<longleftrightarrow> bit (g (va + of_nat (b div 8))) (b mod 8)"
      using True assms(2) b by (simp add: lo_def bit_drop_bit_eq load_le_bit add.commute)
    then show ?thesis
      using True b by (auto simp: bit_take_bit_iff bit_or_iff bit_push_bit_iff load_le_bit)
  next
    case False
    then have e: "b - (8 * n - k * 8) = b + k * 8 - 8 * n" using assms(1) by simp
    have q: "(b + k * 8 - 8 * n) div 8 + n = b div 8 + k" "(b + k * 8 - 8 * n) mod 8 = b mod 8"
    proof -
      obtain c where c: "b + k * 8 = 8 * n + c" using False by (metis le_add_diff_inverse not_less)
      then have "(b + k * 8) div 8 = (8 * n + c) div 8" "(b + k * 8) mod 8 = (8 * n + c) mod 8" by metis+
      then have "b div 8 + k = n + c div 8" "b mod 8 = c mod 8" by simp_all
      then show "(b + k * 8 - 8 * n) div 8 + n = b div 8 + k" "(b + k * 8 - 8 * n) mod 8 = b mod 8"
        unfolding c by simp_all
    qed
    have "of_nat ((b + k * 8 - 8 * n) div 8) + of_nat n = (of_nat (b div 8) + of_nat k :: u64)"
      unfolding of_nat_add [symmetric] q(1) ..
    then have A: "va - of_nat k + of_nat n + of_nat ((b + k * 8 - 8 * n) div 8) = va + of_nat (b div 8)"
      by (simp add: algebra_simps)
    have "bit hi (b - (8 * n - k * 8)) \<longleftrightarrow> b + k * 8 - 8 * n < 8 * n \<and> bit (g (va + of_nat (b div 8))) (b mod 8)"
      using b assms(1,2) unfolding hi_def load_le_bit e q(2) A by auto
    moreover have "\<not> bit (drop_bit (k * 8) lo) b"
      using False by (simp add: lo_def bit_drop_bit_eq load_le_bit)
    ultimately show ?thesis
      using False b assms(1,2) by (auto simp: bit_take_bit_iff bit_or_iff bit_push_bit_iff load_le_bit)
  qed
qed

lemma join_32:
  fixes va :: u64
  assumes "k < 4"
  shows "take_bit 32 (ucast (drop_bit (k * 8) (ucast (load_le 4 g (va - of_nat k) :: u64) :: u32) OR
           push_bit (32 - k * 8) (ucast (load_le 4 g (va - of_nat k + 4) :: u64) :: u32))) =
         (load_le 4 g va :: u64)"
proof -
  have "take_bit 32 (ucast (drop_bit d (ucast v :: u32) OR push_bit (32 - d) (ucast w :: u32))) =
      take_bit 32 (drop_bit d v OR push_bit (32 - d) w)"
    if "take_bit 32 v = v" "d \<le> 32" for v w :: u64 and d
    by (rule bit_word_eqI, subst that(1) [symmetric]) (use that(2) in \<open>auto simp: bit_simps\<close>)
  note this [of "load_le 4 g (va - of_nat k)" "k * 8"]
  then show ?thesis
    using load_le_join [of k 4 g va] assms load_le_take [of 4 g "va - of_nat k"] by simp
qed

text \<open>The wide unaligned loads.\<close>

lemma flat_read_wide:
  fixes va :: u64
  assumes s: "flat s" and p: "ram_page (mem_map s) va i" "ram_page (mem_map s) (va + of_nat (size_bytes sz - 1)) j"
    and sz: "sz = S32 \<or> sz = S64" and u: "\<not> aligned sz va"
  shows "\<exists>t. truncate_read sz (target_read_slow ops sz va s) =
       (Some (load_le (size_bytes sz) (guest_mem s) va), t) \<and>
     flat t \<and> guest_mem t = guest_mem s \<and> mem_map t = mem_map s"
proof -
  let ?n = "size_bytes sz"
  define al where "al = va AND (of_nat ?n - 1)"
  have al: "al \<noteq> 0" using u by (simp add: aligned_def al_def)
  note d = align_down [where va = va and sz = sz, folded al_def]
  have "ram_page (mem_map s) (va - al) i" using p(1) d(2) ram_page_cong by blast
  from flat_read_aligned [OF s this d(1), of ops] obtain t where
    t: "target_read_aligned ops sz (va - al) s = (Some (load_le ?n (guest_mem s) (va - al)), t)"
      "flat t" "guest_mem t = guest_mem s" "mem_map t = mem_map s" by blast
  have "ram_page (mem_map t) (va - al + of_nat ?n) j"
    using p(2) d(5) [OF al] ram_page_cong unfolding t(4) by blast
  from flat_read_aligned [OF t(2) this d(4), of ops] obtain w where
    w: "target_read_aligned ops sz (va - al + of_nat ?n) t =
          (Some (load_le ?n (guest_mem s) (va - al + of_nat ?n)), w)"
      "flat w" "guest_mem w = guest_mem s" "mem_map w = mem_map s" by (auto simp: t)
  have k: "of_nat (unat al) = al" by simp
  have "truncate_read sz (target_read_slow ops sz va s) = (Some (load_le ?n (guest_mem s) va), w)"
  proof (cases "sz = S32")
    case True
    then have "va AND 3 = al" by (simp add: al_def)
    with True t(1) w(1) al show ?thesis
      using join_32 [of "unat al" "guest_mem s" va] d(3)
      by (simp add: target_read_slow_def truncate_read_def Let_def)
  next
    case False
    then have "sz = S64" using sz by simp
    then have "va AND 7 = al" "sz = S64" by (simp_all add: al_def)
    with t(1) w(1) al show ?thesis
      using load_le_join [of "unat al" 8 "guest_mem s" va] d(3)
      by (simp add: target_read_slow_def truncate_read_def Let_def)
  qed
  with w show ?thesis by blast
qed

lemma aligned_S8 [simp]: "aligned S8 va"
  by (simp add: aligned_def)

lemma load_le_2: "(load_le 2 g va :: u64) = load_le 1 g va OR push_bit 8 (load_le 1 g (va + 1))"
  by (simp add: numeral_2_eq_2)

lemma flat_read_half:
  assumes s: "flat s" and p: "ram_page (mem_map s) va i" "ram_page (mem_map s) (va + 1) j"
    and u: "\<not> aligned S16 va"
  shows "\<exists>t. truncate_read S16 (target_read_slow ops S16 va s) =
       (Some (load_le 2 (guest_mem s) va), t) \<and>
     flat t \<and> guest_mem t = guest_mem s \<and> mem_map t = mem_map s"
proof -
  have al: "va AND (of_nat (size_bytes S16) - 1) \<noteq> 0" using u by (simp add: aligned_def)
  from flat_read_aligned [OF s p(1), of S8 ops] obtain t where
    t: "target_read_aligned ops S8 va s = (Some (load_le 1 (guest_mem s) va), t)"
      "flat t" "guest_mem t = guest_mem s" "mem_map t = mem_map s" by auto
  have "ram_page (mem_map t) (va + 1) j" using p(2) t(4) by simp
  from flat_read_aligned [OF t(2) this, of S8 ops] obtain w where
    w: "target_read_aligned ops S8 (va + 1) t = (Some (load_le 1 (guest_mem s) (va + 1)), w)"
      "flat w" "guest_mem w = guest_mem s" "mem_map w = mem_map s" by (auto simp: t)
  have "truncate_read S16 (target_read_slow ops S16 va s) = (Some (load_le 2 (guest_mem s) va), w)"
    using t(1) w(1) al load_le_take [of 2 "guest_mem s" va]
    by (simp add: target_read_slow_def truncate_read_def Let_def load_le_2 del: load_le_take)
  with w show ?thesis by blast
qed

lemma flat_read:
  assumes s: "flat s" and p: "\<forall>k < size_bytes sz. \<exists>i. ram_page (mem_map s) (va + of_nat k) i"
  shows "\<exists>t. target_read ops sz va s = (Some (load_le (size_bytes sz) (guest_mem s) va), t) \<and>
     flat t \<and> guest_mem t = guest_mem s \<and> mem_map t = mem_map s"
proof -
  have n: "0 < size_bytes sz" by (simp add: size_bytes_def)
  obtain i where i: "ram_page (mem_map s) va i" using p n by fastforce
  obtain j where j: "ram_page (mem_map s) (va + of_nat (size_bytes sz - 1)) j"
    using p [rule_format, of "size_bytes sz - 1"] n by (meson diff_less zero_less_one)
  show ?thesis
  proof (cases "aligned sz va")
    case True
    then have "target_read ops sz va s = target_read_aligned ops sz va s"
      by (simp add: target_read_def target_read_aligned_def target_read_slow_def aligned_def)
    with flat_read_aligned [OF s i True, of ops] show ?thesis by simp
  next
    case False
    then have "\<not> tlb_hit sz (tlb_read s) va" using s by (auto simp: flat_def tlb_flat_def)
    then have r: "target_read ops sz va s = truncate_read sz (target_read_slow ops sz va s)"
      by (simp add: target_read_def)
    show ?thesis
    proof (cases "sz = S32 \<or> sz = S64")
      case True
      from flat_read_wide [OF s i j True False, of ops] show ?thesis unfolding r .
    next
      case sz: False
      with False have "sz = S16" by (cases sz) simp_all
      with flat_read_half [OF s i, of j ops] j False show ?thesis unfolding r by simp
    qed
  qed
qed

text \<open>Stores: the byte loop.\<close>

lemma low_byte: "(ucast ((v :: u64) AND 0xff) :: u8) = ucast v"
proof -
  have m: "(0xff :: u64) = mask 8" by (simp add: mask_eq_exp_minus_1)
  show ?thesis unfolding m by (auto intro!: bit_word_eqI simp: bit_simps)
qed

lemma flat_write_loop:
  assumes "flat s" and "\<forall>k < n. \<exists>j. ram_page (mem_map s) (va + of_nat (i + k)) j"
  shows "\<exists>st t. write_bytes_loop ops n i va val s = (st, t) \<and> 0 \<le> st \<and> flat t \<and>
     guest_mem t = store_le n (drop_bit (8 * i) val) (va + of_nat i) (guest_mem s) \<and>
     (\<forall>a j. ram_page (mem_map t) a j = ram_page (mem_map s) a j)"
  using assms
proof (induction n arbitrary: i s)
  case 0
  then show ?case by (simp add: write_status_def)
next
  case (Suc n)
  let ?b = "drop_bit (8 * i) val AND 0xff"
  obtain j where "ram_page (mem_map s) (va + of_nat i) j" using Suc.prems(2) by fastforce
  from flat_write_aligned [OF Suc.prems(1) this, of S8 ops ?b] obtain st t where
    t: "target_write_aligned ops S8 (va + of_nat i) ?b s = (st, t)" "0 \<le> st" "flat t"
      "guest_mem t = store_le 1 ?b (va + of_nat i) (guest_mem s)"
      "\<forall>a j. ram_page (mem_map t) a j = ram_page (mem_map s) a j" by auto
  have "\<forall>k < n. \<exists>j. ram_page (mem_map t) (va + of_nat (Suc i + k)) j"
  proof (intro allI impI)
    fix k assume "k < n"
    with Suc.prems(2) [rule_format, of "Suc k"] t(5)
    show "\<exists>j. ram_page (mem_map t) (va + of_nat (Suc i + k)) j" by simp
  qed
  from Suc.IH [OF t(3) this] obtain st' u where
    u: "write_bytes_loop ops n (Suc i) va val t = (st', u)" "0 \<le> st'" "flat u"
      "guest_mem u = store_le n (drop_bit (8 * Suc i) val) (va + of_nat (Suc i)) (guest_mem t)"
      "\<forall>a j. ram_page (mem_map u) a j = ram_page (mem_map t) a j" by blast
  have "write_bytes_loop ops (Suc n) i va val s = (st', u)"
    using t(1,2) u(1) by simp
  moreover have "guest_mem t = (guest_mem s)(va + of_nat i := ucast (drop_bit (8 * i) val))"
    unfolding t(4) by (simp add: low_byte)
  moreover have "guest_mem u = store_le (Suc n) (drop_bit (8 * i) val) (va + of_nat i) (guest_mem s)"
    unfolding u(4) calculation(2) by (simp add: ac_simps)
  ultimately show ?case using u(2,3,5) t(5) by blast
qed

lemma store_le_take:
  assumes "n < 2 ^ 64"
  shows "store_le n (take_bit (8 * n) v :: u64) p h = store_le n v p h"
proof
  fix q
  have "(ucast (drop_bit (8 * d) (take_bit (8 * n) v)) :: u8) = ucast (drop_bit (8 * d) v)" if "d < n" for d
    using that by (auto intro!: bit_word_eqI simp: bit_simps)
  then show "store_le n (take_bit (8 * n) v) p h q = store_le n v p h q"
    by (simp add: store_le_apply [OF assms])
qed

lemma flat_write:
  assumes s: "flat s" and p: "\<forall>k < size_bytes sz. \<exists>i. ram_page (mem_map s) (va + of_nat k) i"
  shows "\<exists>st t. target_write ops sz va val s = (st, t) \<and> 0 \<le> st \<and> flat t \<and>
     guest_mem t = store_le (size_bytes sz) val va (guest_mem s) \<and>
     (\<forall>a j. ram_page (mem_map t) a j = ram_page (mem_map s) a j)"
proof -
  let ?v = "take_bit (8 * size_bytes sz) val"
  have n: "size_bytes sz < 2 ^ 64" by (cases sz) simp_all
  show ?thesis
  proof (cases "aligned sz va")
    case True
    obtain i where i: "ram_page (mem_map s) va i" using p by (fastforce simp: size_bytes_def)
    have "target_write ops sz va val s = target_write_aligned ops sz va ?v s"
      using True by (simp add: target_write_def target_write_aligned_def target_write_slow_def aligned_def)
    with flat_write_aligned [OF s i True, of ops ?v] show ?thesis by (simp add: store_le_take [OF n])
  next
    case False
    then have "\<not> tlb_hit sz (tlb_write s) va" using s by (auto simp: flat_def tlb_flat_def)
    with False have "target_write ops sz va val s = write_bytes_loop ops (size_bytes sz) 0 va ?v s"
      by (simp add: target_write_def target_write_slow_def aligned_def)
    with flat_write_loop [OF s, of "size_bytes sz" va 0 ops ?v] p show ?thesis
      by (simp add: store_le_take [OF n])
  qed
qed

end
