(* ===== verification/Demo.thy ===== *)
theory Demo
  imports Sv39 Flat
begin

text \<open>
  A small concrete machine for the witnesses: a platform with no devices, 64 KiB of tracked RAM at
  guest address 0 (so that the reset vector 0x1000 is in it), its buffer at host address 0x100000.
\<close>

definition null_platform :: "unit platform_ops" where
  "null_platform = \<lparr>platform_read = (\<lambda>p _ _ _. (p, [], None)), platform_write = (\<lambda>p _ _ _ _. (p, [], False)),
     platform_interrupts = (\<lambda>_. 0), platform_service_requested = (\<lambda>_. False)\<rparr>"

definition demo_alloc :: alloc_results where
  "demo_alloc = \<lparr>mem_ptr = 0x100000, tab_ok = (\<lambda>_. True)\<rparr>"

definition demo_bare :: "unit TinyemuCore" where
  "demo_bare = the (tinyemu_core_create True True True (\<lambda>_. 0))"

definition demo_core :: "unit TinyemuCore" where
  "demo_core = snd (the (tinyemu_core_register_ram demo_alloc 0 0x10000 DEVRAM_FLAG_DIRTY_BITS demo_bare))"

lemma demo_bare_create: "tinyemu_core_create True True True (\<lambda>_. 0) = Some demo_bare"
  by (simp add: demo_bare_def tinyemu_core_create_def)

lemma demo_bare_map [simp]: "n_phys_mem_range (mem_map demo_bare) = 0"
  using create_ok(3) [OF demo_bare_create] .

lemma demo_alloc_ok: "alloc_ok (mem_map demo_bare) 0x10000 demo_alloc"
  by (simp add: alloc_ok_def demo_alloc_def)

lemma demo_bare_machine: "machine null_platform demo_bare"
  by (rule machine.create [OF demo_bare_create])

lemma demo_register:
  "tinyemu_core_register_ram demo_alloc 0 0x10000 DEVRAM_FLAG_DIRTY_BITS demo_bare = Some (Some 0, demo_core)"
  by (simp add: demo_core_def tinyemu_core_register_ram_def default_register_ram_def
      register_ram_entry_def demo_alloc_def Let_def)

lemma demo_machine: "machine null_platform demo_core"
  by (rule machine.ram [OF demo_bare_machine _ demo_alloc_ok demo_register]) simp

text \<open>The registered range.\<close>

lemma demo_core_sel [simp]:
  "mem_map demo_core = \<lparr>n_phys_mem_range = 1, phys_mem_range = (phys_mem_range phys_mem_map_init)
     (0 := \<lparr>pr_addr = 0, org_size = 0x10000, pr_size = 0x10000, is_ram = True, devram_flags = 2,
        phys_mem = 0x100000, dirty_bits_size = 4, dirty_bits = Some 0,
        dirty_bits_tab = (\<lambda>_. [0]), dirty_bits_index = 0, opaque = 0, devio_flags = 0\<rparr>)\<rparr>"
  by (simp add: demo_core_def demo_bare_def tinyemu_core_create_def tinyemu_core_register_ram_def
      default_register_ram_def register_ram_entry_def demo_alloc_def Let_def upd_range_def
      phys_mem_map_init_def RISCVCPUState.defs TinyemuCore.defs)

lemma demo_core_ok: "core_ok demo_core"
  using machine_invariant [OF demo_machine] by (simp add: machine_ok_def)

lemma demo_core_cpu [simp]:
  "priv demo_core = PRV_M" "mstatus demo_core = 0" "satp demo_core = 0" "menvcfg demo_core = 0"
  "hmem demo_core = (\<lambda>_. 0)" "host_service_requested demo_core = False"
  "tlb_read demo_core = tlb_clear (\<lambda>_. \<lparr>vaddr = 0, mem_addend = 0\<rparr>)"
  "tlb_write demo_core = tlb_clear (\<lambda>_. \<lparr>vaddr = 0, mem_addend = 0\<rparr>)"
  by (simp_all add: demo_core_def demo_bare_def tinyemu_core_create_def tinyemu_core_register_ram_def
      default_register_ram_def register_ram_entry_def demo_alloc_def Let_def upd_range_def
      phys_mem_map_init_def riscv_cpu_init_def riscv_cpu_set_time_source_def tlb_init_def alloc_zeroed_def
      fun_eq_iff RISCVCPUState.defs TinyemuCore.defs)

text \<open>It is a flat machine.\<close>

lemma clear_no_hit: "\<not> tlb_hit sz (tlb_clear tlb) va"
  using tlb_index_less [of va] tlb_tag_not_minus_1 [of sz va] by (auto simp: tlb_hit_def tlb_clear_def)

lemma demo_flat: "flat demo_core"
proof -
  have "machine_ok demo_core" by (rule machine_invariant [OF demo_machine])
  then show ?thesis
    by (simp add: machine_ok_def core_ok_def flat_def tlb_flat_def clear_no_hit sv39_active_def
        get_effective_priv_def del: demo_core_sel)
qed

lemma demo_page:
  assumes "unat va < 0x10000"
  shows "ram_page (mem_map demo_core) va 0"
  unfolding ram_page_def
proof (intro allI impI)
  fix a assume "page_base a = page_base va"
  then have "unat a div 4096 * 4096 = unat va div 4096 * 4096" using page_base_unat by metis
  moreover have "unat va div 4096 < 16" using assms by (simp add: less_mult_imp_div_less)
  ultimately have "unat a div 4096 < 16" by simp
  then have "unat a < 0x10000" by (simp add: div_less_iff_less_mult)
  then have "a < 0x10000" by (simp add: word_less_nat_alt)
  then show "ram_hit (mem_map demo_core) a 0"
    by (simp add: ram_hit_def get_phys_mem_range_def range_contains_def)
qed

lemma demo_writable: "unat va < 0x10000 \<Longrightarrow> writable_page (mem_map demo_core) va 0"
  using demo_page [of va] by (simp add: writable_page_def)

text \<open>
  The same machine in supervisor mode with a page table at 0x1000 whose first entry maps the first
  gigabyte onto itself (V, R, W, X, A and D set).
\<close>

definition demo_paged :: "unit TinyemuCore" where
  "demo_paged = demo_core\<lparr>priv := PRV_S, satp := 0x8000000000000001,
     hmem := (\<lambda>_. 0)(0x101000 := 0xcf)\<rparr>"

lemma demo_paged_active: "sv39_active demo_paged ACCESS_READ"
  by (simp add: sv39_active_def get_effective_priv_def demo_paged_def)

lemma demo_paged_leaf: "leaf_reached demo_paged 0x2345 0 (root_table demo_paged) 0x1000 0xcf 0"
proof -
  have r: "pte_slot 0 (root_table demo_paged) 0x2345 = 0x1000"
    by (simp add: pte_slot_def root_table_def demo_paged_def)
  have n: "(8 :: nat) = Suc (Suc (Suc (Suc (Suc (Suc (Suc (Suc 0)))))))" by simp
  have l: "load_le 8 ((\<lambda>_. 0)(0x101000 := 0xcf)) 0x101000 = (0xcf :: u64)"
    unfolding n load_le.simps by simp
  have "phys_read_pte demo_paged 0x1000 = Some 0xcf"
    by (simp add: phys_read_pte_def phys_ram_access_ok_def get_phys_mem_range_def range_contains_def
        demo_paged_def Let_def l)
  then show ?thesis
    using leaf_reached.leaf [of 0 demo_paged "root_table demo_paged" "0x2345" "0xcf"] by (simp add: r)
qed

lemma demo_paged_maps: "sv39_maps demo_paged 0x2345 ACCESS_READ 0x2345 demo_paged"
proof -
  have "sv39_permits (get_effective_priv demo_paged ACCESS_READ) (mstatus demo_paged) 0xcf ACCESS_READ"
    by (simp add: sv39_permits_def get_effective_priv_def demo_paged_def)
  moreover have "leaf_encoding_ok (menvcfg demo_paged) 0xcf 0"
  proof -
    have "\<not> bit (0xcf :: u64) n" if "10 \<le> n" for n
      using bit_imp_power_le_unat [of "0xcf :: u64" n] power_increasing [OF that, of "2 :: nat"] by auto
    then show ?thesis by (simp add: leaf_encoding_ok_def demo_paged_def)
  qed
  moreover have "(0x2345 :: u64) = leaf_target 0xcf 0 0x2345"
    by (simp add: leaf_target_def leaf_bits_def)
  moreover have "\<not> ad_missing 0xcf ACCESS_READ" by (simp add: ad_missing_def)
  moreover have "sv39_canonical 0x2345" by (simp add: sv39_canonical_def)
  ultimately show ?thesis unfolding sv39_maps_def leaf_maps_def using demo_paged_leaf by (auto split: if_splits)
qed

end
