(* ===== verification/Legal.thy ===== *)
theory Legal
  imports Host
begin

text \<open>
  The control and status registers over whole runs and host calls: their legality is an invariant
  of every reachable state, and a locked PMP entry survives until the next reset.
\<close>

section \<open>Instructions\<close>

lemma arch_csr_step:
  assumes "arch t = arch s"
  shows "csr_step s t"
proof (rule csr_step_same)
  note h = arg_cong [OF assms]
  show "satp t = satp s" using h [of satp] by (simp add: arch_def)
  show "mie t = mie s" using h [of mie] by (simp add: arch_def)
  show "mideleg t = mideleg s" using h [of mideleg] by (simp add: arch_def)
  show "medeleg t = medeleg s" using h [of medeleg] by (simp add: arch_def)
  show "mtvec t = mtvec s" using h [of mtvec] by (simp add: arch_def)
  show "stvec t = stvec s" using h [of stvec] by (simp add: arch_def)
  show "mcounteren t = mcounteren s" using h [of mcounteren] by (simp add: arch_def)
  show "scounteren t = scounteren s" using h [of scounteren] by (simp add: arch_def)
  show "menvcfg t = menvcfg s" using h [of menvcfg] by (simp add: arch_def)
  show "senvcfg t = senvcfg s" using h [of senvcfg] by (simp add: arch_def)
  show "pmpcfg t = pmpcfg s" using h [of pmpcfg] by (simp add: arch_def)
  show "pmpaddr t = pmpaddr s" using h [of pmpaddr] by (simp add: arch_def)
qed

interpretation cs: run_relation "csr_step :: 'p Interp \<Rightarrow> 'p Interp \<Rightarrow> bool"
proof unfold_locales
  show "\<And>s t u :: 'p Interp. csr_step s t \<Longrightarrow> csr_step t u \<Longrightarrow> csr_step s u" by (rule csr_step_trans)
  show "\<And>s t :: 'p Interp. keeps s t \<Longrightarrow> csr_step s t" by (simp add: keeps_def)
  show "\<And>s :: 'p Interp. \<And>n. csr_step s (s\<lparr>n_cycles := n\<rparr>)"
    "\<And>s :: 'p Interp. \<And>a b c. csr_step s (s\<lparr>code_ptr := a, code_end := b, code_to_pc_addend := c\<rparr>)"
    "\<And>s :: 'p Interp. \<And>a. csr_step s (s\<lparr>code_ptr := a\<rparr>)" by simp_all
qed (rule arch_csr_step, simp)+

section \<open>Runs\<close>

lemma csr_step_enter: "csr_step c (interp_enter n c)"
  by (rule csr_step_same) (cases c; simp add: interp_enter_def TinyemuCore.defs Interp.defs)+

lemma csr_step_leave: "csr_step s (interp_leave s)"
  by (rule csr_step_same) (simp_all add: interp_leave_def TinyemuCore.defs)

lemma csr_step_begin: "csr_step s (interp_begin s)"
  by (rule csr_step_same) (simp_all add: interp_begin_def)

lemma csr_step_interp_x64:
  assumes "riscv_cpu_interp_x64 fuel ops n c = Some t"
  shows "csr_step c t"
proof (cases "n = 0")
  case True
  then show ?thesis using assms by (simp add: riscv_cpu_interp_x64_def)
next
  case False
  let ?e = "interp_enter n c"
  obtain taken s where p: "(if mip ?e AND mie ?e \<noteq> 0 then raise_interrupt ?e else (False, ?e)) = (taken, s)"
    by (cases "if mip ?e AND mie ?e \<noteq> 0 then raise_interrupt ?e else (False, ?e)") blast
  have "csr_step ?e s" using p cs.R_raise_interrupt [of ?e] by (auto split: if_splits)
  then have s: "csr_step c s" by (rule csr_step_trans [OF csr_step_enter])
  have r: "(if taken then Some (interp_leave (s\<lparr>n_cycles := n_cycles s - 1\<rparr>))
      else map_option interp_leave (interp_loop fuel ops (interp_begin s))) = Some t"
    using assms False p unfolding riscv_cpu_interp_x64_def Let_def by (simp only: if_False prod.case)
  show ?thesis
  proof (cases taken)
    case True
    have "csr_step c (interp_leave (s\<lparr>n_cycles := n_cycles s - 1\<rparr>))"
      by (rule csr_step_trans [OF csr_step_trans [OF s] csr_step_leave]) simp
    then show ?thesis using r True by simp
  next
    case False
    then obtain u where u: "interp_loop fuel ops (interp_begin s) = Some u" "t = interp_leave u"
      using r by auto
    from cs.R_loop [OF u(1)] have "csr_step s u" by (rule csr_step_trans [OF csr_step_begin])
    then show ?thesis unfolding u(2) by (rule csr_step_trans [OF csr_step_trans [OF s] csr_step_leave])
  qed
qed

lemma csr_step_driver: "interp_driver calls ops timeout s = Some t \<Longrightarrow> csr_step s t"
proof (induction calls arbitrary: s)
  case (Suc calls)
  then show ?case
    by (auto simp: Let_def split: if_splits option.splits intro: csr_step_trans [OF csr_step_interp_x64])
qed (auto split: if_splits)

lemma csr_step_run:
  assumes "tinyemu_core_run_cpu ops limit p s = Some (res, p', t)"
  shows "csr_step s t"
proof -
  let ?s = "s\<lparr>platform := Some p, host_service_requested := False, timer_reprogrammed := False\<rparr>"
  obtain u where u: "riscv_cpu_interp ops (sint limit) ?s = Some u" and t: "t = u\<lparr>platform := None\<rparr>"
    using assms unfolding tinyemu_core_run_cpu_def Let_def by (auto split: option.splits)
  have "csr_step s ?s" by simp
  moreover have "csr_step ?s u" using u unfolding riscv_cpu_interp_def by (rule csr_step_driver)
  moreover have "csr_step u t" unfolding t by simp
  ultimately show ?thesis using csr_step_trans by blast
qed

section \<open>Host calls\<close>

lemma csr_ok_init: "csr_ok (riscv_cpu_set_time_source riscv_cpu_init)"
  by (simp add: csr_ok_def riscv_cpu_set_time_source_def riscv_cpu_init_def tlb_init_def)

lemma csr_step_fresh:
  "csr_step (riscv_cpu_set_time_source riscv_cpu_init)
     (RISCVCPUState.extend (riscv_cpu_set_time_source riscv_cpu_init) x)"
  by (rule csr_step_same) (simp_all add: RISCVCPUState.defs)

lemma csr_ok_fresh: "csr_ok (RISCVCPUState.extend (riscv_cpu_set_time_source riscv_cpu_init) x)"
  using csr_step_fresh [of x] csr_ok_init unfolding csr_step_def by blast

lemma csr_step_write: "csr_step s (snd (tinyemu_core_write address width val s))"
  by (rule csr_step_same)
    (simp_all add: tinyemu_core_write_def tinyemu_core_ram_range_def Let_def split: option.splits)

lemma csr_step_ticks: "csr_step s (tinyemu_core_set_guest_timer_ticks n s)"
  by (rule csr_step_same)
    (simp_all add: tinyemu_core_set_guest_timer_ticks_def riscv_cpu_update_time_def Let_def)

lemma csr_step_interrupts: "csr_step s (tinyemu_core_set_interrupts m s)"
  by (rule csr_step_same)
    (simp_all add: tinyemu_core_set_interrupts_def riscv_cpu_reset_mip_def riscv_cpu_set_mip_def Let_def)

lemma csr_step_flush_write: "csr_step s (flush_write_tlb a l t) = csr_step s t"
proof -
  have "csr_step t (flush_write_tlb a l t)" "csr_step (flush_write_tlb a l t) t"
    by (rule csr_step_same;
        simp add: flush_write_tlb_def riscv_cpu_flush_tlb_write_range_ram_def Let_def)+
  then show ?thesis using csr_step_trans by blast
qed

lemma csr_step_mem_map: "csr_step s t \<Longrightarrow> csr_step s (t\<lparr>mem_map := m\<rparr>)"
  by (erule csr_step_trans) simp

lemma csr_step_take: "csr_step s (snd (tinyemu_core_take_dirty region count s))"
proof -
  have "csr_step s (snd (default_get_dirty_bits i s))" for i
    unfolding default_get_dirty_bits_def Let_def
    by (auto intro!: csr_step_mem_map simp: csr_step_flush_write split: option.split)
  then show ?thesis
    unfolding tinyemu_core_take_dirty_def Let_def by (simp add: prod.case_eq_if)
qed

lemma csr_step_clear: "csr_step s (snd (tinyemu_core_clear_dirty region offset s))"
  unfolding tinyemu_core_clear_dirty_def phys_mem_reset_dirty_bit_def Let_def
  by (auto intro!: csr_step_mem_map simp: csr_step_flush_write split: option.split)

lemma csr_step_register_ram:
  "tinyemu_core_register_ram al base len flags s = Some (r, t) \<Longrightarrow> csr_step s t"
  unfolding tinyemu_core_register_ram_def default_register_ram_def Let_def
  by (auto split: if_splits option.splits)

lemma csr_step_register_device:
  "tinyemu_core_register_device base len widths s = Some (r, t) \<Longrightarrow> csr_step s t"
  unfolding tinyemu_core_register_device_def Let_def
  by (auto split: if_splits option.splits)

lemma csr_ok_step: "csr_step s t \<Longrightarrow> csr_ok s \<Longrightarrow> csr_ok t"
  by (simp add: csr_step_def)

lemma running_csr_ok: "running ops s t \<Longrightarrow> csr_ok s \<Longrightarrow> csr_ok t"
proof (induction rule: running.induct)
  case (reset s t ok)
  then show ?case
    by (simp add: tinyemu_core_reset_cpu_def csr_ok_fresh)
qed (auto intro: csr_ok_step csr_step_run csr_step_write csr_step_ticks csr_step_interrupts)

lemma machine_csr_ok: "machine ops s \<Longrightarrow> csr_ok s"
proof (induction rule: machine.induct)
  case (create a b c h s)
  then show ?case
    by (auto simp: tinyemu_core_create_def csr_ok_fresh split: if_splits)
qed (auto intro: csr_ok_step csr_step_take csr_step_clear csr_step_register_ram csr_step_register_device
    running_csr_ok)

end
