(* ===== verification/Privilege.thy ===== *)
theory Privilege
  imports Exec_System Csr_Legal
begin

text \<open>
  Traps, interrupts and the access rules of the control and status registers: what a trap saves and
  a trap return restores, which interrupt is taken, and which CSR accesses are illegal.
\<close>

section \<open>Trap entry and return\<close>

lemma set_priv_sel [simp]:
  "priv (set_priv p s) = p" "mstatus (set_priv p s) = mstatus s" "pc (set_priv p s) = pc s"
  "sepc (set_priv p s) = sepc s" "mepc (set_priv p s) = mepc s" "stvec (set_priv p s) = stvec s"
  "mtvec (set_priv p s) = mtvec s" "scause (set_priv p s) = scause s" "mcause (set_priv p s) = mcause s"
  "stval (set_priv p s) = stval s" "mtval (set_priv p s) = mtval s" "reg (set_priv p s) = reg s"
  by (auto simp: set_priv_def tlb_flush_all_def tlb_init_def)

text \<open>What a trap leaves for its handler.\<close>

definition trap_saved :: "bool \<Rightarrow> u32 \<Rightarrow> target_ulong \<Rightarrow> 'a RISCVCPUState_scheme \<Rightarrow> 'a RISCVCPUState_scheme \<Rightarrow> bool" where
  "trap_saved super cause tval s t \<longleftrightarrow>
     (if super
      then priv t = PRV_S \<and> pc t = stvec s \<and> sepc t = pc s \<and> scause t = cause_long cause \<and> stval t = tval \<and>
           bit (mstatus t) 8 = (priv s \<noteq> PRV_U) \<and> \<not> bit (mstatus t) 1
      else priv t = PRV_M \<and> pc t = mtvec s \<and> mepc t = pc s \<and> mcause t = cause_long cause \<and> mtval t = tval \<and>
           drop_bit 11 (mstatus t) AND 3 = ucast (priv s) \<and> \<not> bit (mstatus t) 3) \<and>
     reg t = reg s"

lemma mask_bits:
  "bit (0x20 :: u64) n \<longleftrightarrow> n = 5" "bit (0x100 :: u64) n \<longleftrightarrow> n = 8" "bit (2 :: u64) n \<longleftrightarrow> n = 1"
  "bit (0x80 :: u64) n \<longleftrightarrow> n = 7" "bit (8 :: u64) n \<longleftrightarrow> n = 3" "bit (0x20000 :: u64) n \<longleftrightarrow> n = 17"
proof -
  have p: "bit (2 ^ k :: u64) n \<longleftrightarrow> n = k \<and> k < 64" for k
    by (simp only: bit_exp_iff possible_bit_word) auto
  show "bit (0x20 :: u64) n \<longleftrightarrow> n = 5" using p [of 5] by simp
  show "bit (0x100 :: u64) n \<longleftrightarrow> n = 8" using p [of 8] by simp
  show "bit (2 :: u64) n \<longleftrightarrow> n = 1" using p [of 1] by simp
  show "bit (0x80 :: u64) n \<longleftrightarrow> n = 7" using p [of 7] by simp
  show "bit (8 :: u64) n \<longleftrightarrow> n = 3" using p [of 3] by simp
  show "bit (0x20000 :: u64) n \<longleftrightarrow> n = 17" using p [of 17] by simp
qed

lemma mpp_bits: "bit (0x1800 :: u64) n \<longleftrightarrow> n = 11 \<or> n = 12"
proof -
  have "(0x1800 :: u64) = push_bit 11 (mask 2)" by (simp add: mask_eq_exp_minus_1)
  then show ?thesis by (simp only: bit_push_bit_iff bit_mask_iff possible_bit_word) auto
qed

text \<open>The fields a trap writes: \<open>m\<close> is \<open>mstatus\<close> before it, \<open>p\<close> the privilege.\<close>

definition super_mstatus :: "u64 \<Rightarrow> u8 \<Rightarrow> u64" where
  "super_mstatus m p =
     ((((m AND NOT 0x20) OR push_bit 5 (drop_bit (unat p) m AND 1)) AND NOT 0x100) OR
        push_bit 8 (ucast p)) AND NOT 2"

definition machine_mstatus :: "u64 \<Rightarrow> u8 \<Rightarrow> u64" where
  "machine_mstatus m p =
     ((((m AND NOT 0x80) OR push_bit 7 (drop_bit (unat p) m AND 1)) AND NOT 0x1800) OR
        push_bit 11 (ucast p)) AND NOT 8"

lemma raise_super:
  "delegated s cause \<Longrightarrow> raise_exception2 cause tval s =
     (set_priv PRV_S (s\<lparr>scause := cause_long cause, sepc := pc s, stval := tval,
        mstatus := super_mstatus (mstatus s) (priv s)\<rparr>))\<lparr>pc := stvec s\<rparr>"
  by (simp add: raise_exception2_def super_mstatus_def Let_def)

lemma raise_machine:
  "\<not> delegated s cause \<Longrightarrow> raise_exception2 cause tval s =
     (set_priv PRV_M (s\<lparr>mcause := cause_long cause, mepc := pc s, mtval := tval,
        mstatus := machine_mstatus (mstatus s) (priv s)\<rparr>))\<lparr>pc := mtvec s\<rparr>"
  by (simp add: raise_exception2_def machine_mstatus_def Let_def)

lemma and_1_bits: "bit ((x :: u64) AND 1) n \<longleftrightarrow> n = 0 \<and> bit x 0"
  by (auto simp: bit_and_iff bit_1_iff)

lemma super_mstatus_bits:
  assumes "p = 0 \<or> p = 1"
  shows "bit (super_mstatus m p) n \<longleftrightarrow>
    (if n = 5 then bit m (unat p) else if n = 8 then p = 1 else if n = 1 then False else bit m n)"
proof -
  have b: "bit (ucast p :: u64) (n - 8) \<longleftrightarrow> n - 8 = 0 \<and> p = 1"
    using assms by (auto simp: bit_1_iff)
  have "n < 64" if "bit m n" using that bit_imp_le_length [of m n] by simp
  then show ?thesis
    unfolding super_mstatus_def
    by (simp only: bit_and_iff bit_or_iff bit_not_iff bit_push_bit_iff possible_bit_word comp_apply mask_bits and_1_bits b bit_drop_bit_eq) (auto simp: bit_1_iff)
qed

lemma machine_mstatus_bits:
  assumes "p \<le> 3"
  shows "bit (machine_mstatus m p) n \<longleftrightarrow>
    (if n = 7 then bit m (unat p) else if n = 11 then bit p 0 else if n = 12 then bit p 1
     else if n = 3 then False else bit m n)"
proof -
  have "unat p \<le> 3" using assms by (simp add: word_le_nat_alt)
  then have z: "\<not> bit p k" if "2 \<le> k" for k
    using that bit_imp_power_le_unat [of p k] power_increasing [of 2 k "2 :: nat"] by auto
  have b: "bit (ucast p :: u64) (n - 11) \<longleftrightarrow> bit p (n - 11)"
    by (auto simp: bit_unsigned_iff dest: bit_imp_le_length)
  have l: "n < 64" if "bit m n" using that bit_imp_le_length [of m n] by simp
  show ?thesis
  proof (cases "n = 11 \<or> n = 12")
    case True
    then show ?thesis
      unfolding machine_mstatus_def
      by (simp only: bit_and_iff bit_or_iff bit_not_iff bit_push_bit_iff possible_bit_word comp_apply mask_bits mpp_bits and_1_bits b) auto
  next
    case False
    then have "11 \<le> n \<longrightarrow> 2 \<le> n - 11" by linarith
    then have "\<not> (11 \<le> n \<and> bit p (n - 11))" using z [of "n - 11"] by blast
    with False l show ?thesis
      unfolding machine_mstatus_def
      by (simp only: bit_and_iff bit_or_iff bit_not_iff bit_push_bit_iff possible_bit_word comp_apply mask_bits mpp_bits and_1_bits b bit_drop_bit_eq) (auto simp: bit_1_iff)
  qed
qed

lemma low_priv: "(p :: u8) \<le> 1 \<Longrightarrow> p = 0 \<or> p = 1"
proof -
  assume "p \<le> 1"
  then have "unat p = 0 \<or> unat p = 1" by (simp add: word_le_nat_alt) linarith
  then show ?thesis by (auto simp: unat_eq_0 dest: arg_cong [of _ _ "of_nat :: nat \<Rightarrow> u8"])
qed

lemma mpp_field:
  assumes "p \<le> 3"
  shows "drop_bit 11 (machine_mstatus m p) AND 3 = ucast p"
proof -
  have m: "(3 :: u64) = mask 2" by (simp add: mask_eq_exp_minus_1)
  have "unat p \<le> 3" using assms by (simp add: word_le_nat_alt)
  then have z: "\<not> bit p k" if "2 \<le> k" for k
    using that bit_imp_power_le_unat [of p k] power_increasing [of 2 k "2 :: nat"] by auto
  show ?thesis
  proof (rule bit_word_eqI)
    fix n assume "n < LENGTH(64)"
    show "bit (drop_bit 11 (machine_mstatus m p) AND 3) n = bit (ucast p :: u64) n"
    proof (cases "n < 2")
      case True
      then have "n = 0 \<or> n = 1" by linarith
      then show ?thesis
        unfolding m by (auto simp: bit_and_iff bit_mask_iff bit_drop_bit_eq machine_mstatus_bits [OF assms] bit_unsigned_iff)
    next
      case False
      then show ?thesis unfolding m using z [of n] by (simp add: bit_and_iff bit_mask_iff bit_unsigned_iff)
    qed
  qed
qed

text \<open>Trap entry, to supervisor mode when delegated, else to machine mode.\<close>

lemma raise_saves:
  assumes "priv s \<le> PRV_M"
  shows "trap_saved (delegated s cause) cause tval s (raise_exception2 cause tval s)"
proof (cases "delegated s cause")
  case True
  then have p: "priv s = 0 \<or> priv s = 1" using low_priv [of "priv s"] by (auto simp: delegated_def split: if_splits)
  show ?thesis
    using True p by (auto simp: trap_saved_def raise_super super_mstatus_bits [OF p])
next
  case False
  have "priv s \<le> 3" using assms by simp
  then show ?thesis
    using False by (simp add: trap_saved_def raise_machine mpp_field machine_mstatus_bits)
qed

section \<open>Trap return\<close>

lemma handle_sret_sel:
  "pc (handle_sret t) = sepc t" "priv (handle_sret t) = (if bit (mstatus t) 8 then PRV_S else PRV_U)"
  "reg (handle_sret t) = reg t"
proof -
  have "drop_bit 8 (mstatus t) AND 1 = of_bool (bit (mstatus t) 8)"
    by (rule bit_word_eqI) (auto simp: bit_simps)
  then show "priv (handle_sret t) = (if bit (mstatus t) 8 then PRV_S else PRV_U)"
    by (simp add: handle_sret_def Let_def)
qed (simp_all add: handle_sret_def Let_def)

lemma handle_mret_sel:
  "pc (handle_mret t) = mepc t" "priv (handle_mret t) = ucast (drop_bit 11 (mstatus t) AND 3)"
  "reg (handle_mret t) = reg t"
  by (simp_all add: handle_mret_def Let_def)

text \<open>A handler that returns at once resumes the program where it was, at its privilege.\<close>

lemma trap_return:
  fixes cause :: u32 and tval :: u64
  assumes "priv s \<le> PRV_M"
  defines "t \<equiv> raise_exception2 cause tval s"
  shows "let u = (if delegated s cause then handle_sret t else handle_mret t)
         in pc u = pc s \<and> priv u = priv s \<and> reg u = reg s"
proof (cases "delegated s cause")
  case True
  then have p: "priv s = 0 \<or> priv s = 1" using low_priv [of "priv s"] by (auto simp: delegated_def split: if_splits)
  have "trap_saved True cause tval s t" using raise_saves [OF assms(1), of cause tval] True by (simp add: t_def)
  then show ?thesis using True p by (auto simp: trap_saved_def handle_sret_sel)
next
  case False
  have "trap_saved False cause tval s t" using raise_saves [OF assms(1), of cause tval] False by (simp add: t_def)
  moreover have "ucast (ucast (priv s) :: u64) = priv s"
    by (rule bit_word_eqI) (auto simp: bit_simps)
  ultimately show ?thesis using False by (simp add: trap_saved_def handle_mret_sel)
qed

text \<open>
  The interrupt-enable bit is not restored: the entry saves bit \<open>priv\<close> of \<open>mstatus\<close>, the enable bit of
  the interrupted privilege, and the return writes it to the enable bit of the handler's privilege.
\<close>

lemma mret_loses_mie:
  assumes "priv s = PRV_U" "bit (mstatus s) 3" "\<not> bit (mstatus s) 0" "\<not> delegated s cause"
  shows "\<not> bit (mstatus (handle_mret (raise_exception2 cause tval s))) 3"
proof -
  let ?t = "raise_exception2 cause tval s"
  have "\<not> bit (mstatus ?t) 7"
    using assms machine_mstatus_bits [of "0" "mstatus s" 7] by (simp add: raise_machine)
  then have "drop_bit 7 (mstatus ?t) AND 1 = 0"
    by (intro bit_word_eqI) (simp add: and_1_bits bit_drop_bit_eq)
  then have m: "mstatus (handle_mret ?t) = ((mstatus ?t AND NOT 8) OR 0x80) AND NOT 0x1800 \<or>
      mstatus (handle_mret ?t) = (((mstatus ?t AND NOT 8) OR 0x80) AND NOT 0x1800) AND NOT 0x20000"
    by (simp add: handle_mret_def Let_def)
  then show ?thesis
    by (elim disjE) (simp_all only: bit_and_iff bit_or_iff bit_not_iff mask_bits mpp_bits, auto)
qed

section \<open>Interrupts\<close>

text \<open>Interrupt \<open>i\<close> is pending, enabled and not masked by the privilege the CPU runs at.\<close>

definition takeable :: "'a RISCVCPUState_scheme \<Rightarrow> nat \<Rightarrow> bool" where
  "takeable s i \<longleftrightarrow> bit (mip s) i \<and> bit (mie s) i \<and>
     (if priv s = PRV_M then bit (mstatus s) 3 \<and> \<not> bit (mideleg s) i
      else if priv s = PRV_S then bit (mideleg s) i \<longrightarrow> bit (mstatus s) 1
      else True)"

lemma pending_mask_bit: "bit (get_pending_irq_mask s) i \<longleftrightarrow> takeable s i"
proof -
  have e: "mstatus s AND 8 \<noteq> 0 \<longleftrightarrow> bit (mstatus s) 3" "mstatus s AND 2 \<noteq> 0 \<longleftrightarrow> bit (mstatus s) 1"
    using and_exp_eq_0_iff_not_bit [of "mstatus s" 3] and_exp_eq_0_iff_not_bit [of "mstatus s" 1] by simp_all
  have l: "bit (mip s) i \<Longrightarrow> i < 32" using bit_imp_le_length [of "mip s" i] by simp
  have z: "\<not> (bit (mip s) i \<and> bit (mie s) i)" if "mip s AND mie s = 0"
    using arg_cong [OF that, of "\<lambda>w. bit w i"] by (simp add: bit_and_iff)
  show ?thesis
    unfolding get_pending_irq_mask_def takeable_def Let_def using l z
    by (auto simp: e bit_and_iff bit_or_iff bit_not_iff)
qed

lemma interrupt_choice:
  "if \<exists>i. takeable s i
   then \<exists>k. takeable s k \<and> (\<forall>j < k. \<not> takeable s j) \<and>
          raise_interrupt s = (True, raise_exception2 (of_nat k OR CAUSE_INTERRUPT) 0 s)
   else raise_interrupt s = (False, s)"
proof (cases "get_pending_irq_mask s = 0")
  case True
  have "\<not> bit (get_pending_irq_mask s) i" for i unfolding True by simp
  then have "\<not> takeable s i" for i by (simp add: pending_mask_bit)
  with True show ?thesis by (simp add: raise_interrupt_def)
next
  case False
  note c = ctz32_nonzero [OF False]
  have "takeable s (ctz32 (get_pending_irq_mask s))"
    "\<forall>j < ctz32 (get_pending_irq_mask s). \<not> takeable s j"
    using c(2,3) by (simp_all add: pending_mask_bit)
  with False show ?thesis by (auto simp: raise_interrupt_def raise_exception_def)
qed

section \<open>Access to control and status registers\<close>

text \<open>A register of a higher privilege, or a write to a read-only register.\<close>

definition csr_forbidden :: "u8 \<Rightarrow> u32 \<Rightarrow> bool \<Rightarrow> bool" where
  "csr_forbidden p csr wr \<longleftrightarrow> ucast p < drop_bit 8 csr AND 3 \<or> (wr \<and> csr AND 0xc00 = 0xc00)"

lemma csr_read_forbidden: "csr_forbidden (priv s) csr wr \<Longrightarrow> csr_read s csr wr = None"
  by (auto simp: csr_read_def csr_access_ok_def csr_forbidden_def)

lemma csr_insn_forbidden:
  "csr_forbidden (priv s) (drop_bit 20 insn) True \<Longrightarrow> exec_csrrw insn val s = illegal_insn (csr_sync s)"
  "csr_forbidden (priv s) (drop_bit 20 insn) (f_rs1 insn \<noteq> 0) \<Longrightarrow>
   exec_csrrsc insn val f s = illegal_insn (csr_sync s)"
  using csr_read_forbidden [of "csr_sync s" "drop_bit 20 insn"]
  by (simp_all add: exec_csrrw_def exec_csrrsc_def Let_def csr_sync_def)

end
