(* ===== verification/Csr_Readback.thy ===== *)
theory Csr_Readback
  imports Privilege
begin

text \<open>
  What a control and status register reads back after a write in machine mode: a table of the legal
  values of every register that can be written, independent of the code, and the proof that
  \<open>csr_write\<close> and \<open>csr_read\<close> agree with it.
\<close>

section \<open>Reading back\<close>

text \<open>
  What a write of \<open>val\<close> in machine mode leaves to be read, for every register that can be written. The
  masks and fields are those of the registers: \<open>csr_merge m\<close> replaces the bits of \<open>m\<close> and keeps the others.
\<close>

definition csr_merge :: "u64 \<Rightarrow> u64 \<Rightarrow> u64 \<Rightarrow> u64" where
  "csr_merge m old val = (old AND NOT m) OR (val AND m)"

text \<open>
  \<open>mstatus\<close> and \<open>sstatus\<close>: the writable bits \<open>m\<close> and the FS field are written; UXL and SXL read as 2
  (64 bits), and SD (bit 63) summarises FS and XS. \<open>view\<close> is what the register shows.
\<close>

definition legal_status :: "u64 \<Rightarrow> u64 \<Rightarrow> u64 \<Rightarrow> u64 \<Rightarrow> u64" where
  "legal_status m view old val =
     (let w = (csr_merge m old val OR (val AND 0x6000) OR 0xa00000000) AND view
      in if w AND 0x6000 = 0x6000 \<or> w AND 0x18000 = 0x18000 then set_bit 63 w else w)"

text \<open>\<open>menvcfg\<close> and \<open>senvcfg\<close>: CBIE (bits 5 and 4) may not be 2, which clears the field.\<close>

definition legal_cbie :: "u64 \<Rightarrow> u64 \<Rightarrow> u64" where
  "legal_cbie m val = (let w = val AND m in if bit w 5 \<and> \<not> bit w 4 then w AND NOT 0x30 else w)"

text \<open>\<open>satp\<close>: the mode is bare or Sv39, any other leaves the old one; the ASID (bits 59 to 44) is zero.\<close>

definition legal_satp :: "u64 \<Rightarrow> u64 \<Rightarrow> u64" where
  "legal_satp old val =
     (let mode = drop_bit 60 val in
      take_bit 44 val OR push_bit 60 (if mode = 0 \<or> mode = 8 then mode else drop_bit 60 old))"

text \<open>\<open>pmpcfg\<close>: a locked entry stays; otherwise the reserved bits are dropped, and W without R as well.\<close>

definition legal_pmpcfg :: "u8 \<Rightarrow> u8 \<Rightarrow> u8" where
  "legal_pmpcfg old b =
     (let c = b AND 0x9f in
      if bit old 7 then old else if bit c 1 \<and> \<not> bit c 0 then c AND NOT 2 else c)"

definition legal_pmpcfgs :: "(nat \<Rightarrow> u8) \<Rightarrow> u64 \<Rightarrow> u64" where
  "legal_pmpcfgs old val =
     foldr (\<lambda>i w. w OR push_bit (8 * i) (ucast (legal_pmpcfg (old i) (ucast (drop_bit (8 * i) val))))) [0..<8] 0"

text \<open>\<open>pmpaddr\<close>: frozen by its own lock, or by the lock of a top-of-range entry above it.\<close>

definition legal_pmpaddr :: "(nat \<Rightarrow> u8) \<Rightarrow> (nat \<Rightarrow> u64) \<Rightarrow> nat \<Rightarrow> u64 \<Rightarrow> u64" where
  "legal_pmpaddr cfg old i val =
     (if bit (cfg i) 7 \<or> (i < 15 \<and> bit (cfg (i + 1)) 7 \<and> bit (cfg (i + 1)) 3 \<and> \<not> bit (cfg (i + 1)) 4)
      then old i else take_bit 54 val)"

text \<open>The pending bits a write may set: not the timer's when \<open>stimecmp\<close> (STCE, bit 63) drives it.\<close>

definition timer_free :: "u64 \<Rightarrow> u64 \<Rightarrow> u64" where
  "timer_free menv m = (if bit menv 63 then m AND NOT 0x20 else m)"

definition csr_legalize :: "('p, 'x) TinyemuCore_scheme \<Rightarrow> u32 \<Rightarrow> u64 \<Rightarrow> u64 option" where
  "csr_legalize s csr val =
     (if csr \<in> {0x140, 0x142, 0x143, 0x14d, 0x340, 0x342, 0x343, 0xb00, 0xb02} then Some val
      else if csr = 0x141 \<or> csr = 0x341 then Some (val AND NOT 1)
      else if csr = 0x105 \<or> csr = 0x305 then Some (val AND NOT 3)
      else if csr = 0x106 \<or> csr = 0x306 then Some (val AND 7)
      else if csr = 0x10a then Some (legal_cbie 0xf0 val)
      else if csr = 0x30a then Some (legal_cbie 0xe0000000000000f0 val)
      else if csr = 0x302 then Some (val AND 0xffff)
      else if csr = 0x303 then Some (val AND 0x222)
      else if csr = 0x304 then Some (val AND 0x2aa)
      else if csr = 0x001 then Some (val AND 0x1f)
      else if csr = 0x002 then Some (val AND 7)
      else if csr = 0x003 then Some (val AND 0xff)
      else if csr = 0x100 then Some (legal_status 0xc0133 0x3000de133 (mstatus s) val)
      else if csr = 0x300 then Some (legal_status 0x7e19bb (- 1) (mstatus s) val)
      else if csr = 0x104 then Some (val AND ucast (mideleg s))
      else if csr = 0x144 then
        Some (csr_merge (timer_free (menvcfg s) (ucast (mideleg s))) (ucast (mip s)) val AND ucast (mideleg s))
      else if csr = 0x344 then Some (csr_merge (timer_free (menvcfg s) 0x22) (ucast (mip s)) val)
      else if csr = 0x180 then Some (legal_satp (satp s) val)
      else if csr = 0x301 then Some (ucast (misa s) OR push_bit 62 2)
      else if csr = 0x320 then Some 0
      else if csr = 0x3a0 then Some (legal_pmpcfgs (pmpcfg s) val)
      else if csr = 0x3a2 then Some (legal_pmpcfgs (\<lambda>i. pmpcfg s (8 + i)) val)
      else if 0x3b0 \<le> csr \<and> csr < 0x3c0 then
        Some (legal_pmpaddr (pmpcfg s) (pmpaddr s) (unat (csr - 0x3b0)) val)
      else None)"

text \<open>A write that is accepted and leaves \<open>v\<close> to be read.\<close>

definition csr_keeps :: "('p, 'x) TinyemuCore_scheme \<Rightarrow> u32 \<Rightarrow> u64 \<Rightarrow> u64 \<Rightarrow> bool" where
  "csr_keeps s csr val v \<longleftrightarrow> fst (csr_write csr val s) \<noteq> CSR_WRITE_ERROR \<and>
     csr_read (snd (csr_write csr val s)) csr False = Some v"

lemma update_time_sel [simp]:
  "priv (update_stimecmp_irq s) = priv s" "stimecmp (update_stimecmp_irq s) = stimecmp s"
  "menvcfg (update_stimecmp_irq s) = menvcfg s"
  by (simp_all add: update_stimecmp_irq_def riscv_cpu_update_time_def Let_def)

lemma flush_all_sel [simp]:
  "priv (tlb_flush_all s) = priv s" "menvcfg (tlb_flush_all s) = menvcfg s"
  by (simp_all add: tlb_flush_all_def tlb_init_def)

lemma ucast_low: "(ucast (ucast ((v :: u64) AND m) :: u32) :: u64) = v AND m" if "m AND NOT 0xffffffff = 0"
proof (rule bit_word_eqI)
  fix n assume n: "n < LENGTH(64)"
  have f: "(0xffffffff :: u64) = mask 32" by (simp add: mask_eq_exp_minus_1)
  have "bit (m AND NOT (mask 32)) n = False" using that unfolding f by (simp only: bit_0_eq bot_fun_def bot_bool_def)
  with n show "bit (ucast (ucast (v AND m) :: u32) :: u64) n = bit (v AND m) n" by (auto simp: bit_simps)
qed

lemmas csr_defs = csr_write_def csr_write_super_def csr_write_machine_def csr_read_def csr_access_ok_def
  csr_read_user_def csr_read_super_def csr_read_machine_def Let_def

lemmas csr_keeps_defs = csr_keeps_def csr_defs

lemma bit_of_mask: "(w :: 'a::len word) AND 2 ^ n = 0 \<longleftrightarrow> \<not> bit w n"
  by (rule and_exp_eq_0_iff_not_bit)

lemma keeps_plain:
  assumes "priv s = PRV_M"
  shows "csr \<in> {0x140, 0x142, 0x143, 0x14d, 0x340, 0x342, 0x343, 0xb00, 0xb02} \<Longrightarrow> csr_keeps s csr val val"
    and "csr = 0x141 \<or> csr = 0x341 \<Longrightarrow> csr_keeps s csr val (val AND NOT 1)"
    and "csr = 0x105 \<or> csr = 0x305 \<Longrightarrow> csr_keeps s csr val (val AND NOT 3)"
    and "csr = 0x106 \<or> csr = 0x306 \<Longrightarrow> csr_keeps s csr val (val AND 7)"
    and "csr_keeps s 0x301 val (ucast (misa s) OR push_bit 62 2)" "csr_keeps s 0x320 val 0"
proof -
  show "csr \<in> {0x140, 0x142, 0x143, 0x14d, 0x340, 0x342, 0x343, 0xb00, 0xb02} \<Longrightarrow> csr_keeps s csr val val"
    using assms by (elim insertE emptyE; simp add: csr_keeps_defs)
  show "csr = 0x141 \<or> csr = 0x341 \<Longrightarrow> csr_keeps s csr val (val AND NOT 1)"
    "csr = 0x105 \<or> csr = 0x305 \<Longrightarrow> csr_keeps s csr val (val AND NOT 3)"
    "csr = 0x106 \<or> csr = 0x306 \<Longrightarrow> csr_keeps s csr val (val AND 7)"
    using assms ucast_low [of 7 val] by (elim disjE; simp add: csr_keeps_defs)+
  show "csr_keeps s 0x301 val (ucast (misa s) OR push_bit 62 2)" "csr_keeps s 0x320 val 0"
    using assms by (simp_all add: csr_keeps_defs)
qed

text \<open>The environment configuration registers.\<close>

lemma legal_envcfg_cbie: "legal_envcfg m val = legal_cbie m val"
proof -
  have b: "w AND 0x30 = 0x20 \<longleftrightarrow> bit w 5 \<and> \<not> bit w 4" for w :: u64
  proof
    assume "w AND 0x30 = 0x20"
    then have "bit (w AND 0x30) n = bit (0x20 :: u64) n" for n by simp
    from this [of 5] this [of 4] show "bit w 5 \<and> \<not> bit w 4" by (simp add: bit_simps)
  next
    assume w: "bit w 5 \<and> \<not> bit w 4"
    have e: "(0x30 :: u64) = 2 ^ 4 OR 2 ^ 5" "(0x20 :: u64) = 2 ^ 5" by simp_all
    show "w AND 0x30 = 0x20"
      unfolding e by (rule bit_word_eqI, simp only: bit_and_iff bit_or_iff bit_exp_iff possible_bit_word) (use w in auto)
  qed
  then show ?thesis by (simp add: legal_envcfg_def legal_cbie_def Let_def)
qed

lemma keeps_envcfg:
  assumes "priv s = PRV_M"
  shows "csr_keeps s 0x10a val (legal_cbie 0xf0 val)"
    and "csr_keeps s 0x30a val (legal_cbie 0xe0000000000000f0 val)"
proof -
  show "csr_keeps s 0x10a val (legal_cbie 0xf0 val)"
    using assms by (simp add: csr_keeps_defs legal_envcfg_cbie)
  have "priv (snd (csr_write_menvcfg val s)) = PRV_M" "fst (csr_write_menvcfg val s) \<noteq> CSR_WRITE_ERROR"
    "menvcfg (snd (csr_write_menvcfg val s)) = legal_cbie 0xe0000000000000f0 val"
    using assms by (simp_all add: csr_write_menvcfg_def legal_envcfg_cbie Let_def)
  then show "csr_keeps s 0x30a val (legal_cbie 0xe0000000000000f0 val)" by (simp add: csr_keeps_defs)
qed

text \<open>Delegation, interrupt enables and pending interrupts.\<close>

lemma merge_32:
  fixes a :: u32 and val :: u64
  assumes "a AND NOT m = 0"
  shows "ucast ((a AND NOT m) OR (ucast val AND m)) = val AND ucast m"
  unfolding assms by (rule bit_word_eqI) (auto simp: bit_simps dest: bit_imp_le_length)

lemma keeps_deleg:
  assumes "priv s = PRV_M" "csr_ok s"
  shows "csr_keeps s 0x302 val (val AND 0xffff)" "csr_keeps s 0x303 val (val AND 0x222)"
    "csr_keeps s 0x304 val (val AND 0x2aa)"
proof -
  have "medeleg s AND NOT 0xffff = 0" "mideleg s AND NOT 0x222 = 0" "mie s AND NOT 0x2aa = 0"
    using assms(2) by (simp_all add: csr_ok_def)
  note m = merge_32 [OF this(1), of val] merge_32 [OF this(2), of val] merge_32 [OF this(3), of val]
  show "csr_keeps s 0x302 val (val AND 0xffff)" "csr_keeps s 0x303 val (val AND 0x222)"
    "csr_keeps s 0x304 val (val AND 0x2aa)"
    using assms(1) m by (simp_all add: csr_keeps_defs)
qed

lemma merge_ucast:
  fixes a m d :: u32 and val :: u64
  shows "ucast ((a AND NOT m) OR (ucast val AND m)) = csr_merge (ucast m) (ucast a) val"
    and "ucast (((a AND NOT m) OR (ucast val AND m)) AND d) = csr_merge (ucast m) (ucast a) val AND ucast d"
    and "ucast (((a AND NOT d) OR (ucast val AND d)) AND d) = val AND ucast d"
  by (rule bit_word_eqI; auto simp: csr_merge_def bit_simps dest: bit_imp_le_length)+

lemma timer_free_code:
  fixes menv :: u64 and m :: u32
  shows "menv AND MENVCFG_STCE \<noteq> 0 \<longleftrightarrow> bit menv 63"
    and "(ucast (m AND NOT MIP_STIP) :: u64) = ucast m AND NOT 0x20"
proof -
  have e: "MENVCFG_STCE = 2 ^ 63" by simp
  show "menv AND MENVCFG_STCE \<noteq> 0 \<longleftrightarrow> bit menv 63" unfolding e bit_of_mask not_not by (rule refl)
  have p: "MIP_STIP = 2 ^ 5" "(0x20 :: u64) = 2 ^ 5" by simp_all
  show "(ucast (m AND NOT MIP_STIP) :: u64) = ucast m AND NOT 0x20"
    unfolding p
    by (rule bit_word_eqI, simp only: bit_and_iff bit_not_iff bit_exp_iff bit_ucast_iff possible_bit_word)
      (auto dest: bit_imp_le_length)
qed

lemma keeps_pending:
  assumes "priv s = PRV_M"
  shows "csr_keeps s 0x104 val (val AND ucast (mideleg s))"
    and "csr_keeps s 0x144 val
      (csr_merge (timer_free (menvcfg s) (ucast (mideleg s))) (ucast (mip s)) val AND ucast (mideleg s))"
    and "csr_keeps s 0x344 val (csr_merge (timer_free (menvcfg s) 0x22) (ucast (mip s)) val)"
proof -
  note m = timer_free_code(1) [of "menvcfg s", unfolded MENVCFG_STCE_def]
    timer_free_code(2) [of "mideleg s", unfolded MIP_STIP_def, simplified]
  show "csr_keeps s 0x104 val (val AND ucast (mideleg s))"
    using assms merge_ucast(3) [of "mie s" "mideleg s" val] by (simp add: csr_keeps_defs)
  show "csr_keeps s 0x144 val
      (csr_merge (timer_free (menvcfg s) (ucast (mideleg s))) (ucast (mip s)) val AND ucast (mideleg s))"
    using assms by (simp add: csr_keeps_defs merge_ucast(2) timer_free_def m)
  show "csr_keeps s 0x344 val (csr_merge (timer_free (menvcfg s) 0x22) (ucast (mip s)) val)"
    using assms by (simp add: csr_keeps_defs merge_ucast(1) timer_free_def m(1))
qed

text \<open>Floating-point status.\<close>

lemma fcsr_join:
  fixes val :: u64
  shows "(ucast (ucast (val AND 0x1f) :: u32) :: u64) = val AND 0x1f"
    and "(ucast (ucast ((ucast (val AND 7) :: u32) AND 7) :: u8) :: u64) = val AND 7"
    and "(ucast ((ucast (val AND 0x1f) :: u32) OR
            push_bit 5 (ucast (ucast ((ucast (drop_bit 5 val AND 7) :: u32) AND 7) :: u8))) :: u64) = val AND 0xff"
proof -
  have m: "(0x1f :: 'a::len word) = mask 5" "(7 :: 'a::len word) = mask 3" "(0xff :: 'a::len word) = mask 8"
    by (simp_all add: mask_eq_exp_minus_1)
  show "(ucast (ucast (val AND 0x1f) :: u32) :: u64) = val AND 0x1f"
    unfolding m by (rule bit_word_eqI) (auto simp: bit_simps)
  show "(ucast (ucast ((ucast (val AND 7) :: u32) AND 7) :: u8) :: u64) = val AND 7"
    unfolding m by (rule bit_word_eqI) (auto simp: bit_simps)
  show "(ucast ((ucast (val AND 0x1f) :: u32) OR
      push_bit 5 (ucast (ucast ((ucast (drop_bit 5 val AND 7) :: u32) AND 7) :: u8))) :: u64) = val AND 0xff"
    unfolding m by (rule bit_word_eqI) (auto simp: bit_simps)
qed

lemma keeps_fp:
  assumes "priv s = PRV_M"
  shows "csr_keeps s 0x001 val (val AND 0x1f)" "csr_keeps s 0x002 val (val AND 7)"
    "csr_keeps s 0x003 val (val AND 0xff)"
  using assms fcsr_join [of val] by (simp_all add: csr_keeps_defs set_frm_def)

text \<open>The status registers.\<close>

lemma set_status:
  "priv (set_mstatus w s) = priv s" "fs (set_mstatus w s) = ucast (drop_bit 13 w AND 3)"
  "mstatus (set_mstatus w s) = csr_merge 0x7e19bb (mstatus s) w"
  by (simp_all add: set_mstatus_def csr_merge_def tlb_flush_all_def tlb_init_def Let_def)

lemma field_fs: "push_bit 13 (ucast (ucast (drop_bit 13 w AND 3) :: u8)) = (w :: u64) AND 0x6000"
proof -
  have m: "(3 :: u64) = mask 2" "(0x6000 :: u64) = push_bit 13 (mask 2)" by (simp_all add: mask_eq_exp_minus_1)
  show ?thesis unfolding m by (rule bit_word_eqI) (auto simp: bit_simps)
qed

lemma sd_bit: "w OR 0x8000000000000000 = set_bit 63 (w :: u64)"
proof -
  have "(0x8000000000000000 :: u64) = push_bit 63 1" by simp
  then show ?thesis by (simp only: set_bit_eq_or)
qed

lemma merge_view:
  "csr_merge m a (csr_merge v a w) = csr_merge (m AND v) a w"
  "v AND f = f \<Longrightarrow> csr_merge v a w AND f = w AND f"
proof -
  show "csr_merge m a (csr_merge v a w) = csr_merge (m AND v) a w"
    unfolding csr_merge_def by (rule bit_word_eqI) (auto simp: bit_simps)
  assume "v AND f = f"
  then have "bit f n \<longrightarrow> bit v n" for n by (metis bit_and_iff)
  then show "csr_merge v a w AND f = w AND f"
    unfolding csr_merge_def by (intro bit_word_eqI) (auto simp: bit_simps)
qed

lemma keeps_status:
  assumes "priv s = PRV_M"
  shows "csr_keeps s 0x100 val (legal_status 0xc0133 0x3000de133 (mstatus s) val)"
    and "csr_keeps s 0x300 val (legal_status 0x7e19bb (- 1) (mstatus s) val)"
proof -
  have g: "get_mstatus (set_mstatus w s) view =
      legal_status 0x7e19bb view (mstatus s) w" for w view
    by (simp add: get_mstatus_def legal_status_def set_status field_fs sd_bit or.assoc Let_def)
  show "csr_keeps s 0x300 val (legal_status 0x7e19bb (- 1) (mstatus s) val)"
    using assms by (simp add: csr_keeps_defs g set_status)
  have "legal_status 0x7e19bb 0x3000de133 (mstatus s) (csr_merge 0x3000de133 (mstatus s) val) =
      legal_status 0xc0133 0x3000de133 (mstatus s) val"
    using merge_view(1) [of "0x7e19bb" "mstatus s" "0x3000de133" val] merge_view(2) [of "0x3000de133" "0x6000" "mstatus s" val]
    by (simp add: legal_status_def)
  moreover have "csr_merge 0x3000de133 (mstatus s) val = (mstatus s AND - 0x3000de134) OR (val AND 0x3000de133)"
    by (simp add: csr_merge_def)
  ultimately show "csr_keeps s 0x100 val (legal_status 0xc0133 0x3000de133 (mstatus s) val)"
    using assms by (simp add: csr_keeps_defs g set_status)
qed

text \<open>\<open>satp\<close>.\<close>

lemma keeps_satp:
  assumes "priv s = PRV_M"
  shows "csr_keeps s 0x180 val (legal_satp (satp s) val)"
proof -
  have m: "(0xf :: u64) = mask 4" "(0xfffffffffff :: u64) = mask 44" by (simp_all add: mask_eq_exp_minus_1)
  have d: "drop_bit 60 val AND 0xf = drop_bit 60 val"
    unfolding m by (rule bit_word_eqI) (auto simp: bit_simps dest: bit_imp_le_length)
  have l: "val AND 0xfffffffffff = take_bit 44 val" unfolding m by (simp add: take_bit_eq_mask)
  show ?thesis
    using assms d l by (simp add: csr_keeps_defs csr_write_satp_def legal_satp_def tlb_flush_all_def tlb_init_def)
qed
text \<open>The PMP registers.\<close>

lemma u8_eq_iff: "(c :: u8) = d \<longleftrightarrow> (\<forall>n < 8. bit c n = bit d n)"
  by (auto intro: bit_word_eqI)

lemma pmp_bits:
  fixes c :: u8
  shows "c AND 0x80 = 0 \<longleftrightarrow> \<not> bit c 7" "c AND 3 = 2 \<longleftrightarrow> bit c 1 \<and> \<not> bit c 0"
    "c AND 0x98 = 0x88 \<longleftrightarrow> bit c 7 \<and> bit c 3 \<and> \<not> bit c 4"
  unfolding u8_eq_iff
  by (auto simp: numeral_eq_Suc All_less_Suc bit_simps)

lemma new_pmpcfg_eq: "new_pmpcfg old val i = legal_pmpcfg old (ucast (drop_bit (8 * i) val))"
  using pmp_bits(1) [of old] pmp_bits(2) [of "ucast (drop_bit (i * 8) val) AND 0x9f"]
  by (simp add: new_pmpcfg_def legal_pmpcfg_def Let_def mult.commute)

lemma pmpcfg_fold:
  "distinct xs \<Longrightarrow> pmpcfg (snd (fold (\<lambda>i (changed, s).
       let cfg = new_pmpcfg (pmpcfg s (k + i)) v i in
       if pmpcfg s (k + i) = cfg then (changed, s)
       else (True, s\<lparr>pmpcfg := (pmpcfg s)(k + i := cfg)\<rparr>)) xs (b, s))) (k + j) =
     (if j \<in> set xs then new_pmpcfg (pmpcfg s (k + j)) v j else pmpcfg s (k + j))"
proof (induction xs arbitrary: b s)
  case (Cons i xs)
  then show ?case by (cases "j = i") (simp_all add: Let_def)
qed simp

lemma set_pmpcfg_entry:
  "j < 8 \<Longrightarrow> pmpcfg (snd (set_pmpcfg k v s)) (k + j) = legal_pmpcfg (pmpcfg s (k + j)) (ucast (drop_bit (8 * j) v))"
  using pmpcfg_fold [of "[0..<8]" k v False s j] by (simp add: set_pmpcfg_def new_pmpcfg_eq)

lemma set_pmpcfg_priv: "priv (snd (set_pmpcfg k v s)) = priv s"
proof -
  have "priv (snd (fold (\<lambda>i (changed, s).
       let cfg = new_pmpcfg (pmpcfg s (k + i)) v i in
       if pmpcfg s (k + i) = cfg then (changed, s)
       else (True, s\<lparr>pmpcfg := (pmpcfg s)(k + i := cfg)\<rparr>)) xs (b, s))) = priv s" for xs b
    by (induction xs arbitrary: b s) (simp_all add: Let_def)
  then show ?thesis unfolding set_pmpcfg_def .
qed

lemma flush_if_sel:
  "pmpcfg (snd (flush_if r)) = pmpcfg (snd r)" "pmpaddr (snd (flush_if r)) = pmpaddr (snd r)"
  "priv (snd (flush_if r)) = priv (snd r)" "fst (flush_if r) \<noteq> CSR_WRITE_ERROR"
  by (auto simp: flush_if_def tlb_flush_all_def tlb_init_def split: prod.split)

lemma or_order:
  fixes g :: "nat \<Rightarrow> u64"
  shows "fold (\<lambda>i v. v OR g i) [0..<8] 0 = foldr (\<lambda>i w. w OR g i) [0..<8] 0"
  by (simp add: upt_rec or.assoc or.commute or.left_commute)

lemma get_pmpcfg_eq:
  assumes "\<And>i. i < 8 \<Longrightarrow> pmpcfg s (k + i) = legal_pmpcfg (old i) (ucast (drop_bit (8 * i) val))"
  shows "get_pmpcfg s k = legal_pmpcfgs old val"
proof -
  have "get_pmpcfg s k =
      fold (\<lambda>i v. v OR push_bit (8 * i) (ucast (legal_pmpcfg (old i) (ucast (drop_bit (8 * i) val))))) [0..<8] 0"
    unfolding get_pmpcfg_def using assms by (intro fold_cong) (auto simp: mult.commute)
  then show ?thesis unfolding or_order legal_pmpcfgs_def .
qed

lemma keeps_pmpcfg:
  assumes "priv s = PRV_M"
  shows "csr_keeps s 0x3a0 val (legal_pmpcfgs (pmpcfg s) val)"
    and "csr_keeps s 0x3a2 val (legal_pmpcfgs (\<lambda>i. pmpcfg s (8 + i)) val)"
proof -
  have g: "get_pmpcfg (snd (flush_if (set_pmpcfg k val s))) k = legal_pmpcfgs (\<lambda>i. pmpcfg s (k + i)) val" for k
    by (rule get_pmpcfg_eq) (simp add: flush_if_sel set_pmpcfg_entry)
  show "csr_keeps s 0x3a0 val (legal_pmpcfgs (pmpcfg s) val)"
    "csr_keeps s 0x3a2 val (legal_pmpcfgs (\<lambda>i. pmpcfg s (8 + i)) val)"
    using assms g [of 0] g [of 8] by (simp_all add: csr_keeps_defs flush_if_sel set_pmpcfg_priv)
qed
lemma locked_bits: "c AND 0x80 \<noteq> 0 \<longleftrightarrow> bit (c :: u8) 7"
  using pmp_bits(1) [of c] by blast

lemma set_pmpaddr_entry:
  "pmpaddr (snd (set_pmpaddr i val s)) i = legal_pmpaddr (pmpcfg s) (pmpaddr s) i val"
  "priv (snd (set_pmpaddr i val s)) = priv s"
proof -
  have "(0x3fffffffffffff :: u64) = mask 54" by (simp add: mask_eq_exp_minus_1)
  then have "val AND 0x3fffffffffffff = take_bit 54 val" by (simp add: take_bit_eq_mask)
  then show "pmpaddr (snd (set_pmpaddr i val s)) i = legal_pmpaddr (pmpcfg s) (pmpaddr s) i val"
    using locked_bits [of "pmpcfg s i"] pmp_bits(3) [of "pmpcfg s (i + 1)"]
    by (simp add: set_pmpaddr_def legal_pmpaddr_def Let_def less_diff_conv)
  show "priv (snd (set_pmpaddr i val s)) = priv s" by (simp add: set_pmpaddr_def Let_def)
qed

lemma pmp_csr_priv:
  assumes "0x3b0 \<le> csr \<and> csr < (0x3c0 :: u32)"
  shows "drop_bit 8 csr AND 3 = 3"
proof -
  have "unat csr div 256 = 3" using assms by (intro div_nat_eqI) (simp_all add: word_le_nat_alt word_less_nat_alt)
  then have "unat (drop_bit 8 csr) = 3" by (simp add: drop_bit_eq_div unat_div_distrib)
  then have "of_nat (unat (drop_bit 8 csr)) = (of_nat 3 :: u32)" by (rule arg_cong)
  then have "drop_bit 8 csr = 3" by simp
  then show ?thesis by simp
qed

lemma keeps_pmpaddr:
  assumes "priv s = PRV_M" "0x3b0 \<le> csr \<and> csr < 0x3c0"
  shows "csr_keeps s csr val (legal_pmpaddr (pmpcfg s) (pmpaddr s) (unat (csr - 0x3b0)) val)"
proof -
  have n: "(csr = c) = False" if "c < 0x3b0 \<or> 0x3c0 \<le> c" for c using assms(2) that by auto
  let ?t = "snd (csr_write csr val s)"
  have w: "csr_write csr val s = flush_if (set_pmpaddr (unat (csr - 0x3b0)) val s)"
    using assms unfolding csr_write_def csr_write_super_def csr_write_machine_def by (simp add: n)
  have t: "pmpaddr ?t (unat (csr - 0x3b0)) = legal_pmpaddr (pmpcfg s) (pmpaddr s) (unat (csr - 0x3b0)) val"
    "priv ?t = PRV_M"
    using assms(1) by (simp_all add: w flush_if_sel set_pmpaddr_entry)
  have a: "csr_access_ok ?t csr False" using assms(2) t(2) pmp_csr_priv [OF assms(2)] by (simp add: csr_access_ok_def n)
  have "csr_read ?t csr False = Some (pmpaddr ?t (unat (csr - 0x3b0)))"
    using assms(2) a unfolding csr_read_def csr_read_user_def csr_read_super_def csr_read_machine_def
    by (simp add: n)
  with t show ?thesis by (simp add: csr_keeps_def w flush_if_sel)
qed

text \<open>Every register: a write is refused without an effect, or leaves what the table says.\<close>

lemma legalized_if:
  assumes "(if c then Some x else r) = Some v"
    and "c \<Longrightarrow> csr_keeps s csr val x" "\<not> c \<Longrightarrow> r = Some v \<Longrightarrow> csr_keeps s csr val v"
  shows "csr_keeps s csr val v"
  using assms by (simp split: if_splits)

lemma csr_write_keeps:
  assumes "priv s = PRV_M" "csr_ok s" "csr_legalize s csr val = Some v"
  shows "csr_keeps s csr val v"
proof -
  note k = keeps_plain [OF assms(1)] keeps_envcfg [OF assms(1)] keeps_deleg [OF assms(1,2)]
    keeps_fp [OF assms(1)] keeps_status [OF assms(1)] keeps_pending [OF assms(1)] keeps_satp [OF assms(1)]
    keeps_pmpcfg [OF assms(1)] keeps_pmpaddr [OF assms(1)]
  from assms(3) show ?thesis
    unfolding csr_legalize_def by (elim legalized_if) (blast intro: k | simp only: option.distinct)+
qed

lemma csr_unknown:
  "csr_legalize s csr val = None \<Longrightarrow>
   csr \<notin> {0x140, 0x142, 0x143, 0x14d, 0x340, 0x342, 0x343, 0xb00, 0xb02} \<and>
   csr \<notin> {0x141, 0x341, 0x105, 0x305, 0x106, 0x306, 0x10a, 0x30a, 0x302, 0x303, 0x304, 0x001, 0x002, 0x003} \<and>
   csr \<notin> {0x100, 0x300, 0x104, 0x144, 0x344, 0x180, 0x301, 0x320, 0x3a0, 0x3a2} \<and>
   \<not> (0x3b0 \<le> csr \<and> csr < 0x3c0)"
  unfolding csr_legalize_def insert_iff empty_iff by (simp only: option.distinct split: if_splits) simp

lemma csr_write_refused:
  assumes "csr_legalize s csr val = None"
  shows "csr_write csr val s = (CSR_WRITE_ERROR, s)"
  using csr_unknown [OF assms]
  unfolding insert_iff empty_iff csr_write_def csr_write_super_def csr_write_machine_def by simp blast

end
