(* ===== verification/Isa.thy ===== *)
theory Isa
  imports Interp
begin

text \<open>
  The instruction set the core implements, as a specification: the integer instructions of RV64I
  with M, Zba, Zbb, Zbs and Zicond and the floating-point loads and stores as a datatype, the value
  each computes written over the integers or the library's word operations, its effect on the
  machine, and its 32-bit encoding. Nothing here is translated from the C code. Offsets of branches
  and jumps are counted in half words, as the encodings store them.
\<close>

section \<open>Instructions\<close>

type_synonym regno = "5 word"

datatype rv_branch = BEQ | BNE | BLT | BGE | BLTU | BGEU
datatype rv_load = LB | LH | LW | LD | LBU | LHU | LWU
datatype rv_store = SB | SH | SW | SD
datatype rv_opi = ADDI | SLTI | SLTIU | XORI | ORI | ANDI
datatype rv_shift = SLLI | SRLI | SRAI | RORI | BSETI | BCLRI | BINVI | BEXTI
datatype rv_unary = CLZ | CTZ | CPOP | SEXT_B | SEXT_H | ORC_B | REV8
datatype rv_shiftw = SLLIW | SRLIW | SRAIW | RORIW
datatype rv_unaryw = CLZW | CTZW | CPOPW
datatype (plugins only: size) rv_op =
    ADD | SUB | SLL | SLT | SLTU | XORR | SRL | SRA | ORR | ANDR
  | MUL | MULH | MULHSU | MULHU | DIV | DIVU | REM | REMU
  | XNOR | ORN | ANDN | MINS | MINU | MAXS | MAXU | BSET | BCLR | BINV | BEXT
  | SH1ADD | SH2ADD | SH3ADD | ROL | ROR | CZERO_EQZ | CZERO_NEZ
datatype (plugins only: size) rv_opw =
    ADDW | SUBW | SLLW | SRLW | SRAW | MULW | DIVW | DIVUW | REMW | REMUW
  | ADD_UW | SH1ADD_UW | SH2ADD_UW | SH3ADD_UW | ROLW | RORW

datatype (plugins only: size) rv_insn =
    Lui regno "20 word" | Auipc regno "20 word"
  | Jal regno "20 word" | Jalr regno regno "12 word"
  | Branch rv_branch regno regno "12 word"
  | Load rv_load regno regno "12 word" | Store rv_store regno regno "12 word"
  | OpImm rv_opi regno regno "12 word" | Shift rv_shift regno regno "6 word"
  | Unary rv_unary regno regno
  | Addiw regno regno "12 word" | Shiftw rv_shiftw regno regno "5 word"
  | Slli_uw regno regno "6 word" | Unaryw rv_unaryw regno regno | Zext_h regno regno
  | Op rv_op regno regno regno | Opw rv_opw regno regno regno
  | Flw regno regno "12 word" | Fld regno regno "12 word"
  | Fsw regno regno "12 word" | Fsd regno regno "12 word"

section \<open>Values\<close>

text \<open>A word from its bits.\<close>

definition word_of_bits :: "(nat \<Rightarrow> bool) \<Rightarrow> 'a::len word" where
  "word_of_bits f = horner_sum of_bool 2 (map f [0..<LENGTH('a)])"

primrec branch_sem :: "rv_branch \<Rightarrow> u64 \<Rightarrow> u64 \<Rightarrow> bool" where
  "branch_sem BEQ a b = (a = b)"
| "branch_sem BNE a b = (a \<noteq> b)"
| "branch_sem BLT a b = (sint a < sint b)"
| "branch_sem BGE a b = (sint a \<ge> sint b)"
| "branch_sem BLTU a b = (uint a < uint b)"
| "branch_sem BGEU a b = (uint a \<ge> uint b)"

primrec load_size :: "rv_load \<Rightarrow> access_size" where
  "load_size LB = S8" | "load_size LH = S16" | "load_size LW = S32" | "load_size LD = S64"
| "load_size LBU = S8" | "load_size LHU = S16" | "load_size LWU = S32"

primrec load_sem :: "rv_load \<Rightarrow> u64 \<Rightarrow> u64" where
  "load_sem LB v = word_of_int (sint (ucast v :: u8))"
| "load_sem LH v = word_of_int (sint (ucast v :: u16))"
| "load_sem LW v = word_of_int (sint (ucast v :: u32))"
| "load_sem LD v = v" | "load_sem LBU v = v" | "load_sem LHU v = v" | "load_sem LWU v = v"

primrec store_size :: "rv_store \<Rightarrow> access_size" where
  "store_size SB = S8" | "store_size SH = S16" | "store_size SW = S32" | "store_size SD = S64"

primrec opi_sem :: "rv_opi \<Rightarrow> u64 \<Rightarrow> 12 word \<Rightarrow> u64" where
  "opi_sem ADDI a imm = a + scast imm"
| "opi_sem SLTI a imm = of_bool (sint a < sint imm)"
| "opi_sem SLTIU a imm = of_bool (a < scast imm)"
| "opi_sem XORI a imm = a XOR scast imm"
| "opi_sem ORI a imm = a OR scast imm"
| "opi_sem ANDI a imm = a AND scast imm"

primrec shift_sem :: "rv_shift \<Rightarrow> u64 \<Rightarrow> nat \<Rightarrow> u64" where
  "shift_sem SLLI a k = word_of_int (uint a * 2 ^ k)"
| "shift_sem SRLI a k = word_of_int (uint a div 2 ^ k)"
| "shift_sem SRAI a k = word_of_int (sint a div 2 ^ k)"
| "shift_sem RORI a k = word_rotr k a"
| "shift_sem BSETI a k = Bit_Operations.set_bit k a"
| "shift_sem BCLRI a k = unset_bit k a"
| "shift_sem BINVI a k = flip_bit k a"
| "shift_sem BEXTI a k = of_bool (bit a k)"

primrec unary_sem :: "rv_unary \<Rightarrow> u64 \<Rightarrow> u64" where
  "unary_sem CLZ a = (if a = 0 then 64 else of_nat (63 - Max {i. bit a i}))"
| "unary_sem CTZ a = (if a = 0 then 64 else of_nat (Min {i. bit a i}))"
| "unary_sem CPOP a = of_nat (card {i. bit a i})"
| "unary_sem SEXT_B a = word_of_int (sint (ucast a :: u8))"
| "unary_sem SEXT_H a = word_of_int (sint (ucast a :: u16))"
| "unary_sem ORC_B a = word_of_bits (\<lambda>i. \<exists>j < 8. bit a (8 * (i div 8) + j))"
| "unary_sem REV8 a = word_of_bits (\<lambda>i. bit a (56 - 8 * (i div 8) + i mod 8))"

primrec shiftw_sem :: "rv_shiftw \<Rightarrow> u32 \<Rightarrow> nat \<Rightarrow> u32" where
  "shiftw_sem SLLIW a k = word_of_int (uint a * 2 ^ k)"
| "shiftw_sem SRLIW a k = word_of_int (uint a div 2 ^ k)"
| "shiftw_sem SRAIW a k = word_of_int (sint a div 2 ^ k)"
| "shiftw_sem RORIW a k = word_rotr k a"

primrec unaryw_sem :: "rv_unaryw \<Rightarrow> u32 \<Rightarrow> u64" where
  "unaryw_sem CLZW a = (if a = 0 then 32 else of_nat (31 - Max {i. bit a i}))"
| "unaryw_sem CTZW a = (if a = 0 then 32 else of_nat (Min {i. bit a i}))"
| "unaryw_sem CPOPW a = of_nat (card {i. bit a i})"

text \<open>The shifts are rewritten with lemmas that suit the proofs, not with their equations.\<close>

declare shift_sem.simps [simp del] shiftw_sem.simps [simp del]

primrec op_sem :: "rv_op \<Rightarrow> u64 \<Rightarrow> u64 \<Rightarrow> u64" where
  "op_sem ADD a b = a + b"
| "op_sem SUB a b = a - b"
| "op_sem SLL a b = shift_sem SLLI a (unat b mod 64)"
| "op_sem SLT a b = of_bool (sint a < sint b)"
| "op_sem SLTU a b = of_bool (uint a < uint b)"
| "op_sem XORR a b = a XOR b"
| "op_sem SRL a b = shift_sem SRLI a (unat b mod 64)"
| "op_sem SRA a b = shift_sem SRAI a (unat b mod 64)"
| "op_sem ORR a b = a OR b"
| "op_sem ANDR a b = a AND b"
| "op_sem MUL a b = word_of_int (sint a * sint b)"
| "op_sem MULH a b = word_of_int (sint a * sint b div 2 ^ 64)"
| "op_sem MULHSU a b = word_of_int (sint a * uint b div 2 ^ 64)"
| "op_sem MULHU a b = word_of_int (uint a * uint b div 2 ^ 64)"
| "op_sem DIV a b = (if b = 0 then - 1 else word_of_int (sint a sdiv sint b))"
| "op_sem DIVU a b = (if b = 0 then - 1 else word_of_int (uint a div uint b))"
| "op_sem REM a b = (if b = 0 then a else word_of_int (sint a smod sint b))"
| "op_sem REMU a b = (if b = 0 then a else word_of_int (uint a mod uint b))"
| "op_sem XNOR a b = NOT (a XOR b)"
| "op_sem ORN a b = a OR NOT b"
| "op_sem ANDN a b = a AND NOT b"
| "op_sem MINS a b = word_of_int (min (sint a) (sint b))"
| "op_sem MINU a b = min a b"
| "op_sem MAXS a b = word_of_int (max (sint a) (sint b))"
| "op_sem MAXU a b = max a b"
| "op_sem BSET a b = shift_sem BSETI a (unat b mod 64)"
| "op_sem BCLR a b = shift_sem BCLRI a (unat b mod 64)"
| "op_sem BINV a b = shift_sem BINVI a (unat b mod 64)"
| "op_sem BEXT a b = shift_sem BEXTI a (unat b mod 64)"
| "op_sem SH1ADD a b = b + 2 * a"
| "op_sem SH2ADD a b = b + 4 * a"
| "op_sem SH3ADD a b = b + 8 * a"
| "op_sem ROL a b = word_rotl (unat b mod 64) a"
| "op_sem ROR a b = word_rotr (unat b mod 64) a"
| "op_sem CZERO_EQZ a b = (if b = 0 then 0 else a)"
| "op_sem CZERO_NEZ a b = (if b \<noteq> 0 then 0 else a)"

text \<open>The word instructions work on the low halves and sign-extend; the \<open>.uw\<close> forms zero-extend the
  first operand instead.\<close>

definition low_op :: "(u32 \<Rightarrow> u32 \<Rightarrow> u32) \<Rightarrow> u64 \<Rightarrow> u64 \<Rightarrow> u64" where
  "low_op f a b = word_of_int (sint (f (ucast a) (ucast b)))"

primrec opw_sem :: "rv_opw \<Rightarrow> u64 \<Rightarrow> u64 \<Rightarrow> u64" where
  "opw_sem ADDW a b = low_op (+) a b"
| "opw_sem SUBW a b = low_op (-) a b"
| "opw_sem SLLW a b = low_op (\<lambda>x y. shiftw_sem SLLIW x (unat y mod 32)) a b"
| "opw_sem SRLW a b = low_op (\<lambda>x y. shiftw_sem SRLIW x (unat y mod 32)) a b"
| "opw_sem SRAW a b = low_op (\<lambda>x y. shiftw_sem SRAIW x (unat y mod 32)) a b"
| "opw_sem MULW a b = low_op (*) a b"
| "opw_sem DIVW a b = low_op (\<lambda>x y. if y = 0 then - 1 else word_of_int (sint x sdiv sint y)) a b"
| "opw_sem DIVUW a b = low_op (\<lambda>x y. if y = 0 then - 1 else x div y) a b"
| "opw_sem REMW a b = low_op (\<lambda>x y. if y = 0 then x else word_of_int (sint x smod sint y)) a b"
| "opw_sem REMUW a b = low_op (\<lambda>x y. if y = 0 then x else x mod y) a b"
| "opw_sem ADD_UW a b = word_of_int (uint (ucast a :: u32)) + b"
| "opw_sem SH1ADD_UW a b = b + 2 * word_of_int (uint (ucast a :: u32))"
| "opw_sem SH2ADD_UW a b = b + 4 * word_of_int (uint (ucast a :: u32))"
| "opw_sem SH3ADD_UW a b = b + 8 * word_of_int (uint (ucast a :: u32))"
| "opw_sem ROLW a b = low_op (\<lambda>x y. word_rotl (unat y mod 32) x) a b"
| "opw_sem RORW a b = low_op (\<lambda>x y. word_rotr (unat y mod 32) x) a b"

section \<open>Effects\<close>

abbreviation xreg :: "'p Interp \<Rightarrow> regno \<Rightarrow> u64" where "xreg s r \<equiv> reg s (unat r)"
abbreviation freg :: "'p Interp \<Rightarrow> regno \<Rightarrow> u64" where "freg s r \<equiv> fp_reg s (unat r)"

definition write_x :: "nat \<Rightarrow> regno \<Rightarrow> u64 \<Rightarrow> 'p Interp \<Rightarrow> outcome \<times> 'p Interp" where
  "write_x len rd v s = next_insn len (if rd = 0 then s else s\<lparr>reg := (reg s)(unat rd := v)\<rparr>)"

definition write_f :: "nat \<Rightarrow> regno \<Rightarrow> u64 \<Rightarrow> 'p Interp \<Rightarrow> outcome \<times> 'p Interp" where
  "write_f len rd v s = next_insn len (s\<lparr>fp_reg := (fp_reg s)(unat rd := v), fs := 3\<rparr>)"

text \<open>Execution of an instruction of \<open>len\<close> bytes at \<open>get_pc s\<close>.\<close>

primrec isa_exec :: "'p platform_ops \<Rightarrow> nat \<Rightarrow> rv_insn \<Rightarrow> 'p Interp \<Rightarrow> outcome \<times> 'p Interp" where
  "isa_exec ops len (Lui rd imm) s = write_x len rd (word_of_int (sint imm * 2 ^ 12)) s"
| "isa_exec ops len (Auipc rd imm) s = write_x len rd (get_pc s + word_of_int (sint imm * 2 ^ 12)) s"
| "isa_exec ops len (Jal rd off) s =
     jump_to (get_pc s + word_of_int (2 * sint off)) (snd (write_x len rd (get_pc s + of_nat len) s))"
| "isa_exec ops len (Jalr rd rs1 imm) s =
     jump_to ((xreg s rs1 + scast imm) AND NOT 1) (snd (write_x len rd (get_pc s + of_nat len) s))"
| "isa_exec ops len (Branch c rs1 rs2 off) s =
     (if branch_sem c (xreg s rs1) (xreg s rs2)
      then jump_to (get_pc s + word_of_int (2 * sint off)) s else next_insn len s)"
| "isa_exec ops len (Load w rd rs1 imm) s =
     load_insn ops (load_size w) (xreg s rs1 + scast imm) s (\<lambda>v. write_x len rd (load_sem w v))"
| "isa_exec ops len (Store w rs2 rs1 imm) s =
     store_insn ops (store_size w) (xreg s rs1 + scast imm) (xreg s rs2) len s (next_insn len)"
| "isa_exec ops len (OpImm opn rd rs1 imm) s = write_x len rd (opi_sem opn (xreg s rs1) imm) s"
| "isa_exec ops len (Shift opn rd rs1 sh) s = write_x len rd (shift_sem opn (xreg s rs1) (unat sh)) s"
| "isa_exec ops len (Unary opn rd rs1) s = write_x len rd (unary_sem opn (xreg s rs1)) s"
| "isa_exec ops len (Addiw rd rs1 imm) s =
     write_x len rd (low_op (\<lambda>x _. x + scast imm) (xreg s rs1) 0) s"
| "isa_exec ops len (Shiftw opn rd rs1 sh) s =
     write_x len rd (low_op (\<lambda>x _. shiftw_sem opn x (unat sh)) (xreg s rs1) 0) s"
| "isa_exec ops len (Slli_uw rd rs1 sh) s =
     write_x len rd (word_of_int (uint (ucast (xreg s rs1) :: u32) * 2 ^ unat sh)) s"
| "isa_exec ops len (Unaryw opn rd rs1) s = write_x len rd (unaryw_sem opn (ucast (xreg s rs1))) s"
| "isa_exec ops len (Zext_h rd rs1) s = write_x len rd (word_of_int (uint (ucast (xreg s rs1) :: u16))) s"
| "isa_exec ops len (Op opn rd rs1 rs2) s = write_x len rd (op_sem opn (xreg s rs1) (xreg s rs2)) s"
| "isa_exec ops len (Opw opn rd rs1 rs2) s = write_x len rd (opw_sem opn (xreg s rs1) (xreg s rs2)) s"
| "isa_exec ops len (Flw rd rs1 imm) s =
     (if fs s = 0 then illegal_insn s
      else load_insn ops S32 (xreg s rs1 + scast imm) s (\<lambda>v. write_f len rd (v OR 0xffffffff00000000)))"
| "isa_exec ops len (Fld rd rs1 imm) s =
     (if fs s = 0 then illegal_insn s
      else load_insn ops S64 (xreg s rs1 + scast imm) s (\<lambda>v. write_f len rd v))"
| "isa_exec ops len (Fsw rs2 rs1 imm) s =
     (if fs s = 0 then illegal_insn s
      else store_insn ops S32 (xreg s rs1 + scast imm) (freg s rs2) len s (next_insn len))"
| "isa_exec ops len (Fsd rs2 rs1 imm) s =
     (if fs s = 0 then illegal_insn s
      else store_insn ops S64 (xreg s rs1 + scast imm) (freg s rs2) len s (next_insn len))"

section \<open>Encodings\<close>

definition enc_r :: "7 word \<Rightarrow> regno \<Rightarrow> regno \<Rightarrow> 3 word \<Rightarrow> regno \<Rightarrow> 7 word \<Rightarrow> u32" where
  "enc_r funct7 rs2 rs1 funct3 rd opcode =
     push_bit 25 (ucast funct7) OR push_bit 20 (ucast rs2) OR push_bit 15 (ucast rs1) OR
     push_bit 12 (ucast funct3) OR push_bit 7 (ucast rd) OR ucast opcode"

definition enc_i :: "12 word \<Rightarrow> regno \<Rightarrow> 3 word \<Rightarrow> regno \<Rightarrow> 7 word \<Rightarrow> u32" where
  "enc_i imm rs1 funct3 rd opcode =
     push_bit 20 (ucast imm) OR push_bit 15 (ucast rs1) OR push_bit 12 (ucast funct3) OR
     push_bit 7 (ucast rd) OR ucast opcode"

definition enc_s :: "12 word \<Rightarrow> regno \<Rightarrow> regno \<Rightarrow> 3 word \<Rightarrow> 7 word \<Rightarrow> u32" where
  "enc_s imm rs2 rs1 funct3 opcode =
     enc_r (ucast (drop_bit 5 imm)) rs2 rs1 funct3 (ucast imm) opcode"

text \<open>imm[12], imm[10:5], rs2, rs1, funct3, imm[4:1], imm[11]; bit \<open>i\<close> of the immediate is bit
  \<open>i - 1\<close> of the half-word offset.\<close>

definition enc_b :: "12 word \<Rightarrow> regno \<Rightarrow> regno \<Rightarrow> 3 word \<Rightarrow> 7 word \<Rightarrow> u32" where
  "enc_b off rs2 rs1 funct3 opcode =
     enc_r (push_bit 6 (ucast (drop_bit 11 off)) OR ucast (drop_bit 4 off) AND 0x3f) rs2 rs1 funct3
       (push_bit 1 (ucast off AND 0xf) OR ucast (drop_bit 10 off) AND 1) opcode"

definition enc_u :: "20 word \<Rightarrow> regno \<Rightarrow> 7 word \<Rightarrow> u32" where
  "enc_u imm rd opcode = push_bit 12 (ucast imm) OR push_bit 7 (ucast rd) OR ucast opcode"

text \<open>imm[20], imm[10:1], imm[11], imm[19:12].\<close>

definition enc_j :: "20 word \<Rightarrow> regno \<Rightarrow> 7 word \<Rightarrow> u32" where
  "enc_j off rd opcode =
     enc_u (push_bit 19 (drop_bit 19 off) OR push_bit 9 (off AND 0x3ff) OR
            push_bit 8 (drop_bit 10 off AND 1) OR drop_bit 11 off AND 0xff) rd opcode"

primrec branch_code :: "rv_branch \<Rightarrow> 3 word" where
  "branch_code BEQ = 0" | "branch_code BNE = 1" | "branch_code BLT = 4" | "branch_code BGE = 5"
| "branch_code BLTU = 6" | "branch_code BGEU = 7"

primrec load_code :: "rv_load \<Rightarrow> 3 word" where
  "load_code LB = 0" | "load_code LH = 1" | "load_code LW = 2" | "load_code LD = 3"
| "load_code LBU = 4" | "load_code LHU = 5" | "load_code LWU = 6"

primrec store_code :: "rv_store \<Rightarrow> 3 word" where
  "store_code SB = 0" | "store_code SH = 1" | "store_code SW = 2" | "store_code SD = 3"

primrec opi_code :: "rv_opi \<Rightarrow> 3 word" where
  "opi_code ADDI = 0" | "opi_code SLTI = 2" | "opi_code SLTIU = 3" | "opi_code XORI = 4"
| "opi_code ORI = 6" | "opi_code ANDI = 7"

text \<open>The upper six bits of the immediate and \<open>funct3\<close>.\<close>

primrec shift_code :: "rv_shift \<Rightarrow> 6 word \<times> 3 word" where
  "shift_code SLLI = (0, 1)" | "shift_code SRLI = (0, 5)" | "shift_code SRAI = (0x10, 5)"
| "shift_code RORI = (0x18, 5)" | "shift_code BSETI = (0x0a, 1)" | "shift_code BCLRI = (0x12, 1)"
| "shift_code BINVI = (0x1a, 1)" | "shift_code BEXTI = (0x12, 5)"

primrec unary_code :: "rv_unary \<Rightarrow> 12 word \<times> 3 word" where
  "unary_code CLZ = (0x600, 1)" | "unary_code CTZ = (0x601, 1)" | "unary_code CPOP = (0x602, 1)"
| "unary_code SEXT_B = (0x604, 1)" | "unary_code SEXT_H = (0x605, 1)"
| "unary_code ORC_B = (0x287, 5)" | "unary_code REV8 = (0x6b8, 5)"

primrec shiftw_code :: "rv_shiftw \<Rightarrow> 7 word \<times> 3 word" where
  "shiftw_code SLLIW = (0, 1)" | "shiftw_code SRLIW = (0, 5)" | "shiftw_code SRAIW = (0x20, 5)"
| "shiftw_code RORIW = (0x30, 5)"

primrec unaryw_code :: "rv_unaryw \<Rightarrow> 12 word" where
  "unaryw_code CLZW = 0x600" | "unaryw_code CTZW = 0x601" | "unaryw_code CPOPW = 0x602"

primrec op_code :: "rv_op \<Rightarrow> 7 word \<times> 3 word" where
  "op_code ADD = (0, 0)" | "op_code SUB = (0x20, 0)" | "op_code SLL = (0, 1)" | "op_code SLT = (0, 2)"
| "op_code SLTU = (0, 3)" | "op_code XORR = (0, 4)" | "op_code SRL = (0, 5)" | "op_code SRA = (0x20, 5)"
| "op_code ORR = (0, 6)" | "op_code ANDR = (0, 7)"
| "op_code MUL = (1, 0)" | "op_code MULH = (1, 1)" | "op_code MULHSU = (1, 2)" | "op_code MULHU = (1, 3)"
| "op_code DIV = (1, 4)" | "op_code DIVU = (1, 5)" | "op_code REM = (1, 6)" | "op_code REMU = (1, 7)"
| "op_code XNOR = (0x20, 4)" | "op_code ORN = (0x20, 6)" | "op_code ANDN = (0x20, 7)"
| "op_code MINS = (5, 4)" | "op_code MINU = (5, 5)" | "op_code MAXS = (5, 6)" | "op_code MAXU = (5, 7)"
| "op_code BSET = (0x14, 1)" | "op_code BCLR = (0x24, 1)" | "op_code BINV = (0x34, 1)"
| "op_code BEXT = (0x24, 5)" | "op_code SH1ADD = (0x10, 2)" | "op_code SH2ADD = (0x10, 4)"
| "op_code SH3ADD = (0x10, 6)" | "op_code ROL = (0x30, 1)" | "op_code ROR = (0x30, 5)"
| "op_code CZERO_EQZ = (7, 5)" | "op_code CZERO_NEZ = (7, 7)"

primrec opw_code :: "rv_opw \<Rightarrow> 7 word \<times> 3 word" where
  "opw_code ADDW = (0, 0)" | "opw_code SUBW = (0x20, 0)" | "opw_code SLLW = (0, 1)"
| "opw_code SRLW = (0, 5)" | "opw_code SRAW = (0x20, 5)" | "opw_code MULW = (1, 0)"
| "opw_code DIVW = (1, 4)" | "opw_code DIVUW = (1, 5)" | "opw_code REMW = (1, 6)"
| "opw_code REMUW = (1, 7)" | "opw_code ADD_UW = (4, 0)" | "opw_code SH1ADD_UW = (0x10, 2)"
| "opw_code SH2ADD_UW = (0x10, 4)" | "opw_code SH3ADD_UW = (0x10, 6)" | "opw_code ROLW = (0x30, 1)"
| "opw_code RORW = (0x30, 5)"

primrec encode :: "rv_insn \<Rightarrow> u32" where
  "encode (Lui rd imm) = enc_u imm rd 0x37"
| "encode (Auipc rd imm) = enc_u imm rd 0x17"
| "encode (Jal rd off) = enc_j off rd 0x6f"
| "encode (Jalr rd rs1 imm) = enc_i imm rs1 0 rd 0x67"
| "encode (Branch c rs1 rs2 off) = enc_b off rs2 rs1 (branch_code c) 0x63"
| "encode (Load w rd rs1 imm) = enc_i imm rs1 (load_code w) rd 0x03"
| "encode (Store w rs2 rs1 imm) = enc_s imm rs2 rs1 (store_code w) 0x23"
| "encode (OpImm opn rd rs1 imm) = enc_i imm rs1 (opi_code opn) rd 0x13"
| "encode (Shift opn rd rs1 sh) =
     enc_i (push_bit 6 (ucast (fst (shift_code opn))) OR ucast sh) rs1 (snd (shift_code opn)) rd 0x13"
| "encode (Unary opn rd rs1) = enc_i (fst (unary_code opn)) rs1 (snd (unary_code opn)) rd 0x13"
| "encode (Addiw rd rs1 imm) = enc_i imm rs1 0 rd 0x1b"
| "encode (Shiftw opn rd rs1 sh) =
     enc_i (push_bit 5 (ucast (fst (shiftw_code opn))) OR ucast sh) rs1 (snd (shiftw_code opn)) rd 0x1b"
| "encode (Slli_uw rd rs1 sh) = enc_i (0x80 OR ucast sh) rs1 1 rd 0x1b"
| "encode (Unaryw opn rd rs1) = enc_i (unaryw_code opn) rs1 1 rd 0x1b"
| "encode (Zext_h rd rs1) = enc_r 4 0 rs1 4 rd 0x3b"
| "encode (Op opn rd rs1 rs2) = enc_r (fst (op_code opn)) rs2 rs1 (snd (op_code opn)) rd 0x33"
| "encode (Opw opn rd rs1 rs2) = enc_r (fst (opw_code opn)) rs2 rs1 (snd (opw_code opn)) rd 0x3b"
| "encode (Flw rd rs1 imm) = enc_i imm rs1 2 rd 0x07"
| "encode (Fld rd rs1 imm) = enc_i imm rs1 3 rd 0x07"
| "encode (Fsw rs2 rs1 imm) = enc_s imm rs2 rs1 2 0x27"
| "encode (Fsd rs2 rs1 imm) = enc_s imm rs2 rs1 3 0x27"

end
