(* ===== verification/Isa_C.thy ===== *)
theory Isa_C
  imports Isa
begin

text \<open>
  The compressed instructions (C and Zcb) as a specification: each is a short encoding of an
  instruction of \<open>Isa\<close>. The encodings are the rows of the manual's tables, written from bit 15 down
  to bit 0. Register operands of three bits name x8 to x15; immediates are the scaled values.
\<close>

type_synonym cregno = "3 word"

definition creg :: "cregno \<Rightarrow> regno" where
  "creg r = 8 OR ucast r"

datatype c_arith = C_SUB | C_XOR | C_OR | C_AND | C_SUBW | C_ADDW | C_MUL
datatype c_unary = C_ZEXT_B | C_SEXT_B | C_ZEXT_H | C_SEXT_H | C_ZEXT_W | C_NOT

datatype (plugins only: size) c_insn =
    C_ADDI4SPN cregno "8 word"
  | C_LW cregno cregno "5 word" | C_LD cregno cregno "5 word" | C_FLD cregno cregno "5 word"
  | C_SW cregno cregno "5 word" | C_SD cregno cregno "5 word" | C_FSD cregno cregno "5 word"
  | C_LBU cregno cregno "2 word" | C_LHU cregno cregno "1 word" | C_LH cregno cregno "1 word"
  | C_SB cregno cregno "2 word" | C_SH cregno cregno "1 word"
  | C_ADDI regno "6 word" | C_ADDIW regno "6 word" | C_LI regno "6 word"
  | C_ADDI16SP "6 word" | C_LUI regno "6 word"
  | C_SRLI cregno "6 word" | C_SRAI cregno "6 word" | C_ANDI cregno "6 word"
  | C_ARITH c_arith cregno cregno | C_UNARY c_unary cregno
  | C_J "11 word" | C_BEQZ cregno "8 word" | C_BNEZ cregno "8 word"
  | C_SLLI regno "6 word" | C_LWSP regno "6 word" | C_LDSP regno "6 word" | C_FLDSP regno "6 word"
  | C_JR regno | C_JALR regno | C_MV regno regno | C_ADD regno regno
  | C_SWSP regno "6 word" | C_SDSP regno "6 word" | C_FSDSP regno "6 word"

section \<open>Expansion\<close>

primrec expand_arith :: "c_arith \<Rightarrow> regno \<Rightarrow> regno \<Rightarrow> rv_insn" where
  "expand_arith C_SUB r q = Op SUB r r q" | "expand_arith C_XOR r q = Op XORR r r q"
| "expand_arith C_OR r q = Op ORR r r q" | "expand_arith C_AND r q = Op ANDR r r q"
| "expand_arith C_SUBW r q = Opw SUBW r r q" | "expand_arith C_ADDW r q = Opw ADDW r r q"
| "expand_arith C_MUL r q = Op MUL r r q"

primrec expand_unary :: "c_unary \<Rightarrow> regno \<Rightarrow> rv_insn" where
  "expand_unary C_ZEXT_B r = OpImm ANDI r r 0xff" | "expand_unary C_SEXT_B r = Unary SEXT_B r r"
| "expand_unary C_ZEXT_H r = Zext_h r r" | "expand_unary C_SEXT_H r = Unary SEXT_H r r"
| "expand_unary C_ZEXT_W r = Opw ADD_UW r r 0" | "expand_unary C_NOT r = OpImm XORI r r (- 1)"

primrec expand :: "c_insn \<Rightarrow> rv_insn" where
  "expand (C_ADDI4SPN rd w) = OpImm ADDI (creg rd) 2 (push_bit 2 (ucast w))"
| "expand (C_LW rd rs w) = Load LW (creg rd) (creg rs) (push_bit 2 (ucast w))"
| "expand (C_LD rd rs w) = Load LD (creg rd) (creg rs) (push_bit 3 (ucast w))"
| "expand (C_FLD rd rs w) = Fld (creg rd) (creg rs) (push_bit 3 (ucast w))"
| "expand (C_SW rq rs w) = Store SW (creg rq) (creg rs) (push_bit 2 (ucast w))"
| "expand (C_SD rq rs w) = Store SD (creg rq) (creg rs) (push_bit 3 (ucast w))"
| "expand (C_FSD rq rs w) = Fsd (creg rq) (creg rs) (push_bit 3 (ucast w))"
| "expand (C_LBU rd rs w) = Load LBU (creg rd) (creg rs) (ucast w)"
| "expand (C_LHU rd rs w) = Load LHU (creg rd) (creg rs) (push_bit 1 (ucast w))"
| "expand (C_LH rd rs w) = Load LH (creg rd) (creg rs) (push_bit 1 (ucast w))"
| "expand (C_SB rq rs w) = Store SB (creg rq) (creg rs) (ucast w)"
| "expand (C_SH rq rs w) = Store SH (creg rq) (creg rs) (push_bit 1 (ucast w))"
| "expand (C_ADDI rd w) = OpImm ADDI rd rd (scast w)"
| "expand (C_ADDIW rd w) = Addiw rd rd (scast w)"
| "expand (C_LI rd w) = OpImm ADDI rd 0 (scast w)"
| "expand (C_ADDI16SP w) = OpImm ADDI 2 2 (push_bit 4 (scast w))"
| "expand (C_LUI rd w) = Lui rd (scast w)"
| "expand (C_SRLI rd w) = Shift SRLI (creg rd) (creg rd) w"
| "expand (C_SRAI rd w) = Shift SRAI (creg rd) (creg rd) w"
| "expand (C_ANDI rd w) = OpImm ANDI (creg rd) (creg rd) (scast w)"
| "expand (C_ARITH opn rd rq) = expand_arith opn (creg rd) (creg rq)"
| "expand (C_UNARY opn rd) = expand_unary opn (creg rd)"
| "expand (C_J w) = Jal 0 (scast w)"
| "expand (C_BEQZ rs w) = Branch BEQ (creg rs) 0 (scast w)"
| "expand (C_BNEZ rs w) = Branch BNE (creg rs) 0 (scast w)"
| "expand (C_SLLI rd w) = Shift SLLI rd rd w"
| "expand (C_LWSP rd w) = Load LW rd 2 (push_bit 2 (ucast w))"
| "expand (C_LDSP rd w) = Load LD rd 2 (push_bit 3 (ucast w))"
| "expand (C_FLDSP rd w) = Fld rd 2 (push_bit 3 (ucast w))"
| "expand (C_JR rs) = Jalr 0 rs 0"
| "expand (C_JALR rs) = Jalr 1 rs 0"
| "expand (C_MV rd rq) = Op ADD rd 0 rq"
| "expand (C_ADD rd rq) = Op ADD rd rd rq"
| "expand (C_SWSP rq w) = Store SW rq 2 (push_bit 2 (ucast w))"
| "expand (C_SDSP rq w) = Store SD rq 2 (push_bit 3 (ucast w))"
| "expand (C_FSDSP rq w) = Fsd rq 2 (push_bit 3 (ucast w))"

text \<open>Operands that are reserved or belong to another instruction.\<close>

fun c_valid :: "c_insn \<Rightarrow> bool" where
  "c_valid (C_ADDI4SPN rd w) = (w \<noteq> 0)"
| "c_valid (C_ADDI16SP w) = (w \<noteq> 0)"
| "c_valid (C_LUI rd w) = (rd \<noteq> 0 \<and> rd \<noteq> 2 \<and> w \<noteq> 0)"
| "c_valid (C_JR rs) = (rs \<noteq> 0)"
| "c_valid (C_JALR rs) = (rs \<noteq> 0)"
| "c_valid (C_MV rd rq) = (rq \<noteq> 0)"
| "c_valid (C_ADD rd rq) = (rq \<noteq> 0)"
| "c_valid _ = True"

section \<open>Encodings\<close>

text \<open>Chosen bits of a field, and the parcel made of sixteen bits, the highest first.\<close>

definition bits :: "'a::len word \<Rightarrow> nat list \<Rightarrow> bool list" where
  "bits w is = map (bit w) is"

definition parcel :: "bool list \<Rightarrow> u16" where
  "parcel bs = horner_sum of_bool 2 (rev bs)"

abbreviation b5 :: "regno \<Rightarrow> bool list" where "b5 r \<equiv> bits r [4, 3, 2, 1, 0]"
abbreviation b3 :: "cregno \<Rightarrow> bool list" where "b3 r \<equiv> bits r [2, 1, 0]"

primrec arith_bits :: "c_arith \<Rightarrow> bool \<times> bool list" where
  "arith_bits C_SUB = (False, [False, False])" | "arith_bits C_XOR = (False, [False, True])"
| "arith_bits C_OR = (False, [True, False])" | "arith_bits C_AND = (False, [True, True])"
| "arith_bits C_SUBW = (True, [False, False])" | "arith_bits C_ADDW = (True, [False, True])"
| "arith_bits C_MUL = (True, [True, False])"

primrec unary_bits :: "c_unary \<Rightarrow> bool list" where
  "unary_bits C_ZEXT_B = [False, False, False]" | "unary_bits C_SEXT_B = [False, False, True]"
| "unary_bits C_ZEXT_H = [False, True, False]" | "unary_bits C_SEXT_H = [False, True, True]"
| "unary_bits C_ZEXT_W = [True, False, False]" | "unary_bits C_NOT = [True, False, True]"

abbreviation (input) bF :: bool where "bF \<equiv> False"
abbreviation (input) bT :: bool where "bT \<equiv> True"

primrec c_bits :: "c_insn \<Rightarrow> bool list" where
  "c_bits (C_ADDI4SPN rd w) = [bF, bF, bF] @ bits w [3, 2, 7, 6, 5, 4, 0, 1] @ b3 rd @ [bF, bF]"
| "c_bits (C_LW rd rs w) = [bF, bT, bF] @ bits w [3, 2, 1] @ b3 rs @ bits w [0, 4] @ b3 rd @ [bF, bF]"
| "c_bits (C_LD rd rs w) = [bF, bT, bT] @ bits w [2, 1, 0] @ b3 rs @ bits w [4, 3] @ b3 rd @ [bF, bF]"
| "c_bits (C_FLD rd rs w) = [bF, bF, bT] @ bits w [2, 1, 0] @ b3 rs @ bits w [4, 3] @ b3 rd @ [bF, bF]"
| "c_bits (C_SW rq rs w) = [bT, bT, bF] @ bits w [3, 2, 1] @ b3 rs @ bits w [0, 4] @ b3 rq @ [bF, bF]"
| "c_bits (C_SD rq rs w) = [bT, bT, bT] @ bits w [2, 1, 0] @ b3 rs @ bits w [4, 3] @ b3 rq @ [bF, bF]"
| "c_bits (C_FSD rq rs w) = [bT, bF, bT] @ bits w [2, 1, 0] @ b3 rs @ bits w [4, 3] @ b3 rq @ [bF, bF]"
| "c_bits (C_LBU rd rs w) = [bT, bF, bF, bF, bF, bF] @ b3 rs @ bits w [0, 1] @ b3 rd @ [bF, bF]"
| "c_bits (C_LHU rd rs w) = [bT, bF, bF, bF, bF, bT] @ b3 rs @ [bF] @ bits w [0] @ b3 rd @ [bF, bF]"
| "c_bits (C_LH rd rs w) = [bT, bF, bF, bF, bF, bT] @ b3 rs @ [bT] @ bits w [0] @ b3 rd @ [bF, bF]"
| "c_bits (C_SB rq rs w) = [bT, bF, bF, bF, bT, bF] @ b3 rs @ bits w [0, 1] @ b3 rq @ [bF, bF]"
| "c_bits (C_SH rq rs w) = [bT, bF, bF, bF, bT, bT] @ b3 rs @ [bF] @ bits w [0] @ b3 rq @ [bF, bF]"
| "c_bits (C_ADDI rd w) = [bF, bF, bF] @ bits w [5] @ b5 rd @ bits w [4, 3, 2, 1, 0] @ [bF, bT]"
| "c_bits (C_ADDIW rd w) = [bF, bF, bT] @ bits w [5] @ b5 rd @ bits w [4, 3, 2, 1, 0] @ [bF, bT]"
| "c_bits (C_LI rd w) = [bF, bT, bF] @ bits w [5] @ b5 rd @ bits w [4, 3, 2, 1, 0] @ [bF, bT]"
| "c_bits (C_ADDI16SP w) = [bF, bT, bT] @ bits w [5] @ [bF, bF, bF, bT, bF] @ bits w [0, 2, 4, 3, 1] @ [bF, bT]"
| "c_bits (C_LUI rd w) = [bF, bT, bT] @ bits w [5] @ b5 rd @ bits w [4, 3, 2, 1, 0] @ [bF, bT]"
| "c_bits (C_SRLI rd w) = [bT, bF, bF] @ bits w [5] @ [bF, bF] @ b3 rd @ bits w [4, 3, 2, 1, 0] @ [bF, bT]"
| "c_bits (C_SRAI rd w) = [bT, bF, bF] @ bits w [5] @ [bF, bT] @ b3 rd @ bits w [4, 3, 2, 1, 0] @ [bF, bT]"
| "c_bits (C_ANDI rd w) = [bT, bF, bF] @ bits w [5] @ [bT, bF] @ b3 rd @ bits w [4, 3, 2, 1, 0] @ [bF, bT]"
| "c_bits (C_ARITH opn rd rq) =
     [bT, bF, bF] @ [fst (arith_bits opn)] @ [bT, bT] @ b3 rd @ snd (arith_bits opn) @ b3 rq @ [bF, bT]"
| "c_bits (C_UNARY opn rd) = [bT, bF, bF, bT, bT, bT] @ b3 rd @ [bT, bT] @ unary_bits opn @ [bF, bT]"
| "c_bits (C_J w) = [bT, bF, bT] @ bits w [10, 3, 8, 7, 9, 5, 6, 2, 1, 0, 4] @ [bF, bT]"
| "c_bits (C_BEQZ rs w) = [bT, bT, bF] @ bits w [7, 3, 2] @ b3 rs @ bits w [6, 5, 1, 0, 4] @ [bF, bT]"
| "c_bits (C_BNEZ rs w) = [bT, bT, bT] @ bits w [7, 3, 2] @ b3 rs @ bits w [6, 5, 1, 0, 4] @ [bF, bT]"
| "c_bits (C_SLLI rd w) = [bF, bF, bF] @ bits w [5] @ b5 rd @ bits w [4, 3, 2, 1, 0] @ [bT, bF]"
| "c_bits (C_LWSP rd w) = [bF, bT, bF] @ bits w [3] @ b5 rd @ bits w [2, 1, 0, 5, 4] @ [bT, bF]"
| "c_bits (C_LDSP rd w) = [bF, bT, bT] @ bits w [2] @ b5 rd @ bits w [1, 0, 5, 4, 3] @ [bT, bF]"
| "c_bits (C_FLDSP rd w) = [bF, bF, bT] @ bits w [2] @ b5 rd @ bits w [1, 0, 5, 4, 3] @ [bT, bF]"
| "c_bits (C_JR rs) = [bT, bF, bF, bF] @ b5 rs @ [bF, bF, bF, bF, bF] @ [bT, bF]"
| "c_bits (C_JALR rs) = [bT, bF, bF, bT] @ b5 rs @ [bF, bF, bF, bF, bF] @ [bT, bF]"
| "c_bits (C_MV rd rq) = [bT, bF, bF, bF] @ b5 rd @ b5 rq @ [bT, bF]"
| "c_bits (C_ADD rd rq) = [bT, bF, bF, bT] @ b5 rd @ b5 rq @ [bT, bF]"
| "c_bits (C_SWSP rq w) = [bT, bT, bF] @ bits w [3, 2, 1, 0, 5, 4] @ b5 rq @ [bT, bF]"
| "c_bits (C_SDSP rq w) = [bT, bT, bT] @ bits w [2, 1, 0, 5, 4, 3] @ b5 rq @ [bT, bF]"
| "c_bits (C_FSDSP rq w) = [bT, bF, bT] @ bits w [2, 1, 0, 5, 4, 3] @ b5 rq @ [bT, bF]"

text \<open>The 32-bit word the interpreter fetches: the parcel below whatever follows it.\<close>

definition encode_c :: "u16 \<Rightarrow> c_insn \<Rightarrow> u32" where
  "encode_c following i = push_bit 16 (ucast following) OR ucast (parcel (c_bits i))"

end
