(* ===== verification/Bits.thy ===== *)
theory Bits
  imports Alu
begin

text \<open>
  What the bit manipulations of the decoder and of the integer instructions compute, bit by bit or
  through the library's operations: sign extension, the field moves of the compressed immediates,
  rotation, bit counting and the byte permutations.
\<close>

section \<open>Sign extension and fields\<close>

lemma and_exp_of_bool: "(w :: 'a::len word) AND 2 ^ k = of_bool (bit w k) * 2 ^ k"
  by (rule bit_word_eqI) (auto simp: bit_simps)

lemma sext_eq:
  assumes "0 < n" "n \<le> 32"
  shows "sext val n = signed_take_bit (n - 1) val"
proof -
  have m: "push_bit (n - 1) 1 - 1 = (mask (n - 1) :: u32)" by (simp add: mask_eq_exp_minus_1)
  have e: "sext val n = take_bit (n - 1) val - of_bool (bit val (n - 1)) * 2 ^ (n - 1)"
    by (simp only: sext_def Let_def m take_bit_eq_mask) (simp add: and_exp_of_bool)
  show ?thesis
  proof (cases "bit val (n - 1)")
    case True
    have "take_bit (n - 1) val OR NOT (mask (n - 1)) = take_bit (n - 1) val + NOT (mask (n - 1))"
      by (rule disjunctive_add [symmetric]) (auto simp: bit_simps)
    also have "\<dots> = take_bit (n - 1) val - 2 ^ (n - 1)"
      by (simp add: not_eq_complement mask_eq_exp_minus_1)
    finally show ?thesis using e True by (simp add: signed_take_bit_def)
  next
    case False
    then show ?thesis using e by (simp add: signed_take_bit_def)
  qed
qed

lemma bit_sext:
  "0 < n \<Longrightarrow> n \<le> 32 \<Longrightarrow> bit (sext val n) i \<longleftrightarrow> i < 32 \<and> bit val (min i (n - 1))"
  by (simp add: sext_eq bit_signed_take_bit_iff min.commute)

lemma bit_get_field1:
  assumes "dst \<le> hi" "hi < 32"
  shows "bit (get_field1 val src dst hi) i \<longleftrightarrow> dst \<le> i \<and> i \<le> hi \<and> bit val (i + src - dst)"
proof -
  have "push_bit (hi - dst + 1) 1 - 1 = (mask (hi - dst + 1) :: u32)" by (simp add: mask_eq_exp_minus_1)
  with assms show ?thesis
    unfolding get_field1_def Let_def
    by (auto simp: bit_simps algebra_simps dest: bit_imp_le_length)
qed

section \<open>Rotation\<close>

lemma unat_neg_and_mask:
  assumes "k \<le> 32" "unat (sh :: u32) < 2 ^ k"
  shows "unat (- sh AND (of_nat (2 ^ k) - 1)) = (2 ^ k - unat sh) mod 2 ^ k"
proof -
  have m: "(of_nat (2 ^ k) - 1 :: u32) = mask k" by (simp add: mask_eq_exp_minus_1)
  have "(2 :: int) ^ k dvd 2 ^ 32" by (rule le_imp_power_dvd [OF assms(1)])
  then have "uint (- sh) mod 2 ^ k = (- uint sh) mod 2 ^ k"
    by (simp add: uint_word_ariths mod_mod_cancel)
  moreover have "uint (- sh AND (of_nat (2 ^ k) - 1)) = uint (- sh) mod 2 ^ k"
    unfolding m by (simp only: take_bit_eq_mask [symmetric] unsigned_take_bit_eq) (simp add: take_bit_eq_mod)
  ultimately have "uint (- sh AND (of_nat (2 ^ k) - 1)) = (- uint sh) mod 2 ^ k" by simp
  also have "(- uint sh) mod 2 ^ k = (2 ^ k - uint sh) mod 2 ^ k" by simp
  finally have "int (unat (- sh AND (of_nat (2 ^ k) - 1))) = int ((2 ^ k - unat sh) mod 2 ^ k)"
    using assms(2) by (simp add: zmod_int of_nat_diff)
  then show ?thesis by linarith
qed

lemma rotr_c_eq:
  fixes v :: "'a::len word"
  assumes L: "LENGTH('a) = 2 ^ k" "k \<le> 32" and sh: "unat sh < LENGTH('a)"
  shows "rotr_c v sh = word_rotr (unat sh) v"
proof (rule bit_word_eqI)
  fix n assume n: "n < LENGTH('a)"
  have u: "unat (- sh AND (of_nat LENGTH('a) - 1)) = (LENGTH('a) - unat sh) mod LENGTH('a)"
    unfolding L(1) using unat_neg_and_mask [OF L(2), of sh] sh L(1) by simp
  show "bit (rotr_c v sh) n = bit (word_rotr (unat sh) v) n"
  proof (cases "unat sh = 0")
    case True
    with n show ?thesis unfolding rotr_c_def u by (simp add: bit_simps)
  next
    case False
    then have r: "(LENGTH('a) - unat sh) mod LENGTH('a) = LENGTH('a) - unat sh" using sh by simp
    have "(n + unat sh) mod LENGTH('a) = (if n + unat sh < LENGTH('a) then n + unat sh else n + unat sh - LENGTH('a))"
      using n sh by (simp add: mod_if)
    with n sh show ?thesis
      unfolding rotr_c_def u r
      by (auto simp: bit_simps bit_word_rotr_iff algebra_simps dest: bit_imp_le_length)
  qed
qed

lemma rotl_c_eq:
  fixes v :: "'a::len word"
  assumes L: "LENGTH('a) = 2 ^ k" "k \<le> 32" and sh: "unat sh < LENGTH('a)"
  shows "rotl_c v sh = word_rotl (unat sh) v"
proof (rule bit_word_eqI)
  fix n assume n: "n < LENGTH('a)"
  have u: "unat (- sh AND (of_nat LENGTH('a) - 1)) = (LENGTH('a) - unat sh) mod LENGTH('a)"
    unfolding L(1) using unat_neg_and_mask [OF L(2), of sh] sh L(1) by simp
  show "bit (rotl_c v sh) n = bit (word_rotl (unat sh) v) n"
  proof (cases "unat sh = 0")
    case True
    with n show ?thesis unfolding rotl_c_def u by (simp add: bit_simps)
  next
    case False
    then have r: "(LENGTH('a) - unat sh) mod LENGTH('a) = LENGTH('a) - unat sh" using sh by simp
    have "(n + (LENGTH('a) - unat sh)) mod LENGTH('a) = (if unat sh \<le> n then n - unat sh else n + (LENGTH('a) - unat sh))"
      using n sh by (auto simp: mod_if)
    with n sh show ?thesis
      unfolding rotl_c_def u r
      by (auto simp: bit_simps bit_word_rotl_iff algebra_simps dest: bit_imp_le_length)
  qed
qed

section \<open>Bit counting\<close>

lemma bits_finite [simp]: "finite {i. bit (w :: 'a::len word) i}"
  by (rule finite_subset [of _ "{..<LENGTH('a)}"]) (auto dest: bit_imp_le_length)

lemma bits_nonempty: "w \<noteq> 0 \<Longrightarrow> {i. bit (w :: 'a::len word) i} \<noteq> {}"
  by (auto simp: bit_eq_iff)

lemma builtin_clz_Max:
  assumes "(w :: 'a::len word) \<noteq> 0"
  shows "builtin_clz w = LENGTH('a) - 1 - Max {i. bit w i}"
proof -
  let ?c = "builtin_clz w"
  have l: "?c < LENGTH('a)" by (rule clz_nonzero [OF assms])
  then have t: "bit w (LENGTH('a) - 1 - ?c)"
    using clz_from_top [of "LENGTH('a)" w] by (simp add: builtin_clz_def)
  have "Max {i. bit w i} = LENGTH('a) - 1 - ?c"
  proof (rule Max_eqI)
    fix i assume "i \<in> {i. bit w i}"
    then show "i \<le> LENGTH('a) - 1 - ?c"
      using clz_from_bits [of i "LENGTH('a)" w] bit_imp_le_length [of w i] l
      unfolding builtin_clz_def by (cases "LENGTH('a) - clz_from LENGTH('a) w \<le> i") auto
  qed (use t in auto)
  with l show ?thesis by simp
qed

lemma builtin_ctz_Min:
  assumes "(w :: 'a::len word) \<noteq> 0"
  shows "builtin_ctz w = Min {i. bit w i}"
proof -
  note spec = ctz_from_spec [of 0 "LENGTH('a)" w]
  obtain k where k: "bit w k" using assms by (auto simp: bit_eq_iff)
  have "builtin_ctz w \<le> i" if "bit w i" for i
    using spec that unfolding builtin_ctz_def by (meson le0 not_le)
  moreover have "bit w (builtin_ctz w)"
    using spec calculation [OF k] bit_imp_le_length [OF k] unfolding builtin_ctz_def by simp
  ultimately show ?thesis by (intro Min_eqI [symmetric]) auto
qed

lemma popcount_from_card: "popcount_from n w = card {i. i < n \<and> bit w i}"
proof (induction n)
  case (Suc n)
  have "{i. i < Suc n \<and> bit w i} = (if bit w n then insert n {i. i < n \<and> bit w i} else {i. i < n \<and> bit w i})"
    by (auto simp: less_Suc_eq)
  with Suc show ?case by auto
qed simp

lemma builtin_popcount_card: "builtin_popcount (w :: 'a::len word) = card {i. bit w i}"
proof -
  have "{i. i < LENGTH('a) \<and> bit w i} = {i. bit w i}" by (auto dest: bit_imp_le_length)
  then show ?thesis by (simp add: builtin_popcount_def popcount_from_card)
qed

section \<open>Bytes\<close>

lemma byte_cases:
  assumes "(n :: nat) < 64"
  obtains "n div 8 = 0" "n < 8" | "n div 8 = 1" "8 \<le> n" "n < 16" | "n div 8 = 2" "16 \<le> n" "n < 24"
  | "n div 8 = 3" "24 \<le> n" "n < 32" | "n div 8 = 4" "32 \<le> n" "n < 40" | "n div 8 = 5" "40 \<le> n" "n < 48"
  | "n div 8 = 6" "48 \<le> n" "n < 56" | "n div 8 = 7" "56 \<le> n" "n < 64"
proof -
  consider "n < 8" | "8 \<le> n" "n < 16" | "16 \<le> n" "n < 24" | "24 \<le> n" "n < 32"
    | "32 \<le> n" "n < 40" | "40 \<le> n" "n < 48" | "48 \<le> n" "n < 56" | "56 \<le> n" by linarith
  then show ?thesis using assms by cases (simp_all add: that div_nat_eqI)
qed

lemma byte_mask: "(0xff :: u64) = mask 8"
  by (simp add: mask_eq_exp_minus_1)

lemma upt8: "[0..<8] = [0, 1, 2, 3, 4, 5, 6, 7]"
  by (simp add: upt_rec)

lemma bit_byte_at:
  "bit (push_bit p (drop_bit q v AND 0xff)) n \<longleftrightarrow> p \<le> n \<and> n < p + 8 \<and> n < 64 \<and> bit (v :: u64) (q + (n - p))"
  unfolding byte_mask by (auto simp: bit_simps)

lemma bit_bswap64:
  assumes "n < 64"
  shows "bit (bswap64 v) n = bit v (56 - 8 * (n div 8) + n mod 8)"
proof -
  have m: "n mod 8 = n - 8 * (n div 8)" by (simp add: minus_mult_div_eq_mod)
  show ?thesis
    unfolding bswap64_def upt8 m fold_simps bit_or_iff bit_byte_at
    using assms by (rule byte_cases) simp_all
qed

lemma bswap64_bswap64: "bswap64 (bswap64 v) = v"
proof (rule bit_word_eqI)
  fix n assume "n < LENGTH(64)"
  then have n: "n < 64" by simp
  have d: "(56 - 8 * k + n mod 8) div 8 = 7 - k" "(56 - 8 * k + n mod 8) mod 8 = n mod 8" if "k < 8" for k
  proof -
    from that have "56 - 8 * k = 8 * (7 - k)" by simp
    then show "(56 - 8 * k + n mod 8) div 8 = 7 - k" "(56 - 8 * k + n mod 8) mod 8 = n mod 8" by simp_all
  qed
  have "n div 8 < 8" using n by simp
  then show "bit (bswap64 (bswap64 v)) n = bit v n"
    using n d [of "n div 8"] by (simp only: bit_bswap64 algebra_simps) simp
qed

lemma byte_nonzero: "drop_bit k v AND 0xff \<noteq> 0 \<longleftrightarrow> (\<exists>j < 8. bit (v :: u64) (k + j))"
proof
  assume "drop_bit k v AND 0xff \<noteq> 0"
  then show "\<exists>j < 8. bit v (k + j)"
    unfolding byte_mask by (auto simp: bit_eq_iff bit_simps)
next
  assume "\<exists>j < 8. bit v (k + j)"
  then obtain j where "j < 8" "bit v (k + j)" by blast
  then have "bit (drop_bit k v AND 0xff) j" unfolding byte_mask by (simp add: bit_simps)
  then show "drop_bit k v AND 0xff \<noteq> 0" by auto
qed

lemma or_if: "(if P then r OR x else r) = r OR (if P then x else 0)" for r :: "'a::len word"
  by simp

lemma bit_if_0: "bit (if P then x else 0) n \<longleftrightarrow> P \<and> bit x n" for x :: "'a::len word"
  by simp

lemma bit_orc_b: "n < 64 \<Longrightarrow> bit (orc_b v) n \<longleftrightarrow> (\<exists>j < 8. bit v (8 * (n div 8) + j))"
  unfolding orc_b_def byte_nonzero upt8 or_if
  by (erule byte_cases)
    (simp_all add: bit_or_iff bit_if_0 bit_push_bit_iff byte_mask bit_mask_iff less_diff_conv2)

end
