(* ===== verification/Encoding.thy ===== *)
theory Encoding
  imports Isa Bits
begin

text \<open>
  The fields and immediates the C code extracts from the encodings of \<open>Isa\<close> are the ones encoded,
  and the values its expressions compute are those of the specification.
\<close>

section \<open>Fields of an encoding\<close>

lemma bit_ucast_small: "bit (ucast (w :: 'a::len word) :: 'b::len word) n \<longleftrightarrow> n < LENGTH('b) \<and> bit w n"
  by (auto simp: bit_unsigned_iff dest: bit_imp_le_length)

text \<open>All but the lowest bits of a narrow word are clear.\<close>

lemma bit_narrow: "bit (w :: 'a::len word) n \<Longrightarrow> n < LENGTH('a)"
  by (rule bit_imp_le_length)

lemma unat_regno [simp]: "unat (ucast (r :: regno) :: u32) = unat r"
  using unsigned_less [of r, where 'a = nat] by (simp add: unsigned_ucast_eq take_bit_nat_eq_self)

lemma small_masks: "(0x7f :: u32) = mask 7" "(0x1f :: u32) = mask 5" "(7 :: u32) = mask 3" "(0xfe0 :: u32) = push_bit 5 (mask 7)"
  by (simp_all add: mask_eq_exp_minus_1)

definition enc_rest :: "u32 \<Rightarrow> 3 word \<Rightarrow> regno \<Rightarrow> 7 word \<Rightarrow> u32" where
  "enc_rest x funct3 rd opcode = push_bit 15 x OR push_bit 12 (ucast funct3) OR push_bit 7 (ucast rd) OR ucast opcode"

lemma enc_rest_fields:
  "f_opcode (enc_rest x funct3 rd opcode) = ucast opcode"
  "f_funct3 (enc_rest x funct3 rd opcode) = ucast funct3"
  "f_rd (enc_rest x funct3 rd opcode) = unat rd"
  "15 \<le> n \<Longrightarrow> bit (enc_rest x funct3 rd opcode) n \<longleftrightarrow> n < 32 \<and> bit x (n - 15)"
proof -
  have z: "\<not> bit opcode n" if "7 \<le> n" for n using that by (auto dest: bit_narrow)
  have y: "\<not> bit rd n" if "5 \<le> n" for n using that by (auto dest: bit_narrow)
  have w: "\<not> bit funct3 n" if "3 \<le> n" for n using that by (auto dest: bit_narrow)
  show "f_opcode (enc_rest x funct3 rd opcode) = ucast opcode"
    unfolding f_opcode_def small_masks enc_rest_def
    by (rule bit_word_eqI) (auto simp: bit_simps bit_ucast_small dest: bit_narrow)
  show "f_funct3 (enc_rest x funct3 rd opcode) = ucast funct3"
    unfolding f_funct3_def small_masks enc_rest_def
    by (rule bit_word_eqI) (auto simp: bit_simps bit_ucast_small z y dest: bit_narrow)
  have "drop_bit 7 (enc_rest x funct3 rd opcode) AND 0x1f = ucast rd"
    unfolding small_masks enc_rest_def
    by (rule bit_word_eqI) (auto simp: bit_simps bit_ucast_small z dest: bit_narrow)
  then show "f_rd (enc_rest x funct3 rd opcode) = unat rd"
    by (simp add: f_rd_def)
  show "15 \<le> n \<Longrightarrow> bit (enc_rest x funct3 rd opcode) n \<longleftrightarrow> n < 32 \<and> bit x (n - 15)"
    unfolding enc_rest_def by (auto simp: bit_simps bit_ucast_small z y w dest: bit_narrow)
qed

lemma f_rs1_enc_rest:
  assumes "\<And>n. n < 5 \<Longrightarrow> bit x n = bit r n"
  shows "f_rs1 (enc_rest x funct3 rd opcode) = unat (r :: regno)"
proof -
  have "drop_bit 15 (enc_rest x funct3 rd opcode) AND 0x1f = ucast r"
  proof (rule bit_word_eqI)
    fix n assume "n < LENGTH(32)"
    then show "bit (drop_bit 15 (enc_rest x funct3 rd opcode) AND 0x1f) n = bit (ucast r :: u32) n"
      unfolding small_masks
      by (cases "n < 5") (auto simp: bit_simps bit_ucast_small enc_rest_fields assms dest: bit_narrow)
  qed
  then show ?thesis by (simp add: f_rs1_def)
qed

lemma enc_r_rest:
  "enc_r funct7 rs2 rs1 funct3 rd opcode =
     enc_rest (ucast rs1 OR push_bit 5 (ucast rs2) OR push_bit 10 (ucast funct7)) funct3 rd opcode"
  by (simp add: enc_r_def enc_rest_def push_bit_or or.commute or.left_commute)

lemma enc_i_rest:
  "enc_i imm rs1 funct3 rd opcode = enc_rest (ucast rs1 OR push_bit 5 (ucast imm)) funct3 rd opcode"
  by (simp add: enc_i_def enc_rest_def push_bit_or or.commute or.left_commute)

lemma enc_u_rest: "enc_u imm rd opcode = enc_rest (ucast (drop_bit 3 imm)) (ucast imm) rd opcode"
proof (rule bit_word_eqI)
  fix n assume "n < LENGTH(32)"
  then show "bit (enc_u imm rd opcode) n = bit (enc_rest (ucast (drop_bit 3 imm)) (ucast imm) rd opcode) n"
    unfolding enc_u_def enc_rest_def
    by (cases "n < 15") (auto simp: bit_simps bit_ucast_small dest: bit_narrow)
qed

lemma enc_r_fields [simp]:
  "f_opcode (enc_r funct7 rs2 rs1 funct3 rd opcode) = ucast opcode"
  "f_funct3 (enc_r funct7 rs2 rs1 funct3 rd opcode) = ucast funct3"
  "f_rd (enc_r funct7 rs2 rs1 funct3 rd opcode) = unat rd"
  "f_rs1 (enc_r funct7 rs2 rs1 funct3 rd opcode) = unat rs1"
  "f_rs2 (enc_r funct7 rs2 rs1 funct3 rd opcode) = unat rs2"
  "drop_bit 25 (enc_r funct7 rs2 rs1 funct3 rd opcode) = ucast funct7"
  "drop_bit 27 (enc_r funct7 rs2 rs1 funct3 rd opcode) AND 8 = (if bit funct7 5 then 8 else 0)"
proof -
  let ?e = "enc_r funct7 rs2 rs1 funct3 rd opcode"
  have b: "bit ?e n \<longleftrightarrow> n < 32 \<and> (if n < 20 then bit rs1 (n - 15) else if n < 25 then bit rs2 (n - 20) else bit funct7 (n - 25))"
    if "15 \<le> n" for n
    using that unfolding enc_r_rest
    by (auto simp: enc_rest_fields bit_simps bit_ucast_small dest: bit_narrow)
  show "f_opcode ?e = ucast opcode" "f_funct3 ?e = ucast funct3" "f_rd ?e = unat rd" "f_rs1 ?e = unat rs1"
    unfolding enc_r_rest by (simp_all add: enc_rest_fields f_rs1_enc_rest bit_simps bit_ucast_small)
  have "drop_bit 20 ?e AND 0x1f = ucast rs2"
    unfolding small_masks by (rule bit_word_eqI) (auto simp: bit_simps bit_ucast_small b dest: bit_narrow)
  then show "f_rs2 ?e = unat rs2" by (simp add: f_rs2_def)
  show "drop_bit 25 ?e = ucast funct7"
    by (rule bit_word_eqI) (auto simp: bit_simps bit_ucast_small b dest: bit_narrow)
  have "(8 :: u32) = 2 ^ 3" by simp
  then have "drop_bit 27 ?e AND 8 = of_bool (bit (drop_bit 27 ?e) 3) * 8" by (simp only: and_exp_of_bool)
  then show "drop_bit 27 ?e AND 8 = (if bit funct7 5 then 8 else 0)" by (simp add: bit_drop_bit_eq b)
qed

lemma enc_i_fields [simp]:
  "f_opcode (enc_i imm rs1 funct3 rd opcode) = ucast opcode"
  "f_funct3 (enc_i imm rs1 funct3 rd opcode) = ucast funct3"
  "f_rd (enc_i imm rs1 funct3 rd opcode) = unat rd"
  "f_rs1 (enc_i imm rs1 funct3 rd opcode) = unat rs1"
  "imm_i (enc_i imm rs1 funct3 rd opcode) = scast imm"
proof -
  let ?e = "enc_i imm rs1 funct3 rd opcode"
  have b: "bit ?e n \<longleftrightarrow> n < 32 \<and> bit imm (n - 20)" if "20 \<le> n" for n
    using that unfolding enc_i_rest
    by (auto simp: enc_rest_fields bit_simps bit_ucast_small dest: bit_narrow)
  show "f_opcode ?e = ucast opcode" "f_funct3 ?e = ucast funct3" "f_rd ?e = unat rd" "f_rs1 ?e = unat rs1"
    unfolding enc_i_rest by (simp_all add: enc_rest_fields f_rs1_enc_rest bit_simps bit_ucast_small)
  show "imm_i ?e = scast imm"
    unfolding imm_i_def by (rule bit_word_eqI) (auto simp: bit_simps b)
qed

lemma enc_s_fields [simp]:
  "f_opcode (enc_s imm rs2 rs1 funct3 opcode) = ucast opcode"
  "f_funct3 (enc_s imm rs2 rs1 funct3 opcode) = ucast funct3"
  "f_rs1 (enc_s imm rs2 rs1 funct3 opcode) = unat rs1"
  "f_rs2 (enc_s imm rs2 rs1 funct3 opcode) = unat rs2"
  by (simp_all add: enc_s_def)

lemma enc_b_fields [simp]:
  "f_opcode (enc_b off rs2 rs1 funct3 opcode) = ucast opcode"
  "f_funct3 (enc_b off rs2 rs1 funct3 opcode) = ucast funct3"
  "f_rs1 (enc_b off rs2 rs1 funct3 opcode) = unat rs1"
  "f_rs2 (enc_b off rs2 rs1 funct3 opcode) = unat rs2"
  by (simp_all add: enc_b_def)

lemma enc_u_fields [simp]:
  "f_opcode (enc_u imm rd opcode) = ucast opcode"
  "f_rd (enc_u imm rd opcode) = unat rd"
  "f_opcode (enc_j imm rd opcode) = ucast opcode"
  "f_rd (enc_j imm rd opcode) = unat rd"
  by (simp_all add: enc_u_rest enc_j_def enc_rest_fields)

section \<open>Immediates\<close>

text \<open>Every bit of a 32-bit encoding.\<close>

lemma bit_enc_r:
  "bit (enc_r funct7 rs2 rs1 funct3 rd opcode) n \<longleftrightarrow> n < 32 \<and>
     (if n < 7 then bit opcode n else if n < 12 then bit rd (n - 7) else if n < 15 then bit funct3 (n - 12)
      else if n < 20 then bit rs1 (n - 15) else if n < 25 then bit rs2 (n - 20) else bit funct7 (n - 25))"
  by (auto simp: enc_r_def bit_simps bit_ucast_small dest: bit_narrow)

lemma bit_enc_u:
  "bit (enc_u imm rd opcode) n \<longleftrightarrow> n < 32 \<and>
     (if n < 7 then bit opcode n else if n < 12 then bit rd (n - 7) else bit imm (n - 12))"
  by (auto simp: enc_u_def bit_simps bit_ucast_small dest: bit_narrow)

lemma imm_s_enc [simp]: "imm_s (enc_s imm rs2 rs1 funct3 opcode) = scast imm"
proof (rule bit_word_eqI)
  fix n assume n: "n < LENGTH(32)"
  show "bit (imm_s (enc_s imm rs2 rs1 funct3 opcode)) n = bit (scast imm :: u32) n"
    using n unfolding imm_s_def small_masks enc_s_def
    by (auto simp: bit_sext bit_simps bit_enc_r bit_ucast_small min_def)
qed

lemma bit_sint: "bit (sint (w :: 'a::len word)) n \<longleftrightarrow> bit w (min n (LENGTH('a) - 1))"
  by (subst min.commute, simp add: sint_uint bit_signed_take_bit_iff bit_unsigned_iff min_less_iff_disj)

text \<open>A half-word offset and an upper immediate as the C code sign-extends them.\<close>

lemma word_of_double_sint:
  "bit (word_of_int (2 * sint (off :: 'a::len word)) :: u64) n \<longleftrightarrow>
     0 < n \<and> n < 64 \<and> bit off (min (n - 1) (LENGTH('a) - 1))"
proof (cases n)
  case (Suc m)
  have "bit (2 * sint off) (Suc m) = bit (sint off) m" by (simp add: bit_double_iff)
  then show ?thesis unfolding Suc bit_word_of_int_iff by (auto simp: bit_sint)
qed (simp add: bit_word_of_int_iff bit_double_iff del: of_int_mult)

lemma bit_scast_u32: "bit (scast (x :: u32) :: u64) n \<longleftrightarrow> n < 64 \<and> bit x (min n 31)"
  by (auto simp: bit_signed_iff min_def)

lemma bit_field_down:
  "bit (drop_bit a e AND push_bit b (mask c)) k \<longleftrightarrow> b \<le> k \<and> k < b + c \<and> k < 32 \<and> bit (e :: u32) (a + k)"
  by (auto simp: bit_and_iff bit_push_bit_iff bit_mask_iff bit_drop_bit_eq)

lemma bit_field_up:
  "bit (push_bit a e AND push_bit b (mask c)) k \<longleftrightarrow>
     b \<le> k \<and> k < b + c \<and> k < 32 \<and> a \<le> k \<and> bit (e :: u32) (k - a)"
  by (auto simp: bit_and_iff bit_push_bit_iff bit_mask_iff)

lemma single_bits: "push_bit 12 1 = (push_bit 12 (mask 1) :: u32)" "push_bit 11 1 = (push_bit 11 (mask 1) :: u32)"
  "push_bit 20 1 = (push_bit 20 (mask 1) :: u32)"
  by simp_all

lemma bit_imm_b:
  "bit (imm_b e) n \<longleftrightarrow> n < 32 \<and>
     (if 12 \<le> n then bit e 31 else if n = 11 then bit e 7 else if 5 \<le> n then bit e (20 + n)
      else 1 \<le> n \<and> bit e (7 + n))"
proof -
  have m: "(0x7e0 :: u32) = push_bit 5 (mask 6)" "(0x1e :: u32) = push_bit 1 (mask 4)"
    by (simp_all add: mask_eq_exp_minus_1)
  have k: "bit (imm_b e) n \<longleftrightarrow> n < 32 \<and> bit (drop_bit 19 e AND push_bit 12 (mask 1) OR
      drop_bit 20 e AND push_bit 5 (mask 6) OR drop_bit 7 e AND push_bit 1 (mask 4) OR
      push_bit 4 e AND push_bit 11 (mask 1)) (min n 12)"
    unfolding imm_b_def m single_bits by (simp only: bit_sext) simp
  consider "12 \<le> n" | "n = 11" | "5 \<le> n" "n < 11" | "n < 5" by linarith
  then show ?thesis
    unfolding k bit_or_iff bit_field_down bit_field_up by cases (simp_all add: min_def)
qed

lemma bit_imm_j:
  "bit (imm_j e) n \<longleftrightarrow> n < 32 \<and>
     (if 20 \<le> n then bit e 31 else if 12 \<le> n then bit e n else if n = 11 then bit e 20
      else 1 \<le> n \<and> bit e (20 + n))"
proof -
  have m: "(0x7fe :: u32) = push_bit 1 (mask 10)" "(0xff000 :: u32) = push_bit 12 (mask 8)"
    by (simp_all add: mask_eq_exp_minus_1)
  have z: "bit (e AND push_bit 12 (mask 8)) k \<longleftrightarrow> 12 \<le> k \<and> k < 20 \<and> k < 32 \<and> bit e k" for k
    using bit_field_down [of 0 e 12 8 k] by simp
  have k: "bit (imm_j e) n \<longleftrightarrow> n < 32 \<and> bit (drop_bit 11 e AND push_bit 20 (mask 1) OR
      drop_bit 20 e AND push_bit 1 (mask 10) OR drop_bit 9 e AND push_bit 11 (mask 1) OR
      e AND push_bit 12 (mask 8)) (min n 20)"
    unfolding imm_j_def m single_bits by (simp only: bit_sext) simp
  consider "20 \<le> n" | "12 \<le> n" "n < 20" | "n = 11" | "n < 11" by linarith
  then show ?thesis
    unfolding k bit_or_iff bit_field_down z by cases (simp_all add: min_def)
qed

lemma imm_b_enc [simp]: "scast (imm_b (enc_b off rs2 rs1 funct3 opcode)) = (word_of_int (2 * sint off) :: u64)"
proof (rule bit_word_eqI)
  fix n assume n: "n < LENGTH(64)"
  have h: "bit (push_bit 6 (ucast (drop_bit 11 off)) OR ucast (drop_bit 4 off) AND (0x3f :: 7 word)) k \<longleftrightarrow>
      k = 6 \<and> bit off 11 \<or> k < 6 \<and> bit off (4 + k)" for k
  proof -
    have "(0x3f :: 7 word) = mask 6" by (simp add: mask_eq_exp_minus_1)
    then show ?thesis
      by (simp only: bit_or_iff bit_and_iff bit_push_bit_iff bit_mask_iff bit_drop_bit_eq bit_ucast_small comp_apply)
        (auto dest: bit_narrow)
  qed
  have l: "bit (push_bit 1 (ucast off AND 0xf) OR ucast (drop_bit 10 off) AND (1 :: regno)) k \<longleftrightarrow>
      k = 0 \<and> bit off 10 \<or> 1 \<le> k \<and> k < 5 \<and> bit off (k - 1)" for k
  proof -
    have "(0xf :: regno) = mask 4" by (simp add: mask_eq_exp_minus_1)
    then show ?thesis
      by (simp only: bit_or_iff bit_and_iff bit_push_bit_iff bit_mask_iff bit_drop_bit_eq bit_ucast_small bit_1_iff comp_apply)
        (auto dest: bit_narrow)
  qed
  have e: "min (n - 1) (LENGTH(12) - 1) = (if n < 12 then n - 1 else 11)" by auto
  consider "n = 0" | "0 < n" "n < 5" | "5 \<le> n" "n < 11" | "n = 11" | "12 \<le> n" by linarith
  then show "bit (scast (imm_b (enc_b off rs2 rs1 funct3 opcode)) :: u64) n = bit (word_of_int (2 * sint off) :: u64) n"
    using n unfolding enc_b_def bit_scast_u32 word_of_double_sint bit_imm_b bit_enc_r h l e
    by cases (auto simp: min_def)
qed

lemma imm_j_enc [simp]: "scast (imm_j (enc_j off rd opcode)) = (word_of_int (2 * sint off) :: u64)"
proof (rule bit_word_eqI)
  fix n assume n: "n < LENGTH(64)"
  have h: "bit (push_bit 19 (drop_bit 19 off) OR push_bit 9 (off AND 0x3ff) OR
            push_bit 8 (drop_bit 10 off AND 1) OR drop_bit 11 off AND (0xff :: 20 word)) k \<longleftrightarrow>
      k = 19 \<and> bit off 19 \<or> 9 \<le> k \<and> k < 19 \<and> bit off (k - 9) \<or> k = 8 \<and> bit off 10 \<or> k < 8 \<and> bit off (11 + k)" for k
  proof -
    have "(0x3ff :: 20 word) = mask 10" "(0xff :: 20 word) = mask 8" by (simp_all add: mask_eq_exp_minus_1)
    then show ?thesis
      by (simp only: bit_or_iff bit_and_iff bit_push_bit_iff bit_mask_iff bit_drop_bit_eq bit_1_iff comp_apply)
        (auto dest: bit_narrow)
  qed
  have e: "min (n - 1) (LENGTH(20) - 1) = (if n < 20 then n - 1 else 19)" by auto
  consider "n = 0" | "0 < n" "n < 11" | "n = 11" | "12 \<le> n" "n < 20" | "20 \<le> n" by linarith
  then show "bit (scast (imm_j (enc_j off rd opcode)) :: u64) n = bit (word_of_int (2 * sint off) :: u64) n"
    using n unfolding enc_j_def bit_scast_u32 word_of_double_sint bit_imm_j bit_enc_u h e
    by cases (auto simp: min_def)
qed

lemma imm_u_enc [simp]: "scast (imm_u (enc_u imm rd opcode)) = (word_of_int (sint imm * 2 ^ 12) :: u64)"
proof (rule bit_word_eqI)
  fix n assume n: "n < LENGTH(64)"
  have m: "(0xfffff000 :: u32) = push_bit 12 (mask 20)" by (simp add: mask_eq_exp_minus_1)
  have p: "sint imm * 2 ^ 12 = push_bit 12 (sint imm)" by (simp add: push_bit_eq_mult)
  have r: "bit (word_of_int (sint imm * 2 ^ 12) :: u64) n \<longleftrightarrow> 12 \<le> n \<and> bit imm (min (n - 12) 19)"
    unfolding p bit_word_of_int_iff bit_push_bit_iff bit_sint using n by simp
  have l: "bit (imm_u e) k \<longleftrightarrow> 12 \<le> k \<and> k < 32 \<and> bit e k" for e k
    unfolding imm_u_def m using bit_field_down [of 0 e 12 20 k] by simp
  show "bit (scast (imm_u (enc_u imm rd opcode)) :: u64) n = bit (word_of_int (sint imm * 2 ^ 12) :: u64) n"
    unfolding bit_scast_u32 l r bit_enc_u using n by (auto simp: min_def)
qed

section \<open>Values\<close>

lemma signed_drop_bit_int: "signed_drop_bit k a = word_of_int (sint (a :: 'a::len word) div 2 ^ k)"
proof -
  have "word_of_int (sint (signed_drop_bit k a)) = signed_drop_bit k a" by simp
  then show ?thesis by (simp only: sint_signed_drop_bit_eq drop_bit_eq_div)
qed

lemma drop_bit_int: "drop_bit k a = word_of_int (uint (a :: 'a::len word) div 2 ^ k)"
proof -
  have "word_of_int (uint (drop_bit k a)) = drop_bit k a" by simp
  moreover have "uint (drop_bit k a) = drop_bit k (uint a)" by (rule bit_eqI) (auto simp: bit_simps dest: bit_imp_le_length)
  ultimately show ?thesis by (simp only: drop_bit_eq_div [of k "uint a"])
qed

lemma push_bit_int: "push_bit k a = word_of_int (uint (a :: 'a::len word) * 2 ^ k)"
  by (simp add: push_bit_eq_mult)

lemma ucast_word_of_int: "LENGTH('b) \<le> LENGTH('a) \<Longrightarrow> ucast (word_of_int k :: 'a::len word) = (word_of_int k :: 'b::len word)"
  by (simp only: ucast_eq uint_word_of_int_eq wi_bintr)

lemma ucast_arith:
  "ucast ((a :: u64) + b) = (ucast a + ucast b :: u32)"
  "ucast ((a :: u64) - b) = (ucast a - ucast b :: u32)"
  "ucast (push_bit k (a :: u64)) = (push_bit k (ucast a) :: u32)"
proof -
  show "ucast (a + b) = (ucast a + ucast b :: u32)"
    unfolding word_add_def [of a b] by (subst ucast_word_of_int) simp_all
  show "ucast (a - b) = (ucast a - ucast b :: u32)"
    unfolding word_sub_wi [of a b] by (subst ucast_word_of_int) simp_all
  show "ucast (push_bit k a) = (push_bit k (ucast a) :: u32)"
    by (rule bit_word_eqI) (auto simp: bit_simps)
qed

lemma unat_and_shift:
  "unat ((b :: u32) AND 31) = unat b mod 32" "unat ((b :: u32) AND 63) = unat b mod 64"
  "unat ((c :: u64) AND 31) = unat c mod 32" "unat ((c :: u64) AND 63) = unat c mod 64"
proof -
  have m: "(31 :: u32) = mask 5" "(63 :: u32) = mask 6" "(31 :: u64) = mask 5" "(63 :: u64) = mask 6"
    by (simp_all add: mask_eq_exp_minus_1)
  show "unat (b AND 31) = unat b mod 32" "unat (b AND 63) = unat b mod 64"
    "unat (c AND 31) = unat c mod 32" "unat (c AND 63) = unat c mod 64"
    unfolding m take_bit_eq_mask [symmetric] unsigned_take_bit_eq by (simp_all add: take_bit_eq_mod)
qed

lemma bext_eq: "drop_bit k a AND 1 = of_bool (bit (a :: u64) k)"
  by (rule bit_word_eqI) (auto simp: bit_simps)

lemma word_of_bits_eqI: "(\<And>n. n < LENGTH('a) \<Longrightarrow> bit w n = f n) \<Longrightarrow> w = (word_of_bits f :: 'a::len word)"
  unfolding word_of_bits_def by (rule bit_word_eqI) (simp add: bit_horner_sum_bit_word_iff)

lemma orc_b_eq: "orc_b v = word_of_bits (\<lambda>i. \<exists>j < 8. bit v (8 * (i div 8) + j))"
  by (rule word_of_bits_eqI) (simp add: bit_orc_b)

lemma bswap64_eq: "bswap64 v = word_of_bits (\<lambda>i. bit v (56 - 8 * (i div 8) + i mod 8))"
  by (rule word_of_bits_eqI) (simp add: bit_bswap64)

lemma signed_less_int: "(a <s b) = (sint a < sint b)" "(c < d) = (uint c < uint d)" for a b c d :: "'a::len word"
  by (simp_all add: word_sless_alt word_less_def)

lemma overflow_sint: "sint (push_bit 63 1 :: u64) = - (2 ^ 63)" "sint (0x80000000 :: u32) = - (2 ^ 31)"
  by simp_all

lemma div64_int: "b \<noteq> 0 \<Longrightarrow> div64 a b = word_of_int (sint a sdiv sint b)"
  "b \<noteq> 0 \<Longrightarrow> rem64 a b = word_of_int (sint a smod sint b)"
  by (auto simp: div64_def rem64_def overflow_sint signed_divide_int_def signed_modulo_int_def)

lemma div32_int: "b \<noteq> 0 \<Longrightarrow> div32 a b = word_of_int (sint a sdiv sint b)"
  "b \<noteq> 0 \<Longrightarrow> rem32 a b = word_of_int (sint a smod sint b)"
  by (auto simp: div32_def rem32_def overflow_sint signed_divide_int_def signed_modulo_int_def)

end
