(* ===== verification/Isa_Refine.thy ===== *)
theory Isa_Refine
  imports Encoding
begin

text \<open>
  The interpreter implements the instruction set of \<open>Isa\<close>: \<open>exec_insn\<close> on the encoding of an
  instruction has the effect the specification gives.
\<close>

lemma write_x_eq: "write_x 4 rd v s = next_insn 4 (set_rd (unat rd) v s)"
  by (simp add: write_x_def set_rd_def set_reg_def unat_eq_0)

lemma write_x_fun: "write_x 4 rd = (\<lambda>v s. next_insn 4 (set_rd (unat rd) v s))"
  by (simp add: fun_eq_iff write_x_eq)

lemma write_f_fun: "write_f 4 rd = (\<lambda>v s. fp_done (set_fp (unat rd) v s))"
  by (simp add: fun_eq_iff write_f_def fp_done_def set_fp_def)

lemma exec_alu_write:
  "f_rd insn = unat rd \<Longrightarrow> exec_alu insn (Some v) s = write_x 4 rd v s"
  by (simp add: exec_alu_def write_x_eq)

text \<open>The specification's values in the operations of the C code.\<close>

lemma shift_sem_word:
  "shift_sem SLLI a k = push_bit k a" "shift_sem SRLI a k = drop_bit k a"
  "shift_sem SRAI a k = signed_drop_bit k a" "shift_sem RORI a k = word_rotr k a"
  "shift_sem BSETI a k = a OR push_bit k 1" "shift_sem BCLRI a k = a AND NOT (push_bit k 1)"
  "shift_sem BINVI a k = a XOR push_bit k 1" "shift_sem BEXTI a k = drop_bit k a AND 1"
  by (simp_all only: shift_sem.simps push_bit_int drop_bit_int [symmetric] signed_drop_bit_int bext_eq
      set_bit_eq_or unset_bit_eq_and_not flip_bit_eq_xor)

lemma shiftw_sem_word:
  "shiftw_sem SLLIW a k = push_bit k a" "shiftw_sem SRLIW a k = drop_bit k a"
  "shiftw_sem SRAIW a k = signed_drop_bit k a" "shiftw_sem RORIW a k = word_rotr k a"
  by (simp_all only: shiftw_sem.simps push_bit_int drop_bit_int signed_drop_bit_int)

declare shift_sem_word [simp] shiftw_sem_word [simp]

lemma rot64: "rotr_c (a :: u64) (imm AND 63) = word_rotr (unat (imm AND 63)) a"
  "rotr_c (a :: u64) (ucast (b AND 63 :: u64)) = word_rotr (unat b mod 64) a"
  "rotl_c (a :: u64) (ucast (b AND 63 :: u64)) = word_rotl (unat b mod 64) a"
proof -
  have u: "unat (ucast (b AND 63) :: u32) = unat b mod 64"
    using mod_less_divisor [of 64 "unat b"]
    by (simp add: unsigned_ucast_eq unat_and_shift take_bit_nat_eq_self)
  have l: "unat (imm AND 63) < 64" by (simp add: unat_and_shift)
  show "rotr_c a (imm AND 63) = word_rotr (unat (imm AND 63)) a"
    using l by (intro rotr_c_eq [where k = 6]) simp_all
  show "rotr_c a (ucast (b AND 63)) = word_rotr (unat b mod 64) a"
    "rotl_c a (ucast (b AND 63)) = word_rotl (unat b mod 64) a"
    using rotr_c_eq [where k = 6, of "ucast (b AND 63)" a] rotl_c_eq [where k = 6, of "ucast (b AND 63)" a]
    by (simp_all add: u)
qed

lemma rot32: "rotr_c (a :: u32) (imm AND 31) = word_rotr (unat (imm AND 31)) a"
  "rotr_c (a :: u32) (ucast (b AND 31 :: u64)) = word_rotr (unat b mod 32) a"
  "rotl_c (a :: u32) (ucast (b AND 31 :: u64)) = word_rotl (unat b mod 32) a"
proof -
  have u: "unat (ucast (b AND 31) :: u32) = unat b mod 32"
    using mod_less_divisor [of 32 "unat b"]
    by (simp add: unsigned_ucast_eq unat_and_shift take_bit_nat_eq_self)
  have l: "unat (imm AND 31) < 32" by (simp add: unat_and_shift)
  show "rotr_c a (imm AND 31) = word_rotr (unat (imm AND 31)) a"
    using l by (intro rotr_c_eq [where k = 5]) simp_all
  show "rotr_c a (ucast (b AND 31)) = word_rotr (unat b mod 32) a"
    "rotl_c a (ucast (b AND 31)) = word_rotl (unat b mod 32) a"
    using rotr_c_eq [where k = 5, of "ucast (b AND 31)" a] rotl_c_eq [where k = 5, of "ucast (b AND 31)" a]
    by (simp_all add: u)
qed

lemma minmax_word:
  "word_of_int (min (sint a) (sint b)) = (if a <s b then a else b)"
  "word_of_int (max (sint a) (sint b)) = (if b <s a then a else b)"
  "min a b = (if a < b then a else b)" "max a b = (if b < a then a else b)" for a b :: u64
  by (auto simp: min_def max_def word_sless_alt)

lemma divu_word:
  "divu64 a b = (if b = 0 then - 1 else word_of_int (uint a div uint b))"
  "remu64 a b = (if b = 0 then a else word_of_int (uint a mod uint b))"
  by (simp_all add: divu64_def remu64_def word_div_def word_mod_def)

lemmas op_values = op_reg_def op_base_def op_bit_def op_m_def unat_and_shift rot64 minmax_word
  signed_less_int mulh64_eq mulhsu64_eq mulhu64_eq div64_int d64.quot_zero d64.rem_zero divu_word
  push_bit_eq_mult

lemma op_reg_value:
  "op_reg (enc_r (fst (op_code opn)) rs2 rs1 (snd (op_code opn)) rd 0x33) a b = Some (op_sem opn a b)"
  by (cases opn) (simp_all add: op_values)

lemma low_op_scast: "low_op f a b = scast (f (ucast a) (ucast b))"
  by (simp only: low_op_def scast_eq)

lemma sext_32: "sext v 32 = v"
  by (rule bit_word_eqI) (simp add: bit_sext)

lemma unat_low: "unat (ucast (b :: u64) :: u32) mod 32 = unat b mod 32"
  by (simp add: unsigned_ucast_eq take_bit_eq_mod mod_mod_cancel)

lemma zx32_int: "zx32 a = word_of_int (uint (ucast a :: u32))"
  by (simp only: zx32_def ucast_eq)

lemma zext_h_int: "ucast (ucast (a :: u64) :: u16) = (word_of_int (uint (ucast a :: u16)) :: u64)"
  by (simp only: ucast_eq)

lemmas opw_values = op_reg_32_def op_base_32_def op_bit_32_def op_m_32_def low_op_scast sx32_def sext_32
  unat_and_shift unat_low rot32 ucast_arith div32_int d32.quot_zero d32.rem_zero
  divu32_def remu32_def push_bit_eq_mult [where 'a = u64]

lemma op_reg_32_value:
  "op_reg_32 (enc_r (fst (opw_code opn)) rs2 rs1 (snd (opw_code opn)) rd 0x3b) a b = Some (opw_sem opn a b)"
  by (cases opn) (simp_all add: opw_values zx32_def)

lemma zext_h_value:
  "op_reg_32 (enc_r 4 0 rs1 4 rd 0x3b) a b = Some (word_of_int (uint (ucast a :: u16)))"
  by (simp add: op_reg_32_def op_bit_32_def)

section \<open>Immediate operations\<close>

lemma scast_imm [simp]: "scast (scast (imm :: 12 word) :: u32) = (scast imm :: u64)"
  by (rule bit_word_eqI) (auto simp: bit_simps min_def)

lemma sint_imm: "sint (scast (imm :: 12 word) :: u64) = sint imm"
  by (rule sint_up_scast) (simp add: is_up)

lemma op_imm_value: "op_imm (ucast (opi_code opn)) (scast imm) v = Some (opi_sem opn v imm)"
  by (cases opn) (simp_all add: op_imm_def word_sless_alt sint_imm)

text \<open>A shift immediate: six fixed bits over the amount.\<close>

lemma shift_imm:
  fixes h sh :: "6 word"
  assumes "\<not> bit h 5"
  defines "i \<equiv> (scast (push_bit 6 (ucast h) OR ucast sh :: 12 word) :: u32)"
  shows "i AND 63 = ucast sh" "i AND NOT 63 = push_bit 6 (ucast h)"
proof -
  have z: "\<not> bit h n" if "5 \<le> n" for n
    using that assms(1) bit_narrow [of h n] by (cases "n = 5") auto
  have b: "bit i n \<longleftrightarrow> n < 32 \<and> (if n < 6 then bit sh n else bit h (n - 6))" for n
    using z [of "n - 6"] z [of 5] unfolding i_def
    by (cases "n < 11") (auto simp: bit_simps bit_ucast_small min_def dest: bit_narrow)
  have m: "(63 :: u32) = mask 6" by (simp add: mask_eq_exp_minus_1)
  show "i AND 63 = ucast sh"
    unfolding m by (rule bit_word_eqI) (auto simp: bit_and_iff bit_mask_iff b bit_ucast_small dest: bit_narrow)
  show "i AND NOT 63 = push_bit 6 (ucast h)"
    unfolding m by (rule bit_word_eqI) (auto simp: bit_and_iff bit_mask_iff bit_not_iff b bit_push_bit_iff bit_ucast_small)
qed

lemma op_imm_1_shift:
  "imm AND NOT 63 = h \<Longrightarrow> imm AND 63 = l \<Longrightarrow> h \<in> {0, 0x480, 0x680, 0x280} \<Longrightarrow>
   op_imm_1 imm v = Some (if h = 0 then push_bit (unat l) v else if h = 0x480 then v AND NOT (push_bit (unat l) 1)
     else if h = 0x680 then v XOR push_bit (unat l) 1 else v OR push_bit (unat l) 1)"
  by (simp only: op_imm_1_def Let_def) (auto simp del: not_numeral_eq)

lemma op_imm_5_shift:
  assumes h: "imm AND NOT 63 = h" and l: "imm AND 63 = l" and "h \<in> {0, 0x400, 0x600, 0x480}"
  shows "op_imm_5 imm v = Some (if h = 0 then drop_bit (unat l) v
     else if h = 0x400 then signed_drop_bit (unat l) v
     else if h = 0x600 then word_rotr (unat l) v else drop_bit (unat l) v AND 1)"
proof -
  have a: "imm AND NOT (63 OR 0x400) = h AND NOT 0x400"
    unfolding h [symmetric] by (simp only: bit.de_Morgan_disj and.assoc)
  have "h AND 0x400 = imm AND (NOT 63 AND 0x400)" unfolding h [symmetric] by (simp only: and.assoc)
  then have b: "imm AND 0x400 = h AND 0x400" by simp
  have r: "rotr_c v l = word_rotr (unat l) v" using rot64(1) [of v imm] by (simp only: l)
  show ?thesis
    using assms(3) by (simp only: op_imm_5_def Let_def a b h l r) auto
qed

lemma unat_shamt: "unat (ucast (sh :: 6 word) :: u32) = unat sh"
  using unsigned_less [of sh, where 'a = nat] by (simp add: unsigned_ucast_eq take_bit_nat_eq_self)

lemma shift_imm_value:
  fixes sh :: "6 word"
  shows "op_imm (ucast (snd (shift_code opn))) (scast (push_bit 6 (ucast (fst (shift_code opn))) OR ucast sh :: 12 word)) v =
     Some (shift_sem opn v (unat sh))"
proof -
  let ?i = "scast (push_bit 6 (ucast (fst (shift_code opn))) OR ucast sh :: 12 word) :: u32"
  have "\<not> bit (fst (shift_code opn)) 5" by (cases opn) simp_all
  note i = shift_imm [OF this, of sh]
  have 1: "op_imm 1 ?i v = op_imm_1 ?i v" and 5: "op_imm 5 ?i v = op_imm_5 ?i v"
    by (simp_all add: op_imm_def)
  show ?thesis
  proof (cases "snd (shift_code opn) = 1")
    case True
    have "op_imm_1 ?i v = Some (shift_sem opn v (unat sh))"
      using True by (subst op_imm_1_shift [OF i(2,1)]) (cases opn; simp add: unat_shamt)+
    with True 1 show ?thesis by (simp)
  next
    case False
    then have f: "snd (shift_code opn) = 5" by (cases opn) simp_all
    have "op_imm_5 ?i v = Some (shift_sem opn v (unat sh))"
      using f by (subst op_imm_5_shift [OF i(2,1)]) (cases opn; simp add: unat_shamt)+
    with f 5 show ?thesis by (simp)
  qed
qed

lemma unary_value: "op_imm (ucast (snd (unary_code opn))) (scast (fst (unary_code opn))) v = Some (unary_sem opn v)"
  by (cases opn) (simp_all add: op_imm_def op_imm_1_def op_imm_5_def builtin_clz_Max builtin_ctz_Min
      builtin_popcount_card sx8_def sx16_def orc_b_eq bswap64_eq)

text \<open>The word shifts: seven fixed bits over a five-bit amount, and \<open>slli.uw\<close>.\<close>

lemma shiftw_imm:
  fixes h :: "7 word" and sh :: "5 word"
  assumes "\<not> bit h 6"
  defines "i \<equiv> (scast (push_bit 5 (ucast h) OR ucast sh :: 12 word) :: u32)"
  shows "i AND 31 = ucast sh" "i AND NOT 31 = push_bit 5 (ucast h)"
proof -
  have z: "\<not> bit h n" if "6 \<le> n" for n
    using that assms(1) bit_narrow [of h n] by (cases "n = 6") auto
  have b: "bit i n \<longleftrightarrow> n < 32 \<and> (if n < 5 then bit sh n else bit h (n - 5))" for n
    using z [of "n - 5"] z [of 6] unfolding i_def
    by (cases "n < 11") (auto simp: bit_simps bit_ucast_small min_def dest: bit_narrow)
  have m: "(31 :: u32) = mask 5" by (simp add: mask_eq_exp_minus_1)
  show "i AND 31 = ucast sh"
    unfolding m by (rule bit_word_eqI) (auto simp: bit_and_iff bit_mask_iff b bit_ucast_small dest: bit_narrow)
  show "i AND NOT 31 = push_bit 5 (ucast h)"
    unfolding m by (rule bit_word_eqI) (auto simp: bit_and_iff bit_mask_iff bit_not_iff b bit_push_bit_iff bit_ucast_small)
qed

lemma op_imm_32_shift:
  assumes h: "imm AND NOT 31 = h" and l: "imm AND 31 = l"
  shows "h = 0 \<Longrightarrow> op_imm_32 1 imm v = Some (sx32 (push_bit (unat l) v))"
    "h \<in> {0, 0x400, 0x600} \<Longrightarrow> op_imm_32 5 imm v = Some (scast
       (if h = 0 then drop_bit (unat l) (ucast v :: u32)
        else if h = 0x400 then signed_drop_bit (unat l) (ucast v) else word_rotr (unat l) (ucast v)))"
proof -
  have a: "imm AND NOT (31 OR 0x400) = h AND NOT 0x400"
    unfolding h [symmetric] by (simp only: bit.de_Morgan_disj and.assoc)
  have "h AND 0x400 = imm AND (NOT 31 AND 0x400)" unfolding h [symmetric] by (simp only: and.assoc)
  then have b: "imm AND 0x400 = h AND 0x400" by simp
  have r: "rotr_c w l = word_rotr (unat l) w" for w :: u32 using rot32(1) [of w imm] by (simp only: l)
  show "h = 0 \<Longrightarrow> op_imm_32 1 imm v = Some (sx32 (push_bit (unat l) v))"
    by (simp only: op_imm_32_def Let_def h l) simp
  show "h \<in> {0, 0x400, 0x600} \<Longrightarrow> op_imm_32 5 imm v = Some (scast
       (if h = 0 then drop_bit (unat l) (ucast v :: u32)
        else if h = 0x400 then signed_drop_bit (unat l) (ucast v) else word_rotr (unat l) (ucast v)))"
    by (simp only: op_imm_32_def Let_def a b h l r) auto
qed

lemma shiftw_imm_value:
  fixes sh :: "5 word"
  shows "op_imm_32 (ucast (snd (shiftw_code opn)))
     (scast (push_bit 5 (ucast (fst (shiftw_code opn))) OR ucast sh :: 12 word)) v =
     Some (low_op (\<lambda>x _. shiftw_sem opn x (unat sh)) v 0)"
proof -
  have "\<not> bit (fst (shiftw_code opn)) 6" by (cases opn) simp_all
  note i = shiftw_imm [OF this, of sh]
  show ?thesis
  proof (cases "opn = SLLIW")
    case True
    then show ?thesis
      using op_imm_32_shift(1) [OF i(2,1), of v] by (simp add: low_op_scast sx32_def ucast_arith)
  next
    case False
    then have f: "snd (shiftw_code opn) = 5" by (cases opn) simp_all
    then show ?thesis
      using op_imm_32_shift(2) [OF i(2,1), of v] False by (cases opn) (simp_all add: low_op_scast)
  qed
qed

lemma slli_uw_value:
  fixes sh :: "6 word"
  shows "op_imm_32 1 (scast (0x80 OR ucast sh :: 12 word)) v = Some (word_of_int (uint (ucast v :: u32) * 2 ^ unat sh))"
proof -
  have "\<not> bit (2 :: 6 word) 5" by simp
  note i = shift_imm [OF this, of sh]
  let ?i = "scast (0x80 OR ucast sh :: 12 word) :: u32"
  have hi: "?i AND NOT 63 = 0x80" and lo: "?i AND 63 = ucast sh" using i by simp_all
  have n: "?i AND NOT 31 \<noteq> 0"
  proof
    assume z: "?i AND NOT 31 = 0"
    have "?i AND NOT 63 = (?i AND NOT 31) AND NOT 32"
      by (simp only: and.assoc bit.de_Morgan_disj [symmetric]) simp
    with z hi show False by simp
  qed
  have "op_imm_32 1 ?i v = Some (push_bit (unat sh) (zx32 v))"
    using n hi lo by (simp only: op_imm_32_def Let_def) (simp add: unat_shamt)
  then show ?thesis by (simp add: zx32_int push_bit_eq_mult)
qed

lemma unaryw_value: "op_imm_32 1 (scast (unaryw_code opn)) v = Some (unaryw_sem opn (ucast v))"
  by (cases opn) (simp_all add: op_imm_32_def Let_def builtin_clz_Max builtin_ctz_Min builtin_popcount_card)

lemma addiw_value: "op_imm_32 0 (scast imm) v = Some (low_op (\<lambda>x _. x + scast (imm :: 12 word)) v 0)"
proof -
  have "ucast (scast imm :: u64) = (scast imm :: u32)"
    by (rule bit_word_eqI) (auto simp: bit_simps)
  then show ?thesis by (simp add: op_imm_32_def Let_def low_op_scast sx32_def ucast_arith)
qed

section \<open>Every instruction\<close>

lemma branch_value: "branch_cond (ucast (branch_code c)) a b = Some (branch_sem c a b)"
  by (cases c) (auto simp: branch_cond_def Let_def signed_less_int)

lemma load_values: "sx8 v = load_sem LB v" "sx16 v = load_sem LH v" "sx32 v = load_sem LW v"
  by (simp_all only: load_sem.simps sx8_def sx16_def sx32_def scast_eq)

lemma exec_insn_encode:
  "exec_insn ops (encode i) s = isa_exec ops 4 i s"
proof (cases i)
  case (Op opn rd rs1 rs2)
  then show ?thesis by (simp add: exec_insn_def Let_def exec_op_def op_reg_value exec_alu_write)
next
  case (Opw opn rd rs1 rs2)
  then show ?thesis by (simp add: exec_insn_def Let_def exec_op_32_def op_reg_32_value exec_alu_write)
next
  case (Load w rd rs1 imm)
  then show ?thesis
    by (cases w) (simp_all add: exec_insn_def Let_def exec_load_def load_values write_x_fun id_def del: load_sem.simps(1-3))
next
  case (Store w rs2 rs1 imm)
  then show ?thesis by (cases w) (simp_all add: exec_insn_def Let_def exec_store_def)
next
  case (Branch c rs1 rs2 off)
  then show ?thesis by (simp add: exec_insn_def Let_def exec_branch_def branch_value)
qed (simp_all add: exec_insn_def Let_def exec_lui_def exec_auipc_def exec_jal_def exec_jalr_def exec_op_imm_def
      exec_op_imm_32_def exec_op_32_def exec_fp_load_def exec_fp_store_def write_x_eq exec_alu_write
      op_imm_value shift_imm_value unary_value addiw_value shiftw_imm_value slli_uw_value unaryw_value zext_h_value
      next_insn_def write_f_fun)

end
