(* ===== verification/Isa_C_Refine.thy ===== *)
theory Isa_C_Refine
  imports Isa_C Isa_Refine
begin

text \<open>
  The interpreter executes a compressed instruction as the instruction it expands to: every field
  and immediate the C code takes from a parcel is the one encoded, whatever follows the parcel in
  the fetched word.
\<close>

section \<open>Bits of a fetched parcel\<close>

lemma bit_encode_c:
  assumes "length (c_bits i) = 16" "n < 16"
  shows "bit (encode_c following i) n = rev (c_bits i) ! n"
proof -
  have "bit (parcel (c_bits i)) n = rev (c_bits i) ! n"
    using assms by (simp add: parcel_def bit_horner_sum_bit_word_iff)
  then show ?thesis
    using assms(2) by (simp add: encode_c_def bit_simps bit_ucast_small)
qed

lemma length_c_bits: "length (c_bits i) = 16"
proof -
  have "length (snd (arith_bits p)) = 2" "length (unary_bits q) = 3" for p q
    by (cases p; simp) (cases q; simp)
  then show ?thesis by (cases i) (simp_all add: bits_def)
qed

lemmas bit_c = bit_encode_c [OF length_c_bits]

section \<open>Fields\<close>

lemma field_horner:
  "w \<le> 32 \<Longrightarrow> drop_bit k e AND mask w = (horner_sum of_bool 2 (map (bit e) [k..<k + w]) :: u32)"
  by (rule bit_word_eqI) (auto simp: bit_horner_sum_bit_word_iff bit_and_iff bit_mask_iff bit_drop_bit_eq)

lemma field_bits:
  "drop_bit k e AND 1 = (horner_sum of_bool 2 [bit e k] :: u32)"
  "drop_bit k e AND 3 = (horner_sum of_bool 2 [bit e k, bit e (k + 1)] :: u32)"
  "drop_bit k e AND 7 = (horner_sum of_bool 2 [bit e k, bit e (k + 1), bit e (k + 2)] :: u32)"
  using field_horner [of 1 k e] field_horner [of 2 k e] field_horner [of 3 k e]
  by (simp_all add: mask_eq_exp_minus_1 upt_rec eval_nat_numeral)

lemma reg_field:
  fixes r :: regno and e :: u32
  assumes "\<forall>i < 5. bit e (k + i) = bit r i"
  shows "unat (drop_bit k e AND 0x1f) = unat r"
proof -
  have "drop_bit k e AND 0x1f = ucast r"
  proof (rule bit_word_eqI)
    fix n assume "n < LENGTH(32)"
    then show "bit (drop_bit k e AND 0x1f) n = bit (ucast r :: u32) n"
      unfolding small_masks using assms
      by (cases "n < 5") (auto simp: bit_and_iff bit_mask_iff bit_drop_bit_eq bit_ucast_small dest: bit_narrow)
  qed
  then show ?thesis by simp
qed

lemma bit_8: "bit (8 :: u32) n \<longleftrightarrow> n = 3" "bit (8 :: regno) n \<longleftrightarrow> n = 3"
  using bit_exp_iff [of 3 n, where 'a = u32] bit_exp_iff [of 3 n, where 'a = regno] by auto

lemma creg_ucast: "ucast r OR 8 = (ucast (creg r) :: u32)"
proof (rule bit_word_eqI)
  fix n assume "n < LENGTH(32)"
  then show "bit (ucast r OR 8 :: u32) n = bit (ucast (creg r) :: u32) n"
    unfolding creg_def bit_ucast_small bit_or_iff bit_8
    using bit_narrow [of r n] by auto
qed

lemma creg_field:
  fixes r :: cregno and e :: u32
  assumes "\<forall>i < 3. bit e (k + i) = bit r i"
  shows "unat (drop_bit k e AND 7 OR 8) = unat (creg r)"
proof -
  have f: "drop_bit k e AND 7 = ucast r"
  proof (rule bit_word_eqI)
    fix n assume "n < LENGTH(32)"
    then show "bit (drop_bit k e AND 7) n = bit (ucast r :: u32) n"
      unfolding small_masks using assms
      by (cases "n < 3") (auto simp: bit_and_iff bit_mask_iff bit_drop_bit_eq bit_ucast_small dest: bit_narrow)
  qed
  show ?thesis by (simp only: f creg_ucast unat_regno)
qed

lemma all_less_numeral: "(\<forall>i < 5. P i) = (P 0 \<and> P 1 \<and> P 2 \<and> P 3 \<and> P (4::nat))"
  "(\<forall>i < 3. P i) = (P 0 \<and> P 1 \<and> P (2::nat))"
  by (auto simp: eval_nat_numeral less_Suc_eq)

lemma c_fields:
  fixes rd :: regno and r :: cregno
  shows "bit e 7 = bit rd 0 \<Longrightarrow> bit e 8 = bit rd 1 \<Longrightarrow> bit e 9 = bit rd 2 \<Longrightarrow> bit e 10 = bit rd 3 \<Longrightarrow>
     bit e 11 = bit rd 4 \<Longrightarrow> f_rd e = unat rd"
   "bit e 2 = bit rd 0 \<Longrightarrow> bit e 3 = bit rd 1 \<Longrightarrow> bit e 4 = bit rd 2 \<Longrightarrow> bit e 5 = bit rd 3 \<Longrightarrow>
     bit e 6 = bit rd 4 \<Longrightarrow> c_rs2 e = unat rd"
   "bit e 7 = bit r 0 \<Longrightarrow> bit e 8 = bit r 1 \<Longrightarrow> bit e 9 = bit r 2 \<Longrightarrow> c_reg_7 e = unat (creg r)"
   "bit e 2 = bit r 0 \<Longrightarrow> bit e 3 = bit r 1 \<Longrightarrow> bit e 4 = bit r 2 \<Longrightarrow> c_reg_2 e = unat (creg r)"
  unfolding f_rd_def c_rs2_def c_reg_7_def c_reg_2_def
  by (rule reg_field creg_field; simp add: all_less_numeral numeral_2_eq_2 [symmetric])+

section \<open>Immediates\<close>

lemma imm_eqI:
  fixes x y :: u32
  assumes "bit x 0 = bit y 0" "bit x 1 = bit y 1" "bit x 2 = bit y 2" "bit x 3 = bit y 3" "bit x 4 = bit y 4"
    "bit x 5 = bit y 5" "bit x 6 = bit y 6" "bit x 7 = bit y 7" "bit x 8 = bit y 8" "bit x 9 = bit y 9"
    "bit x 10 = bit y 10" "bit x 11 = bit y 11" "bit x 12 = bit y 12" "bit x 13 = bit y 13"
    "bit x 14 = bit y 14" "bit x 15 = bit y 15" "bit x 16 = bit y 16" "bit x 17 = bit y 17"
    "\<And>n. 18 \<le> n \<Longrightarrow> n < 32 \<Longrightarrow> bit x n = bit y n"
  shows "x = y"
proof (rule bit_word_eqI)
  fix n assume "n < LENGTH(32)"
  then have "n < 32" by simp
  show "bit x n = bit y n"
  proof (cases "n < 18")
    case True
    then have "n \<in> set [0..<18]" by simp
    moreover have "[0..<18] = [0, 1, 2, 3, 4, 5, 6, 7, 8, 9, 10, 11, 12, 13, 14, 15, 16, 17]"
      by (simp add: upt_rec)
    ultimately have "n \<in> {0, 1, 2, 3, 4, 5, 6, 7, 8, 9, 10, 11, 12, 13, 14, 15, 16, 17}" by (simp only: list.set)
    then show ?thesis by (elim insertE emptyE) (simp_all only: assms(1-18))
  next
    case False
    then show ?thesis using \<open>n < 32\<close> by (intro assms(19)) simp_all
  qed
qed

lemma bit_outside: "LENGTH('a) \<le> n \<Longrightarrow> \<not> bit (w :: 'a::len word) n"
  by (auto dest: bit_narrow)

lemma field_masks: "(0x1f :: u32) = mask 5" "push_bit 3 3 = (push_bit 3 (mask 2) :: u32)" "push_bit 2 7 = (push_bit 2 (mask 3) :: u32)"
  by (simp_all add: mask_eq_exp_minus_1)

lemmas imm_bits = bit_or_iff bit_and_iff bit_mask_iff bit_drop_bit_eq bit_sext bit_get_field1 bit_signed_iff bit_push_bit_iff
  bit_ucast_small bit_outside numeral_2_eq_2 [symmetric] less_diff_conv2 min_less_iff_disj

text \<open>Scaled offsets of loads and stores.\<close>

lemma imm_c_mem:
  fixes w5 :: "5 word" and w6 :: "6 word" and w2 :: "2 word"
  shows "bits e [12, 11, 10, 6, 5] = bits w5 [3, 2, 1, 0, 4] \<Longrightarrow>
      imm_c_lw e = scast (push_bit 2 (ucast w5) :: 12 word)"
    "bits e [12, 11, 10, 6, 5] = bits w5 [2, 1, 0, 4, 3] \<Longrightarrow>
      imm_c_ld e = scast (push_bit 3 (ucast w5) :: 12 word)"
    "bits e [6, 5] = bits w2 [0, 1] \<Longrightarrow> imm_c_lbu e = scast (ucast w2 :: 12 word)"
    "bits e [12, 11, 10, 9, 8, 7] = bits w6 [3, 2, 1, 0, 5, 4] \<Longrightarrow>
      imm_c_swsp e = scast (push_bit 2 (ucast w6) :: 12 word)"
    "bits e [12, 11, 10, 9, 8, 7] = bits w6 [2, 1, 0, 5, 4, 3] \<Longrightarrow>
      imm_c_sdsp e = scast (push_bit 3 (ucast w6) :: 12 word)"
  unfolding bits_def imm_c_lw_def imm_c_ld_def imm_c_lbu_def imm_c_swsp_def imm_c_sdsp_def
  by (rule imm_eqI; simp add: imm_bits)+

lemma imm_c_sp:
  fixes w6 :: "6 word"
  shows "bits e [12, 6, 5, 4, 3, 2] = bits w6 [3, 2, 1, 0, 5, 4] \<Longrightarrow>
      imm_c_lwsp e = scast (push_bit 2 (ucast w6) :: 12 word)"
    "bits e [12, 6, 5, 4, 3, 2] = bits w6 [2, 1, 0, 5, 4, 3] \<Longrightarrow>
      imm_c_ldsp e = scast (push_bit 3 (ucast w6) :: 12 word)"
  unfolding bits_def imm_c_lwsp_def imm_c_ldsp_def field_masks
  by (rule imm_eqI; simp add: imm_bits)+

text \<open>Immediate operands.\<close>

lemma imm_c_arith:
  fixes w6 :: "6 word" and w8 :: "8 word"
  shows "bits e [12, 6, 5, 4, 3, 2] = bits w6 [5, 4, 3, 2, 1, 0] \<Longrightarrow>
      imm_c_addi e = scast (scast w6 :: 12 word)"
    "bits e [12, 6, 5, 4, 3, 2] = bits w6 [5, 0, 2, 4, 3, 1] \<Longrightarrow>
      imm_c_addi16sp e = scast (push_bit 4 (scast w6) :: 12 word)"
    "bits e [12, 11, 10, 9, 8, 7, 6, 5] = bits w8 [3, 2, 7, 6, 5, 4, 0, 1] \<Longrightarrow>
      imm_c_addi4spn e = scast (push_bit 2 (ucast w8) :: 12 word)"
    "bits e [12, 6, 5, 4, 3, 2] = bits w6 [5, 4, 3, 2, 1, 0] \<Longrightarrow> imm_c_shamt e = ucast w6"
    "bits e [12, 6, 5, 4, 3, 2] = bits w6 [5, 4, 3, 2, 1, 0] \<Longrightarrow> imm_c_slli e = ucast w6"
  unfolding bits_def imm_c_addi_def imm_c_addi16sp_def imm_c_addi4spn_def imm_c_shamt_def imm_c_slli_def field_masks
  by (rule imm_eqI; simp add: imm_bits)+

lemma bit_times_2: "bit ((x :: 'a::len word) * 2) n \<longleftrightarrow> 0 < n \<and> n < LENGTH('a) \<and> bit x (n - 1)"
proof -
  have "x * 2 = push_bit 1 x" by (simp add: push_bit_eq_mult)
  then show ?thesis by (simp only: bit_push_bit_iff) auto
qed

lemma imm_c_half:
  fixes w1 :: "1 word"
  assumes "bits e [5] = bits w1 [0]"
  shows "ucast (get_field1 e 5 1 1) = (scast (push_bit 1 (ucast w1) :: 12 word) :: u64)"
proof -
  have "get_field1 e 5 1 1 = scast (push_bit 1 (ucast w1) :: 12 word)"
    using assms unfolding bits_def
    by (intro imm_eqI) (simp_all add: imm_bits bit_times_2)
  moreover have "ucast (get_field1 e 5 1 1) = (scast (get_field1 e 5 1 1) :: u64)"
    by (rule bit_word_eqI) (auto simp: bit_scast_u32 bit_ucast_small bit_get_field1 min_def)
  ultimately show ?thesis by (simp only: scast_imm)
qed

text \<open>Upper immediates and jump offsets.\<close>

lemma bit_word_of_double:
  "bit (word_of_int (2 * sint (off :: 'a::len word)) :: u32) n \<longleftrightarrow>
     0 < n \<and> n < 32 \<and> bit off (min (n - 1) (LENGTH('a) - 1))"
proof (cases n)
  case (Suc m)
  have "bit (2 * sint off) (Suc m) = bit (sint off) m" by (simp add: bit_double_iff)
  then show ?thesis unfolding Suc bit_word_of_int_iff by (auto simp: bit_sint)
qed (simp add: bit_word_of_int_iff bit_double_iff del: of_int_mult)

lemma scast_double:
  assumes "x = (word_of_int (2 * sint (off :: 'a::len word)) :: u32)" "LENGTH('a) \<le> 20"
  shows "scast x = (word_of_int (2 * sint off) :: u64)"
proof (rule bit_word_eqI)
  fix n assume "n < LENGTH(64)"
  then show "bit (scast x :: u64) n = bit (word_of_int (2 * sint off) :: u64) n"
    unfolding bit_scast_u32 assms(1) bit_word_of_double word_of_double_sint
    using assms(2) by (auto simp: min_def)
qed

lemma imm_c_jump:
  fixes w11 :: "11 word" and w8 :: "8 word"
  shows "bits e [12, 11, 10, 9, 8, 7, 6, 5, 4, 3, 2] = bits w11 [10, 3, 8, 7, 9, 5, 6, 2, 1, 0, 4] \<Longrightarrow>
      imm_c_j e = word_of_int (2 * sint (scast w11 :: 20 word))"
    "bits e [12, 11, 10, 6, 5, 4, 3, 2] = bits w8 [7, 3, 2, 6, 5, 1, 0, 4] \<Longrightarrow>
      imm_c_b e = word_of_int (2 * sint (scast w8 :: 12 word))"
  unfolding bits_def imm_c_j_def imm_c_b_def
  by (rule imm_eqI; simp add: bit_word_of_double imm_bits del: of_int_mult)+

lemma imm_c_lui_eq:
  fixes w6 :: "6 word"
  assumes "bits e [12, 6, 5, 4, 3, 2] = bits w6 [5, 4, 3, 2, 1, 0]"
  shows "imm_c_lui e = imm_u (enc_u (scast w6) 0 0)"
proof -
  have "bit (imm_u x) k \<longleftrightarrow> 12 \<le> k \<and> k < 32 \<and> bit x k" for x k
  proof -
    have "(0xfffff000 :: u32) = push_bit 12 (mask 20)" by (simp add: mask_eq_exp_minus_1)
    then show ?thesis using bit_field_down [of 0 x 12 20 k] by (simp only: imm_u_def) simp
  qed
  then show ?thesis
    using assms unfolding bits_def imm_c_lui_def
    by (intro imm_eqI) (simp_all add: imm_bits bit_enc_u)
qed

section \<open>Execution\<close>

lemma write_x_2: "write_x 2 rd v s = next_insn 2 (set_rd (unat rd) v s)"
  by (simp add: write_x_def set_rd_def set_reg_def unat_eq_0)

lemma write_x_fun_2: "write_x 2 rd = (\<lambda>v s. next_insn 2 (set_rd (unat rd) v s))"
  by (simp add: fun_eq_iff write_x_2)

lemma creg_not_0 [simp]: "creg r \<noteq> 0" "unat (creg r) \<noteq> 0" "0 < unat (creg r)"
proof -
  have "bit (creg r) 3" unfolding creg_def bit_or_iff bit_8 by simp
  then show "creg r \<noteq> 0" by auto
  then show "unat (creg r) \<noteq> 0" by (simp add: unat_eq_0)
  then show "0 < unat (creg r)" by simp
qed

lemma set_rd_creg: "set_rd (unat (creg r)) v s = set_reg (unat (creg r)) v s"
  by (simp add: set_rd_def)

lemma quadrant_bits: "f_opcode e AND 3 = horner_sum of_bool 2 [bit e 0, bit e 1]"
proof -
  have "f_opcode e AND 3 = e AND 3" unfolding f_opcode_def by (simp only: and.assoc) simp
  then show ?thesis using field_bits(2) [of 0 e] by simp
qed

text \<open>A field from its bits, the lowest first. With it every field and immediate is an equation on the
  parcel's bits, and the bits of a field put together are the field.\<close>

definition wb :: "bool list \<Rightarrow> 'a::len word" where
  "wb bs = horner_sum of_bool 2 bs"

lemma bit_wb: "bit (wb bs :: 'a::len word) n \<longleftrightarrow> n < LENGTH('a) \<and> n < length bs \<and> bs ! n"
  by (simp add: wb_def bit_horner_sum_bit_word_iff)

lemma wb_all: "wb (map (bit w) [0..<LENGTH('a)]) = (w :: 'a::len word)"
  by (rule bit_word_eqI) (simp add: bit_wb)

lemma wb_field [simp]:
  "wb [bit w1 0] = (w1 :: 1 word)" "wb [bit w2 0, bit w2 (Suc 0)] = (w2 :: 2 word)"
  "wb [bit w3 0, bit w3 (Suc 0), bit w3 2] = (w3 :: 3 word)"
  "wb [bit w5 0, bit w5 (Suc 0), bit w5 2, bit w5 3, bit w5 4] = (w5 :: 5 word)"
  "wb [bit w6 0, bit w6 (Suc 0), bit w6 2, bit w6 3, bit w6 4, bit w6 5] = (w6 :: 6 word)"
  "wb [bit w8 0, bit w8 (Suc 0), bit w8 2, bit w8 3, bit w8 4, bit w8 5, bit w8 6, bit w8 7] = (w8 :: 8 word)"
  "wb [bit w11 0, bit w11 (Suc 0), bit w11 2, bit w11 3, bit w11 4, bit w11 5, bit w11 6, bit w11 7, bit w11 8,
     bit w11 9, bit w11 10] = (w11 :: 11 word)"
  using wb_all [of w1] wb_all [of w2] wb_all [of w3] wb_all [of w5] wb_all [of w6] wb_all [of w8] wb_all [of w11]
  by (simp_all add: upt_rec numeral_2_eq_2 [symmetric])

lemma wb_zero [simp]: "wb [False, False, False, False, False] = 0"
  by (simp add: wb_def)

lemma wb_two [simp]: "wb [False, True, False, False, False] = 2"
  by (simp add: wb_def)

lemma upper_mask: "(0xfffff000 :: u32) = push_bit 12 (mask 20)"
  by (simp add: mask_eq_exp_minus_1)

lemma c_regs:
  "f_rd e = unat (wb [bit e 7, bit e 8, bit e 9, bit e 10, bit e 11] :: regno)"
  "c_rs2 e = unat (wb [bit e 2, bit e 3, bit e 4, bit e 5, bit e 6] :: regno)"
  "c_reg_7 e = unat (creg (wb [bit e 7, bit e 8, bit e 9]))"
  "c_reg_2 e = unat (creg (wb [bit e 2, bit e 3, bit e 4]))"
  by (rule c_fields; simp add: bit_wb)+

lemma c_imms:
  "imm_c_lw e = scast (push_bit 2 (ucast (wb [bit e 6, bit e 10, bit e 11, bit e 12, bit e 5] :: 5 word)) :: 12 word)"
  "imm_c_ld e = scast (push_bit 3 (ucast (wb [bit e 10, bit e 11, bit e 12, bit e 5, bit e 6] :: 5 word)) :: 12 word)"
  "imm_c_lbu e = scast (ucast (wb [bit e 6, bit e 5] :: 2 word) :: 12 word)"
  "imm_c_swsp e = scast (push_bit 2 (ucast (wb [bit e 9, bit e 10, bit e 11, bit e 12, bit e 7, bit e 8] :: 6 word)) :: 12 word)"
  "imm_c_sdsp e = scast (push_bit 3 (ucast (wb [bit e 10, bit e 11, bit e 12, bit e 7, bit e 8, bit e 9] :: 6 word)) :: 12 word)"
  "imm_c_lwsp e = scast (push_bit 2 (ucast (wb [bit e 4, bit e 5, bit e 6, bit e 12, bit e 2, bit e 3] :: 6 word)) :: 12 word)"
  "imm_c_ldsp e = scast (push_bit 3 (ucast (wb [bit e 5, bit e 6, bit e 12, bit e 2, bit e 3, bit e 4] :: 6 word)) :: 12 word)"
  "imm_c_addi e = scast (scast (wb [bit e 2, bit e 3, bit e 4, bit e 5, bit e 6, bit e 12] :: 6 word) :: 12 word)"
  "imm_c_addi16sp e = scast (push_bit 4 (scast (wb [bit e 6, bit e 2, bit e 5, bit e 3, bit e 4, bit e 12] :: 6 word)) :: 12 word)"
  "imm_c_addi4spn e = scast (push_bit 2 (ucast (wb [bit e 6, bit e 5, bit e 11, bit e 12, bit e 7, bit e 8, bit e 9, bit e 10] :: 8 word)) :: 12 word)"
  "imm_c_shamt e = ucast (wb [bit e 2, bit e 3, bit e 4, bit e 5, bit e 6, bit e 12] :: 6 word)"
  "imm_c_slli e = ucast (wb [bit e 2, bit e 3, bit e 4, bit e 5, bit e 6, bit e 12] :: 6 word)"
  "imm_c_lui e = imm_u (enc_u (scast (wb [bit e 2, bit e 3, bit e 4, bit e 5, bit e 6, bit e 12] :: 6 word)) 0 0)"
  by (rule imm_c_mem imm_c_sp imm_c_arith imm_c_lui_eq; simp add: bits_def bit_wb)+

lemma c_half:
  "ucast (get_field1 e 5 (Suc 0) (Suc 0)) = (scast (push_bit 1 (ucast (wb [bit e 5] :: 1 word)) :: 12 word) :: u64)"
  using imm_c_half [of e "wb [bit e 5]"] by (simp add: bits_def bit_wb)

lemma c_jumps:
  "scast (imm_c_j e) = (word_of_int (2 * sint (scast (wb [bit e 3, bit e 4, bit e 5, bit e 11, bit e 2, bit e 7,
     bit e 6, bit e 9, bit e 10, bit e 8, bit e 12] :: 11 word) :: 20 word)) :: u64)"
  "scast (imm_c_b e) = (word_of_int (2 * sint (scast (wb [bit e 3, bit e 4, bit e 10, bit e 11, bit e 2, bit e 5,
     bit e 6, bit e 12] :: 8 word) :: 12 word)) :: u64)"
  by (rule scast_double, rule imm_c_jump; simp add: bits_def bit_wb)+

lemma single_field: "drop_bit k e AND 4 = (of_bool (bit e (k + 2)) * 4 :: u32)" "e AND 64 = (of_bool (bit e 6) * 64 :: u32)"
  using and_exp_of_bool [of "drop_bit k e" 2] and_exp_of_bool [of e 6] by (simp_all add: bit_drop_bit_eq)

lemmas c_decode = quadrant_bits c_funct3_def field_bits single_field c_regs c_imms c_half c_jumps bit_c bits_def

lemma unat_shamt_6: "unat (ucast (w :: 6 word) :: u32) = unat w"
  using unsigned_less [of w, where 'a = nat] by (simp add: unsigned_ucast_eq take_bit_nat_eq_self)

text \<open>Compressed loads, stores and stack accesses.\<close>

lemma exec_c_mem:
  "exec_insn ops (encode_c h (C_LW rd rs w)) s = isa_exec ops 2 (expand (C_LW rd rs w)) s"
  "exec_insn ops (encode_c h (C_LD rd rs w)) s = isa_exec ops 2 (expand (C_LD rd rs w)) s"
  "exec_insn ops (encode_c h (C_SW rd rs w)) s = isa_exec ops 2 (expand (C_SW rd rs w)) s"
  "exec_insn ops (encode_c h (C_SD rd rs w)) s = isa_exec ops 2 (expand (C_SD rd rs w)) s"
  "exec_insn ops (encode_c h (C_LBU rd rs w2)) s = isa_exec ops 2 (expand (C_LBU rd rs w2)) s"
  "exec_insn ops (encode_c h (C_LHU rd rs w1)) s = isa_exec ops 2 (expand (C_LHU rd rs w1)) s"
  "exec_insn ops (encode_c h (C_LH rd rs w1)) s = isa_exec ops 2 (expand (C_LH rd rs w1)) s"
  "exec_insn ops (encode_c h (C_SB rd rs w2)) s = isa_exec ops 2 (expand (C_SB rd rs w2)) s"
  "exec_insn ops (encode_c h (C_SH rd rs w1)) s = isa_exec ops 2 (expand (C_SH rd rs w1)) s"
  by (simp_all add: exec_insn_def exec_quadrant0_def exec_zcb_mem_def Let_def c_decode write_x_fun_2 set_rd_creg
      load_values del: load_sem.simps(1-3))

lemma exec_c_sp:
  "exec_insn ops (encode_c h (C_LWSP rd w)) s = isa_exec ops 2 (expand (C_LWSP rd w)) s"
  "exec_insn ops (encode_c h (C_LDSP rd w)) s = isa_exec ops 2 (expand (C_LDSP rd w)) s"
  "exec_insn ops (encode_c h (C_SWSP rd w)) s = isa_exec ops 2 (expand (C_SWSP rd w)) s"
  "exec_insn ops (encode_c h (C_SDSP rd w)) s = isa_exec ops 2 (expand (C_SDSP rd w)) s"
  by (simp_all add: exec_insn_def exec_quadrant2_def Let_def c_decode write_x_fun_2 load_values
      del: load_sem.simps(1-3))

lemma write_f_2: "write_f 2 rd = (\<lambda>v s. next_insn 2 ((set_fp (unat rd) v s)\<lparr>fs := 3\<rparr>))"
  by (simp add: fun_eq_iff write_f_def set_fp_def)

lemma exec_c_fp:
  "exec_insn ops (encode_c h (C_FLD rd rs w)) s = isa_exec ops 2 (expand (C_FLD rd rs w)) s"
  "exec_insn ops (encode_c h (C_FSD rd rs w)) s = isa_exec ops 2 (expand (C_FSD rd rs w)) s"
  "exec_insn ops (encode_c h (C_FLDSP r w6)) s = isa_exec ops 2 (expand (C_FLDSP r w6)) s"
  "exec_insn ops (encode_c h (C_FSDSP r w6)) s = isa_exec ops 2 (expand (C_FSDSP r w6)) s"
  by (simp_all add: exec_insn_def exec_quadrant0_def exec_quadrant2_def Let_def c_decode write_f_2)

text \<open>Jumps and branches.\<close>

lemma exec_c_jump:
  assumes "reg s 0 = 0"
  shows "exec_insn ops (encode_c h (C_J w)) s = isa_exec ops 2 (expand (C_J w)) s"
    "exec_insn ops (encode_c h (C_BEQZ rs w8)) s = isa_exec ops 2 (expand (C_BEQZ rs w8)) s"
    "exec_insn ops (encode_c h (C_BNEZ rs w8)) s = isa_exec ops 2 (expand (C_BNEZ rs w8)) s"
    "r \<noteq> 0 \<Longrightarrow> exec_insn ops (encode_c h (C_JR r)) s = isa_exec ops 2 (expand (C_JR r)) s"
    "r \<noteq> 0 \<Longrightarrow> exec_insn ops (encode_c h (C_JALR r)) s = isa_exec ops 2 (expand (C_JALR r)) s"
  using assms
  by (simp_all add: exec_insn_def exec_quadrant1_def exec_quadrant2_def exec_c_jr_mv_add_def Let_def c_decode
      write_x_2 set_rd_def next_insn_def unat_eq_0)

text \<open>Arithmetic.\<close>

lemma exec_c_reg:
  assumes "reg s 0 = 0"
  shows "q \<noteq> 0 \<Longrightarrow> exec_insn ops (encode_c h (C_MV rd q)) s = isa_exec ops 2 (expand (C_MV rd q)) s"
    "q \<noteq> 0 \<Longrightarrow> exec_insn ops (encode_c h (C_ADD rd q)) s = isa_exec ops 2 (expand (C_ADD rd q)) s"
    "exec_insn ops (encode_c h (C_SLLI rd w)) s = isa_exec ops 2 (expand (C_SLLI rd w)) s"
  using assms
  by (simp_all add: exec_insn_def exec_quadrant2_def exec_c_jr_mv_add_def Let_def c_decode write_x_2 unat_eq_0 unat_shamt_6)

lemma exec_c_imm:
  assumes "reg s 0 = 0"
  shows "exec_insn ops (encode_c h (C_ADDI rd w)) s = isa_exec ops 2 (expand (C_ADDI rd w)) s"
    "exec_insn ops (encode_c h (C_LI rd w)) s = isa_exec ops 2 (expand (C_LI rd w)) s"
    "exec_insn ops (encode_c h (C_SRLI r w)) s = isa_exec ops 2 (expand (C_SRLI r w)) s"
    "exec_insn ops (encode_c h (C_SRAI r w)) s = isa_exec ops 2 (expand (C_SRAI r w)) s"
    "exec_insn ops (encode_c h (C_ANDI r w)) s = isa_exec ops 2 (expand (C_ANDI r w)) s"
  using assms
  by (simp_all add: exec_insn_def exec_quadrant1_def c_alu_def Let_def c_decode write_x_2 set_rd_creg unat_shamt_6)

lemma scast_imm6: "ucast (scast (scast (w :: 6 word) :: 12 word) :: u64) = (scast (scast w :: 12 word) :: u32)"
  by (rule bit_word_eqI) (auto simp: bit_simps min_def)

lemma exec_c_addiw:
  "exec_insn ops (encode_c h (C_ADDIW rd w)) s = isa_exec ops 2 (expand (C_ADDIW rd w)) s"
  by (simp add: exec_insn_def exec_quadrant1_def Let_def c_decode write_x_2 low_op_scast sx32_def ucast_arith scast_imm6)

text \<open>A scaled immediate is zero exactly when the encoded field is.\<close>

lemma scaled_0:
  "scast (push_bit 2 (ucast (w8 :: 8 word)) :: 12 word) = (0 :: u32) \<longleftrightarrow> w8 = 0"
  "scast (push_bit 4 (scast (w6 :: 6 word)) :: 12 word) = (0 :: u32) \<longleftrightarrow> w6 = 0"
proof -
  have z: "scast (x :: 12 word) = (0 :: u32) \<longleftrightarrow> x = 0" for x
    by (metis scast_0 sint_imm scast_imm sint_0_iff signed_0)
  have b8: "bit (push_bit 2 (ucast w8) :: 12 word) (n + 2) = bit w8 n" for n
    using bit_narrow [of w8 n] by (auto simp: bit_push_bit_iff bit_ucast_small)
  have "\<not> bit w8 n" if "push_bit 2 (ucast w8) = (0 :: 12 word)" for n
    using b8 [of n] that by simp
  then show "scast (push_bit 2 (ucast w8) :: 12 word) = (0 :: u32) \<longleftrightarrow> w8 = 0"
    unfolding z by (auto intro: bit_word_eqI)
  have b6: "n < 6 \<Longrightarrow> bit (push_bit 4 (scast w6) :: 12 word) (n + 4) = bit w6 n" for n
    by (cases "n = 5") (auto simp: bit_push_bit_iff bit_signed_iff min_def)
  have "n < 6 \<Longrightarrow> \<not> bit w6 n" if "push_bit 4 (scast w6) = (0 :: 12 word)" for n
    using b6 [of n] that by simp
  then show "scast (push_bit 4 (scast w6) :: 12 word) = (0 :: u32) \<longleftrightarrow> w6 = 0"
    unfolding z by (auto intro: bit_word_eqI)
qed

lemma exec_c_stack_pointer:
  "w8 \<noteq> 0 \<Longrightarrow> exec_insn ops (encode_c h (C_ADDI4SPN r w8)) s = isa_exec ops 2 (expand (C_ADDI4SPN r w8)) s"
  "w \<noteq> 0 \<Longrightarrow> exec_insn ops (encode_c h (C_ADDI16SP w)) s = isa_exec ops 2 (expand (C_ADDI16SP w)) s"
  by (simp_all add: exec_insn_def exec_quadrant0_def exec_quadrant1_def Let_def c_decode
      write_x_2 set_rd_creg scaled_0 set_rd_def)

lemma exec_c_lui:
  assumes "rd \<noteq> 0" "rd \<noteq> 2" "w \<noteq> 0"
  shows "exec_insn ops (encode_c h (C_LUI rd w)) s = isa_exec ops 2 (expand (C_LUI rd w)) s"
proof -
  have n: "imm_u (enc_u (scast w) 0 0) \<noteq> 0"
  proof
    assume "imm_u (enc_u (scast w :: 20 word) 0 0) = 0"
    then have z: "\<not> bit (imm_u (enc_u (scast w :: 20 word) 0 0)) n" for n by simp
    have f: "bit (imm_u (enc_u (scast w :: 20 word) 0 0)) (n + 12) = bit (enc_u (scast w :: 20 word) 0 0) (n + 12)"
      if "n < 6" for n
      using that bit_field_down [of 0 "enc_u (scast w) 0 0" 12 20 "n + 12"]
      unfolding imm_u_def upper_mask by simp
    have "\<not> bit w n" if "n < 6" for n
      using z [of "n + 12"] that unfolding f [OF that] bit_enc_u bit_signed_iff
      by (cases "n = 5") (simp_all add: min_def)
    then have "w = 0" by (auto intro: bit_word_eqI)
    then show False using assms(3) by simp
  qed
  have "unat rd \<noteq> 0" "unat rd \<noteq> 2"
    using assms(1,2) by (auto simp: unat_eq_0 dest: arg_cong [of _ _ "of_nat :: nat \<Rightarrow> regno"])
  then show ?thesis
    using n by (simp add: exec_insn_def exec_quadrant1_def Let_def c_decode write_x_2 set_rd_def)
qed

lemma exec_c_arith:
  "exec_insn ops (encode_c h (C_ARITH p rd rq)) s = isa_exec ops 2 (expand (C_ARITH p rd rq)) s"
  by (cases p) (simp_all add: exec_insn_def exec_quadrant1_def c_alu_def c_alu_reg_def Let_def c_decode
      write_x_2 set_rd_creg low_op_scast sx32_def ucast_arith)

lemma zext_b_and: "ucast (ucast (x :: u64) :: u8) = x AND 0xff"
  unfolding byte_mask by (rule bit_word_eqI) (auto simp: bit_simps)

lemma exec_c_unary:
  assumes "reg s 0 = 0"
  shows "exec_insn ops (encode_c h (C_UNARY p rd)) s = isa_exec ops 2 (expand (C_UNARY p rd)) s"
  using assms
  by (cases p) (simp_all add: exec_insn_def exec_quadrant1_def c_alu_def c_alu_reg_def Let_def c_decode
      write_x_2 set_rd_creg sx8_def sx16_def zx32_def zext_b_and)

lemma exec_insn_encode_c:
  assumes "c_valid i" "reg s 0 = 0"
  shows "exec_insn ops (encode_c h i) s = isa_exec ops 2 (expand i) s"
  using assms
  by (cases i) (simp_all only: c_valid.simps exec_c_mem exec_c_sp exec_c_fp exec_c_jump exec_c_reg exec_c_imm exec_c_addiw
      exec_c_stack_pointer exec_c_lui exec_c_arith exec_c_unary not_False_eq_True simp_thms)

end
