(* ===== verification/Ieee.thy ===== *)
theory Ieee
  imports Complex_Main Softfp_Ops
begin

text \<open>
  IEEE 754 rounding as a specification over the real numbers, for the formats of \<open>Softfp\<close>: the value
  of a finite word, the rounding of a real to an integer in the five modes, and the word and flags a
  correctly rounded operation returns. Nothing here is translated from the C code.
\<close>

section \<open>Formats\<close>

text \<open>What the rounding proofs need of a format: its fields fill the word, and enough bits below the
  mantissa are left in the internal representation.\<close>

locale float_format =
  fixes ty :: "'f::len itself"
  assumes fields: "LENGTH('f) = MANT_SIZE TYPE('f) + EXP_SIZE TYPE('f) + 1"
    and exp_size: "8 \<le> EXP_SIZE TYPE('f)" and mant_size: "EXP_SIZE TYPE('f) + 3 \<le> MANT_SIZE TYPE('f)"
begin

lemma rnd_size: "RND_SIZE TYPE('f) = EXP_SIZE TYPE('f) - 1" "7 \<le> RND_SIZE TYPE('f)"
  "LENGTH('f) = MANT_SIZE TYPE('f) + RND_SIZE TYPE('f) + 2"
  using fields exp_size by (simp_all add: RND_SIZE_def IMANT_SIZE_def)

end

interpretation f32: float_format "TYPE(32)"
  by unfold_locales (simp_all add: MANT_SIZE_def EXP_SIZE_def MANT_SIZE_of_def EXP_SIZE_of_def)

interpretation f64: float_format "TYPE(64)"
  by unfold_locales (simp_all add: MANT_SIZE_def EXP_SIZE_def MANT_SIZE_of_def EXP_SIZE_of_def)

interpretation f128: float_format "TYPE(128)"
  by unfold_locales (simp_all add: MANT_SIZE_def EXP_SIZE_def MANT_SIZE_of_def EXP_SIZE_of_def)

section \<open>Values\<close>

definition sf_bias :: "'f::len itself \<Rightarrow> int" where
  "sf_bias t = 2 ^ (EXP_SIZE t - 1) - 1"

text \<open>The weight of the lowest mantissa bit at a biased exponent.\<close>

definition quantum :: "'f::len itself \<Rightarrow> int \<Rightarrow> real" where
  "quantum t e = 2 powi (e - sf_bias t - int (MANT_SIZE t))"

definition sf_mag :: "'f::len word \<Rightarrow> real" where
  "sf_mag a =
     (if sf_exp a = 0 then real (unat (sf_mant a)) * quantum TYPE('f) 1
      else real (2 ^ MANT_SIZE TYPE('f) + unat (sf_mant a)) * quantum TYPE('f) (sf_exp a))"

definition sf_value :: "'f::len word \<Rightarrow> real" where
  "sf_value a = (if sf_sign a then - sf_mag a else sf_mag a)"

definition finite_sf :: "'f::len word \<Rightarrow> bool" where
  "finite_sf a \<longleftrightarrow> sf_exp a \<noteq> EXP_MASK TYPE('f)"

section \<open>Rounding\<close>

text \<open>Rounding a nonnegative magnitude to an integer; \<open>neg\<close> is the sign of the number.\<close>

definition rnd_int :: "RoundingModeEnum \<Rightarrow> bool \<Rightarrow> real \<Rightarrow> int" where
  "rnd_int rm neg y =
     (let f = \<lfloor>y\<rfloor>; d = y - of_int f in
      case rm of
        RM_RNE \<Rightarrow> if d < 1 / 2 \<or> (d = 1 / 2 \<and> even f) then f else f + 1
      | RM_RMM \<Rightarrow> if d < 1 / 2 then f else f + 1
      | RM_RTZ \<Rightarrow> f
      | RM_RDN \<Rightarrow> if neg then \<lceil>y\<rceil> else f
      | RM_RUP \<Rightarrow> if neg then f else \<lceil>y\<rceil>)"

text \<open>The biased exponent of the binade of a positive magnitude, without a lower bound.\<close>

definition binade :: "'f::len itself \<Rightarrow> real \<Rightarrow> int" where
  "binade t x = \<lfloor>log 2 x\<rfloor> + sf_bias t"

text \<open>The multiple of the quantum a magnitude is rounded to, at biased exponent \<open>e\<close>.\<close>

definition rnd_at :: "'f::len itself \<Rightarrow> int \<Rightarrow> RoundingModeEnum \<Rightarrow> bool \<Rightarrow> real \<Rightarrow> int" where
  "rnd_at t e rm neg x = rnd_int rm neg (x / quantum t e)"

text \<open>Does rounding a magnitude beyond the largest finite number give infinity?\<close>

definition overflow_to_inf :: "RoundingModeEnum \<Rightarrow> bool \<Rightarrow> bool" where
  "overflow_to_inf rm neg \<longleftrightarrow>
     rm = RM_RNE \<or> rm = RM_RMM \<or> (rm = RM_RDN \<and> neg) \<or> (rm = RM_RUP \<and> \<not> neg)"

text \<open>
  The result of an operation whose exact magnitude is \<open>x > 0\<close>. The magnitude bits of a word, read as
  a number, count the quanta from zero: \<open>(e - 1) * 2 ^ MANT_SIZE + n\<close> is the word of \<open>n\<close> quanta at
  exponent \<open>e\<close>. Underflow is tininess after rounding with an inexact result.
\<close>

definition ieee_round :: "bool \<Rightarrow> real \<Rightarrow> RoundingModeEnum \<Rightarrow> u32 \<Rightarrow> 'f::len word \<times> u32" where
  "ieee_round neg x rm fl =
     (let b = binade TYPE('f) x; e = max 1 b;
          n = rnd_at TYPE('f) e rm neg x;
          k = (e - 1) * 2 ^ MANT_SIZE TYPE('f) + n;
          inf = EXP_MASK TYPE('f) * 2 ^ MANT_SIZE TYPE('f);
          inexact = (of_int n * quantum TYPE('f) e \<noteq> x);
          tiny = (of_int (rnd_at TYPE('f) b rm neg x) * quantum TYPE('f) b < 2 ^ MANT_SIZE TYPE('f) * quantum TYPE('f) 1);
          sgn_bit = (if neg then SIGN_MASK else 0)
      in if k \<ge> inf then
           (sgn_bit OR of_int (if overflow_to_inf rm neg then inf else inf - 1),
            fl OR (FFLAG_OVERFLOW OR FFLAG_INEXACT))
         else
           (sgn_bit OR of_int k,
            (if inexact \<and> tiny then fl OR FFLAG_UNDERFLOW else fl) OR (if inexact then FFLAG_INEXACT else 0)))"

text \<open>A signed exact value; \<open>zneg\<close> is the sign of an exact zero.\<close>

definition ieee_result :: "bool \<Rightarrow> real \<Rightarrow> RoundingModeEnum \<Rightarrow> u32 \<Rightarrow> 'f::len word \<times> u32" where
  "ieee_result zneg x rm fl =
     (if x = 0 then (if zneg then SIGN_MASK else 0, fl) else ieee_round (x < 0) \<bar>x\<bar> rm fl)"

end
