(* ===== verification/Sticky.thy ===== *)
theory Sticky
  imports Ieee
begin

text \<open>
  Integers that stand for a real with a sticky bit. \<open>rshift_rnd\<close> and the operations keep, below the
  bits they round to, one bit that is set when anything nonzero was shifted out; such an integer
  rounds like the real it stands for, as long as the sticky bit lies at least two places below the
  rounding position.
\<close>

section \<open>Sticky integers\<close>

text \<open>\<open>m\<close> is the real, or its lowest set bit is bit \<open>k\<close> and the real lies within that bit of it.\<close>

definition sticky_at :: "nat \<Rightarrow> nat \<Rightarrow> real \<Rightarrow> bool" where
  "sticky_at k m y \<longleftrightarrow> real m = y \<or> (2 ^ k dvd m \<and> odd (m div 2 ^ k) \<and> \<bar>y - real m\<bar> < 2 ^ k)"

definition sticky :: "nat \<Rightarrow> nat \<Rightarrow> real \<Rightarrow> bool" where
  "sticky k m y \<longleftrightarrow> (\<exists>j\<le>k. sticky_at j m y)"

lemma sticky_exact: "sticky k m (real m)"
  by (auto simp: sticky_def sticky_at_def)

lemma sticky_mono: "sticky j m y \<Longrightarrow> j \<le> k \<Longrightarrow> sticky k m y"
  by (auto simp: sticky_def intro: order_trans)

text \<open>Quotient and remainder at the rounding position.\<close>

lemma sticky_at_remainder:
  assumes "sticky_at k m y" "k + 2 \<le> R"
  defines "z \<equiv> y - real (m div 2 ^ R) * 2 ^ R"
  shows "0 \<le> z \<and> z < 2 ^ R \<and> (z = 0 \<longleftrightarrow> m mod 2 ^ R = 0) \<and>
    (z < 2 ^ (R - 1) \<longleftrightarrow> m mod 2 ^ R < 2 ^ (R - 1)) \<and> (z = 2 ^ (R - 1) \<longleftrightarrow> m mod 2 ^ R = 2 ^ (R - 1))"
proof -
  let ?t = "m mod 2 ^ R"
  have m: "real m = real (m div 2 ^ R) * 2 ^ R + real ?t"
  proof -
    have "real (m div 2 ^ R * 2 ^ R + ?t) = real (m div 2 ^ R) * 2 ^ R + real ?t"
      by (simp only: of_nat_add of_nat_mult of_nat_power of_nat_numeral)
    then show ?thesis by (simp only: div_mult_mod_eq)
  qed
  have c: "real ?t < 2 ^ R" "real ?t < 2 ^ (R - 1) \<longleftrightarrow> ?t < 2 ^ (R - 1)" "real ?t = 2 ^ (R - 1) \<longleftrightarrow> ?t = 2 ^ (R - 1)"
    by (metis mod_less_divisor of_nat_less_iff of_nat_numeral of_nat_power pos2 zero_less_power,
        metis of_nat_less_iff of_nat_numeral of_nat_power, metis of_nat_eq_iff of_nat_numeral of_nat_power)
  show ?thesis
  proof (cases "real m = y")
    case True
    then have "z = real ?t" using m by (simp add: z_def)
    then show ?thesis using c by simp
  next
    case False
    with assms(1) have s: "2 ^ k dvd m" "odd (m div 2 ^ k)" "\<bar>y - real m\<bar> < 2 ^ k" by (auto simp: sticky_at_def)
    define a where "a = (m div 2 ^ k) mod 2 ^ (R - k)"
    have R: "(2 :: nat) ^ R = 2 ^ k * 2 ^ (R - k)" using assms(2) by (simp flip: power_add)
    have t: "?t = 2 ^ k * a"
      using s(1) unfolding a_def R by (simp add: mod_mult2_eq dvd_imp_mod_0)
    have "odd a" using s(2) assms(2) by (simp add: a_def even_mod_2_iff dvd_mod_iff)
    then have a1: "1 \<le> a" by (cases a) auto
    have a2: "a + 1 \<le> 2 ^ (R - k)" unfolding a_def by (simp add: Suc_leI)
    define h :: nat where "h = 2 ^ (R - 1 - k)"
    have "even h" using assms(2) by (simp add: h_def)
    have half: "(2 :: nat) ^ (R - 1) = 2 ^ k * h" using assms(2) by (simp add: h_def flip: power_add)
    have ne: "a \<noteq> h" using \<open>odd a\<close> \<open>even h\<close> by auto
    have halfr: "(2 :: real) ^ (R - 1) = 2 ^ k * real h" and Rr: "(2 :: real) ^ R = 2 ^ k * real (2 ^ (R - k))"
      using arg_cong [OF half, of real] arg_cong [OF R, of real] by simp_all
    have tr: "real ?t = 2 ^ k * real a" unfolding t by simp
    have z: "\<bar>z - real ?t\<bar> < 2 ^ k" using s(3) m by (simp add: z_def algebra_simps)
    have "2 ^ k \<le> 2 ^ k * real a" using a1 by simp
    then have lo: "0 < z" using z unfolding tr by linarith
    have "real (a + 1) \<le> real (2 ^ (R - k))" using a2 by (simp only: of_nat_le_iff)
    then have "2 ^ k * (real a + 1) \<le> 2 ^ R" unfolding Rr by (intro mult_left_mono) simp_all
    then have hi: "z < 2 ^ R" using z unfolding tr distrib_left by linarith
    have tn: "?t \<noteq> 0" using t a1 by simp
    show ?thesis
    proof (cases "a < h")
      case True
      then have "2 ^ k * (real a + 1) \<le> 2 ^ (R - 1)" unfolding halfr by (intro mult_left_mono) simp_all
      then have "z < 2 ^ (R - 1)" using z unfolding tr distrib_left by linarith
      moreover have "?t < 2 ^ (R - 1)" using True unfolding t half by simp
      ultimately show ?thesis using lo hi tn by simp
    next
      case False
      then have "h + 1 \<le> a" using ne by simp
      then have "2 ^ k * (real h + 1) \<le> 2 ^ k * real a" by (intro mult_left_mono) simp_all
      then have "2 ^ (R - 1) < z" using z unfolding tr halfr distrib_left by linarith
      moreover have "2 ^ (R - 1) < ?t" using \<open>h + 1 \<le> a\<close> unfolding t half by simp
      ultimately show ?thesis using lo hi tn by simp
    qed
  qed
qed

lemma sticky_remainder:
  assumes "sticky k m y" "k + 2 \<le> R"
  defines "z \<equiv> y - real (m div 2 ^ R) * 2 ^ R"
  shows "0 \<le> z \<and> z < 2 ^ R \<and> (z = 0 \<longleftrightarrow> m mod 2 ^ R = 0) \<and>
    (z < 2 ^ (R - 1) \<longleftrightarrow> m mod 2 ^ R < 2 ^ (R - 1)) \<and> (z = 2 ^ (R - 1) \<longleftrightarrow> m mod 2 ^ R = 2 ^ (R - 1))"
proof -
  obtain j where "j \<le> k" "sticky_at j m y" using assms(1) by (auto simp: sticky_def)
  then show ?thesis using sticky_at_remainder [of j m y R] assms(2) unfolding z_def by simp
qed

section \<open>Rounding\<close>

text \<open>What the C code computes, on natural numbers.\<close>

definition addend_nat :: "RoundingModeEnum \<Rightarrow> bool \<Rightarrow> nat \<Rightarrow> nat" where
  "addend_nat rm neg R =
     (if rm = RM_RNE \<or> rm = RM_RMM then 2 ^ (R - 1)
      else if overflow_to_inf rm neg then 2 ^ R - 1 else 0)"

definition rnd_nat :: "RoundingModeEnum \<Rightarrow> bool \<Rightarrow> nat \<Rightarrow> nat \<Rightarrow> nat" where
  "rnd_nat rm neg R m =
     (let r = (m + addend_nat rm neg R) div 2 ^ R
      in if rm = RM_RNE \<and> m mod 2 ^ R = 2 ^ (R - 1) then r - r mod 2 else r)"

lemma div_add_mod: "0 < n \<Longrightarrow> (m + c) div n = m div n + (m mod n + c) div n" for m n c :: nat
proof -
  assume "0 < n"
  have "m + c = m div n * n + (m mod n + c)" by (simp add: add.assoc [symmetric])
  then show "(m + c) div n = m div n + (m mod n + c) div n" using \<open>0 < n\<close> by (simp only: div_mult_self3)
qed

lemma half_up: "t < 2 * h \<Longrightarrow> (t + h) div (2 * h) = (if t < h then 0 else 1)" for t h :: nat
  by (auto intro!: div_nat_eqI)

lemma full_up: "t < n \<Longrightarrow> (t + (n - 1)) div n = (if t = 0 then 0 else 1)" for t n :: nat
  by (cases "t = 0") (auto intro!: div_nat_eqI)

lemma even_up: "(q + 1) - (q + 1) mod 2 = (if even q then q else q + 1)" for q :: nat
  by (auto simp: mod2_eq_if)

lemma rnd_sticky:
  assumes "sticky k m y" "k + 2 \<le> R"
  shows "rnd_int rm neg (y / 2 ^ R) = int (rnd_nat rm neg R m)"
proof -
  let ?Q = "m div 2 ^ R" and ?t = "m mod 2 ^ R"
  define z where "z = y - real ?Q * 2 ^ R"
  note s = sticky_remainder [OF assms, folded z_def]
  have y: "y / 2 ^ R = real ?Q + z / 2 ^ R" by (simp add: z_def field_simps)
  have b: "0 \<le> z / 2 ^ R" "z / 2 ^ R < 1" using s by simp_all
  have f: "\<lfloor>y / 2 ^ R\<rfloor> = int ?Q" unfolding y by (rule floor_unique) (use b in simp_all)
  have R1: "(2 :: real) ^ R = 2 * 2 ^ (R - 1)" "(2 :: nat) ^ R = 2 * 2 ^ (R - 1)"
    using assms(2) by (simp_all flip: power_Suc)
  have d: "y / 2 ^ R - of_int \<lfloor>y / 2 ^ R\<rfloor> = z / 2 ^ R" unfolding f by (simp add: y)
  have half: "z / 2 ^ R < 1 / 2 \<longleftrightarrow> ?t < 2 ^ (R - 1)" "z / 2 ^ R = 1 / 2 \<longleftrightarrow> ?t = 2 ^ (R - 1)"
    using s R1(1) by (auto simp: field_simps)
  have c: "\<lceil>y / 2 ^ R\<rceil> = int ?Q + (if ?t = 0 then 0 else 1)"
  proof (cases "?t = 0")
    case True
    then show ?thesis using s y by simp
  next
    case False
    then have "0 < z / 2 ^ R" using s by simp
    then show ?thesis unfolding y using b(2) False by (intro ceiling_unique) simp_all
  qed
  have tl: "?t < 2 ^ R" by simp
  have up: "(m + 2 ^ (R - 1)) div 2 ^ R = ?Q + (if ?t < 2 ^ (R - 1) then 0 else 1)"
  proof -
    have "(m + 2 ^ (R - 1)) div 2 ^ R = ?Q + (?t + 2 ^ (R - 1)) div 2 ^ R"
      by (rule div_add_mod) simp
    moreover have "(?t + 2 ^ (R - 1)) div 2 ^ R = (if ?t < 2 ^ (R - 1) then 0 else 1)"
      using half_up [of ?t "2 ^ (R - 1)"] tl unfolding R1(2) by simp
    ultimately show ?thesis by simp
  qed
  have dir: "(m + (2 ^ R - 1)) div 2 ^ R = ?Q + (if ?t = 0 then 0 else 1)"
  proof -
    have "(m + (2 ^ R - 1)) div 2 ^ R = ?Q + (?t + (2 ^ R - 1)) div 2 ^ R"
      by (rule div_add_mod) simp
    moreover have "(?t + (2 ^ R - 1)) div 2 ^ R = (if ?t = 0 then 0 else 1)"
      using full_up [OF tl] .
    ultimately show ?thesis by simp
  qed
  have tie: "(?Q + 1) - (?Q + 1) mod 2 = (if even ?Q then ?Q else ?Q + 1)" by (rule even_up)
  show ?thesis
    unfolding rnd_int_def Let_def d unfolding f c half rnd_nat_def addend_nat_def overflow_to_inf_def
    using tie by (cases rm; cases neg; simp only: RoundingModeEnum.simps RoundingModeEnum.case simp_thms if_True if_False
      up dir Let_def add_0_right) auto
qed

end
