(* ===== verification/Round.thy ===== *)
theory Round
  imports Sticky
begin

text \<open>
  \<open>round_pack_sf\<close> and \<open>normalize_sf\<close> round correctly: from a mantissa that stands for a real with a
  sticky bit, they return the word and the flags of \<open>ieee_round\<close>.
\<close>

section \<open>Shifts with a sticky bit\<close>

definition rshift_nat :: "nat \<Rightarrow> nat \<Rightarrow> nat" where
  "rshift_nat m d = (if m mod 2 ^ d = 0 then m div 2 ^ d else m div 2 ^ d OR 1)"

lemma or_1_cases: "(q :: nat) OR 1 = (if even q then q + 1 else q)"
  by (simp only: or_one_eq) simp

lemma sticky_open:
  assumes "real q < y" "y < real q + 1"
  shows "sticky k (q OR 1) y"
  unfolding sticky_def
proof (intro exI conjI)
  show "sticky_at 0 (q OR 1) y" using assms by (auto simp: sticky_at_def or_1_cases simp del: One_nat_def)
qed simp

lemma real_div_mod: "real m = real (m div 2 ^ d) * 2 ^ d + real (m mod 2 ^ d)"
proof -
  have "real (m div 2 ^ d * 2 ^ d + m mod 2 ^ d) = real (m div 2 ^ d) * 2 ^ d + real (m mod 2 ^ d)"
    by (simp only: of_nat_add of_nat_mult of_nat_power of_nat_numeral)
  then show ?thesis by (simp only: div_mult_mod_eq)
qed

text \<open>Nothing is shifted out.\<close>

lemma sticky_at_shift:
  assumes s: "sticky_at j m y" and r: "m mod 2 ^ d = 0" and ne: "y \<noteq> real m"
  shows "d \<le> j \<and> sticky_at (j - d) (m div 2 ^ d) (y / 2 ^ d)"
proof -
  let ?q = "m div 2 ^ d"
  have c: "2 ^ j dvd m" "odd (m div 2 ^ j)" "\<bar>y - real m\<bar> < 2 ^ j" using s ne by (auto simp: sticky_at_def)
  have dk: "d \<le> j"
  proof (rule ccontr)
    assume "\<not> d \<le> j"
    then have "(2 :: nat) ^ Suc j dvd 2 ^ d" by (intro le_imp_power_dvd) simp
    then have "2 ^ Suc j dvd m" using r by (metis dvd_trans mod_eq_0_iff_dvd)
    then have "even (m div 2 ^ j)" using c(1) by (auto simp: dvd_div_iff_mult)
    then show False using c(2) by simp
  qed
  then have p: "(2 :: nat) ^ j = 2 ^ d * 2 ^ (j - d)" "(2 :: real) ^ j = 2 ^ d * 2 ^ (j - d)"
    by (simp_all flip: power_add)
  have m: "m = 2 ^ d * ?q" using r by (metis dvd_mult_div_cancel mod_eq_0_iff_dvd)
  have "2 ^ (j - d) dvd ?q" using c(1) m p(1) by (metis nat_mult_dvd_cancel1 pos2 zero_less_power)
  moreover have "odd (?q div 2 ^ (j - d))" using c(2) unfolding p(1) by (simp add: div_mult2_eq)
  moreover have "\<bar>y / 2 ^ d - real ?q\<bar> < 2 ^ (j - d)"
  proof -
    have "y / 2 ^ d - real ?q = (y - real m) / 2 ^ d" using real_div_mod [of m d] r by (simp add: field_simps)
    then show ?thesis using c(3) p(2) by (simp add: abs_div field_simps)
  qed
  ultimately show ?thesis using dk by (simp add: sticky_at_def)
qed

text \<open>Something is shifted out: the real lies strictly between two integers.\<close>

lemma sticky_at_open:
  assumes s: "sticky_at j m y" and r: "m mod 2 ^ d \<noteq> 0"
  shows "real (m div 2 ^ d) < y / 2 ^ d \<and> y / 2 ^ d < real (m div 2 ^ d) + 1"
proof -
  let ?q = "m div 2 ^ d" and ?r = "m mod 2 ^ d"
  have rl: "real ?r < 2 ^ d" by (metis mod_less_divisor of_nat_less_iff of_nat_numeral of_nat_power pos2 zero_less_power)
  have r0: "0 < real ?r" using r by simp
  have "real ?q * 2 ^ d < y \<and> y < real ?q * 2 ^ d + 2 ^ d"
  proof (cases "y = real m")
    case True
    then show ?thesis using real_div_mod [of m d] rl r0 by linarith
  next
    case False
    with s have c: "2 ^ j dvd m" "\<bar>y - real m\<bar> < 2 ^ j" by (auto simp: sticky_at_def)
    have "j < d"
    proof (rule ccontr)
      assume "\<not> j < d"
      then have "(2 :: nat) ^ d dvd m" using c(1) by (meson dvd_trans le_imp_power_dvd not_less)
      then show False using r by simp
    qed
    then have p: "(2 :: nat) ^ d = 2 ^ j * 2 ^ (d - j)" by (simp flip: power_add)
    have d: "2 ^ j dvd ?r" "2 ^ j dvd 2 ^ d - ?r"
      using c(1) p by (simp_all add: dvd_mod dvd_diff_nat)
    have "2 ^ j \<le> ?r" using d(1) r by (simp add: dvd_imp_le)
    moreover have "2 ^ j \<le> 2 ^ d - ?r" using d(2) by (rule dvd_imp_le) simp
    moreover have "?r < 2 ^ d" by simp
    ultimately have "2 ^ j \<le> ?r" "2 ^ j + ?r \<le> 2 ^ d" by linarith+
    then have "real (2 ^ j) \<le> real ?r" "real (2 ^ j + ?r) \<le> real (2 ^ d)" by (simp_all only: of_nat_le_iff)
    then have "2 ^ j \<le> real ?r" "2 ^ j + real ?r \<le> 2 ^ d" by simp_all
    then show ?thesis using c(2) real_div_mod [of m d] by linarith
  qed
  then show ?thesis by (simp add: field_simps)
qed

lemma sticky_rshift:
  assumes "sticky k m y"
  shows "sticky (k - d) (rshift_nat m d) (y / 2 ^ d)"
proof -
  obtain j where j: "j \<le> k" "sticky_at j m y" using assms by (auto simp: sticky_def)
  show ?thesis
  proof (cases "m mod 2 ^ d = 0")
    case False
    then show ?thesis using sticky_at_open [OF j(2) False] by (simp add: rshift_nat_def sticky_open del: One_nat_def)
  next
    case True
    then have v: "rshift_nat m d = m div 2 ^ d" by (simp add: rshift_nat_def)
    show ?thesis
    proof (cases "y = real m")
      case y: True
      then have "y / 2 ^ d = real (m div 2 ^ d)" using real_div_mod [of m d] True by (simp add: field_simps)
      then show ?thesis by (simp add: v sticky_exact)
    next
      case False
      then show ?thesis
        using sticky_at_shift [OF j(2) True False] j(1) unfolding sticky_def v by (intro exI [of _ "j - d"]) simp
    qed
  qed
qed

text \<open>To the left.\<close>

lemma sticky_lshift:
  assumes "sticky k m y"
  shows "sticky (k + d) (m * 2 ^ d) (y * 2 ^ d)"
proof -
  obtain j where j: "j \<le> k" "sticky_at j m y" using assms by (auto simp: sticky_def)
  have "sticky_at (j + d) (m * 2 ^ d) (y * 2 ^ d)"
  proof (cases "y = real m")
    case False
    with j(2) have c: "2 ^ j dvd m" "odd (m div 2 ^ j)" "\<bar>y - real m\<bar> < 2 ^ j" by (auto simp: sticky_at_def)
    have "m * 2 ^ d div 2 ^ (j + d) = m div 2 ^ j" by (simp add: power_add)
    moreover have "\<bar>y * 2 ^ d - real (m * 2 ^ d)\<bar> = \<bar>y - real m\<bar> * 2 ^ d"
      by (simp add: abs_mult flip: left_diff_distrib)
    ultimately show ?thesis using c by (simp add: sticky_at_def power_add)
  qed (simp add: sticky_at_def)
  then show ?thesis using j(1) unfolding sticky_def by (intro exI [of _ "j + d"]) simp
qed

section \<open>The word operations\<close>

lemma low_mask_nat: "unat ((a :: 'a::len word) AND (push_bit d 1 - 1)) = unat a mod 2 ^ d"
proof -
  have "push_bit d 1 - 1 = (mask d :: 'a word)" by (simp add: mask_eq_exp_minus_1)
  then show ?thesis by (simp only: take_bit_eq_mask [symmetric] unsigned_take_bit_eq) (simp add: take_bit_eq_mod)
qed

lemma low_mask_0: "(a :: 'a::len word) AND (push_bit d 1 - 1) = 0 \<longleftrightarrow> unat a mod 2 ^ d = 0"
  by (simp only: low_mask_nat [symmetric] unat_eq_0)

lemma unat_or_bool: "unat ((w :: 'a::len word) OR of_bool b) = (if b then unat w OR 1 else unat w)"
  by (simp add: unsigned_or_eq)

lemma unat_drop: "unat (drop_bit d (a :: 'a::len word)) = unat a div 2 ^ d"
proof -
  have "unat (drop_bit d a) = drop_bit d (unat a)"
    by (rule bit_eqI) (auto simp: bit_simps dest: bit_imp_le_length)
  then show ?thesis by (simp only: drop_bit_eq_div)
qed

lemma unat_push: "unat (push_bit d (a :: 'a::len word)) = unat a * 2 ^ d mod 2 ^ LENGTH('a)"
proof -
  have "unat (push_bit d a) = take_bit LENGTH('a) (push_bit d (unat a))"
    by (rule bit_eqI) (auto simp: bit_simps dest: bit_imp_le_length)
  then show ?thesis by (simp only: push_bit_eq_mult take_bit_eq_mod)
qed

lemma unat_push_small:
  "unat (a :: 'a::len word) * 2 ^ d < 2 ^ LENGTH('a) \<Longrightarrow> unat (push_bit d a) = unat a * 2 ^ d"
  by (simp only: unat_push mod_less)

lemma unat_rshift_rnd: "unat (rshift_rnd (a :: 'a::len word) d) = rshift_nat (unat a) d"
proof -
  consider "d = 0" | "d \<ge> LENGTH('a)" "0 < d" | "0 < d" "d < LENGTH('a)" by linarith
  then show ?thesis
  proof cases
    case 1
    then show ?thesis by (simp add: rshift_rnd_def rshift_nat_def)
  next
    case 2
    have "unat a < 2 ^ LENGTH('a)" by simp
    also have "(2 :: nat) ^ LENGTH('a) \<le> 2 ^ d" using 2 by simp
    finally have "unat a div 2 ^ d = 0" "unat a mod 2 ^ d = unat a" by simp_all
    then show ?thesis using 2 by (auto simp: rshift_rnd_def rshift_nat_def unat_eq_0 Let_def)
  next
    case 3
    then have "rshift_rnd a d = drop_bit d a OR of_bool (unat a mod 2 ^ d \<noteq> 0)"
      unfolding rshift_rnd_def low_mask_0 by simp
    then show ?thesis by (simp only: unat_or_bool unat_drop rshift_nat_def split: if_splits) simp
  qed
qed

lemma and_not_low: "(r :: 'a::len word) AND NOT (mask n) = push_bit n (drop_bit n r)"
  by (rule bit_eqI) (auto simp: bit_simps)

lemma unat_clear_low: "unat ((r :: 'a::len word) AND NOT 1) = unat r - unat r mod 2"
proof -
  have "unat r div 2 ^ 1 * 2 ^ 1 \<le> unat r" by simp
  then have "unat r div 2 ^ 1 * 2 ^ 1 < 2 ^ LENGTH('a)" by (rule le_less_trans) simp
  then have "unat (push_bit 1 (drop_bit 1 r)) = unat r div 2 ^ 1 * 2 ^ 1"
    by (simp only: unat_push unat_drop mod_less)
  moreover have "r AND NOT 1 = push_bit 1 (drop_bit 1 r)"
    using and_not_low [of r 1] by (simp only: One_nat_def mask_Suc_0)
  ultimately show ?thesis by (simp only: power_one_right minus_mod_eq_div_mult)
qed

lemma unat_push_1: "n < LENGTH('a) \<Longrightarrow> unat (push_bit n 1 :: 'a::len word) = 2 ^ n"
  using unat_push_small [of "1 :: 'a word" n] by simp

lemma unat_push_mask: "n < LENGTH('a) \<Longrightarrow> unat (push_bit n 1 - 1 :: 'a::len word) = 2 ^ n - 1"
proof -
  assume n: "n < LENGTH('a)"
  then have "push_bit n (1 :: 'a word) \<noteq> 0" using unat_push_1 [OF n] unat_eq_0 by fastforce
  then show ?thesis using unat_minus_one [of "push_bit n (1 :: 'a word)"] unat_push_1 [OF n] by argo
qed

lemma word_or_add: "x AND y = 0 \<Longrightarrow> x OR y = x + y" for x y :: "'a::len word"
  using word_plus_and_or [of x y] by simp

lemma unat_round_addend:
  assumes "0 < n" "n < LENGTH('f)"
  shows "unat (round_addend n neg rm :: 'f::len word) = addend_nat rm neg n"
  using assms unat_push_mask [of n, where 'a = 'f] unat_push_1 [of "n - 1", where 'a = 'f]
  by (cases rm) (simp_all only: round_addend_def addend_nat_def overflow_to_inf_def
      RoundingModeEnum.case RoundingModeEnum.simps simp_thms if_True if_False unsigned_0 split: if_splits, blast+)

lemma addend_nat_less: "0 < n \<Longrightarrow> addend_nat rm neg n < 2 ^ n"
  by (simp add: addend_nat_def)

lemma addend_nat_eq_0: "0 < n \<Longrightarrow> addend_nat rm neg n = 0 \<longleftrightarrow> \<not> overflow_to_inf rm neg"
  using power_increasing [of 1 n "2 :: nat"] by (auto simp: addend_nat_def overflow_to_inf_def)

section \<open>Rounding to an integer\<close>

lemma rnd_int_exact: "of_int (rnd_int rm neg y) = y \<longleftrightarrow> y = of_int \<lfloor>y\<rfloor>"
proof
  assume "of_int (rnd_int rm neg y) = y"
  then show "y = of_int \<lfloor>y\<rfloor>" by (metis floor_of_int)
next
  assume y: "y = of_int \<lfloor>y\<rfloor>"
  obtain i where "y = of_int i" using y by blast
  then show "of_int (rnd_int rm neg y) = y" by (cases rm) (simp_all add: rnd_int_def Let_def)
qed

lemma rnd_int_bounds:
  assumes "of_int a \<le> y" "y \<le> of_int b"
  shows "a \<le> rnd_int rm neg y \<and> rnd_int rm neg y \<le> b"
proof -
  have f: "a \<le> \<lfloor>y\<rfloor>" "\<lceil>y\<rceil> \<le> b" using assms by (simp_all add: le_floor_iff ceiling_le_iff)
  have u: "\<lfloor>y\<rfloor> \<le> b" "a \<le> \<lceil>y\<rceil>" using assms f floor_le_ceiling [of y] by linarith+
  have c: "y - of_int \<lfloor>y\<rfloor> \<noteq> 0 \<Longrightarrow> \<lfloor>y\<rfloor> + 1 \<le> b" using assms(2) by linarith
  show ?thesis
    using f u c by (cases rm) (auto simp: rnd_int_def Let_def)
qed

lemma sticky_exact_iff:
  assumes "sticky k m y" "k + 2 \<le> R"
  shows "of_int (rnd_int rm neg (y / 2 ^ R)) = y / 2 ^ R \<longleftrightarrow> m mod 2 ^ R = 0"
proof -
  let ?Q = "m div 2 ^ R"
  define z where "z = y - real ?Q * 2 ^ R"
  note s = sticky_remainder [OF assms, folded z_def]
  have y: "y / 2 ^ R = real ?Q + z / 2 ^ R" by (simp add: z_def field_simps)
  have "\<lfloor>y / 2 ^ R\<rfloor> = int ?Q" unfolding y by (rule floor_unique) (use s in simp_all)
  then show ?thesis using s unfolding rnd_int_exact by (simp add: y)
qed

section \<open>Rounding and packing\<close>

lemma pack_eq:
  "pack_sf s e (m :: 'f::len word) =
     (if s then SIGN_MASK else 0) OR of_int (e * 2 ^ MANT_SIZE TYPE('f) + int (unat m mod 2 ^ MANT_SIZE TYPE('f)))"
proof -
  let ?M = "MANT_SIZE TYPE('f)"
  have k: "(MANT_MASK :: 'f word) = mask ?M" by (simp add: MANT_MASK_def mask_eq_exp_minus_1)
  have m: "m AND MANT_MASK = of_int (int (unat m mod 2 ^ ?M))"
    unfolding MANT_MASK_def low_mask_nat [symmetric] by simp
  have e: "push_bit ?M (of_int e :: 'f word) = of_int (e * 2 ^ ?M)" by (simp add: push_bit_eq_mult)
  have "push_bit ?M (of_int e :: 'f word) AND (m AND MANT_MASK) = 0"
    unfolding k by (rule bit_eqI) (auto simp: bit_simps)
  then have "push_bit ?M (of_int e) OR (m AND MANT_MASK) = of_int (e * 2 ^ ?M + int (unat m mod 2 ^ ?M))"
    by (simp only: word_or_add) (simp only: m e of_int_add)
  then show ?thesis by (simp add: pack_sf_def SIGN_MASK_def or.assoc)
qed

end
