(* ===== verification/Round_Pack.thy ===== *)
theory Round_Pack
  imports Round
begin

text \<open>
  \<open>round_pack_sf\<close> and \<open>normalize_sf\<close> round correctly: from a mantissa that stands for a real with a
  sticky bit, they return the word and the flags of \<open>ieee_round\<close>.
\<close>

section \<open>The mantissa\<close>

lemma unat_round_mant:
  fixes w :: "'f::len word"
  defines "r \<equiv> RND_SIZE TYPE('f)"
  assumes r: "0 < r" "r < LENGTH('f)" and s: "unat w + addend_nat rm neg r < 2 ^ LENGTH('f)"
  shows "unat (round_mant rm (round_addend r neg rm) w) = rnd_nat rm neg r (unat w)"
proof -
  have a: "unat (w + round_addend r neg rm) = unat w + addend_nat rm neg r"
    using s unat_round_addend [OF r, where rm = rm and neg = neg] by (simp add: unat_word_ariths)
  have "w AND (push_bit r 1 - 1) = push_bit (r - 1) 1 \<longleftrightarrow>
      unat (w AND (push_bit r 1 - 1)) = unat (push_bit (r - 1) 1 :: 'f word)"
    by (rule word_unat_eq_iff)
  then have c: "w AND (push_bit r 1 - 1) = push_bit (r - 1) 1 \<longleftrightarrow> unat w mod 2 ^ r = 2 ^ (r - 1)"
    using r by (simp only: low_mask_nat unat_push_1)
  show ?thesis
    unfolding round_mant_def Let_def r_def [symmetric] c rnd_nat_def
    by (simp only: if_distrib [of unat] unat_clear_low unat_drop a)
qed

text \<open>The rounded mantissa stays in or just above the range of the mantissa.\<close>

lemma rnd_nat_bounds:
  assumes "sticky k m y" "k + 2 \<le> R" "a * 2 ^ R \<le> m" "m < b * 2 ^ R"
  shows "a \<le> rnd_nat rm neg R m \<and> rnd_nat rm neg R m \<le> b"
proof -
  let ?Q = "m div 2 ^ R"
  define z where "z = y - real ?Q * 2 ^ R"
  note s = sticky_remainder [OF assms(1,2), folded z_def]
  have y: "y / 2 ^ R = real ?Q + z / 2 ^ R" by (simp add: z_def field_simps)
  have q: "a \<le> ?Q" "?Q < b" using assms(3,4) by (simp_all add: less_mult_imp_div_less div_le_mono [of "a * 2 ^ R" m "2 ^ R", simplified])
  have zb: "0 \<le> z / 2 ^ R" "z / 2 ^ R < 1" using s by simp_all
  have "of_int (int a) \<le> y / 2 ^ R" using q(1) zb(1) unfolding y by simp
  moreover have "y / 2 ^ R \<le> of_int (int b)" using q(2) zb(2) unfolding y by linarith
  ultimately show ?thesis
    using rnd_int_bounds [of "int a" "y / 2 ^ R" "int b" rm neg] unfolding rnd_sticky [OF assms(1,2)] by simp
qed

lemma scaled_le: "0 \<le> r \<Longrightarrow> r < c \<Longrightarrow> a * c \<le> b * c + r \<longleftrightarrow> a \<le> b" for a b c r :: int
proof
  assume r: "0 \<le> r" "r < c" and "a * c \<le> b * c + r"
  then have "a * c < (b + 1) * c" unfolding distrib_right by linarith
  then show "a \<le> b" using r by simp
next
  assume r: "0 \<le> r" "r < c" and "a \<le> b"
  then have "a * c \<le> b * c" by (intro mult_right_mono) simp_all
  then show "a * c \<le> b * c + r" using r by linarith
qed

context float_format
begin

lemma sizes: "LENGTH('f) = MANT_SIZE TYPE('f) + RND_SIZE TYPE('f) + 2" "7 \<le> RND_SIZE TYPE('f)" "RND_SIZE TYPE('f) + 4 \<le> MANT_SIZE TYPE('f)" "EXP_SIZE TYPE('f) = RND_SIZE TYPE('f) + 1"
  using rnd_size mant_size exp_size by simp_all

lemma exp_mask: "EXP_MASK TYPE('f) = 2 * 2 ^ RND_SIZE TYPE('f) - 1" "sf_bias TYPE('f) = 2 ^ RND_SIZE TYPE('f) - 1"
  by (simp_all add: EXP_MASK_def sf_bias_def sizes)

lemma exp_mask_ge: "255 \<le> EXP_MASK TYPE('f)"
proof -
  have "(2 :: int) ^ 7 \<le> 2 ^ RND_SIZE TYPE('f)" by (rule power_increasing) (simp_all add: sizes)
  then show ?thesis by (simp add: exp_mask)
qed

lemma quantum_pos [simp]: "0 < quantum TYPE('f) e" "quantum TYPE('f) e \<noteq> 0"
  by (simp_all add: quantum_def)

lemma quantum_add: "quantum TYPE('f) (e + int n) = quantum TYPE('f) e * 2 ^ n"
proof -
  have "e + int n - sf_bias TYPE('f) - int (MANT_SIZE TYPE('f)) = (e - sf_bias TYPE('f) - int (MANT_SIZE TYPE('f))) + int n" by simp
  then show ?thesis unfolding quantum_def by (simp only:) (simp add: power_int_add)
qed

lemma mult_cancel_right_nz: "c \<noteq> 0 \<Longrightarrow> a * c = b * c \<longleftrightarrow> a = b" for a b c :: real
  by simp

lemma log_powi: "log 2 (2 powi z) = of_int z"
  using powr_real_of_int' [of "2 :: real" z] log_powr_cancel [of 2 "of_int z"] by simp

text \<open>The binade of a magnitude given by its mantissa.\<close>

lemma binade_eq:
  assumes "2 ^ (MANT_SIZE TYPE('f) + RND_SIZE TYPE('f)) \<le> y" "y < 2 ^ (MANT_SIZE TYPE('f) + RND_SIZE TYPE('f) + 1)"
  shows "binade TYPE('f) (y / 2 ^ RND_SIZE TYPE('f) * quantum TYPE('f) e) = e"
proof -
  have y: "0 < y" using assms(1) by (rule less_le_trans [rotated]) simp
  have "log 2 (y / 2 ^ RND_SIZE TYPE('f) * quantum TYPE('f) e) = log 2 y - real (RND_SIZE TYPE('f)) + of_int (e - sf_bias TYPE('f) - int (MANT_SIZE TYPE('f)))"
    using y by (simp add: log_mult log_divide quantum_def log_powi)
  moreover have "real (MANT_SIZE TYPE('f) + RND_SIZE TYPE('f)) \<le> log 2 y" using assms(1) y by (simp add: le_log_iff powr_realpow flip: of_nat_add)
  moreover have "log 2 y < real (MANT_SIZE TYPE('f) + RND_SIZE TYPE('f) + 1)" using assms(2) y by (simp add: log_less_iff powr_realpow del: power_Suc of_nat_Suc)
  ultimately have "\<lfloor>log 2 (y / 2 ^ RND_SIZE TYPE('f) * quantum TYPE('f) e)\<rfloor> = e - sf_bias TYPE('f)"
    by (intro floor_unique) simp_all
  then show ?thesis unfolding binade_def by simp
qed

text \<open>\<open>round_pack_sf\<close> on natural numbers.\<close>

lemma sign_shift_less:
  assumes "m < 2 ^ (j + d)" "0 < j"
  shows "rshift_nat m d < 2 ^ j"
proof -
  have q: "m div 2 ^ d < 2 ^ j" using assms(1) by (simp add: less_mult_imp_div_less power_add)
  have j: "even ((2 :: nat) ^ j)" using assms(2) by simp
  have "even (m div 2 ^ d) \<Longrightarrow> m div 2 ^ d + 1 \<noteq> 2 ^ j"
  proof
    assume "even (m div 2 ^ d)" "m div 2 ^ d + 1 = 2 ^ j"
    then show False using j by (metis even_plus_one_iff)
  qed
  then show ?thesis using q by (auto simp: rshift_nat_def or_1_cases simp del: One_nat_def)
qed

lemma round_pack_nat:
  fixes w :: "'f word" and a_exp :: int and rm :: RoundingModeEnum and neg :: bool and fl :: u32
  assumes w: "unat w < 2 ^ (LENGTH('f) - 1)"
  defines "d \<equiv> if a_exp \<le> 0 then nat (1 - a_exp) else 0"
  defines "m \<equiv> rshift_nat (unat w) d"
  defines "n \<equiv> rnd_nat rm neg (RND_SIZE TYPE('f)) m"
  defines "e \<equiv> max 1 a_exp + int (n div 2 ^ (MANT_SIZE TYPE('f) + 1))"
  defines "inexact \<equiv> m mod 2 ^ (RND_SIZE TYPE('f)) \<noteq> 0"
  defines "tiny \<equiv> a_exp \<le> 0 \<and> (a_exp < 0 \<or> unat w + addend_nat rm neg (RND_SIZE TYPE('f)) < 2 ^ (LENGTH('f) - 1))"
  defines "flags \<equiv> (if inexact \<and> tiny then fl OR FFLAG_UNDERFLOW else fl) OR (if inexact then FFLAG_INEXACT else 0)"
  shows "round_pack_sf neg a_exp w rm fl =
    (if n < 2 ^ MANT_SIZE TYPE('f) then ((if neg then SIGN_MASK else 0) OR of_int (int n), flags)
     else if EXP_MASK TYPE('f) \<le> e then
       ((if neg then SIGN_MASK else 0) OR of_int (EXP_MASK TYPE('f) * 2 ^ MANT_SIZE TYPE('f) - of_bool (\<not> overflow_to_inf rm neg)),
        flags OR (FFLAG_OVERFLOW OR FFLAG_INEXACT))
     else ((if neg then SIGN_MASK else 0) OR of_int (e * 2 ^ MANT_SIZE TYPE('f) + int (n mod 2 ^ MANT_SIZE TYPE('f))), flags))"
proof -
  let ?a = "round_addend (RND_SIZE TYPE('f)) neg rm :: 'f word"
  define w' where "w' = (if a_exp \<le> 0 then rshift_rnd w (nat (1 - a_exp)) else w)"
  define v where "v = round_mant rm ?a w'"
  have r: "0 < (RND_SIZE TYPE('f))" "(RND_SIZE TYPE('f)) < LENGTH('f)" using sizes by simp_all
  have a: "unat ?a = addend_nat rm neg (RND_SIZE TYPE('f))" by (rule unat_round_addend [OF r])
  have a0: "?a = 0 \<longleftrightarrow> \<not> overflow_to_inf rm neg"
    using addend_nat_eq_0 [OF r(1), of rm neg] by (simp only: a [symmetric] unat_eq_0)
  have al: "addend_nat rm neg (RND_SIZE TYPE('f)) < 2 ^ (LENGTH('f) - 1)"
  proof -
    have "addend_nat rm neg (RND_SIZE TYPE('f)) < 2 ^ (RND_SIZE TYPE('f))" by (rule addend_nat_less [OF r(1)])
    also have "(2 :: nat) ^ (RND_SIZE TYPE('f)) \<le> 2 ^ (LENGTH('f) - 1)" by (rule power_increasing) (simp_all add: sizes)
    finally show ?thesis .
  qed
  have F: "(2 :: nat) ^ LENGTH('f) = 2 ^ (LENGTH('f) - 1) + 2 ^ (LENGTH('f) - 1)"
    by (simp add: sizes)
  have w': "unat w' = m"
    by (simp add: w'_def m_def d_def unat_rshift_rnd) (simp add: rshift_nat_def)
  have "unat w < 2 ^ (LENGTH('f) - 1 + d)" using w by (rule less_le_trans) simp
  then have m: "m < 2 ^ (LENGTH('f) - 1)" unfolding m_def by (rule sign_shift_less) (simp add: sizes)
  have v: "unat v = n"
    using unat_round_mant [OF r, of w' rm neg] m al F unfolding w' by (simp add: v_def n_def)
  have sum: "w + ?a < push_bit (LENGTH('f) - 1) 1 \<longleftrightarrow> unat w + addend_nat rm neg (RND_SIZE TYPE('f)) < 2 ^ (LENGTH('f) - 1)"
  proof -
    have p: "unat (push_bit (LENGTH('f) - 1) 1 :: 'f word) = 2 ^ (LENGTH('f) - 1)" by (rule unat_push_1) simp
    have "unat w + unat ?a < 2 ^ LENGTH('f)" using w al F unfolding a by linarith
    then show ?thesis unfolding word_less_nat_alt p by (simp only: unat_word_ariths mod_less a)
  qed
  have bits: "w' AND (push_bit (RND_SIZE TYPE('f)) 1 - 1) = 0 \<longleftrightarrow> \<not> inexact" unfolding low_mask_0 w' inexact_def by simp
  have mm: "unat (MANT_MASK :: 'f word) = 2 ^ MANT_SIZE TYPE('f) - 1"
    unfolding MANT_MASK_def by (rule unat_push_mask) (simp add: sizes)
  have le: "v \<le> MANT_MASK \<longleftrightarrow> n < 2 ^ MANT_SIZE TYPE('f)"
  proof -
    have "0 < (2 :: nat) ^ MANT_SIZE TYPE('f)" by simp
    then have "n \<le> 2 ^ MANT_SIZE TYPE('f) - 1 \<longleftrightarrow> n < 2 ^ MANT_SIZE TYPE('f)" by arith
    then show ?thesis unfolding word_le_nat_alt v mm .
  qed
  have ex: "uint (drop_bit (MANT_SIZE TYPE('f) + 1) v) = int (n div 2 ^ (MANT_SIZE TYPE('f) + 1))"
    by (simp only: uint_nat unat_drop v)
  have "round_pack_sf neg a_exp w rm fl =
      (if n < 2 ^ MANT_SIZE TYPE('f) then (pack_sf neg 0 v, flags)
       else if EXP_MASK TYPE('f) \<le> e then
         (if ?a = 0 then pack_sf neg (EXP_MASK TYPE('f) - 1) MANT_MASK else pack_sf neg (EXP_MASK TYPE('f)) 0,
          flags OR (FFLAG_OVERFLOW OR FFLAG_INEXACT))
       else (pack_sf neg e v, flags))"
    unfolding round_pack_sf_def Let_def w'_def [symmetric] v_def [symmetric] bits le ex sum
    by (auto simp: e_def flags_def tiny_def)
  then show ?thesis
    unfolding a0 pack_eq v mm by (auto simp: of_nat_diff algebra_simps)
qed

text \<open>The specification in the same terms.\<close>

lemma sticky_range:
  assumes s: "sticky k m y" "k + 2 \<le> (RND_SIZE TYPE('f))" and m: "2 ^ (MANT_SIZE TYPE('f) + (RND_SIZE TYPE('f))) \<le> m" "m < 2 ^ (MANT_SIZE TYPE('f) + (RND_SIZE TYPE('f)) + 1)"
  shows "2 ^ (MANT_SIZE TYPE('f) + (RND_SIZE TYPE('f))) \<le> y \<and> y < 2 ^ (MANT_SIZE TYPE('f) + (RND_SIZE TYPE('f)) + 1)"
proof -
  let ?n = "MANT_SIZE TYPE('f) + (RND_SIZE TYPE('f))"
  have "m div 2 ^ ?n = 1" using m by (intro div_nat_eqI) simp_all
  then show ?thesis using sticky_remainder [OF s(1), of ?n] s(2) by simp
qed

text \<open>Tininess after rounding with an unbounded exponent is the test \<open>round_pack_sf\<close> makes on the mantissa.\<close>

lemma tiny_round_iff:
  fixes a_exp :: int and m :: nat and rm :: RoundingModeEnum and neg :: bool
  defines "r \<equiv> rnd_nat rm neg (RND_SIZE TYPE('f)) m"
  assumes b: "2 ^ MANT_SIZE TYPE('f) \<le> r \<and> r \<le> 2 ^ (MANT_SIZE TYPE('f) + 1)"
  shows "real r * quantum TYPE('f) a_exp < 2 ^ MANT_SIZE TYPE('f) * quantum TYPE('f) 1 \<longleftrightarrow>
    a_exp \<le> 0 \<and> (a_exp < 0 \<or> m + addend_nat rm neg (RND_SIZE TYPE('f)) < 2 ^ (LENGTH('f) - 1))"
proof -
  let ?q = "quantum TYPE('f)"
  consider "a_exp \<ge> 1" | "a_exp = 0" | "a_exp < 0" by linarith
  then show ?thesis
  proof cases
    case 1
    then have "?q a_exp = ?q 1 * 2 ^ nat (a_exp - 1)" using quantum_add [of 1 "nat (a_exp - 1)"] by simp
    moreover have "?q 1 * 1 \<le> ?q 1 * 2 ^ nat (a_exp - 1)" by (rule mult_left_mono) (simp_all add: less_imp_le)
    ultimately have "?q 1 \<le> ?q a_exp" by simp
    moreover have "real (2 ^ MANT_SIZE TYPE('f)) \<le> real r" using b by (simp only: of_nat_le_iff)
    ultimately have "real (2 ^ MANT_SIZE TYPE('f)) * ?q 1 \<le> real r * ?q a_exp"
      by (intro mult_mono) (simp_all add: less_imp_le)
    then show ?thesis using 1 by simp
  next
    case 2
    have f: "LENGTH('f) - 1 = MANT_SIZE TYPE('f) + 1 + (RND_SIZE TYPE('f))" by (simp add: sizes)
    have "k - k mod 2 < 2 * K \<longleftrightarrow> k < 2 * K" for k K :: nat by presburger
    then have e: "k - k mod 2 < 2 ^ (MANT_SIZE TYPE('f) + 1) \<longleftrightarrow> k < 2 ^ (MANT_SIZE TYPE('f) + 1)" for k :: nat
      by simp
    have "r < 2 ^ (MANT_SIZE TYPE('f) + 1) \<longleftrightarrow> (m + addend_nat rm neg (RND_SIZE TYPE('f))) div 2 ^ (RND_SIZE TYPE('f)) < 2 ^ (MANT_SIZE TYPE('f) + 1)"
      unfolding r_def rnd_nat_def Let_def by (simp only: e split: if_split) simp
    also have "\<dots> \<longleftrightarrow> m + addend_nat rm neg (RND_SIZE TYPE('f)) < 2 ^ (LENGTH('f) - 1)"
      unfolding f power_add [of 2 "MANT_SIZE TYPE('f) + 1"] by (simp add: div_less_iff_less_mult)
    finally have *: "r < 2 ^ (MANT_SIZE TYPE('f) + 1) \<longleftrightarrow> m + addend_nat rm neg (RND_SIZE TYPE('f)) < 2 ^ (LENGTH('f) - 1)" .
    have "?q 1 = ?q 0 * 2" using quantum_add [of 0 1] by simp
    then have "real r * ?q 0 < 2 ^ MANT_SIZE TYPE('f) * ?q 1 \<longleftrightarrow>
        real r * ?q 0 < real (2 ^ (MANT_SIZE TYPE('f) + 1)) * ?q 0" by (simp add: mult.commute)
    also have "\<dots> \<longleftrightarrow> r < 2 ^ (MANT_SIZE TYPE('f) + 1)"
      using mult_less_cancel_right_pos [OF quantum_pos(1)] of_nat_less_iff by blast
    finally show ?thesis unfolding * using 2 by simp
  next
    case 3
    then have "?q 1 = ?q a_exp * 2 ^ nat (1 - a_exp)" using quantum_add [of a_exp "nat (1 - a_exp)"] by simp
    moreover have "(2 :: real) ^ 2 \<le> 2 ^ nat (1 - a_exp)" using 3 by (intro power_increasing) simp_all
    ultimately have "?q a_exp * 4 \<le> ?q 1" by (simp add: less_imp_le)
    then have "2 ^ MANT_SIZE TYPE('f) * (?q a_exp * 4) \<le> 2 ^ MANT_SIZE TYPE('f) * ?q 1" by simp
    moreover have "real r \<le> real (2 ^ (MANT_SIZE TYPE('f) + 1))" using b by (simp only: of_nat_le_iff)
    then have "real r * ?q a_exp \<le> real (2 ^ (MANT_SIZE TYPE('f) + 1)) * ?q a_exp"
      by (rule mult_right_mono) (simp add: less_imp_le)
    moreover have "real (2 ^ (MANT_SIZE TYPE('f) + 1)) * ?q a_exp < 2 ^ MANT_SIZE TYPE('f) * (?q a_exp * 4)" by simp
    ultimately have "real r * ?q a_exp < 2 ^ MANT_SIZE TYPE('f) * ?q 1" by linarith
    then show ?thesis using 3 by simp
  qed
qed

lemma ieee_round_nat:
  fixes a_exp :: int and rm :: RoundingModeEnum and neg :: bool and fl :: u32
  assumes s: "sticky k m y" "k + 2 \<le> (RND_SIZE TYPE('f))" and m: "2 ^ (MANT_SIZE TYPE('f) + (RND_SIZE TYPE('f))) \<le> m" "m < 2 ^ (MANT_SIZE TYPE('f) + (RND_SIZE TYPE('f)) + 1)"
  defines "d \<equiv> if a_exp \<le> 0 then nat (1 - a_exp) else 0"
  defines "m' \<equiv> rshift_nat m d"
  defines "n \<equiv> rnd_nat rm neg (RND_SIZE TYPE('f)) m'"
  defines "infc \<equiv> EXP_MASK TYPE('f) * 2 ^ MANT_SIZE TYPE('f)"
  defines "c \<equiv> (max 1 a_exp - 1) * 2 ^ MANT_SIZE TYPE('f) + int n"
  defines "inexact \<equiv> m' mod 2 ^ (RND_SIZE TYPE('f)) \<noteq> 0"
  defines "tiny \<equiv> a_exp \<le> 0 \<and> (a_exp < 0 \<or> m + addend_nat rm neg (RND_SIZE TYPE('f)) < 2 ^ (LENGTH('f) - 1))"
  defines "flags \<equiv> (if inexact \<and> tiny then fl OR FFLAG_UNDERFLOW else fl) OR (if inexact then FFLAG_INEXACT else 0)"
  shows "(ieee_round neg (y / 2 ^ (RND_SIZE TYPE('f)) * quantum TYPE('f) a_exp) rm fl :: 'f word \<times> u32) =
    (if infc \<le> c then
       ((if neg then SIGN_MASK else 0) OR of_int (infc - of_bool (\<not> overflow_to_inf rm neg)),
        fl OR (FFLAG_OVERFLOW OR FFLAG_INEXACT))
     else ((if neg then SIGN_MASK else 0) OR of_int c, flags))"
proof -
  let ?e = "max 1 a_exp" and ?q = "quantum TYPE('f)"
  define x where "x = y / 2 ^ (RND_SIZE TYPE('f)) * ?q a_exp"
  note y = sticky_range [OF s m]
  have b: "binade TYPE('f) x = a_exp" unfolding x_def by (rule binade_eq) (use y in simp_all)
  have "?e = a_exp + int d" by (simp add: d_def)
  then have x: "x = y / 2 ^ d / 2 ^ (RND_SIZE TYPE('f)) * ?q ?e" unfolding x_def by (simp only: quantum_add) simp
  have s': "sticky k m' (y / 2 ^ d)"
    using sticky_rshift [OF s(1), of d] unfolding m'_def by (rule sticky_mono) simp
  have n: "rnd_at TYPE('f) ?e rm neg x = int n"
    unfolding rnd_at_def x n_def using rnd_sticky [OF s' s(2)] by simp
  have i: "of_int (int n) * ?q ?e \<noteq> x \<longleftrightarrow> inexact"
  proof -
    have "of_int (int n) * ?q ?e = x \<longleftrightarrow> of_int (int n) = y / 2 ^ d / 2 ^ (RND_SIZE TYPE('f))"
      unfolding x by (rule mult_cancel_right_nz) simp
    then show ?thesis
      using sticky_exact_iff [OF s' s(2), of rm neg] unfolding n_def inexact_def rnd_sticky [OF s' s(2)] by simp
  qed
  have n0: "rnd_at TYPE('f) a_exp rm neg x = int (rnd_nat rm neg (RND_SIZE TYPE('f)) m)"
    unfolding rnd_at_def x_def using rnd_sticky [OF s] by simp
  have b0: "2 ^ MANT_SIZE TYPE('f) \<le> rnd_nat rm neg (RND_SIZE TYPE('f)) m \<and> rnd_nat rm neg (RND_SIZE TYPE('f)) m \<le> 2 ^ (MANT_SIZE TYPE('f) + 1)"
    by (rule rnd_nat_bounds [OF s]) (use m in \<open>simp_all add: power_add mult_ac\<close>)
  have t: "of_int (rnd_at TYPE('f) a_exp rm neg x) * ?q a_exp < 2 ^ MANT_SIZE TYPE('f) * ?q 1 \<longleftrightarrow> tiny"
    using tiny_round_iff [OF b0] by (simp add: n0 tiny_def)
  show ?thesis
    unfolding x_def [symmetric] ieee_round_def Let_def b n i t infc_def [symmetric] c_def [symmetric] flags_def
    by simp
qed

text \<open>\<open>round_pack_sf\<close> rounds the real its mantissa stands for.\<close>

lemma round_pack_correct:
  fixes w :: "'f word"
  assumes s: "sticky k (unat w) y" "k + 2 \<le> (RND_SIZE TYPE('f))"
    and w: "2 ^ (MANT_SIZE TYPE('f) + (RND_SIZE TYPE('f))) \<le> unat w" "unat w < 2 ^ (MANT_SIZE TYPE('f) + (RND_SIZE TYPE('f)) + 1)"
  shows "round_pack_sf neg a_exp w rm fl = ieee_round neg (y / 2 ^ (RND_SIZE TYPE('f)) * quantum TYPE('f) a_exp) rm fl"
proof -
  define d where "d = (if a_exp \<le> 0 then nat (1 - a_exp) else 0)"
  define m where "m = rshift_nat (unat w) d"
  define n where "n = rnd_nat rm neg (RND_SIZE TYPE('f)) m"
  have f: "LENGTH('f) - 1 = MANT_SIZE TYPE('f) + (RND_SIZE TYPE('f)) + 1" by (simp add: sizes)
  have s': "sticky k m (y / 2 ^ d)" using sticky_rshift [OF s(1), of d] unfolding m_def by (rule sticky_mono) simp
  have e3: "3 \<le> EXP_MASK TYPE('f)" using exp_mask_ge by simp
  have over: "(fl' OR FFLAG_INEXACT) OR (FFLAG_OVERFLOW OR FFLAG_INEXACT) = fl' OR (FFLAG_OVERFLOW OR FFLAG_INEXACT)" for fl'
    by (simp add: ac_simps)
  note c = round_pack_nat [where w = w and a_exp = a_exp and neg = neg and rm = rm and fl = fl, folded d_def, folded m_def, folded n_def, unfolded f, OF w(2)]
  note i = ieee_round_nat [OF s w, where a_exp = a_exp and neg = neg and rm = rm and fl = fl, folded d_def, folded m_def, folded n_def, unfolded f]
  show ?thesis
  proof (cases "a_exp \<le> 0")
    case True
    have "unat w < 2 ^ ((MANT_SIZE TYPE('f) + (RND_SIZE TYPE('f))) + d)"
      using w(2) by (rule less_le_trans) (intro power_increasing, use True in \<open>simp_all add: d_def\<close>)
    then have "m < 2 ^ (MANT_SIZE TYPE('f) + (RND_SIZE TYPE('f)))" unfolding m_def by (rule sign_shift_less) (use sizes in simp)
    then have n: "n \<le> 2 ^ MANT_SIZE TYPE('f)"
      using rnd_nat_bounds [OF s' s(2), of 0 "2 ^ MANT_SIZE TYPE('f)" rm neg] by (simp add: n_def power_add)
    have e: "max 1 a_exp = 1" using True by simp
    have lt: "int n < EXP_MASK TYPE('f) * 2 ^ MANT_SIZE TYPE('f)"
    proof -
      have "int n \<le> 1 * 2 ^ MANT_SIZE TYPE('f)" using n by (metis mult_1 of_nat_le_iff of_nat_numeral of_nat_power)
      also have "\<dots> < EXP_MASK TYPE('f) * 2 ^ MANT_SIZE TYPE('f)" using e3 by (intro mult_strict_right_mono) simp_all
      finally show ?thesis .
    qed
    show ?thesis
    proof (cases "n = 2 ^ MANT_SIZE TYPE('f)")
      case True
      then show ?thesis unfolding c i e using lt e3 by simp
    next
      case False
      then have "n < 2 ^ MANT_SIZE TYPE('f)" using n by simp
      then show ?thesis unfolding c i e using lt by simp
    qed
  next
    case False
    then have m: "m = unat w" by (simp add: m_def d_def rshift_nat_def)
    have n: "2 ^ MANT_SIZE TYPE('f) \<le> n" "n \<le> 2 * 2 ^ MANT_SIZE TYPE('f)"
      using rnd_nat_bounds [OF s' s(2), of "2 ^ MANT_SIZE TYPE('f)" "2 * 2 ^ MANT_SIZE TYPE('f)" rm neg] w by (simp_all add: n_def m power_add)
    have e: "max 1 a_exp = a_exp" using False by simp
    have nt: "\<not> a_exp \<le> 0" using False .
    show ?thesis
    proof (cases "n = 2 * 2 ^ MANT_SIZE TYPE('f)")
      case True
      then have "(a_exp - 1) * 2 ^ MANT_SIZE TYPE('f) + int n = (a_exp + 1) * 2 ^ MANT_SIZE TYPE('f)" by (simp add: algebra_simps)
      then show ?thesis unfolding c i e using True nt by (simp add: over)
    next
      case False
      then have l: "n < 2 * 2 ^ MANT_SIZE TYPE('f)" using n by simp
      have q: "n div 2 ^ (MANT_SIZE TYPE('f) + 1) = 0" using l by simp
      have r: "n mod 2 ^ MANT_SIZE TYPE('f) = n - 2 ^ MANT_SIZE TYPE('f)" using n(1) l by (simp add: mod_if)
      have k: "(a_exp - 1) * 2 ^ MANT_SIZE TYPE('f) + int n = a_exp * 2 ^ MANT_SIZE TYPE('f) + int (n mod 2 ^ MANT_SIZE TYPE('f))"
        unfolding r using n(1) by (simp add: algebra_simps of_nat_diff)
      have "int (n mod 2 ^ MANT_SIZE TYPE('f)) < int (2 ^ MANT_SIZE TYPE('f))" by (simp only: of_nat_less_iff) simp
      then have "EXP_MASK TYPE('f) * 2 ^ MANT_SIZE TYPE('f) \<le> a_exp * 2 ^ MANT_SIZE TYPE('f) + int (n mod 2 ^ MANT_SIZE TYPE('f)) \<longleftrightarrow>
          EXP_MASK TYPE('f) \<le> a_exp"
        by (intro scaled_le) simp_all
      then show ?thesis unfolding c i e k q using n(1) nt by (simp add: over not_less)
    qed
  qed
qed

text \<open>The mantissa need not be normalized first, if the sticky bit stays low enough.\<close>

lemma clz_shift:
  fixes w :: "'f word"
  assumes "w \<noteq> 0" "unat w < 2 ^ (MANT_SIZE TYPE('f) + (RND_SIZE TYPE('f)) + 1)"
  defines "l \<equiv> builtin_clz w - 1"
  shows "1 \<le> builtin_clz w \<and> 2 ^ (MANT_SIZE TYPE('f) + (RND_SIZE TYPE('f))) \<le> unat w * 2 ^ l \<and> unat w * 2 ^ l < 2 ^ (MANT_SIZE TYPE('f) + (RND_SIZE TYPE('f)) + 1)"
proof -
  let ?c = "builtin_clz w"
  have f: "LENGTH('f) - 1 = MANT_SIZE TYPE('f) + (RND_SIZE TYPE('f)) + 1" by (simp add: sizes)
  have cl: "?c < LENGTH('f)" by (rule clz_nonzero [OF assms(1)])
  have lo: "2 ^ (LENGTH('f) - 1 - ?c) \<le> unat w" by (rule clz_lower [OF assms(1)])
  have hi: "unat w < 2 ^ (LENGTH('f) - ?c)" by (rule clz_upper)
  have c1: "1 \<le> ?c"
  proof (rule ccontr)
    assume "\<not> 1 \<le> ?c"
    then have "?c = 0" by simp
    then have "2 ^ (LENGTH('f) - 1) \<le> unat w" using lo by simp
    then show False using assms(2) unfolding f by simp
  qed
  have "2 ^ (LENGTH('f) - 1 - ?c) * 2 ^ l \<le> unat w * 2 ^ l" using lo by (rule mult_right_mono) simp
  moreover have "unat w * 2 ^ l < 2 ^ (LENGTH('f) - ?c) * 2 ^ l" using hi by (rule mult_strict_right_mono) simp
  moreover have "LENGTH('f) - 1 - ?c + l = MANT_SIZE TYPE('f) + (RND_SIZE TYPE('f))" "LENGTH('f) - ?c + l = MANT_SIZE TYPE('f) + (RND_SIZE TYPE('f)) + 1"
    using c1 cl by (simp_all add: l_def sizes)
  ultimately show ?thesis using c1 by (simp only: power_add [symmetric])
qed

lemma normalize_correct:
  fixes w :: "'f word"
  assumes nz: "w \<noteq> 0" and w: "unat w < 2 ^ (MANT_SIZE TYPE('f) + (RND_SIZE TYPE('f)) + 1)" and s: "sticky k (unat w) y"
    and k: "y = real (unat w) \<or> k + 2 + (builtin_clz w - 1) \<le> (RND_SIZE TYPE('f))"
  shows "normalize_sf neg a_exp w rm fl = ieee_round neg (y / 2 ^ (RND_SIZE TYPE('f)) * quantum TYPE('f) a_exp) rm fl"
proof -
  define l where "l = builtin_clz w - 1"
  note c = clz_shift [OF nz w, folded l_def]
  have f: "LENGTH('f) - 1 - IMANT_SIZE TYPE('f) = 1" by (simp add: IMANT_SIZE_def sizes)
  have "(2 :: nat) ^ (MANT_SIZE TYPE('f) + (RND_SIZE TYPE('f)) + 1) \<le> 2 ^ LENGTH('f)" by (rule power_increasing) (simp_all add: sizes)
  then have u: "unat (push_bit l w) = unat w * 2 ^ l" using c by (intro unat_push_small) linarith
  have "\<exists>j. sticky j (unat w * 2 ^ l) (y * 2 ^ l) \<and> j + 2 \<le> (RND_SIZE TYPE('f))"
  proof (cases "y = real (unat w)")
    case True
    then have "sticky 0 (unat w * 2 ^ l) (y * 2 ^ l)" using sticky_exact [of 0 "unat w * 2 ^ l"] by simp
    then show ?thesis using sizes(2) by (intro exI [of _ 0]) simp
  next
    case False
    then show ?thesis using sticky_lshift [OF s, of l] k by (intro exI [of _ "k + l"]) (simp add: l_def)
  qed
  then obtain j where j: "sticky j (unat w * 2 ^ l) (y * 2 ^ l)" "j + 2 \<le> (RND_SIZE TYPE('f))" by blast
  have "normalize_sf neg a_exp w rm fl = round_pack_sf neg (a_exp - int l) (push_bit l w) rm fl"
    unfolding normalize_sf_def f Let_def l_def ..
  also have "\<dots> = ieee_round neg (y * 2 ^ l / 2 ^ (RND_SIZE TYPE('f)) * quantum TYPE('f) (a_exp - int l)) rm fl"
    by (rule round_pack_correct [OF j(1) [folded u] j(2)]) (use c u in simp_all)
  also have "y * 2 ^ l / 2 ^ (RND_SIZE TYPE('f)) * quantum TYPE('f) (a_exp - int l) = y / 2 ^ (RND_SIZE TYPE('f)) * quantum TYPE('f) a_exp"
    using quantum_add [of "a_exp - int l" l] by simp
  finally show ?thesis .
qed

lemma normalize_0: "normalize_sf neg a_exp (0 :: 'f word) rm fl = (if neg then SIGN_MASK else 0, fl)"
proof -
  have z: "rshift_nat 0 d = 0" for d by (simp add: rshift_nat_def)
  have "addend_nat rm neg (RND_SIZE TYPE('f)) < 2 ^ (RND_SIZE TYPE('f))" by (rule addend_nat_less) (use sizes in simp)
  then have n: "rnd_nat rm neg (RND_SIZE TYPE('f)) 0 = 0" by (simp add: rnd_nat_def)
  show ?thesis
    unfolding normalize_sf_def Let_def by (simp add: round_pack_nat z n)
qed

end

end
