(* ===== verification/Float_Operands.thy ===== *)
theory Float_Operands
  imports Round_Pack
begin

text \<open>
  The fields of a word as numbers, and the exponent and mantissa an operation works on: what
  \<open>norm_operand\<close> returns is the magnitude of the operand, with the leading one in place.
\<close>

declare of_nat_unat [simp del]

section \<open>Fields\<close>

context float_format
begin

lemma unat_mant: "unat (sf_mant (a :: 'f word)) = unat a mod 2 ^ MANT_SIZE TYPE('f)"
  by (simp add: sf_mant_def MANT_MASK_def low_mask_nat del: push_bit_of_1)

lemma mant_less: "unat (sf_mant (a :: 'f word)) < 2 ^ MANT_SIZE TYPE('f)"
  by (simp add: unat_mant)

lemma exp_eq: "sf_exp (a :: 'f word) = int (unat a div 2 ^ MANT_SIZE TYPE('f) mod 2 ^ (RND_SIZE TYPE('f) + 1))"
proof -
  have "(of_int (EXP_MASK TYPE('f)) :: 'f word) = push_bit (RND_SIZE TYPE('f) + 1) 1 - 1"
    by (simp add: exp_mask)
  then have "uint (drop_bit (MANT_SIZE TYPE('f)) a AND of_int (EXP_MASK TYPE('f))) = int (unat (drop_bit (MANT_SIZE TYPE('f)) a AND (push_bit (RND_SIZE TYPE('f) + 1) 1 - 1)))"
    by (simp only: uint_nat)
  then show ?thesis by (simp only: sf_exp_def low_mask_nat unat_drop)
qed

lemma exp_range: "0 \<le> sf_exp (a :: 'f word)" "sf_exp a \<le> EXP_MASK TYPE('f)"
proof -
  show "0 \<le> sf_exp a" by (simp add: exp_eq)
  have "unat a div 2 ^ MANT_SIZE TYPE('f) mod 2 ^ (RND_SIZE TYPE('f) + 1) < 2 ^ (RND_SIZE TYPE('f) + 1)" by (rule mod_less_divisor) simp
  then have "int (unat a div 2 ^ MANT_SIZE TYPE('f) mod 2 ^ (RND_SIZE TYPE('f) + 1)) < int (2 ^ (RND_SIZE TYPE('f) + 1))" by (simp only: of_nat_less_iff)
  then show "sf_exp a \<le> EXP_MASK TYPE('f)" by (simp add: exp_eq exp_mask)
qed

text \<open>The word without its sign counts the quanta from zero.\<close>

lemma mag_bits: "int (unat (a AND NOT SIGN_MASK :: 'f word)) = sf_exp a * 2 ^ MANT_SIZE TYPE('f) + int (unat (sf_mant a))"
proof -
  have f: "LENGTH('f) - 1 = MANT_SIZE TYPE('f) + (RND_SIZE TYPE('f) + 1)" by (simp add: sizes)
  have "a AND NOT SIGN_MASK = a AND (push_bit (LENGTH('f) - 1) 1 - 1)"
  proof (rule bit_word_eqI)
    fix n assume n: "n < LENGTH('f)"
    have "bit (push_bit (LENGTH('f) - 1) 1 - 1 :: 'f word) n \<longleftrightarrow> n < LENGTH('f) - 1"
      using n by (simp add: bit_mask_iff flip: mask_eq_exp_minus_1)
    then show "bit (a AND NOT SIGN_MASK) n \<longleftrightarrow> bit (a AND (push_bit (LENGTH('f) - 1) 1 - 1)) n"
      using n unfolding SIGN_MASK_def bit_and_iff bit_not_iff bit_push_bit_iff by (auto simp: bit_1_iff)
  qed
  then have "unat (a AND NOT SIGN_MASK) = unat a mod 2 ^ (MANT_SIZE TYPE('f) + (RND_SIZE TYPE('f) + 1))" by (simp only: low_mask_nat f)
  also have "\<dots> = unat a div 2 ^ MANT_SIZE TYPE('f) mod 2 ^ (RND_SIZE TYPE('f) + 1) * 2 ^ MANT_SIZE TYPE('f) + unat a mod 2 ^ MANT_SIZE TYPE('f)"
    by (simp only: power_add mod_mult2_eq) simp
  finally show ?thesis by (simp only: exp_eq unat_mant of_nat_add of_nat_mult of_nat_power of_nat_numeral)
qed

lemma zero_iff: "is_zero_sf (a :: 'f word) \<longleftrightarrow> sf_mag a = 0"
proof -
  have "0 < real (2 ^ MANT_SIZE TYPE('f) + unat (sf_mant a))" by (simp only: of_nat_0_less_iff) simp
  then show ?thesis by (simp add: is_zero_sf_def sf_mag_def unat_eq_0 del: of_nat_add of_nat_power)
qed

lemma mag_nonneg: "0 \<le> sf_mag (a :: 'f word)"
  by (simp add: sf_mag_def less_imp_le)

lemma abs_value: "\<bar>sf_value (a :: 'f word)\<bar> = sf_mag a"
  using mag_nonneg [of a] by (simp add: sf_value_def)

lemma value_0: "sf_value (a :: 'f word) = 0 \<longleftrightarrow> is_zero_sf a"
  by (simp add: sf_value_def zero_iff)

lemma value_neg: "\<not> is_zero_sf (a :: 'f word) \<Longrightarrow> sf_value a < 0 \<longleftrightarrow> sf_sign a"
  using mag_nonneg [of a] by (auto simp: sf_value_def zero_iff)

section \<open>Operands\<close>

lemma unat_hidden:
  assumes "unat (m :: 'f word) < 2 ^ n" "n < LENGTH('f)"
  shows "unat (m OR push_bit n 1) = unat m + 2 ^ n"
proof -
  have "\<not> bit m n" using assms(1) bit_imp_power_le_unat [of m n] by linarith
  then have "m AND push_bit n 1 = 0" by (intro bit_eqI) (auto simp: bit_simps)
  then have "unat (m OR push_bit n 1) = unat (m + push_bit n 1)" by (simp only: word_or_add)
  moreover have "(2 :: nat) ^ n + 2 ^ n \<le> 2 ^ LENGTH('f)"
    using power_increasing [of "Suc n" "LENGTH('f)" "2 :: nat"] assms(2) by simp
  then have "unat m + unat (push_bit n 1 :: 'f word) < 2 ^ LENGTH('f)" using assms unat_push_1 [OF assms(2)] by linarith
  ultimately show ?thesis using unat_push_1 [OF assms(2)] by (simp only: unat_word_ariths mod_less)
qed

lemma norm_operand_correct:
  assumes "finite_sf (a :: 'f word)" "\<not> is_zero_sf a" "norm_operand a = (e, m)"
  shows "2 ^ MANT_SIZE TYPE('f) \<le> unat m \<and> unat m < 2 * 2 ^ MANT_SIZE TYPE('f) \<and> sf_mag a = real (unat m) * quantum TYPE('f) e"
proof (cases "sf_exp a = 0")
  case False
  then have "m = sf_mant a OR push_bit (MANT_SIZE TYPE('f)) 1" "e = sf_exp a" using assms(3) by (simp_all add: norm_operand_def)
  then show ?thesis using False unat_hidden [OF mant_less, of a] mant_less [of a] sizes(1)
    by (simp add: sf_mag_def add.commute del: push_bit_of_1)
next
  case True
  let ?w = "sf_mant a"
  let ?c = "builtin_clz ?w"
  define p where "p = LENGTH('f) - 1 - ?c"
  define l where "l = MANT_SIZE TYPE('f) - p"
  have nz: "?w \<noteq> 0" using assms(2) True by (simp add: is_zero_sf_def)
  have cl: "?c < LENGTH('f)" by (rule clz_nonzero [OF nz])
  have lo: "2 ^ p \<le> unat ?w" unfolding p_def by (rule clz_lower [OF nz])
  have hi: "unat ?w < 2 ^ (p + 1)" using clz_upper [of ?w] cl unfolding p_def by (simp add: Suc_diff_Suc)
  have "2 ^ p < (2 :: nat) ^ MANT_SIZE TYPE('f)" using lo mant_less [of a] by linarith
  then have pM: "p < MANT_SIZE TYPE('f)" by simp
  have e: "e = 1 - int l" and m: "m = push_bit l ?w"
    using assms(3) True pM cl unfolding norm_operand_def normalize_subnormal_sf_def Let_def
    by (auto simp: l_def p_def nat_diff_distrib of_nat_diff intro!: arg_cong2 [where f = push_bit])
  have "unat ?w * 2 ^ l < 2 ^ (p + 1) * 2 ^ l" using hi by (rule mult_strict_right_mono) simp
  moreover have "2 ^ p * 2 ^ l \<le> unat ?w * 2 ^ l" using lo by (rule mult_right_mono) simp
  moreover have "p + l = MANT_SIZE TYPE('f)" "p + 1 + l = MANT_SIZE TYPE('f) + 1" using pM by (simp_all add: l_def)
  ultimately have r: "2 ^ MANT_SIZE TYPE('f) \<le> unat ?w * 2 ^ l" "unat ?w * 2 ^ l < 2 ^ (MANT_SIZE TYPE('f) + 1)"
    by (simp_all only: power_add [symmetric])
  have "(2 :: nat) ^ (MANT_SIZE TYPE('f) + 1) \<le> 2 ^ LENGTH('f)" by (rule power_increasing) (simp_all add: sizes)
  then have u: "unat m = unat ?w * 2 ^ l" unfolding m using r by (intro unat_push_small) linarith
  have "quantum TYPE('f) 1 = quantum TYPE('f) e * 2 ^ l" using quantum_add [of e l] by (simp add: e)
  then show ?thesis using r True by (simp add: u sf_mag_def)
qed

end

end
