(* ===== verification/Float_Mul.thy ===== *)
theory Float_Mul
  imports Float_Operands
begin

text \<open>
  \<open>mul_sf\<close> and \<open>div_sf\<close> return the exact product and quotient of finite operands, rounded once.
\<close>

section \<open>Double words\<close>

lemma hi_lo:
  fixes p :: "'f::len bit0 word"
  shows "unat (ucast (drop_bit LENGTH('f) p) :: 'f word) = unat p div 2 ^ LENGTH('f)"
    and "unat (ucast p :: 'f word) = unat p mod 2 ^ LENGTH('f)"
proof -
  have "unat p < 2 ^ (LENGTH('f) * 2)" using unsigned_less [of p] by (simp add: mult.commute)
  then have "unat p div 2 ^ LENGTH('f) < 2 ^ LENGTH('f)"
    by (simp add: less_mult_imp_div_less power_mult power2_eq_square)
  then show "unat (ucast (drop_bit LENGTH('f) p) :: 'f word) = unat p div 2 ^ LENGTH('f)"
    by (simp add: unsigned_ucast_eq take_bit_eq_mod unat_drop)
  show "unat (ucast p :: 'f word) = unat p mod 2 ^ LENGTH('f)"
    by (simp add: unsigned_ucast_eq take_bit_eq_mod)
qed

lemma unat_wide: "unat (ucast (a :: 'f::len word) :: 'f bit0 word) = unat a"
proof -
  have "unat a < 2 ^ LENGTH('f)" by simp
  also have "(2 :: nat) ^ LENGTH('f) \<le> 2 ^ LENGTH('f bit0)" by (rule power_increasing) simp_all
  finally show ?thesis by (simp add: unsigned_ucast_eq take_bit_nat_eq_self_iff)
qed

lemma mul_u_correct:
  assumes "mul_u a (b :: 'f::len word) = (hi, lo)"
  shows "unat hi = unat a * unat b div 2 ^ LENGTH('f) \<and> unat lo = unat a * unat b mod 2 ^ LENGTH('f)"
proof -
  have "unat a * unat b < 2 ^ LENGTH('f) * 2 ^ LENGTH('f)" by (intro mult_strict_mono) simp_all
  then have "unat ((ucast a :: 'f bit0 word) * ucast b) = unat a * unat b"
    by (simp add: unat_word_ariths unat_wide power_add [symmetric] mult_2)
  then show ?thesis using assms hi_lo [of "(ucast a :: 'f bit0 word) * ucast b"] by (auto simp: mul_u_def Let_def)
qed

lemma unat_or_low:
  assumes "unat (hi :: 'f::len word) = p div 2 ^ d" "unat (lo :: 'f word) = p mod 2 ^ d"
  shows "unat (hi OR of_bool (lo \<noteq> 0)) = rshift_nat p d"
  using assms by (simp add: unat_or_bool rshift_nat_def unat_eq_0 [symmetric] del: One_nat_def)

lemma rshift_nat_ge: "m div 2 ^ d \<le> rshift_nat m d"
  by (simp add: rshift_nat_def or_1_cases del: One_nat_def)

lemma clz_bound:
  assumes "2 ^ n \<le> unat (w :: 'f::len word)"
  shows "builtin_clz w + n < LENGTH('f)"
proof -
  have "(2 :: nat) ^ n < 2 ^ (LENGTH('f) - builtin_clz w)" using assms clz_upper [of w] by (rule le_less_trans)
  then show ?thesis by simp
qed

context float_format
begin

lemma quantum_mult: "quantum TYPE('f) d * quantum TYPE('f) e =
    quantum TYPE('f) (d + e - sf_bias TYPE('f) - int (MANT_SIZE TYPE('f)))"
  by (simp add: quantum_def power_int_add [symmetric] algebra_simps)

section \<open>Multiplication\<close>

lemma mul_finite_correct:
  assumes a: "finite_sf (a :: 'f word)" "\<not> is_zero_sf a" and b: "finite_sf (b :: 'f word)" "\<not> is_zero_sf b"
    and m: "mul_finite a b = (e, w)"
  shows "normalize_sf neg e w rm fl = ieee_round neg (sf_mag a * sf_mag b) rm fl"
proof -
  let ?M = "MANT_SIZE TYPE('f)" and ?R = "RND_SIZE TYPE('f)" and ?q = "quantum TYPE('f)"
  obtain ea ma eb mb where na: "norm_operand a = (ea, ma)" and nb: "norm_operand b = (eb, mb)" by fastforce
  note ca = norm_operand_correct [OF a na] and cb = norm_operand_correct [OF b nb]
  obtain hi lo where u: "mul_u (push_bit ?R ma) (push_bit (?R + 1) mb) = (hi, lo)" by fastforce
  define p where "p = (unat ma * 2 ^ ?R) * (unat mb * 2 ^ (?R + 1))"
  have ew: "e = ea + eb - 2 ^ ?R + 2" "w = hi OR of_bool (lo \<noteq> 0)"
    using m u by (simp_all add: mul_finite_def na nb Let_def sizes)
  have up: "unat ma * 2 ^ ?R < 2 * 2 ^ ?M * 2 ^ ?R" "unat mb * 2 ^ (?R + 1) < 2 * 2 ^ ?M * 2 ^ (?R + 1)"
    using ca cb by (intro mult_strict_right_mono; simp)+
  then have "unat (push_bit ?R ma) = unat ma * 2 ^ ?R" "unat (push_bit (?R + 1) mb) = unat mb * 2 ^ (?R + 1)"
    by (intro unat_push_small; simp add: sizes power_add)+
  then have "unat hi = p div 2 ^ LENGTH('f) \<and> unat lo = p mod 2 ^ LENGTH('f)"
    using mul_u_correct [OF u] by (simp only: p_def)
  then have w: "unat w = rshift_nat p LENGTH('f)" unfolding ew by (intro unat_or_low) simp_all
  define y where "y = real p / 2 ^ LENGTH('f)"
  have s: "sticky 0 (unat w) y" using sticky_rshift [OF sticky_exact [of 0 p], of "LENGTH('f)"] by (simp add: w y_def)
  have "(2 ^ ?M * 2 ^ ?R) * (2 ^ ?M * 2 ^ (?R + 1)) \<le> p"
    unfolding p_def using ca cb by (intro mult_mono) simp_all
  moreover have "p < (2 * 2 ^ ?M * 2 ^ ?R) * (2 * 2 ^ ?M * 2 ^ (?R + 1))"
    unfolding p_def by (rule mult_strict_mono [OF up]) simp_all
  ultimately have p: "2 ^ (?M + ?R - 1 + LENGTH('f)) \<le> p" "p < 2 ^ (?M + ?R + 1 + LENGTH('f))"
    using sizes by (simp_all add: power_add ac_simps)
  have "2 ^ (?M + ?R - 1) \<le> p div 2 ^ LENGTH('f)" using div_le_mono [OF p(1), of "2 ^ LENGTH('f)"] by (simp add: power_add)
  then have lo: "2 ^ (?M + ?R - 1) \<le> unat w" unfolding w using rshift_nat_ge by (rule order_trans)
  then have nz: "w \<noteq> 0" by (auto simp: unat_eq_0)
  have hi: "unat w < 2 ^ (?M + ?R + 1)" unfolding w using p(2) by (rule sign_shift_less) simp
  have cl: "0 + 2 + (builtin_clz w - 1) \<le> ?R" using clz_bound [OF lo] sizes by linarith
  have q: "?q e = ?q ea * ?q eb * 2 ^ (?M + 1)"
    unfolding quantum_mult quantum_add [symmetric] by (simp add: ew exp_mask algebra_simps)
  have "y / 2 ^ ?R * ?q e = sf_mag a * sf_mag b"
    using ca cb unfolding y_def p_def q sizes(1) by (simp add: power_add field_simps)
  then show ?thesis using normalize_correct [OF nz hi s disjI2, OF cl] by simp
qed

lemma pack_0: "pack_sf s 0 (0 :: 'f word) = (if s then SIGN_MASK else 0)"
  by (simp add: pack_eq)

lemma mul_correct:
  assumes a: "finite_sf (a :: 'f word)" and b: "finite_sf (b :: 'f word)"
  shows "mul_sf a b rm fl = ieee_result (sf_sign a \<noteq> sf_sign b) (sf_value a * sf_value b) rm fl"
proof (cases "is_zero_sf a \<or> is_zero_sf b")
  case True
  then have "sf_value a * sf_value b = 0" by (auto simp: value_0)
  then show ?thesis using a b True by (simp add: mul_sf_def finite_sf_def pack_0 ieee_result_def)
next
  case False
  obtain e w where m: "mul_finite a b = (e, w)" by fastforce
  have v: "sf_value a * sf_value b \<noteq> 0" "\<bar>sf_value a * sf_value b\<bar> = sf_mag a * sf_mag b"
    "sf_value a * sf_value b < 0 \<longleftrightarrow> sf_sign a \<noteq> sf_sign b"
    using False value_0 [of a] value_0 [of b] value_neg [of a] value_neg [of b]
    by (auto simp: abs_mult abs_value mult_less_0_iff)
  have "mul_sf a b rm fl = normalize_sf (sf_sign a \<noteq> sf_sign b) e w rm fl"
    using a b False m by (simp add: mul_sf_def finite_sf_def)
  also have "\<dots> = ieee_round (sf_sign a \<noteq> sf_sign b) (sf_mag a * sf_mag b) rm fl"
    using mul_finite_correct [OF a _ b _ m] False by simp
  finally show ?thesis using v by (simp add: ieee_result_def)
qed

section \<open>Division\<close>

lemma divrem_u_correct:
  assumes d: "divrem_u ah 0 (b :: 'f word) = (q, r)" and b: "unat ah < unat b"
  shows "unat q = unat ah * 2 ^ LENGTH('f) div unat b \<and> unat r = unat ah * 2 ^ LENGTH('f) mod unat b"
proof -
  let ?a = "push_bit LENGTH('f) (ucast ah :: 'f bit0 word) OR ucast (0 :: 'f word)"
  have "unat ah * 2 ^ LENGTH('f) < 2 ^ LENGTH('f) * 2 ^ LENGTH('f)" by simp
  then have a: "unat ?a = unat ah * 2 ^ LENGTH('f)"
    using unat_push_small [of "ucast ah :: 'f bit0 word" "LENGTH('f)"] by (simp add: unat_wide power_add mult_2)
  have q: "unat ah * 2 ^ LENGTH('f) div unat b < 2 ^ LENGTH('f)"
    using b by (intro less_mult_imp_div_less) (simp add: mult.commute)
  have "unat ah * 2 ^ LENGTH('f) mod unat b < unat b" using b by (intro mod_less_divisor) simp
  also have "unat b < 2 ^ LENGTH('f)" by simp
  finally have r: "unat ah * 2 ^ LENGTH('f) mod unat b < 2 ^ LENGTH('f)" .
  have "q = ucast (?a div ucast b)" "r = ucast (?a mod ucast b)"
    using d unfolding divrem_u_def Let_def by blast+
  then show ?thesis using q r by (simp only: hi_lo(2) unat_div_distrib unat_mod_distrib unat_wide a mod_less)
qed

lemma unat_or_1: "unat ((w :: 'f word) OR 1) = unat w OR 1"
  using unat_or_bool [of w True] by simp

lemma sticky_quotient:
  assumes "0 < b"
  shows "sticky 0 (if n mod b \<noteq> 0 then n div b OR 1 else n div b) (real n / real b)"
proof (cases "n mod b = 0")
  case True
  then have "real n / real b = real (n div b)" using assms by (simp add: real_of_nat_div mod_eq_0_iff_dvd)
  then show ?thesis using True sticky_exact by simp
next
  case False
  have n: "real n = real (n div b) * real b + real (n mod b)"
    by (metis div_mult_mod_eq of_nat_add of_nat_mult)
  have "0 < real (n mod b)" "real (n mod b) < real b" using False assms by simp_all
  then have "real (n div b) < real n / real b" "real n / real b < real (n div b) + 1"
    using assms unfolding n by (simp_all add: field_simps)
  then show ?thesis using False by (simp add: sticky_open del: One_nat_def)
qed

lemma div_finite_correct:
  assumes a: "finite_sf (a :: 'f word)" "\<not> is_zero_sf a" and b: "finite_sf (b :: 'f word)" "\<not> is_zero_sf b"
    and m: "div_finite a b = (e, w)"
  shows "normalize_sf neg e w rm fl = ieee_round neg (sf_mag a / sf_mag b) rm fl"
proof -
  let ?M = "MANT_SIZE TYPE('f)" and ?R = "RND_SIZE TYPE('f)" and ?q = "quantum TYPE('f)"
  obtain ea ma eb mb where na: "norm_operand a = (ea, ma)" and nb: "norm_operand b = (eb, mb)" by fastforce
  note ca = norm_operand_correct [OF a na] and cb = norm_operand_correct [OF b nb]
  obtain q r where u: "divrem_u ma 0 (push_bit 2 mb) = (q, r)" by fastforce
  have ew: "e = ea - eb + 2 ^ ?R - 1" "w = (if r \<noteq> 0 then q OR 1 else q)"
    using m u by (simp_all add: div_finite_def na nb Let_def sizes)
  have "unat mb * 2 ^ 2 < 2 * 2 ^ ?M * 2 ^ 2" using cb by (intro mult_strict_right_mono) simp_all
  also have "\<dots> = 2 ^ (?M + 3)" by (simp add: power_add)
  also have "(2 :: nat) ^ (?M + 3) \<le> 2 ^ LENGTH('f)" using sizes by (intro power_increasing) simp_all
  finally have b4: "unat (push_bit 2 mb) = unat mb * 4" using unat_push_small [of mb 2] by simp
  define n where "n = unat ma * 2 ^ LENGTH('f)"
  define y where "y = real n / real (unat mb * 4)"
  have mb0: "0 < unat mb" using cb by (metis gr0I not_le zero_less_power pos2)
  have c: "unat q = n div (unat mb * 4) \<and> unat r = n mod (unat mb * 4)"
    using divrem_u_correct [OF u] ca cb unfolding b4 n_def by linarith
  then have w: "unat w = (if n mod (unat mb * 4) \<noteq> 0 then n div (unat mb * 4) OR 1 else n div (unat mb * 4))"
    by (simp add: ew unat_or_1 unat_eq_0 [symmetric] del: One_nat_def)
  have s: "sticky 0 (unat w) y" unfolding w y_def using mb0 by (intro sticky_quotient) simp
  have F4: "(2 :: nat) ^ LENGTH('f) = 4 * 2 ^ (?M + ?R)" by (simp add: sizes)
  have F2: "(2 :: nat) ^ (?M + ?R) = 2 * 2 ^ (?M + ?R - 1)" using sizes(2) by (simp flip: power_Suc)
  have "2 ^ (?M + ?R - 1) * (unat mb * 4) \<le> 2 ^ (?M + ?R - 1) * (unat ma * 8)" using ca cb by (intro mult_left_mono) linarith+
  then have "2 ^ (?M + ?R - 1) * (unat mb * 4) \<le> n" unfolding n_def F4 F2 by (simp add: ac_simps)
  then have q1: "2 ^ (?M + ?R - 1) \<le> n div (unat mb * 4)" using mb0 by (simp add: less_eq_div_iff_mult_less_eq)
  have "2 ^ (?M + ?R) * (unat ma * 4) < 2 ^ (?M + ?R) * (unat mb * 8)" using ca cb by (intro mult_strict_left_mono) (linarith, simp)
  then have "n < 2 ^ (?M + ?R + 1) * (unat mb * 4)" unfolding n_def F4 by (simp add: ac_simps)
  then have q2: "n div (unat mb * 4) < 2 ^ (?M + ?R + 1)" by (rule less_mult_imp_div_less)
  have lo: "2 ^ (?M + ?R - 1) \<le> unat w" using q1 unfolding w by (auto simp: or_1_cases simp del: One_nat_def)
  then have nz: "w \<noteq> 0" by (auto simp: unat_eq_0)
  have "even ((2 :: nat) ^ (?M + ?R + 1))" by simp
  then have "even i \<Longrightarrow> i < 2 ^ (?M + ?R + 1) \<Longrightarrow> i + 1 < 2 ^ (?M + ?R + 1)" for i :: nat
    by (metis Suc_eq_plus1 Suc_lessI even_Suc)
  then have hi: "unat w < 2 ^ (?M + ?R + 1)" using q2 unfolding w by (auto simp: or_1_cases simp del: One_nat_def)
  have cl: "0 + 2 + (builtin_clz w - 1) \<le> ?R" using clz_bound [OF lo] sizes by linarith
  have "?q e * ?q eb = ?q ea / 2 ^ ?M"
    using quantum_add [of "ea - int ?M" ?M] unfolding quantum_mult by (simp add: ew exp_mask algebra_simps)
  then have "?q e = ?q ea / ?q eb / 2 ^ ?M" by (simp add: field_simps)
  then have "y / 2 ^ ?R * ?q e = sf_mag a / sf_mag b"
    using ca cb mb0 unfolding y_def n_def sizes(1) by (simp add: power_add field_simps)
  then show ?thesis using normalize_correct [OF nz hi s disjI2, OF cl] by simp
qed

lemma div_correct:
  assumes a: "finite_sf (a :: 'f word)" and b: "finite_sf (b :: 'f word)" "\<not> is_zero_sf b"
  shows "div_sf a b rm fl = ieee_result (sf_sign a \<noteq> sf_sign b) (sf_value a / sf_value b) rm fl"
proof (cases "is_zero_sf a")
  case True
  then have "sf_value a / sf_value b = 0" by (auto simp: value_0)
  then show ?thesis using a b True by (simp add: div_sf_def finite_sf_def pack_0 ieee_result_def)
next
  case False
  obtain e w where m: "div_finite a b = (e, w)" by fastforce
  have v: "sf_value a / sf_value b \<noteq> 0" "\<bar>sf_value a / sf_value b\<bar> = sf_mag a / sf_mag b"
    "sf_value a / sf_value b < 0 \<longleftrightarrow> sf_sign a \<noteq> sf_sign b"
    using False b value_0 [of a] value_0 [of b] value_neg [of a] value_neg [of b]
    by (auto simp: abs_divide abs_value divide_less_0_iff)
  have "div_sf a b rm fl = normalize_sf (sf_sign a \<noteq> sf_sign b) e w rm fl"
    using a b False m by (simp add: div_sf_def finite_sf_def)
  also have "\<dots> = ieee_round (sf_sign a \<noteq> sf_sign b) (sf_mag a / sf_mag b) rm fl"
    using div_finite_correct [OF a _ b m] False by simp
  finally show ?thesis using v by (simp add: ieee_result_def)
qed

end

end
