(* ===== verification/Float_Add.thy ===== *)
theory Float_Add
  imports Float_Mul
begin

text \<open>
  \<open>add_sf\<close> and \<open>sub_sf\<close> return the exact sum and difference of finite operands, rounded once, and
  the sign IEEE 754 gives an exact zero.
\<close>

section \<open>Alignment\<close>

lemma rshift_cases:
  "real (rshift_nat m d) = real m / 2 ^ d \<or>
   (odd (rshift_nat m d) \<and> \<bar>real m / 2 ^ d - real (rshift_nat m d)\<bar> < 1)"
  using sticky_rshift [OF sticky_exact [of 0 m], of d] by (auto simp: sticky_def sticky_at_def)

lemma sticky_sum:
  assumes "even a"
  shows "sticky 0 (a + rshift_nat b d) (real a + real b / 2 ^ d)"
  using rshift_cases [of b d] assms by (auto simp: sticky_def sticky_at_def)

lemma sticky_diff:
  assumes "even a" "rshift_nat b d \<le> a"
  shows "sticky 0 (a - rshift_nat b d) (real a - real b / 2 ^ d)"
  using rshift_cases [of b d] assms by (auto simp: sticky_def sticky_at_def of_nat_diff)

lemma rshift_nat_exact: "2 ^ d dvd m \<Longrightarrow> real (rshift_nat m d) = real m / 2 ^ d"
  using real_div_mod [of m d] by (simp add: rshift_nat_def field_simps)

lemma less_power_mono: "m < 2 ^ i \<Longrightarrow> i \<le> j \<Longrightarrow> m < 2 ^ j" for m :: nat
  by (meson less_le_trans power_increasing one_le_numeral)

lemma ieee_result_signed:
  "0 < x \<Longrightarrow> ieee_result z (if neg then - x else x) rm fl = ieee_round neg x rm fl"
  by (simp add: ieee_result_def)

lemma sticky_0_sign:
  assumes "sticky 0 n y"
  shows "0 \<le> y \<and> (y = 0 \<longleftrightarrow> n = 0)"
proof (cases "real n = y")
  case False
  then have n: "odd n" "\<bar>y - real n\<bar> < 1" using assms by (auto simp: sticky_def sticky_at_def)
  then have "1 \<le> real n" by (cases n) simp_all
  then show ?thesis using n by auto
qed auto

section \<open>Operands\<close>

text \<open>The significand, with the hidden bit of a normal number, and the exponent of a subnormal one.\<close>

definition significand :: "'f::len word \<Rightarrow> nat" where
  "significand a = unat (sf_mant a) + (if sf_exp a = 0 then 0 else 2 ^ MANT_SIZE TYPE('f))"

definition eff_exp :: "'f::len word \<Rightarrow> int" where
  "eff_exp a = (if sf_exp a = 0 then 1 else sf_exp a)"

context float_format
begin

lemma significand_mag: "sf_mag (a :: 'f word) = real (significand a) * quantum TYPE('f) (eff_exp a)"
  by (simp add: sf_mag_def significand_def eff_exp_def add.commute)

lemma significand_less: "significand (a :: 'f word) < 2 * 2 ^ MANT_SIZE TYPE('f)"
  using mant_less [of a] by (simp add: significand_def)

lemma significand_ge: "1 < eff_exp (a :: 'f word) \<Longrightarrow> 2 ^ MANT_SIZE TYPE('f) \<le> significand a"
  by (auto simp: significand_def eff_exp_def split: if_splits)

lemma eff_exp_ge: "1 \<le> eff_exp (a :: 'f word)"
  using exp_range(1) [of a] by (simp add: eff_exp_def)

lemma significand_bits:
  "int (unat (a AND NOT SIGN_MASK :: 'f word)) = (eff_exp a - 1) * 2 ^ MANT_SIZE TYPE('f) + int (significand a)"
  by (simp add: mag_bits significand_def eff_exp_def algebra_simps)

lemma magnitude_order:
  assumes "\<not> a AND NOT SIGN_MASK < (b AND NOT SIGN_MASK :: 'f word)"
  shows "eff_exp b < eff_exp a \<or> (eff_exp b = eff_exp a \<and> significand b \<le> significand a)"
proof -
  let ?M = "MANT_SIZE TYPE('f)"
  have le: "(eff_exp b - 1) * 2 ^ ?M + int (significand b) \<le> (eff_exp a - 1) * 2 ^ ?M + int (significand a)"
    using assms by (simp add: word_less_nat_alt significand_bits [symmetric])
  show ?thesis
  proof (cases "eff_exp a < eff_exp b")
    case True
    then have "int (2 ^ ?M) \<le> int (significand b)" using significand_ge [of b] eff_exp_ge [of a] by (simp only: of_nat_le_iff)
    moreover have "int (significand a) < int (2 * 2 ^ ?M)" using significand_less [of a] by (simp only: of_nat_less_iff)
    moreover have "eff_exp a * 2 ^ ?M \<le> (eff_exp b - 1) * 2 ^ ?M" using True by (intro mult_right_mono) simp_all
    ultimately have False
      using le unfolding left_diff_distrib of_nat_mult of_nat_power of_nat_numeral mult_1 by linarith
    then show ?thesis ..
  next
    case False
    then show ?thesis using le by (cases "eff_exp a = eff_exp b") auto
  qed
qed

lemma unat_aligned:
  "unat (if sf_exp a = 0 then push_bit 3 (sf_mant a) else push_bit 3 (sf_mant (a :: 'f word)) OR push_bit (MANT_SIZE TYPE('f) + 3) 1) =
   significand a * 8"
proof -
  let ?M = "MANT_SIZE TYPE('f)"
  have "unat (sf_mant a) * 2 ^ 3 < 2 ^ ?M * 2 ^ 3" using mant_less by (rule mult_strict_right_mono) simp
  then have l: "unat (sf_mant a) * 2 ^ 3 < 2 ^ (?M + 3)" by (simp only: power_add)
  also have "(2 :: nat) ^ (?M + 3) < 2 ^ LENGTH('f)" using sizes by (intro power_strict_increasing) simp_all
  finally have u: "unat (push_bit 3 (sf_mant a)) = unat (sf_mant a) * 2 ^ 3" by (rule unat_push_small)
  have "unat (push_bit 3 (sf_mant a) OR push_bit (?M + 3) 1) = unat (push_bit 3 (sf_mant a)) + 2 ^ (?M + 3)"
    using l sizes by (intro unat_hidden) (simp_all add: u)
  then show ?thesis using u by (simp add: significand_def power_add)
qed

section \<open>Addition\<close>

text \<open>The operands aligned to the larger exponent, three extra bits kept: both fit, and bits are lost only in a
  shift so long that the smaller operand is far below the larger.\<close>

lemma aligned_operands:
  assumes o: "\<not> a AND NOT SIGN_MASK < (b AND NOT SIGN_MASK :: 'f word)"
  defines "d \<equiv> nat (eff_exp a - eff_exp b)" and "A \<equiv> significand a * 8" and "B \<equiv> significand b * 8"
  shows "A < 2 ^ (MANT_SIZE TYPE('f) + 4)" "rshift_nat B d < 2 ^ (MANT_SIZE TYPE('f) + 4)" "rshift_nat B d \<le> A"
    "\<not> 2 ^ d dvd B \<Longrightarrow> 2 ^ (MANT_SIZE TYPE('f) + 3) \<le> A \<and> rshift_nat B d < 2 ^ (MANT_SIZE TYPE('f) + 1)"
proof -
  let ?M = "MANT_SIZE TYPE('f)"
  have Bl: "B < 2 ^ (?M + 4)" using significand_less [of b] by (simp add: B_def power_add)
  have Age: "2 ^ (?M + 3) \<le> A" if "0 < d"
    using that significand_ge [of a] eff_exp_ge [of b] by (simp add: d_def A_def power_add)
  have shift: "rshift_nat B d < 2 ^ j" if "0 < j" "?M + 4 \<le> j + d" for j
    using Bl that by (intro sign_shift_less) (elim less_power_mono)
  show "A < 2 ^ (?M + 4)" using significand_less [of a] by (simp add: A_def power_add)
  show "rshift_nat B d < 2 ^ (?M + 4)" by (rule shift) simp_all
  show "rshift_nat B d \<le> A"
  proof (cases "d = 0")
    case True
    then show ?thesis using magnitude_order [OF o] by (auto simp: rshift_nat_def A_def B_def d_def)
  next
    case False
    then have "rshift_nat B d < 2 ^ (?M + 3)" by (intro shift) simp_all
    then show ?thesis using Age False by simp
  qed
  show "2 ^ (?M + 3) \<le> A \<and> rshift_nat B d < 2 ^ (?M + 1)" if lost: "\<not> 2 ^ d dvd B"
  proof -
    have "4 \<le> d"
    proof (rule ccontr)
      assume "\<not> 4 \<le> d"
      then have "(2 :: nat) ^ d dvd 2 ^ 3" by (intro le_imp_power_dvd) simp
      then have "2 ^ d dvd B" by (simp add: B_def)
      then show False using lost by simp
    qed
    then show ?thesis using Age by (intro conjI shift) simp_all
  qed
qed

lemma add_finite_correct:
  assumes o: "\<not> a AND NOT SIGN_MASK < (b AND NOT SIGN_MASK :: 'f word)" and f: "add_finite a b rm = (s, e, w)"
  shows "normalize_sf s e w rm fl =
    ieee_result (if sf_sign a = sf_sign b then sf_sign a else rm = RM_RDN) (sf_value a + sf_value b) rm fl"
proof -
  let ?M = "MANT_SIZE TYPE('f)" and ?R = "RND_SIZE TYPE('f)" and ?q = "quantum TYPE('f)"
  define d where "d = nat (eff_exp a - eff_exp b)"
  define A where "A = significand a * 8"
  define B where "B = significand b * 8"
  define wa :: "'f word" where "wa = (if sf_exp a = 0 then push_bit 3 (sf_mant a) else push_bit 3 (sf_mant a) OR push_bit (?M + 3) 1)"
  define wb :: "'f word" where "wb = (if sf_exp b = 0 then push_bit 3 (sf_mant b) else push_bit 3 (sf_mant b) OR push_bit (?M + 3) 1)"
  define wc where "wc = rshift_rnd wb d"
  define same where "same = (sf_sign a = sf_sign b)"
  have ua: "unat wa = A" and "unat wb = B" unfolding wa_def wb_def A_def B_def by (rule unat_aligned)+
  then have uc: "unat wc = rshift_nat B d" by (simp add: wc_def unat_rshift_rnd)
  note order = magnitude_order [OF o]
  note al = aligned_operands [OF o, folded d_def A_def B_def]
  have few: "(2 :: nat) ^ (?M + 4) + 2 ^ (?M + 4) \<le> 2 ^ (?M + ?R + 1)"
  proof -
    have "(2 :: nat) ^ (?M + 4) + 2 ^ (?M + 4) = 2 ^ (?M + 5)" by (simp add: power_add)
    also have "\<dots> \<le> 2 ^ (?M + ?R + 1)" using sizes(2) by (intro power_increasing) simp_all
    finally show ?thesis .
  qed
  have F: "(2 :: nat) ^ (?M + ?R + 1) \<le> 2 ^ LENGTH('f)" using sizes by (intro power_increasing) simp_all
  define n where "n = (if same then A + rshift_nat B d else A - rshift_nat B d)"
  define y where "y = (if same then real A + real B / 2 ^ d else real A - real B / 2 ^ d)"
  have e: "e = eff_exp a + int (?R - 3)" and w: "w = (if same then wa + wc else wa - wc)"
    and sg: "s = (if \<not> same \<and> w = 0 then rm = RM_RDN else sf_sign a)"
    using f unfolding add_finite_def Let_def wa_def [symmetric] wb_def [symmetric] eff_exp_def [symmetric] d_def [symmetric]
      wc_def [symmetric] same_def [symmetric] by (auto split: if_splits)
  have un: "unat w = n"
  proof -
    have "unat wa + unat wc < 2 ^ LENGTH('f)" using al(1,2) few F by (simp add: ua uc)
    then show ?thesis using al(3) by (simp add: w n_def unat_word_ariths ua uc unat_sub word_le_nat_alt)
  qed
  have nl: "n < 2 ^ (?M + ?R + 1)" using al(1,2) few by (auto simp: n_def)
  have st: "sticky 0 n y"
    using sticky_sum [of A B d] sticky_diff [of A B d] al(3) by (simp add: n_def y_def A_def)
  have y0: "0 \<le> y" "y = 0 \<longleftrightarrow> n = 0"
    using sticky_0_sign [OF st] by simp_all
  have inexact: "y = real n \<or> 0 + 2 + (builtin_clz w - 1) \<le> ?R"
  proof (cases "2 ^ d dvd B")
    case True
    then show ?thesis using al(3) by (simp add: y_def n_def rshift_nat_exact of_nat_diff)
  next
    case False
    have "2 ^ (?M + 3) \<le> A" "rshift_nat B d < 2 ^ (?M + 1)" using al(4) [OF False] by simp_all
    then have "2 ^ (?M + 2) \<le> n" by (auto simp: n_def power_add)
    then show ?thesis using clz_bound [of "?M + 2" w] un sizes by linarith
  qed
  have q: "?q (eff_exp a) = ?q (eff_exp b) * 2 ^ d"
    using quantum_add [of "eff_exp b" d] order by (auto simp: d_def)
  have qe: "?q e = ?q (eff_exp a) * 2 ^ (?R - 3)" unfolding e by (rule quantum_add)
  have R8: "(2 :: real) ^ ?R = 8 * 2 ^ (?R - 3)"
    using power_add [of "2 :: real" 3 "?R - 3"] sizes by simp
  have mags: "y / 2 ^ ?R * ?q e = (if same then sf_mag a + sf_mag b else sf_mag a - sf_mag b)"
    unfolding significand_mag qe R8 q by (simp add: y_def A_def B_def field_simps)
  have val: "sf_value a + sf_value b = (if sf_sign a then - (y / 2 ^ ?R * ?q e) else y / 2 ^ ?R * ?q e)"
    unfolding mags by (auto simp: sf_value_def same_def)
  show ?thesis
  proof (cases "n = 0")
    case True
    then have "w = 0" using un by (simp add: unat_eq_0)
    moreover have "sf_value a + sf_value b = 0" using val y0 True by simp
    ultimately show ?thesis by (simp add: normalize_0 ieee_result_def sg same_def)
  next
    case False
    then have nz: "w \<noteq> 0" using un by auto
    have "0 < y / 2 ^ ?R * ?q e" using y0 False by (simp add: le_less)
    then have "(ieee_result z (sf_value a + sf_value b) rm fl :: 'f word \<times> u32) = ieee_round (sf_sign a) (y / 2 ^ ?R * ?q e) rm fl" for z
      unfolding val by (rule ieee_result_signed)
    moreover have "s = sf_sign a" using nz by (simp add: sg)
    ultimately show ?thesis using normalize_correct [OF nz, unfolded un, OF nl st inexact] by (simp only:)
  qed
qed

lemma add_correct:
  assumes a: "finite_sf (a :: 'f word)" and b: "finite_sf (b :: 'f word)"
  shows "add_sf a b rm fl =
    ieee_result (if sf_sign a = sf_sign b then sf_sign a else rm = RM_RDN) (sf_value a + sf_value b) rm fl"
proof (cases "a AND NOT SIGN_MASK < b AND NOT SIGN_MASK")
  case True
  then have o: "\<not> b AND NOT SIGN_MASK < a AND NOT SIGN_MASK" by simp
  obtain s e w where f: "add_finite b a rm = (s, e, w)" by (metis prod.exhaust)
  have "add_sf a b rm fl = normalize_sf s e w rm fl" using True b f by (simp add: add_sf_def finite_sf_def)
  then show ?thesis using add_finite_correct [OF o f] by (auto simp: add.commute)
next
  case False
  obtain s e w where f: "add_finite a b rm = (s, e, w)" by (metis prod.exhaust)
  have "add_sf a b rm fl = normalize_sf s e w rm fl" using False a f by (simp add: add_sf_def finite_sf_def)
  then show ?thesis using add_finite_correct [OF False f] by simp
qed

section \<open>Subtraction\<close>

lemma negate:
  "sf_mant (b XOR SIGN_MASK :: 'f word) = sf_mant b" "sf_exp (b XOR SIGN_MASK) = sf_exp b" "sf_sign (b XOR SIGN_MASK) \<longleftrightarrow> \<not> sf_sign b"
proof -
  have m: "(MANT_MASK :: 'f word) = mask (MANT_SIZE TYPE('f))" by (simp add: MANT_MASK_def mask_eq_exp_minus_1)
  have x: "(of_int (EXP_MASK TYPE('f)) :: 'f word) = mask (RND_SIZE TYPE('f) + 1)"
    by (simp add: exp_mask mask_eq_exp_minus_1)
  show "sf_mant (b XOR SIGN_MASK) = sf_mant b"
    unfolding sf_mant_def m SIGN_MASK_def by (rule bit_word_eqI) (auto simp: bit_simps sizes)
  show "sf_exp (b XOR SIGN_MASK) = sf_exp b"
    unfolding sf_exp_def x SIGN_MASK_def
    by (rule arg_cong [where f = uint], rule bit_word_eqI) (auto simp: bit_simps sizes)
  show "sf_sign (b XOR SIGN_MASK) \<longleftrightarrow> \<not> sf_sign b"
    by (simp add: sf_sign_def SIGN_MASK_def bit_simps)
qed

lemma sub_correct:
  assumes "finite_sf (a :: 'f word)" "finite_sf (b :: 'f word)"
  shows "sub_sf a b rm fl =
    ieee_result (if sf_sign a \<noteq> sf_sign b then sf_sign a else rm = RM_RDN) (sf_value a - sf_value b) rm fl"
proof -
  have "finite_sf (b XOR SIGN_MASK)" using assms(2) by (simp add: finite_sf_def negate)
  moreover have "sf_value (b XOR SIGN_MASK) = - sf_value b" by (simp add: sf_value_def sf_mag_def negate)
  ultimately show ?thesis using add_correct [OF assms(1), of "b XOR SIGN_MASK" rm fl] by (simp add: sub_sf_def negate)
qed

end

end
