(* ===== verification/Float_Sqrt.thy ===== *)
theory Float_Sqrt
  imports Float_Add
begin

text \<open>
  The Newton iteration of \<open>sqrtrem_u\<close> computes the integer square root, and \<open>sqrt_sf\<close> returns the
  exact square root rounded once.
\<close>

section \<open>The iteration\<close>

text \<open>Starting at or above the root the iteration stays there, and it stops only at the root.\<close>

lemma newton_above:
  fixes r a s :: nat
  assumes "r * r \<le> a" "0 < s"
  shows "r \<le> (a div s + s) div 2"
proof (rule ccontr)
  assume "\<not> r \<le> (a div s + s) div 2"
  then have "a div s + s + 1 \<le> 2 * r" by linarith
  then have "int (a div s) + 1 \<le> 2 * int r - int s" by linarith
  then have "int s * (int (a div s) + 1) \<le> int s * (2 * int r - int s)" by (rule mult_left_mono) simp
  moreover have "int a < int s * (int (a div s) + 1)"
  proof -
    have "a < s * (a div s + 1)" using dividend_less_div_times [of s a] assms(2) by (simp add: algebra_simps)
    then have "int a < int (s * (a div s + 1))" by (simp only: of_nat_less_iff)
    then show ?thesis by (simp add: algebra_simps)
  qed
  moreover have "int r * int r \<le> int a" using assms(1) by (metis of_nat_le_iff of_nat_mult)
  moreover have "0 \<le> (int r - int s) * (int r - int s)" by simp
  ultimately show False by (simp add: algebra_simps)
qed

lemma newton_stop:
  fixes a s :: nat
  assumes "s \<le> (a div s + s) div 2" "0 < s"
  shows "s * s \<le> a"
proof -
  have "s \<le> a div s" using assms(1) by linarith
  then have "s * s \<le> a div s * s" by simp
  also have "\<dots> \<le> a" by simp
  finally show ?thesis .
qed

lemma sqrt_loop_correct:
  fixes a s :: "'l::len word"
  assumes "0 < unat a" "\<forall>r. r * r \<le> unat a \<longrightarrow> r \<le> unat s" "2 * unat s + 2 < 2 ^ LENGTH('l)"
  shows "unat (sqrt_loop a s) * unat (sqrt_loop a s) \<le> unat a \<and>
    unat a < (unat (sqrt_loop a s) + 1) * (unat (sqrt_loop a s) + 1)"
  using assms
proof (induction a s rule: sqrt_loop.induct)
  case (1 a s)
  let ?u = "(a div s + s) div 2"
  have "1 * 1 \<le> unat a" using 1(2) by simp
  then have s: "0 < unat s" using 1(3) by (metis less_le_trans zero_less_one)
  have up: "unat a < (unat s + 1) * (unat s + 1)"
  proof (rule ccontr)
    assume "\<not> unat a < (unat s + 1) * (unat s + 1)"
    then have "unat s + 1 \<le> unat s" using 1(3) by (simp only: not_less)
    then show False by simp
  qed
  then have "unat a < (unat s + 3) * unat s" using s by (simp add: algebra_simps)
  then have "unat a div unat s < unat s + 3" by (rule less_mult_imp_div_less)
  then have "unat (a div s) + unat s < 2 ^ LENGTH('l)" using 1(4) by (simp add: unat_div_distrib)
  then have "unat (a div s + s) = unat a div unat s + unat s" by (simp only: unat_word_ariths(1) mod_less unat_div_distrib)
  moreover have "unat (2 :: 'l word) = 2"
    using 1(4) s by (cases "LENGTH('l) \<le> 1") (auto simp: unat_numeral take_bit_nat_eq_self_iff le_Suc_eq)
  ultimately have u: "unat ?u = (unat a div unat s + unat s) div 2" by (simp only: unat_div_distrib)
  show ?case
  proof (cases "s \<le> ?u")
    case True
    then have "sqrt_loop a s = s" by (simp add: sqrt_loop.simps [of a s] Let_def)
    moreover have "unat s * unat s \<le> unat a" using newton_stop [of "unat s" "unat a"] True u s by (simp add: word_le_nat_alt)
    ultimately show ?thesis using up by simp
  next
    case False
    then have r: "sqrt_loop a s = sqrt_loop a ?u" by (simp add: sqrt_loop.simps [of a s] Let_def)
    have "\<forall>r. r * r \<le> unat a \<longrightarrow> r \<le> unat ?u" using newton_above s unfolding u by blast
    moreover have "unat ?u < unat s" using False by (simp add: word_le_nat_alt)
    then have "2 * unat ?u + 2 < 2 ^ LENGTH('l)" using 1(4) by linarith
    ultimately show ?thesis unfolding r using 1(1) [OF refl False 1(2)] by blast
  qed
qed

text \<open>The double word \<open>ah * 2 ^ F_SIZE\<close>, as \<open>sqrt_sf\<close> passes it.\<close>

lemma sqrtrem_u_correct:
  fixes ah :: "'f::len word"
  assumes ah: "ah \<noteq> 0" "4 * unat ah \<le> 2 ^ LENGTH('f)" and r: "sqrtrem_u ah 0 = (inexact, z)"
  defines "a \<equiv> unat ah * 2 ^ LENGTH('f)"
  shows "unat z * unat z \<le> a \<and> a < (unat z + 1) * (unat z + 1) \<and> (inexact \<longleftrightarrow> unat z * unat z \<noteq> a)"
proof -
  let ?F = "LENGTH('f)" and ?a = "push_bit LENGTH('f) (ucast ah :: 'f bit0 word) OR ucast (0 :: 'f word)"
  define l where "l = 2 * ?F - builtin_clz (ah - 1)"
  define s :: "'f bit0 word" where "s = push_bit ((l + 1) div 2) 1"
  define t where "t = sqrt_loop ?a s"
  have z: "z = ucast t" and i: "inexact \<longleftrightarrow> ?a - t * t \<noteq> 0"
    using r ah(1) unfolding sqrtrem_u_def Let_def by (simp_all add: t_def s_def l_def)
  have "unat ah * 2 ^ ?F < 2 ^ ?F * 2 ^ ?F" by simp
  then have a: "unat ?a = a"
    using unat_push_small [of "ucast ah :: 'f bit0 word" ?F] by (simp add: unat_wide power_add mult_2 a_def)
  have "unat (ah - 1) < 2 ^ (?F - builtin_clz (ah - 1))" by (rule clz_upper)
  then have "unat ah \<le> 2 ^ (?F - builtin_clz (ah - 1))" using ah(1) by (simp add: unat_minus_one)
  then have "a \<le> 2 ^ (?F - builtin_clz (ah - 1)) * 2 ^ ?F" unfolding a_def by (rule mult_right_mono) simp
  also have "\<dots> = 2 ^ l" using builtin_clz_le [of "ah - 1"] by (simp add: l_def power_add [symmetric])
  finally have al: "a \<le> 2 ^ l" .
  define h where "h = (l + 1) div 2"
  have hF: "h \<le> ?F" unfolding h_def l_def by linarith
  have "h < LENGTH('f bit0)" using hF len_gt_0 [where 'a = 'f] by (simp only: len_bit0)
  then have us: "unat s = 2 ^ h" unfolding s_def h_def [symmetric] by (rule unat_push_1)
  have root: "r \<le> unat s" if "r * r \<le> unat ?a" for r
  proof (rule ccontr)
    assume "\<not> r \<le> unat s"
    then have "2 ^ h * 2 ^ h < r * r" unfolding us by (intro mult_strict_mono) simp_all
    moreover have "(2 :: nat) ^ l \<le> 2 ^ (h + h)" by (rule power_increasing) (simp_all add: h_def)
    ultimately show False using that al unfolding a by (simp only: power_add)
  qed
  have F2: "(2 :: nat) ^ 2 \<le> 2 ^ ?F" using ah by (cases "unat ah") (simp_all add: unat_eq_0)
  have sl: "2 * unat s + 2 < 2 ^ LENGTH('f bit0)"
  proof -
    have "(2 :: nat) ^ h \<le> 2 ^ ?F" using hF by (intro power_increasing) simp_all
    moreover have "2 ^ 2 * 2 ^ ?F \<le> (2 :: nat) ^ ?F * 2 ^ ?F" using F2 by (rule mult_right_mono) simp
    ultimately have "2 * 2 ^ h + 2 < (2 :: nat) ^ ?F * 2 ^ ?F" using F2 unfolding power2_eq_square by linarith
    then show ?thesis by (simp only: us len_bit0 mult_2 power_add)
  qed
  have "0 < unat ?a" unfolding a a_def using ah(1) by (simp add: unat_gt_0)
  then have c: "unat t * unat t \<le> a" "a < (unat t + 1) * (unat t + 1)"
    using sqrt_loop_correct [of ?a s] root sl unfolding t_def [symmetric] a by blast+
  have a2: "a < 2 ^ ?F * 2 ^ ?F" by (simp add: a_def)
  have "unat t < 2 ^ ?F"
  proof (rule ccontr)
    assume "\<not> unat t < 2 ^ ?F"
    then have "2 ^ ?F * 2 ^ ?F \<le> unat t * unat t" by (intro mult_mono) simp_all
    then show False using c(1) a2 by linarith
  qed
  then have zt: "unat z = unat t" by (simp add: z hi_lo(2))
  have "unat t * unat t < 2 ^ LENGTH('f bit0)" using c(1) a2 by (simp add: mult_2 power_add)
  then have "unat (t * t) = unat t * unat t" by (simp only: unat_word_ariths mod_less)
  then have "inexact \<longleftrightarrow> unat t * unat t \<noteq> a" unfolding i unfolding right_minus_eq unfolding word_unat_eq_iff a by auto
  then show ?thesis using c zt by simp
qed

lemma or_1_bounds:
  fixes n :: nat
  assumes "2 ^ i \<le> n" "n < 2 ^ j" "0 < j"
  shows "2 ^ i \<le> n OR 1 \<and> n OR 1 < 2 ^ j"
proof -
  have "even ((2 :: nat) ^ j)" using assms(3) by simp
  then have "even n \<Longrightarrow> n + 1 < 2 ^ j" using assms(2) by (metis Suc_eq_plus1 Suc_lessI even_Suc)
  then show ?thesis using assms by (auto simp: or_1_cases simp del: One_nat_def)
qed

lemma sticky_sqrt:
  assumes "z * z \<le> a" "a < (z + 1) * (z + 1)" "inexact \<longleftrightarrow> z * z \<noteq> a"
  shows "sticky 0 (if inexact then z OR 1 else z) (sqrt (real a))"
proof (cases inexact)
  case False
  then have "real a = real z * real z" using assms(3) by (metis of_nat_mult)
  then have "sqrt (real a) = real z" by simp
  then show ?thesis using False sticky_exact by simp
next
  case True
  have "z * z < a" using assms(1,3) True by simp
  then have "real (z * z) < real a" "real a < real ((z + 1) * (z + 1))" using assms(2) by (simp_all only: of_nat_less_iff)
  then have "real z < sqrt (real a)" "sqrt (real a) < real z + 1"
    by (intro real_less_rsqrt real_less_lsqrt; simp add: power2_eq_square algebra_simps)+
  then show ?thesis using True by (simp add: sticky_open del: One_nat_def)
qed

context float_format
begin

section \<open>Square root\<close>

lemma root_range:
  assumes z: "z * z \<le> N" "N < (z + 1) * (z + 1)" and N: "l * l \<le> N" "N < u * u"
  shows "l \<le> z \<and> z < (u :: nat)"
proof (intro conjI; rule ccontr)
  assume "\<not> l \<le> z"
  then have "(z + 1) * (z + 1) \<le> l * l" by (intro mult_mono) simp_all
  then show False using z N by linarith
next
  assume "\<not> z < u"
  then have "u * u \<le> z * z" by (intro mult_mono) simp_all
  then show False using z N by linarith
qed

text \<open>The radicand: the mantissa, doubled for an odd exponent, leaves two bits of headroom.\<close>

lemma radicand:
  fixes m :: "'f word" and b :: bool
  assumes m: "2 ^ MANT_SIZE TYPE('f) \<le> unat m" "unat m < 2 ^ (MANT_SIZE TYPE('f) + 1)"
  defines "r \<equiv> if b then push_bit 1 m else m"
  shows "unat r = (if b then 2 * unat m else unat m)" "2 ^ MANT_SIZE TYPE('f) \<le> unat r"
    "unat (push_bit (RND_SIZE TYPE('f) - 2) r) = unat r * 2 ^ (RND_SIZE TYPE('f) - 2)"
    "unat r * 2 ^ (RND_SIZE TYPE('f) - 2) < 2 ^ (MANT_SIZE TYPE('f) + RND_SIZE TYPE('f))"
proof -
  let ?M = "MANT_SIZE TYPE('f)" and ?R = "RND_SIZE TYPE('f)"
  have "unat m * 2 ^ 1 < 2 ^ (?M + 2)" using m by simp
  also have "(2 :: nat) ^ (?M + 2) \<le> 2 ^ LENGTH('f)" using sizes by (intro power_increasing) simp_all
  finally have "unat (push_bit 1 m) = 2 * unat m" using unat_push_small [of m 1] by (simp only:) simp
  then show r: "unat r = (if b then 2 * unat m else unat m)" by (simp add: r_def)
  then show "2 ^ ?M \<le> unat r" using m by auto
  have "unat r < 4 * 2 ^ ?M" using r m by auto
  then have "unat r * 2 ^ (?R - 2) < 4 * 2 ^ ?M * 2 ^ (?R - 2)" by (rule mult_strict_right_mono) simp
  also have "\<dots> = 2 ^ (2 + ?M + (?R - 2))" by (simp only: power_add) simp
  also have "2 + ?M + (?R - 2) = ?M + ?R" using sizes by simp
  finally show hi: "unat r * 2 ^ (?R - 2) < 2 ^ (?M + ?R)" .
  have "(2 :: nat) ^ LENGTH('f) = 4 * 2 ^ (?M + ?R)" by (simp add: sizes)
  then show "unat (push_bit (?R - 2) r) = unat r * 2 ^ (?R - 2)" using hi by (intro unat_push_small) simp
qed

lemma sqrt_finite_correct:
  assumes a: "finite_sf (a :: 'f word)" "\<not> is_zero_sf a" and m: "sqrt_finite a = (e, w)"
  shows "normalize_sf neg e w rm fl = ieee_round neg (sqrt (sf_mag a)) rm fl"
proof -
  let ?M = "MANT_SIZE TYPE('f)" and ?R = "RND_SIZE TYPE('f)" and ?q = "quantum TYPE('f)"
  obtain e0 m0 where n: "norm_operand a = (e0, m0)" by fastforce
  note c = norm_operand_correct [OF a n]
  have bias: "EXP_MASK TYPE('f) div 2 = sf_bias TYPE('f)" by (simp add: exp_mask)
  define e1 where "e1 = e0 - sf_bias TYPE('f)"
  define e2 where "e2 = (if odd e1 then e1 - 1 else e1)"
  define m2 where "m2 = (if odd e1 then push_bit 1 m0 else m0)"
  obtain inexact z where r: "sqrtrem_u (push_bit (?R - 2) m2) 0 = (inexact, z)" by fastforce
  have F: "LENGTH('f) - 4 - ?M = ?R - 2" by (simp add: sizes)
  have ew: "e = e2 div 2 + sf_bias TYPE('f)" "w = (if inexact then z OR 1 else z)"
    using m r unfolding sqrt_finite_def n bias F Let_def prod.case
    by (auto simp: e1_def e2_def m2_def odd_iff_mod_2_eq_one split: if_splits)
  have m0: "2 ^ ?M \<le> unat m0" "unat m0 < 2 ^ (?M + 1)" using c by simp_all
  note rad = radicand [OF m0, of "odd e1", folded m2_def]
  have F4: "(2 :: nat) ^ LENGTH('f) = 4 * 2 ^ (?M + ?R)" by (simp add: sizes)
  define N where "N = unat m2 * 2 ^ (?R - 2) * 2 ^ LENGTH('f)"
  have "push_bit (?R - 2) m2 \<noteq> 0" using rad(2,3) by (metis mult_is_0 not_less power_not_zero unsigned_0 zero_less_power zero_neq_numeral pos2)
  then have z: "unat z * unat z \<le> N \<and> N < (unat z + 1) * (unat z + 1) \<and> (inexact \<longleftrightarrow> unat z * unat z \<noteq> N)"
    using sqrtrem_u_correct [OF _ _ r] rad(4) F4 unfolding rad(3) N_def by simp
  have R2: "2 + (?R - 2) = ?R" using sizes(2) by simp
  have Nr: "2 ^ (?M + ?R) * 2 ^ (?M + ?R) \<le> N" "N < 2 ^ (?M + ?R + 1) * 2 ^ (?M + ?R + 1)"
  proof -
    have R4: "(2 :: nat) ^ ?R = 4 * 2 ^ (?R - 2)" using power_add [of "2 :: nat" 2 "?R - 2"] unfolding R2 by simp
    have "2 ^ ?M * (2 ^ (?R - 2) * 2 ^ LENGTH('f)) \<le> unat m2 * (2 ^ (?R - 2) * 2 ^ LENGTH('f))"
      using rad(2) by (rule mult_right_mono) simp
    then show "2 ^ (?M + ?R) * 2 ^ (?M + ?R) \<le> N" unfolding N_def F4 by (simp add: power_add R4 ac_simps)
    show "N < 2 ^ (?M + ?R + 1) * 2 ^ (?M + ?R + 1)" unfolding N_def F4 using rad(4) by simp
  qed
  have "2 ^ (?M + ?R) \<le> unat z \<and> unat z < 2 ^ (?M + ?R + 1)" using z Nr root_range by blast
  then have lo: "2 ^ (?M + ?R) \<le> unat w" and hi: "unat w < 2 ^ (?M + ?R + 1)"
    using or_1_bounds [of "?M + ?R" "unat z" "?M + ?R + 1"] unfolding ew by (auto simp: unat_or_1 simp del: One_nat_def)
  then have nz: "w \<noteq> 0" by (auto simp: unat_eq_0)
  have st: "sticky 0 (unat w) (sqrt (real N))"
    using sticky_sqrt [of "unat z" N inexact] z unfolding ew if_distrib [of unat] unat_or_1 by blast
  have cl: "0 + 2 + (builtin_clz w - 1) \<le> ?R" using clz_bound [OF lo] sizes by linarith
  have "even e2" by (simp add: e2_def)
  then have "?q e * ?q e * 2 ^ ?M = ?q (e2 + sf_bias TYPE('f))"
    unfolding quantum_mult quantum_add [symmetric] by (simp add: ew add.commute)
  then have mag: "sf_mag a = real (unat m2) * (?q e * ?q e * 2 ^ ?M)"
    using c quantum_add [of "e0 - 1" 1] unfolding rad(1) e2_def e1_def by simp
  have "real N = real (unat m2) * 2 ^ ?M * (2 ^ ?R * 2 ^ ?R)"
    using power_add [of "2 :: real" 2 "?R - 2"] unfolding N_def sizes(1) R2 by (simp add: power_add)
  then have "(sqrt (real N) / 2 ^ ?R * ?q e) * (sqrt (real N) / 2 ^ ?R * ?q e) = sf_mag a"
    unfolding mag by (simp add: field_simps)
  then have "sqrt (real N) / 2 ^ ?R * ?q e = sqrt (sf_mag a)"
    by (metis abs_of_nonneg divide_nonneg_nonneg less_imp_le mult_nonneg_nonneg of_nat_0_le_iff quantum_pos(1)
      real_sqrt_abs2 real_sqrt_ge_zero zero_le_numeral zero_le_power)
  then show ?thesis using normalize_correct [OF nz hi st disjI2, OF cl] by simp
qed

lemma zero_word:
  assumes "is_zero_sf (a :: 'f word)"
  shows "a = (if sf_sign a then SIGN_MASK else 0)"
proof -
  have "int (unat (a AND NOT SIGN_MASK)) = 0" using assms by (simp add: mag_bits is_zero_sf_def)
  then have z: "a AND NOT SIGN_MASK = 0" by (simp add: unat_eq_0)
  have b: "bit a n \<Longrightarrow> n = LENGTH('f) - 1" for n
  proof (rule ccontr)
    assume n: "bit a n" "n \<noteq> LENGTH('f) - 1"
    have "n < LENGTH('f)" using n(1) by (rule bit_imp_le_length)
    then have "bit (a AND NOT SIGN_MASK) n" using n by (simp add: SIGN_MASK_def bit_simps)
    then show False by (simp add: z)
  qed
  show ?thesis
  proof (rule bit_word_eqI)
    fix n assume "n < LENGTH('f)"
    then show "bit a n = bit (if sf_sign a then SIGN_MASK else 0 :: 'f word) n"
      using b [of n] by (cases "n = LENGTH('f) - 1") (auto simp: SIGN_MASK_def bit_simps sf_sign_def)
  qed
qed

lemma sqrt_correct:
  assumes a: "finite_sf (a :: 'f word)" "0 \<le> sf_value a"
  shows "sqrt_sf a rm fl = ieee_result (sf_sign a) (sqrt (sf_value a)) rm fl"
proof (cases "is_zero_sf a")
  case True
  then have "sqrt (sf_value a) = 0" by (simp add: value_0)
  then show ?thesis using a True zero_word [OF True] by (cases "sf_sign a") (simp_all add: sqrt_sf_def finite_sf_def pack_0 ieee_result_def)
next
  case False
  obtain e w where m: "sqrt_finite a = (e, w)" by fastforce
  have s: "\<not> sf_sign a" using value_neg [OF False] a(2) by simp
  then have v: "sf_value a = sf_mag a" by (simp add: sf_value_def)
  have "sqrt_sf a rm fl = normalize_sf (sf_sign a) e w rm fl"
    using a False s m by (simp add: sqrt_sf_def finite_sf_def)
  also have "\<dots> = ieee_round (sf_sign a) (sqrt (sf_mag a)) rm fl" by (rule sqrt_finite_correct [OF a(1) False m])
  finally show ?thesis using False s a(2) unfolding v by (auto simp: ieee_result_def zero_iff)
qed

end

end
