(* ===== verification/Float_Convert.thy ===== *)
theory Float_Convert
  imports Float_Sqrt
begin

text \<open>
  Conversions between integers and floating point: an integer is rounded once to the format, and a
  finite number is rounded once to an integer, or saturated with the invalid flag when that integer
  does not fit.
\<close>

section \<open>Specification\<close>

definition int_of_word :: "bool \<Rightarrow> 'i::len word \<Rightarrow> int" where
  "int_of_word is_unsigned a = (if is_unsigned then uint a else sint a)"

definition int_min :: "bool \<Rightarrow> 'i::len itself \<Rightarrow> int" where
  "int_min is_unsigned t = (if is_unsigned then 0 else - (2 ^ (LENGTH('i) - 1)))"

definition int_max :: "bool \<Rightarrow> 'i::len itself \<Rightarrow> int" where
  "int_max is_unsigned t = (if is_unsigned then 2 ^ LENGTH('i) - 1 else 2 ^ (LENGTH('i) - 1) - 1)"

text \<open>A real number rounded to an integer of the type; \<open>neg\<close> is its sign.\<close>

definition int_result :: "bool \<Rightarrow> bool \<Rightarrow> real \<Rightarrow> RoundingModeEnum \<Rightarrow> u32 \<Rightarrow> 'i::len word \<times> u32" where
  "int_result is_unsigned neg mag rm fl =
     (let n = rnd_int rm neg mag; v = (if neg then - n else n) in
      if int_min is_unsigned TYPE('i) \<le> v \<and> v \<le> int_max is_unsigned TYPE('i)
      then (of_int v, fl OR (if of_int n \<noteq> mag then FFLAG_INEXACT else 0))
      else (of_int (if neg then int_min is_unsigned TYPE('i) else int_max is_unsigned TYPE('i)), fl OR FFLAG_INVALID_OP))"

section \<open>From integers\<close>

lemma unat_abs_word:
  fixes a :: "'i::len word"
  shows "int (unat (if \<not> u \<and> a <s 0 then - a else a)) = \<bar>int_of_word u a\<bar>"
proof (cases "\<not> u \<and> a <s 0")
  case True
  then have s: "sint a < 0" by (simp add: word_sless_alt)
  have "uint (- a) = uint (word_of_int (- sint a) :: 'i word)" by simp
  also have "\<dots> = - sint a"
  proof -
    have "- (2 ^ (LENGTH('i) - 1)) \<le> sint a" by (rule sint_ge)
    then have "- sint a \<le> 2 ^ (LENGTH('i) - 1)" by simp
    also have "(2 :: int) ^ (LENGTH('i) - 1) < 2 ^ LENGTH('i)" by (rule power_strict_increasing) simp_all
    finally have "take_bit LENGTH('i) (- sint a) = - sint a" using s by (intro take_bit_int_eq_self) simp_all
    then show ?thesis by (simp only: uint_word_of_int_eq)
  qed
  finally show ?thesis using True s by (simp add: int_of_word_def uint_nat)
next
  case False
  have "sint a = uint a" if "0 \<le> sint a"
  proof -
    have "sint a < 2 ^ (LENGTH('i) - 1)" by (rule sint_lt)
    also have "(2 :: int) ^ (LENGTH('i) - 1) < 2 ^ LENGTH('i)" by (rule power_strict_increasing) simp_all
    finally show ?thesis using that take_bit_int_eq_self [of "sint a" "LENGTH('i)"] by (simp add: uint_sint)
  qed
  then show ?thesis using False by (auto simp: int_of_word_def uint_nat word_sless_alt)
qed

lemma unat_ucast_small: "unat (a :: 'i::len word) < 2 ^ LENGTH('f) \<Longrightarrow> unat (ucast a :: 'f::len word) = unat a"
  by (simp add: unsigned_ucast_eq take_bit_nat_eq_self)

section \<open>To integers\<close>

definition int_limit :: "bool \<Rightarrow> bool \<Rightarrow> 'i::len word" where
  "int_limit is_unsigned neg =
     (if is_unsigned then of_bool neg - 1 else push_bit (LENGTH('i) - 1) 1 - of_bool (\<not> neg))"

lemma unat_int_limit:
  "int (unat (int_limit u neg :: 'i::len word)) = (if neg then - int_min u TYPE('i) else int_max u TYPE('i))"
  using unat_push_mask [of "LENGTH('i) - 1", where 'a = 'i] unat_push_1 [of "LENGTH('i) - 1", where 'a = 'i]
  by (simp add: int_limit_def int_min_def int_max_def unsigned_minus_1_eq_mask mask_eq_exp_minus_1 of_nat_diff del: push_bit_of_1)

lemma int_limit_word:
  "(int_limit u neg :: 'i::len word) = of_int (if neg then int_min u TYPE('i) else int_max u TYPE('i))"
proof -
  let ?m = "2 ^ (LENGTH('i) - 1) :: 'i word"
  have "- ?m = ?m"
  proof -
    have "?m + ?m = 2 ^ Suc (LENGTH('i) - 1)" by (simp only: power_Suc mult_2)
    also have "Suc (LENGTH('i) - 1) = LENGTH('i)" by simp
    also have "(2 :: 'i word) ^ LENGTH('i) = 0" by simp
    finally show ?thesis by (simp add: eq_neg_iff_add_eq_0)
  qed
  then show ?thesis by (simp add: int_limit_def int_min_def int_max_def)
qed

lemma int_result_nat:
  assumes "rnd_int rm neg mag = int n"
  shows "(int_result u neg mag rm fl :: 'i::len word \<times> u32) =
    (if n \<le> unat (int_limit u neg :: 'i word)
     then (if neg then - of_nat n else of_nat n, fl OR (if real n \<noteq> mag then FFLAG_INEXACT else 0))
     else (int_limit u neg, fl OR FFLAG_INVALID_OP))"
proof -
  have b: "int_min u TYPE('i) \<le> 0" "0 \<le> int_max u TYPE('i)" by (simp_all add: int_min_def int_max_def)
  have l: "n \<le> unat (int_limit u neg :: 'i word) \<longleftrightarrow> int n \<le> (if neg then - int_min u TYPE('i) else int_max u TYPE('i))"
    unfolding unat_int_limit [symmetric] by simp
  show ?thesis
    unfolding int_result_def assms Let_def l unfolding int_limit_word
    using b by (cases neg) (auto simp: minus_le_iff)
qed

lemma rnd_int_of_nat: "rnd_int rm neg (real n) = int n"
  using rnd_int_exact [of rm neg "real n"] by (metis floor_of_nat of_int_eq_iff of_int_of_nat_eq)

context float_format
begin

lemma quantum_bias: "quantum TYPE('f) (sf_bias TYPE('f) + int (MANT_SIZE TYPE('f) + n)) = 2 ^ n"
  by (simp add: quantum_def)

lemma scaled_word:
  fixes r :: "'i::len word"
  assumes "r \<noteq> 0"
  defines "l \<equiv> int LENGTH('i) - int (builtin_clz r) - (int LENGTH('f) - 1)"
  defines "d \<equiv> nat l"
  defines "w \<equiv> ucast (if l > 0 then drop_bit d r OR of_bool (r AND (push_bit d 1 - 1) \<noteq> 0) else r) :: 'f word"
  shows "unat w = rshift_nat (unat r) d \<and> unat w < 2 ^ (MANT_SIZE TYPE('f) + RND_SIZE TYPE('f) + 1) \<and>
    (d = 0 \<or> 2 ^ (MANT_SIZE TYPE('f) + RND_SIZE TYPE('f)) \<le> unat w)"
proof -
  let ?n = "MANT_SIZE TYPE('f) + RND_SIZE TYPE('f)"
  have cl: "builtin_clz r < LENGTH('i)" by (rule clz_nonzero [OF assms(1)])
  have hi: "unat r < 2 ^ (LENGTH('i) - builtin_clz r)" by (rule clz_upper)
  have lo: "2 ^ (LENGTH('i) - 1 - builtin_clz r) \<le> unat r" by (rule clz_lower [OF assms(1)])
  have "unat r < 2 ^ (?n + 1 + d)" using hi by (rule less_power_mono) (use cl in \<open>simp add: d_def l_def sizes\<close>)
  then have less: "rshift_nat (unat r) d < 2 ^ (?n + 1)" by (rule sign_shift_less) simp
  then have lessF: "rshift_nat (unat r) d < 2 ^ LENGTH('f)" by (rule less_power_mono) (simp add: sizes)
  let ?v = "if l > 0 then drop_bit d r OR of_bool (r AND (push_bit d 1 - 1) \<noteq> 0) else r"
  have v: "unat ?v = rshift_nat (unat r) d"
  proof (cases "l > 0")
    case True
    then have v: "?v = drop_bit d r OR of_bool (unat r mod 2 ^ d \<noteq> 0)" unfolding low_mask_0 by simp
    show ?thesis unfolding v unat_or_bool unat_drop rshift_nat_def by simp
  qed (simp add: d_def rshift_nat_def)
  then have w: "unat w = rshift_nat (unat r) d" unfolding w_def using lessF by (simp only: unat_ucast_small)
  have "2 ^ ?n \<le> rshift_nat (unat r) d" if "0 < d"
  proof -
    have "LENGTH('i) - 1 - builtin_clz r = ?n + d" using that cl by (simp add: d_def l_def sizes)
    then have "2 ^ ?n * 2 ^ d \<le> unat r" using lo by (simp only: power_add)
    then have "2 ^ ?n \<le> unat r div 2 ^ d" by (simp add: less_eq_div_iff_mult_less_eq)
    then show ?thesis using rshift_nat_ge by (rule order_trans)
  qed
  then show ?thesis using w less by auto
qed

lemma cvt_int_correct:
  "(internal_cvt_i_sf u (a :: 'i::len word) rm fl :: 'f word \<times> u32) =
   ieee_result False (real_of_int (int_of_word u a)) rm fl"
proof -
  let ?M = "MANT_SIZE TYPE('f)" and ?R = "RND_SIZE TYPE('f)" and ?q = "quantum TYPE('f)"
  define neg where "neg = (\<not> u \<and> a <s 0)"
  define r where "r = (if neg then - a else a)"
  define l where "l = int LENGTH('i) - int (builtin_clz r) - (int LENGTH('f) - 1)"
  have bias: "EXP_MASK TYPE('f) div 2 = sf_bias TYPE('f)" by (simp add: exp_mask)
  have r: "int (unat r) = \<bar>int_of_word u a\<bar>" unfolding r_def neg_def by (rule unat_abs_word)
  have neg: "neg \<longleftrightarrow> int_of_word u a < 0" by (auto simp: neg_def int_of_word_def word_sless_alt)
  have x: "real_of_int (int_of_word u a) = (if neg then - real (unat r) else real (unat r))"
    using r neg by (simp add: abs_if split: if_splits)
  define d where "d = nat l"
  define w :: "'f word" where "w = ucast (if l > 0 then drop_bit d r OR of_bool (r AND (push_bit d 1 - 1) \<noteq> 0) else r)"
  have c: "internal_cvt_i_sf u a rm fl = normalize_sf neg (sf_bias TYPE('f) + int (?M + (?R + d))) w rm fl"
    unfolding internal_cvt_i_sf_def Let_def neg_def [symmetric] r_def [symmetric] l_def [symmetric] bias
    by (auto simp: w_def d_def sizes add.assoc simp del: push_bit_of_1)
  define y where "y = real (unat r) / 2 ^ d"
  have val: "y / 2 ^ ?R * ?q (sf_bias TYPE('f) + int (?M + (?R + d))) = real (unat r)"
    unfolding quantum_bias by (simp add: y_def power_add)
  show ?thesis
  proof (cases "r = 0")
    case True
    then have "w = 0" by (auto simp: w_def)
    then show ?thesis using True unfolding c x by (auto simp: normalize_0 ieee_result_def neg_def r_def word_sless_alt)
  next
    case False
    have w: "unat w = rshift_nat (unat r) d" "unat w < 2 ^ (?M + ?R + 1)" "d = 0 \<or> 2 ^ (?M + ?R) \<le> unat w"
      using scaled_word [OF False, folded l_def, folded d_def, folded w_def] by blast+
    have st: "sticky 0 (unat w) y" using sticky_rshift [OF sticky_exact [of 0 "unat r"], of d] by (simp add: w(1) y_def)
    have "unat w \<noteq> 0" using sticky_0_sign [OF st] False by (auto simp: y_def unat_eq_0)
    then have nz: "w \<noteq> 0" by auto
    have k: "y = real (unat w) \<or> 0 + 2 + (builtin_clz w - 1) \<le> ?R"
      using w(3) clz_bound [of "?M + ?R" w] sizes by (auto simp: y_def w(1) rshift_nat_def)
    show ?thesis
      unfolding c normalize_correct [OF nz w(2) st k] val x
      by (rule ieee_result_signed [symmetric]) (use False in \<open>simp add: unat_gt_0\<close>)
  qed
qed

lemma unat_operand:
  "unat (if sf_exp a = 0 then sf_mant a else sf_mant (a :: 'f word) OR push_bit (MANT_SIZE TYPE('f)) 1) = significand a"
  using unat_hidden [OF mant_less, of a] sizes(1) by (simp add: significand_def del: push_bit_of_1)

text \<open>The conversion to an integer, in terms of the exponent \<open>x\<close> of the last significand bit.\<close>

lemma cvt_to_int_unfold:
  assumes "finite_sf (a :: 'f word)"
  defines "m \<equiv> push_bit (RND_SIZE TYPE('f)) (if sf_exp a = 0 then sf_mant a else sf_mant a OR push_bit (MANT_SIZE TYPE('f)) 1)"
    and "x \<equiv> eff_exp a - sf_bias TYPE('f) - int (MANT_SIZE TYPE('f))" and "neg \<equiv> sf_sign a"
  shows "internal_cvt_sf_i u a rm fl =
    (if 0 \<le> x then
       if x \<le> int LENGTH('i) - 1 - int (MANT_SIZE TYPE('f)) then
         let r = push_bit (nat x) (ucast (drop_bit (RND_SIZE TYPE('f)) m)) :: 'i::len word
         in if int_limit u neg < r then (int_limit u neg, fl OR FFLAG_INVALID_OP) else (if neg then - r else r, fl)
       else (int_limit u neg, fl OR FFLAG_INVALID_OP)
     else
       let v = rshift_rnd m (nat (- x)); r = round_mant rm (round_addend (RND_SIZE TYPE('f)) neg rm) v
       in if uint (int_limit u neg :: 'i word) < uint r then (int_limit u neg, fl OR FFLAG_INVALID_OP)
          else (if neg then - ucast r else ucast r,
            if v AND (push_bit (RND_SIZE TYPE('f)) 1 - 1) \<noteq> 0 then fl OR FFLAG_INEXACT else fl))"
proof -
  have bias: "EXP_MASK TYPE('f) div 2 = sf_bias TYPE('f)" by (simp add: exp_mask)
  have nan: "\<not> isnan_sf a" using assms(1) by (simp add: isnan_sf_def finite_sf_def)
  show ?thesis
    unfolding internal_cvt_sf_i_def Let_def bias m_def [symmetric] eff_exp_def [symmetric] x_def [symmetric]
      int_limit_def [symmetric] neg_def [symmetric] using nan by simp
qed

text \<open>A significand with an integral value is shifted left without loss.\<close>

lemma unat_scaled_up:
  assumes v: "unat (v :: 'f word) = s" and s: "s < 2 ^ j" and j: "0 < j" "j + k \<le> LENGTH('i)"
  shows "unat (push_bit k (ucast v) :: 'i::len word) = s * 2 ^ k"
proof -
  have l: "s * 2 ^ k < 2 ^ LENGTH('i)"
    by (rule less_power_mono [of _ "j + k"]) (use s j in \<open>simp_all add: power_add\<close>)
  have "s < 2 ^ LENGTH('i)" by (rule less_power_mono [OF s]) (use j in simp)
  then have "unat (ucast v :: 'i word) = s" using v by (simp add: unat_ucast_small)
  then show ?thesis using l unat_push_small [of "ucast v :: 'i word" k] by (simp only:)
qed

text \<open>A significand with fraction bits is shifted right with a sticky bit and rounded to an integer.\<close>

lemma round_scaled_down:
  fixes m :: "'f word" and d :: nat and rm :: RoundingModeEnum and neg :: bool
  assumes m: "unat m = s * 2 ^ RND_SIZE TYPE('f)" and s: "s < 2 ^ (MANT_SIZE TYPE('f) + 1)"
  defines "v \<equiv> rshift_rnd m d" and "k \<equiv> rnd_nat rm neg (RND_SIZE TYPE('f)) (rshift_nat (s * 2 ^ RND_SIZE TYPE('f)) d)"
  shows "rnd_int rm neg (real s / 2 ^ d) = int k"
    "unat (round_mant rm (round_addend (RND_SIZE TYPE('f)) neg rm) v) = k"
    "real k \<noteq> real s / 2 ^ d \<longleftrightarrow> v AND (push_bit (RND_SIZE TYPE('f)) 1 - 1) \<noteq> 0"
proof -
  let ?M = "MANT_SIZE TYPE('f)" and ?R = "RND_SIZE TYPE('f)"
  define n where "n = rshift_nat (s * 2 ^ ?R) d"
  have k: "k = rnd_nat rm neg ?R n" by (simp add: k_def n_def)
  have R: "0 < ?R" "?R < LENGTH('f)" "0 + 2 \<le> ?R" using sizes by simp_all
  have y: "real (s * 2 ^ ?R) / 2 ^ d / 2 ^ ?R = real s / 2 ^ d" by simp
  have st: "sticky 0 n (real (s * 2 ^ ?R) / 2 ^ d)"
    using sticky_rshift [OF sticky_exact [of 0 "s * 2 ^ ?R"], of d] by (simp only: n_def diff_0_eq_0)
  have v: "unat v = n" by (simp add: v_def unat_rshift_rnd m n_def)
  have "s * 2 ^ ?R < 2 ^ (?M + 1) * 2 ^ ?R" using s by (rule mult_strict_right_mono) simp
  then have "s * 2 ^ ?R < 2 ^ (?M + ?R + 1)" by (simp add: power_add)
  then have "s * 2 ^ ?R < 2 ^ (?M + ?R + 1 + d)" by (rule less_power_mono) simp
  then have nl: "n < 2 ^ (?M + ?R + 1)" unfolding n_def by (rule sign_shift_less) simp
  have "addend_nat rm neg ?R < 2 ^ (?M + ?R + 1)"
    using addend_nat_less [OF R(1)] by (rule less_power_mono) simp
  then have "n + addend_nat rm neg ?R < 2 ^ LENGTH('f)" using nl by (simp add: sizes)
  then show "unat (round_mant rm (round_addend ?R neg rm) v) = k"
    unfolding k using unat_round_mant [OF R(1,2), of v] by (simp add: v)
  show "rnd_int rm neg (real s / 2 ^ d) = int k" using rnd_sticky [OF st R(3)] unfolding y k .
  then show "real k \<noteq> real s / 2 ^ d \<longleftrightarrow> v AND (push_bit ?R 1 - 1) \<noteq> 0"
    using sticky_exact_iff [OF st R(3), of rm neg] unfolding y low_mask_0 v by simp
qed

lemma cvt_to_int_correct:
  assumes "finite_sf (a :: 'f word)"
  shows "(internal_cvt_sf_i u a rm fl :: 'i::len word \<times> u32) = int_result u (sf_sign a) (sf_mag a) rm fl"
proof -
  let ?M = "MANT_SIZE TYPE('f)" and ?R = "RND_SIZE TYPE('f)" and ?q = "quantum TYPE('f)"
  let ?neg = "sf_sign a" and ?s = "significand a"
  define m where "m = push_bit ?R (if sf_exp a = 0 then sf_mant a else sf_mant a OR push_bit ?M 1)"
  define x where "x = eff_exp a - sf_bias TYPE('f) - int ?M"
  note sl = significand_less [of a]
  have "?s * 2 ^ ?R < 2 ^ (?M + 1) * 2 ^ ?R" using sl by (intro mult_strict_right_mono) simp_all
  also have "\<dots> \<le> 2 ^ LENGTH('f)" unfolding power_add [symmetric] by (intro power_increasing) (simp_all add: sizes)
  finally have m: "unat m = ?s * 2 ^ ?R" unfolding m_def by (subst unat_push_small) (simp_all only: unat_operand)
  have mag: "sf_mag a = real ?s * 2 powi x" by (simp add: significand_mag quantum_def x_def)
  note c = cvt_to_int_unfold [OF assms, folded m_def x_def]
  consider "0 \<le> x" "x \<le> int LENGTH('i) - 1 - int ?M" | "0 \<le> x" "int LENGTH('i) - 1 - int ?M < x" | "x < 0" by linarith
  then show ?thesis
  proof cases
    case 1
    define r where "r = (push_bit (nat x) (ucast (drop_bit ?R m)) :: 'i word)"
    have "unat (drop_bit ?R m) = ?s" by (simp add: unat_drop m)
    then have r: "unat r = ?s * 2 ^ nat x"
      unfolding r_def by (rule unat_scaled_up [of _ _ "?M + 1"]) (use sl 1 in simp_all)
    have mag': "sf_mag a = real (?s * 2 ^ nat x)" using 1 by (simp add: mag power_int_def)
    have "r = of_nat (?s * 2 ^ nat x)" unfolding r [symmetric] by (simp add: of_nat_unat)
    moreover have "int_limit u ?neg < r \<longleftrightarrow> \<not> ?s * 2 ^ nat x \<le> unat (int_limit u ?neg :: 'i word)"
      by (simp add: word_less_nat_alt r not_le)
    ultimately show ?thesis
      unfolding c r_def [symmetric] mag' int_result_nat [OF rnd_int_of_nat] using 1 by (simp add: Let_def)
  next
    case 2
    have "0 \<le> sf_bias TYPE('f)" by (simp add: exp_mask)
    then have "1 < eff_exp a" using 2 sizes(2,3) unfolding x_def by linarith
    then have "2 ^ ?M * 2 ^ nat x \<le> ?s * 2 ^ nat x" by (intro mult_right_mono significand_ge) simp_all
    moreover have "(2 :: nat) ^ LENGTH('i) \<le> 2 ^ (?M + nat x)" using 2 by (intro power_increasing) simp_all
    ultimately have "\<not> ?s * 2 ^ nat x \<le> unat (int_limit u ?neg :: 'i word)"
      using unsigned_less [of "int_limit u ?neg :: 'i word", where 'a = nat] unfolding power_add by linarith
    moreover have mag': "sf_mag a = real (?s * 2 ^ nat x)" using 2 by (simp add: mag power_int_def)
    ultimately show ?thesis
      unfolding c mag' int_result_nat [OF rnd_int_of_nat] using 2 by simp
  next
    case 3
    define d where "d = nat (- x)"
    define k where "k = rnd_nat rm ?neg ?R (rshift_nat (?s * 2 ^ ?R) d)"
    define v where "v = rshift_rnd m d"
    define r where "r = round_mant rm (round_addend ?R ?neg rm) v"
    have y: "real ?s / 2 ^ d = sf_mag a" using 3 unfolding mag d_def by (simp add: power_int_def field_simps)
    have "?s < 2 ^ (?M + 1)" using sl by simp
    note k = round_scaled_down [OF m this, of rm ?neg d, folded v_def, folded r_def, folded k_def, unfolded y]
    have "uint (int_limit u ?neg :: 'i word) < uint r \<longleftrightarrow> \<not> k \<le> unat (int_limit u ?neg :: 'i word)"
      by (simp add: uint_nat k(2) not_le)
    moreover note k(3)
    moreover have "(ucast r :: 'i word) = of_nat k" unfolding k(2) [symmetric] by (simp add: of_nat_unat)
    ultimately show ?thesis
      unfolding c v_def [symmetric] d_def [symmetric] r_def [symmetric] int_result_nat [OF k(1)] Let_def using 3 by simp
  qed
qed

end

end
