(* ===== verification/Float_Value.thy ===== *)
theory Float_Value
  imports Float_Convert
begin

text \<open>
  Packing and unpacking are inverse, and what the rounding specification means: a result that does
  not overflow is the representable number with the rounded count of quanta, a representable
  magnitude is returned unchanged, and the error is below one quantum (half a quantum to nearest).
\<close>

context float_format
begin

section \<open>Packing\<close>

lemma signed_word:
  fixes k :: int and neg :: bool
  assumes "0 \<le> k" "k < 2 ^ (LENGTH('f) - 1)"
  defines "w \<equiv> (if neg then SIGN_MASK else 0) OR of_int k :: 'f word"
  shows "unat w = nat k + (if neg then 2 ^ (LENGTH('f) - 1) else 0)" and "sf_sign w = neg"
proof -
  let ?n = "LENGTH('f) - 1"
  have "k < 2 ^ LENGTH('f)" using assms(2) by (rule less_le_trans) (rule power_increasing; simp)
  then have u: "unat (of_int k :: 'f word) = nat k"
    using assms(1) by (simp add: unsigned_of_int nat_take_bit_eq take_bit_nat_eq_self nat_less_iff)
  have kl: "nat k < 2 ^ ?n" using assms by (simp add: nat_less_iff)
  show un: "unat w = nat k + (if neg then 2 ^ ?n else 0)"
    using unat_hidden [of "of_int k :: 'f word" ?n] kl unfolding u by (simp add: w_def SIGN_MASK_def or.commute u del: push_bit_of_1)
  show "sf_sign w = neg"
  proof (cases neg)
    case True
    then show ?thesis by (simp add: w_def sf_sign_def SIGN_MASK_def bit_simps)
  next
    case False
    then show ?thesis using bit_imp_power_le_unat [of w ?n] kl unfolding un by (auto simp: sf_sign_def)
  qed
qed

lemma signed_word_fields:
  fixes k :: int and neg :: bool
  assumes "0 \<le> k" "k < 2 ^ (LENGTH('f) - 1)"
  defines "w \<equiv> (if neg then SIGN_MASK else 0) OR of_int k :: 'f word"
  shows "sf_exp w = k div 2 ^ MANT_SIZE TYPE('f)" and "int (unat (sf_mant w)) = k mod 2 ^ MANT_SIZE TYPE('f)"
proof -
  let ?M = "MANT_SIZE TYPE('f)"
  note u = signed_word(1) [OF assms(1,2), of neg, folded w_def]
  have f: "LENGTH('f) - 1 = ?M + (RND_SIZE TYPE('f) + 1)" by (simp add: sizes)
  have kl: "nat k < 2 ^ (LENGTH('f) - 1)" using assms by (simp add: nat_less_iff)
  then have "nat k div 2 ^ ?M < 2 ^ (RND_SIZE TYPE('f) + 1)" unfolding f by (simp add: less_mult_imp_div_less power_add ac_simps)
  then have "unat w div 2 ^ ?M mod 2 ^ (RND_SIZE TYPE('f) + 1) = nat k div 2 ^ ?M"
    unfolding u f power_add by (cases neg) simp_all
  then show "sf_exp w = k div 2 ^ ?M" using assms(1) by (simp add: exp_eq nat_div_distrib zdiv_int)
  have "unat w mod 2 ^ ?M = nat k mod 2 ^ ?M" unfolding u f power_add by (cases neg) simp_all
  then show "int (unat (sf_mant w)) = k mod 2 ^ ?M" using assms(1) by (simp add: unat_mant zmod_int)
qed

lemma pack_unpack:
  assumes "0 \<le> e" "e \<le> EXP_MASK TYPE('f)" "unat (m :: 'f word) < 2 ^ MANT_SIZE TYPE('f)"
  shows "unpack_sf (pack_sf s e m) = (s, e, m)"
proof -
  let ?M = "MANT_SIZE TYPE('f)"
  let ?k = "e * 2 ^ ?M + int (unat m)"
  have m: "int (unat m) < 2 ^ ?M" using assms(3) by (metis of_nat_less_iff of_nat_numeral of_nat_power)
  have "e * 2 ^ ?M \<le> EXP_MASK TYPE('f) * 2 ^ ?M" using assms(2) by (rule mult_right_mono) simp
  then have "?k < (EXP_MASK TYPE('f) + 1) * 2 ^ ?M" using m unfolding distrib_right by linarith
  also have "\<dots> = 2 ^ (LENGTH('f) - 1)" by (simp add: exp_mask sizes power_add)
  finally have k: "0 \<le> ?k" "?k < 2 ^ (LENGTH('f) - 1)" using assms(1) by simp_all
  have p: "pack_sf s e m = (if s then SIGN_MASK else 0) OR of_int ?k" using assms(3) by (simp add: pack_eq)
  have "?k div 2 ^ ?M = e" "?k mod 2 ^ ?M = int (unat m)" using m by simp_all
  then show ?thesis
    using signed_word(2) [OF k, of s] signed_word_fields [OF k, of s] unfolding unpack_sf_def p
    by (simp add: word_unat_eq_iff)
qed

lemma split_sign: "(if sf_sign (a :: 'f word) then SIGN_MASK else 0) OR (a AND NOT SIGN_MASK) = a"
proof (rule bit_word_eqI)
  fix n assume "n < LENGTH('f)"
  then show "bit ((if sf_sign a then SIGN_MASK else 0) OR (a AND NOT SIGN_MASK)) n = bit a n"
    by (cases "n = LENGTH('f) - 1") (auto simp: SIGN_MASK_def bit_simps sf_sign_def)
qed

lemma magnitude_word: "(of_int (sf_exp a * 2 ^ MANT_SIZE TYPE('f) + int (unat (sf_mant a))) :: 'f word) = a AND NOT SIGN_MASK"
  unfolding mag_bits [symmetric] by (simp add: of_nat_unat)

lemma unpack_pack: "unpack_sf (a :: 'f word) = (s, e, m) \<Longrightarrow> pack_sf s e m = a"
  using split_sign [of a] mant_less [of a] magnitude_word [of a] unfolding unpack_sf_def pack_eq prod.inject
  by (elim conjE) (simp only: mod_less)

section \<open>Values of results\<close>

text \<open>The word that counts \<open>(e - 1) * 2 ^ MANT_SIZE + n\<close> quanta stands for \<open>n\<close> quanta at exponent \<open>e\<close>.\<close>

lemma field_value:
  fixes e t :: int and neg :: bool
  assumes "0 \<le> e" "e < EXP_MASK TYPE('f)" "0 \<le> t" "t < 2 ^ MANT_SIZE TYPE('f)"
  defines "w \<equiv> (if neg then SIGN_MASK else 0) OR of_int (e * 2 ^ MANT_SIZE TYPE('f) + t) :: 'f word"
  shows "finite_sf w \<and> sf_sign w = neg \<and>
    sf_mag w = (if e = 0 then of_int t * quantum TYPE('f) 1 else (2 ^ MANT_SIZE TYPE('f) + of_int t) * quantum TYPE('f) e)"
proof -
  let ?M = "MANT_SIZE TYPE('f)"
  let ?k = "e * 2 ^ ?M + t"
  have "(e + 1) * 2 ^ ?M \<le> EXP_MASK TYPE('f) * 2 ^ ?M" using assms(2) by (intro mult_right_mono) simp_all
  then have "?k < EXP_MASK TYPE('f) * 2 ^ ?M" using assms(4) unfolding distrib_right by linarith
  also have "\<dots> < (EXP_MASK TYPE('f) + 1) * 2 ^ ?M" by simp
  also have "\<dots> = 2 ^ (LENGTH('f) - 1)" by (simp add: exp_mask sizes power_add)
  finally have k: "0 \<le> ?k" "?k < 2 ^ (LENGTH('f) - 1)" using assms(1,3) by simp_all
  have "sf_exp w = e" "int (unat (sf_mant w)) = t" "sf_sign w = neg"
    using signed_word(2) [OF k, of neg] signed_word_fields [OF k, of neg] assms(1,3,4) unfolding w_def by simp_all
  moreover then have "real (unat (sf_mant w)) = of_int t" by (metis of_int_of_nat_eq)
  ultimately show ?thesis using assms(2) by (simp add: finite_sf_def sf_mag_def)
qed

lemma counted_value:
  fixes e n :: int and neg :: bool
  assumes "1 \<le> e" "0 \<le> n" "n \<le> 2 * 2 ^ MANT_SIZE TYPE('f)" "e = 1 \<or> 2 ^ MANT_SIZE TYPE('f) \<le> n"
    and l: "(e - 1) * 2 ^ MANT_SIZE TYPE('f) + n < EXP_MASK TYPE('f) * 2 ^ MANT_SIZE TYPE('f)"
  defines "w \<equiv> (if neg then SIGN_MASK else 0) OR of_int ((e - 1) * 2 ^ MANT_SIZE TYPE('f) + n) :: 'f word"
  shows "finite_sf w \<and> sf_sign w = neg \<and> sf_mag w = of_int n * quantum TYPE('f) e"
proof -
  let ?P = "2 ^ MANT_SIZE TYPE('f) :: int"
  have E: "0 < EXP_MASK TYPE('f)" using exp_mask_ge by simp
  consider "n < ?P" | "?P \<le> n" "n < 2 * ?P" | "n = 2 * ?P" using assms(3) by linarith
  then show ?thesis
  proof cases
    case 1
    then show ?thesis using assms(2,4) field_value [of 0 n neg] E unfolding w_def by simp
  next
    case 2
    have k: "(e - 1) * ?P + n = e * ?P + (n - ?P)" by (simp add: algebra_simps)
    have "e * ?P + (n - ?P) < EXP_MASK TYPE('f) * ?P" using l unfolding k .
    then have "e < EXP_MASK TYPE('f)" using 2 scaled_le [of "n - ?P" ?P "EXP_MASK TYPE('f)" e] by linarith
    then show ?thesis using assms(1) 2 field_value [of e "n - ?P" neg] unfolding w_def k by simp
  next
    case 3
    have k: "(e - 1) * ?P + n = (e + 1) * ?P + 0" using 3 by (simp add: algebra_simps)
    have "(e + 1) * ?P + 0 < EXP_MASK TYPE('f) * ?P" using l unfolding k .
    then have "e + 1 < EXP_MASK TYPE('f)" using scaled_le [of 0 ?P "EXP_MASK TYPE('f)" "e + 1"] by simp
    then show ?thesis
      using assms(1) 3 field_value [of "e + 1" 0 neg] quantum_add [of e 1] unfolding w_def k by simp
  qed
qed

text \<open>The binade brackets a magnitude.\<close>

lemma binade_bounds:
  assumes "0 < x"
  defines "b \<equiv> binade TYPE('f) x"
  shows "2 ^ MANT_SIZE TYPE('f) * quantum TYPE('f) b \<le> x \<and> x < 2 * 2 ^ MANT_SIZE TYPE('f) * quantum TYPE('f) b"
proof -
  let ?M = "MANT_SIZE TYPE('f)"
  define z where "z = \<lfloor>log 2 x\<rfloor>"
  have q: "2 ^ ?M * quantum TYPE('f) b = 2 powi z"
    using power_int_add [of "2 :: real" "int ?M" "z - int ?M"] by (simp add: quantum_def b_def binade_def z_def)
  have "2 powr (of_int z) \<le> x" "x < 2 powr (of_int z + 1)"
    using assms(1) floor_log_eq_powr_iff [of x 2 z] by (simp_all add: z_def)
  then have "2 powi z \<le> x" "x < 2 * 2 powi z" by (simp_all add: powr_real_of_int' powr_add)
  then show ?thesis using q by (simp add: mult.assoc)
qed

text \<open>A result that does not overflow.\<close>

lemma ieee_round_value:
  assumes x: "0 < x" and w: "ieee_round neg x rm fl = (w :: 'f word, fl')"
  defines "e \<equiv> max 1 (binade TYPE('f) x)"
  assumes l: "(e - 1) * 2 ^ MANT_SIZE TYPE('f) + rnd_at TYPE('f) e rm neg x < EXP_MASK TYPE('f) * 2 ^ MANT_SIZE TYPE('f)"
  shows "finite_sf w \<and> sf_sign w = neg \<and> sf_mag w = of_int (rnd_at TYPE('f) e rm neg x) * quantum TYPE('f) e"
proof -
  let ?M = "MANT_SIZE TYPE('f)" and ?b = "binade TYPE('f) x" and ?q = "quantum TYPE('f)"
  let ?n = "rnd_at TYPE('f) e rm neg x"
  note b = binade_bounds [OF x]
  have "?q e = ?q ?b * 2 ^ nat (e - ?b)" using quantum_add [of ?b "nat (e - ?b)"] by (simp add: e_def)
  moreover have "?q ?b * 1 \<le> ?q ?b * 2 ^ nat (e - ?b)" by (intro mult_left_mono) (simp_all add: less_imp_le)
  ultimately have q: "?q ?b \<le> ?q e" by simp
  have "x \<le> 2 * 2 ^ ?M * ?q e" using b q by (meson less_imp_le mult_left_mono order_trans zero_le_mult_iff zero_le_numeral zero_le_power)
  then have "0 \<le> x / ?q e" "x / ?q e \<le> of_int (2 * 2 ^ ?M)" using x by (simp_all add: divide_le_eq less_imp_le)
  then have n: "0 \<le> ?n" "?n \<le> 2 * 2 ^ ?M" using rnd_int_bounds [of 0 "x / ?q e" "2 * 2 ^ ?M" rm neg] by (simp_all add: rnd_at_def)
  have n1: "2 ^ ?M \<le> ?n" if "e \<noteq> 1"
  proof -
    have "e = ?b" using that by (simp add: e_def max_def split: if_splits)
    then have "of_int (2 ^ ?M) \<le> x / ?q e" using b by (simp add: le_divide_eq)
    moreover have "x / ?q e \<le> of_int (2 * 2 ^ ?M)" using \<open>x / ?q e \<le> of_int (2 * 2 ^ ?M)\<close> .
    ultimately show ?thesis using rnd_int_bounds [of "2 ^ ?M" "x / ?q e" "2 * 2 ^ ?M" rm neg] by (simp add: rnd_at_def)
  qed
  have "w = (if neg then SIGN_MASK else 0) OR of_int ((e - 1) * 2 ^ ?M + ?n)"
    using w l unfolding ieee_round_def Let_def e_def [symmetric] by (simp split: if_splits)
  moreover have "1 \<le> e" by (simp add: e_def)
  ultimately show ?thesis using counted_value [of e ?n neg] n n1 l by blast
qed

text \<open>A representable magnitude is not changed.\<close>

lemma binade_mag:
  assumes "0 < significand (a :: 'f word)"
  shows "max 1 (binade TYPE('f) (sf_mag a)) = eff_exp a"
proof (cases "1 < eff_exp a")
  case True
  let ?y = "real (significand a) * 2 ^ RND_SIZE TYPE('f)"
  have "real (2 ^ MANT_SIZE TYPE('f)) \<le> real (significand a)" "real (significand a) < real (2 * 2 ^ MANT_SIZE TYPE('f))"
    using significand_ge [OF True] significand_less [of a] by (simp_all only: of_nat_le_iff of_nat_less_iff)
  then have "binade TYPE('f) (?y / 2 ^ RND_SIZE TYPE('f) * quantum TYPE('f) (eff_exp a)) = eff_exp a"
    by (intro binade_eq) (simp_all add: power_add)
  then show ?thesis using True by (simp add: significand_mag)
next
  case False
  then have e: "eff_exp a = 1" using eff_exp_ge [of a] by simp
  have x: "0 < sf_mag a" using assms by (simp add: significand_mag)
  have "binade TYPE('f) (sf_mag a) \<le> 1"
  proof (rule ccontr)
    assume "\<not> binade TYPE('f) (sf_mag a) \<le> 1"
    then obtain n where n: "binade TYPE('f) (sf_mag a) = 1 + int (Suc n)"
      by (metis add.commute add_diff_cancel_left' int_one_le_iff_zero_less not_le of_nat_1 zle_iff_zadd zless_iff_Suc_zadd)
    have "2 ^ MANT_SIZE TYPE('f) * quantum TYPE('f) (1 + int (Suc n)) \<le> sf_mag a"
      using binade_bounds [OF x] by (simp add: n)
    then have "(2 ^ MANT_SIZE TYPE('f) * 2 ^ Suc n) * quantum TYPE('f) 1 \<le> real (significand a) * quantum TYPE('f) 1"
      unfolding quantum_add significand_mag e by (simp only: ac_simps)
    then have "2 ^ MANT_SIZE TYPE('f) * 2 ^ Suc n \<le> real (significand a)" by (rule mult_right_le_imp_le) simp
    moreover have "(2 :: real) ^ MANT_SIZE TYPE('f) * 2 ^ 1 \<le> 2 ^ MANT_SIZE TYPE('f) * 2 ^ Suc n"
      by (intro mult_left_mono power_increasing) simp_all
    moreover have "real (significand a) < real (2 * 2 ^ MANT_SIZE TYPE('f))"
      using significand_less [of a] by (simp only: of_nat_less_iff)
    ultimately show False unfolding power_one_right of_nat_mult of_nat_power of_nat_numeral by linarith
  qed
  then show ?thesis by (simp add: e)
qed

lemma ieee_round_exact:
  assumes "finite_sf (a :: 'f word)" "\<not> is_zero_sf a"
  shows "ieee_round (sf_sign a) (sf_mag a) rm fl = (a, fl)"
proof -
  let ?M = "MANT_SIZE TYPE('f)" and ?s = "significand a"
  have s: "0 < ?s" using assms(2) by (simp add: zero_iff significand_mag)
  have q: "sf_mag a / quantum TYPE('f) (eff_exp a) = real ?s" by (simp add: significand_mag)
  have n: "rnd_at TYPE('f) (eff_exp a) rm (sf_sign a) (sf_mag a) = int ?s" by (simp add: rnd_at_def q rnd_int_of_nat)
  have "(sf_exp a + 1) * 2 ^ ?M \<le> EXP_MASK TYPE('f) * 2 ^ ?M"
    using assms(1) exp_range(2) [of a] by (intro mult_right_mono) (simp_all add: finite_sf_def)
  moreover have "int (unat (sf_mant a)) < int (2 ^ ?M)" using mant_less [of a] by (simp only: of_nat_less_iff)
  ultimately have "sf_exp a * 2 ^ ?M + int (unat (sf_mant a)) < EXP_MASK TYPE('f) * 2 ^ ?M"
    unfolding distrib_right of_nat_power of_nat_numeral by linarith
  then have l: "\<not> EXP_MASK TYPE('f) * 2 ^ ?M \<le> (eff_exp a - 1) * 2 ^ ?M + int ?s"
    unfolding significand_bits [symmetric] mag_bits by simp
  have w: "(of_int ((eff_exp a - 1) * 2 ^ ?M + int ?s) :: 'f word) = a AND NOT SIGN_MASK"
    unfolding significand_bits [symmetric] by (simp add: of_nat_unat)
  have x: "real_of_int (int ?s) * quantum TYPE('f) (eff_exp a) = sf_mag a" by (simp add: significand_mag)
  show ?thesis
    unfolding ieee_round_def Let_def binade_mag [OF s] n w x using l split_sign [of a] by simp
qed

text \<open>The error of a rounding.\<close>

lemma rnd_int_error: "\<bar>of_int (rnd_int rm neg y) - y\<bar> < 1"
  "rm = RM_RNE \<or> rm = RM_RMM \<Longrightarrow> \<bar>of_int (rnd_int rm neg y) - y\<bar> \<le> 1 / 2"
proof -
  have f: "of_int \<lfloor>y\<rfloor> \<le> y" "y < of_int \<lfloor>y\<rfloor> + 1" and c: "y \<le> of_int \<lceil>y\<rceil>" "of_int \<lceil>y\<rceil> < y + 1" by linarith+
  show "\<bar>of_int (rnd_int rm neg y) - y\<bar> < 1"
    unfolding rnd_int_def Let_def using f c
    by (cases rm) (simp_all only: RoundingModeEnum.case split: if_split, linarith+)
  show "rm = RM_RNE \<or> rm = RM_RMM \<Longrightarrow> \<bar>of_int (rnd_int rm neg y) - y\<bar> \<le> 1 / 2"
    unfolding rnd_int_def Let_def using f
    by (elim disjE; simp only: RoundingModeEnum.case split: if_split; linarith)
qed

lemma ieee_round_error:
  assumes x: "0 < x" and w: "ieee_round neg x rm fl = (w :: 'f word, fl')"
  defines "e \<equiv> max 1 (binade TYPE('f) x)"
  assumes l: "(e - 1) * 2 ^ MANT_SIZE TYPE('f) + rnd_at TYPE('f) e rm neg x < EXP_MASK TYPE('f) * 2 ^ MANT_SIZE TYPE('f)"
  shows "\<bar>sf_mag w - x\<bar> < quantum TYPE('f) e"
    and "rm = RM_RNE \<or> rm = RM_RMM \<Longrightarrow> \<bar>sf_mag w - x\<bar> \<le> quantum TYPE('f) e / 2"
proof -
  let ?q = "quantum TYPE('f) e"
  have "sf_mag w - x = (of_int (rnd_int rm neg (x / ?q)) - x / ?q) * ?q"
    using ieee_round_value [OF x w, folded e_def, OF l] by (simp add: rnd_at_def left_diff_distrib)
  then have e: "\<bar>sf_mag w - x\<bar> = \<bar>of_int (rnd_int rm neg (x / ?q)) - x / ?q\<bar> * ?q" by (simp add: abs_mult less_imp_le)
  show "\<bar>sf_mag w - x\<bar> < ?q"
    unfolding e using mult_strict_right_mono [OF rnd_int_error(1), of ?q rm neg "x / ?q"] by simp
  show "\<bar>sf_mag w - x\<bar> \<le> ?q / 2" if "rm = RM_RNE \<or> rm = RM_RMM"
    unfolding e using mult_right_mono [OF rnd_int_error(2) [OF that], of ?q neg "x / ?q"] by (simp add: less_imp_le)
qed

end

end
