(* ===== verification/Float_Width.thy ===== *)
theory Float_Width
  imports Float_Value
begin

text \<open>
  Conversions between formats: widening is exact, and narrowing returns the value rounded once to
  the narrower format.
\<close>

section \<open>Very small magnitudes\<close>

context float_format
begin

lemma quantum_mono: "d \<le> e \<Longrightarrow> quantum TYPE('f) d \<le> quantum TYPE('f) e"
proof -
  assume "d \<le> e"
  then have "quantum TYPE('f) e = quantum TYPE('f) d * 2 ^ nat (e - d)" using quantum_add [of d "nat (e - d)"] by simp
  moreover have "quantum TYPE('f) d * 1 \<le> quantum TYPE('f) d * 2 ^ nat (e - d)"
    by (intro mult_left_mono) (simp_all add: less_imp_le)
  ultimately show ?thesis by simp
qed

lemma quantum_less_imp: "quantum TYPE('f) d < quantum TYPE('f) e \<Longrightarrow> d < e"
  using quantum_mono [of e d] by (rule_tac ccontr) simp

lemma rnd_int_small:
  assumes "0 < y" "y < 1 / 2"
  shows "rnd_int rm neg y = (if overflow_to_inf rm neg \<and> rm \<noteq> RM_RNE \<and> rm \<noteq> RM_RMM then 1 else 0)"
proof -
  have "\<lfloor>y\<rfloor> = 0" "\<lceil>y\<rceil> = 1" using assms by linarith+
  then show ?thesis using assms by (cases rm) (simp_all add: rnd_int_def Let_def overflow_to_inf_def)
qed

text \<open>The exponent of a normalized operand.\<close>

lemma norm_exp_range:
  assumes a: "finite_sf (a :: 'f word)" "\<not> is_zero_sf a" and o: "norm_operand a = (e, m)"
  shows "- int (MANT_SIZE TYPE('f)) < e \<and> e < EXP_MASK TYPE('f) \<and> (sf_exp a = 0 \<longrightarrow> e < 1)"
proof (cases "sf_exp a = 0")
  case False
  then show ?thesis using o a(1) exp_range [of a] by (auto simp: norm_operand_def finite_sf_def)
next
  case True
  let ?M = "MANT_SIZE TYPE('f)" and ?q = "quantum TYPE('f)"
  note c = norm_operand_correct [OF a o]
  have mag: "sf_mag a = real (unat (sf_mant a)) * ?q 1" using True by (simp add: sf_mag_def)
  have "sf_mant a \<noteq> 0" using a(2) True by (simp add: is_zero_sf_def)
  then have lo: "1 \<le> real (unat (sf_mant a))" by (simp add: unat_gt_0 Suc_le_eq)
  have hi: "real (unat (sf_mant a)) < real (2 ^ ?M)" using mant_less [of a] by (simp only: of_nat_less_iff)
  have m: "real (2 ^ ?M) \<le> real (unat m)" "real (unat m) < real (2 * 2 ^ ?M)" using c by (simp_all only: of_nat_le_iff of_nat_less_iff)
  have "1 * ?q 1 \<le> sf_mag a" unfolding mag using lo by (rule mult_right_mono) (simp add: less_imp_le)
  also have "sf_mag a < real (2 * 2 ^ ?M) * ?q e" using c m by (auto intro: mult_strict_right_mono)
  also have "\<dots> = ?q (e + int (?M + 1))" by (simp only: quantum_add) simp
  finally have l: "1 < e + int (?M + 1)" by (intro quantum_less_imp) simp
  have "real (2 ^ ?M) * ?q e \<le> sf_mag a" using c m by (auto intro: mult_right_mono simp: less_imp_le)
  also have "\<dots> < real (2 ^ ?M) * ?q 1" unfolding mag using hi by (rule mult_strict_right_mono) simp
  finally have "?q e < ?q 1" by simp
  then have "e < 1" by (rule quantum_less_imp)
  then show ?thesis using l exp_mask_ge by simp
qed

text \<open>Below half the smallest subnormal number only the sign and the mode matter.\<close>

lemma ieee_round_tiny:
  assumes x: "0 < x" "x < quantum TYPE('f) 1 / 2"
  shows "(ieee_round neg x rm fl :: 'f word \<times> u32) =
    ((if neg then SIGN_MASK else 0) OR
       of_int (if overflow_to_inf rm neg \<and> rm \<noteq> RM_RNE \<and> rm \<noteq> RM_RMM then 1 else 0),
     (fl OR FFLAG_UNDERFLOW) OR FFLAG_INEXACT)"
proof -
  let ?M = "MANT_SIZE TYPE('f)" and ?q = "quantum TYPE('f)" and ?b = "binade TYPE('f) x"
  let ?n = "if overflow_to_inf rm neg \<and> rm \<noteq> RM_RNE \<and> rm \<noteq> RM_RMM then 1 else 0 :: int"
  note b = binade_bounds [OF x(1)]
  have y: "0 < x / ?q 1" "x / ?q 1 < 1 / 2" using x by (simp_all add: divide_less_eq)
  have P: "(1 :: real) \<le> 2 ^ ?M" by simp
  have "1 * ?q ?b \<le> 2 ^ ?M * ?q ?b" by (intro mult_right_mono) (simp_all add: less_imp_le)
  then have "?q ?b < ?q 1" using b x quantum_pos(1) [of 1] by linarith
  then have "?b < 1" by (rule quantum_less_imp)
  then have e: "max 1 ?b = 1" by simp
  have n: "rnd_at TYPE('f) 1 rm neg x = ?n" unfolding rnd_at_def by (rule rnd_int_small [OF y])
  have "of_int (rnd_at TYPE('f) ?b rm neg x) * ?q ?b < 2 ^ ?M * ?q 1"
  proof -
    have "x / ?q ?b \<le> of_int (2 * 2 ^ ?M)" "of_int 0 \<le> x / ?q ?b" using b x by (simp_all add: divide_le_eq less_imp_le)
    then have "rnd_at TYPE('f) ?b rm neg x \<le> 2 * 2 ^ ?M" unfolding rnd_at_def using rnd_int_bounds by blast
    then have "real_of_int (rnd_at TYPE('f) ?b rm neg x) \<le> real_of_int (2 * 2 ^ ?M)" by (simp only: of_int_le_iff)
    then have "of_int (rnd_at TYPE('f) ?b rm neg x) * ?q ?b \<le> (2 * 2 ^ ?M) * ?q ?b"
      by (intro mult_right_mono) (simp_all add: less_imp_le)
    also have "\<dots> \<le> 2 * x" using b by simp
    also have "\<dots> < 1 * ?q 1" using x by simp
    also have "\<dots> \<le> 2 ^ ?M * ?q 1" by (intro mult_right_mono) (simp_all add: less_imp_le)
    finally show ?thesis .
  qed
  moreover have "of_int ?n * ?q 1 \<noteq> x" using x by auto
  moreover have "\<not> EXP_MASK TYPE('f) * 2 ^ ?M \<le> ?n"
  proof -
    have "1 < EXP_MASK TYPE('f)" using exp_mask_ge by simp
    then have "1 * 1 < EXP_MASK TYPE('f) * 2 ^ ?M" by (intro mult_less_le_imp_less) simp_all
    then show ?thesis by simp
  qed
  ultimately show ?thesis unfolding ieee_round_def Let_def e n by simp
qed

end

section \<open>Two formats\<close>

definition lost_bits :: "'f::len itself \<Rightarrow> 'g::len itself \<Rightarrow> nat" where
  "lost_bits tf tg = MANT_SIZE tf - (MANT_SIZE tg + RND_SIZE tg)"

lemma powi_add_nat: "(2 :: real) powi (z + int n) = 2 powi z * 2 ^ n"
  by (simp add: power_int_add)

text \<open>\<open>'f\<close> is wide enough that the smallest subnormal number of \<open>'g\<close> is far inside its normal range.\<close>

locale format_pair = f: float_format tf + g: float_format tg
  for tf :: "'f::len itself" and tg :: "'g::len itself" +
  assumes mant_room: "LENGTH('g) \<le> MANT_SIZE TYPE('f)"
    and exp_room: "sf_bias TYPE('g) + int LENGTH('f) + int LENGTH('g) < sf_bias TYPE('f)"
begin

lemma quantum_narrow:
  "quantum TYPE('g) (e - sf_bias TYPE('f) + sf_bias TYPE('g)) = quantum TYPE('f) e * 2 ^ (lost_bits TYPE('f) TYPE('g) + RND_SIZE TYPE('g))"
proof -
  have "int (MANT_SIZE TYPE('f)) = int (MANT_SIZE TYPE('g)) + int (lost_bits TYPE('f) TYPE('g) + RND_SIZE TYPE('g))"
    using mant_room g.sizes by (simp add: lost_bits_def)
  then show ?thesis
    using powi_add_nat [of "e - sf_bias TYPE('f) - int (MANT_SIZE TYPE('f))" "lost_bits TYPE('f) TYPE('g) + RND_SIZE TYPE('g)"]
    by (simp add: quantum_def algebra_simps)
qed

lemma narrow_mantissa:
  fixes m :: "'f word"
  assumes "unat m < 2 * 2 ^ MANT_SIZE TYPE('f)"
  defines "w \<equiv> ucast (rshift_rnd m (lost_bits TYPE('f) TYPE('g))) :: 'g word"
  shows "unat w = rshift_nat (unat m) (lost_bits TYPE('f) TYPE('g))" and "unat w < 2 ^ (MANT_SIZE TYPE('g) + RND_SIZE TYPE('g) + 1)"
proof -
  let ?n = "MANT_SIZE TYPE('g) + RND_SIZE TYPE('g)"
  have "unat m < 2 ^ (MANT_SIZE TYPE('f) + 1)" using assms(1) by simp
  then have "unat m < 2 ^ (?n + 1 + lost_bits TYPE('f) TYPE('g))" by (rule less_power_mono) (use mant_room g.sizes in \<open>simp add: lost_bits_def\<close>)
  then have l: "rshift_nat (unat m) (lost_bits TYPE('f) TYPE('g)) < 2 ^ (?n + 1)" by (rule g.sign_shift_less) simp
  then have "rshift_nat (unat m) (lost_bits TYPE('f) TYPE('g)) < 2 ^ LENGTH('g)" by (rule less_power_mono) (simp add: g.sizes)
  then show "unat w = rshift_nat (unat m) (lost_bits TYPE('f) TYPE('g))" unfolding w_def by (simp add: unat_ucast_small unat_rshift_rnd)
  then show "unat w < 2 ^ (?n + 1)" using l by simp
qed

lemma narrow_code:
  fixes a :: "'f word"
  assumes "finite_sf a" "\<not> is_zero_sf a"
  shows "(cvt_sf_narrow a rm fl :: 'g word \<times> u32) =
    normalize_sf (sf_sign a) (fst (norm_operand a) - sf_bias TYPE('f) + sf_bias TYPE('g))
      (ucast (rshift_rnd (if sf_exp a = 0 then sf_mant a else sf_mant a OR push_bit (MANT_SIZE TYPE('f)) 1) (lost_bits TYPE('f) TYPE('g)))) rm fl"
proof -
  have b: "EXP_MASK TYPE('f) div 2 = sf_bias TYPE('f)" "EXP_MASK TYPE('g) div 2 = sf_bias TYPE('g)"
    by (simp_all add: f.exp_mask g.exp_mask)
  have d: "MANT_SIZE TYPE('f) - (LENGTH('g) - 2) = lost_bits TYPE('f) TYPE('g)" by (simp add: lost_bits_def g.sizes)
  show ?thesis
    using assms unfolding cvt_sf_narrow_def Let_def b d by (simp add: finite_sf_def norm_operand_def)
qed

lemma narrow_normal:
  fixes a :: "'f word"
  assumes a: "finite_sf a" "sf_exp a \<noteq> 0"
  shows "(cvt_sf_narrow a rm fl :: 'g word \<times> u32) = ieee_round (sf_sign a) (sf_mag a) rm fl"
proof -
  let ?n = "MANT_SIZE TYPE('g) + RND_SIZE TYPE('g)" and ?s = "significand a"
  have nz: "\<not> is_zero_sf a" using a by (simp add: is_zero_sf_def)
  define w :: "'g word" where "w = ucast (rshift_rnd (sf_mant a OR push_bit (MANT_SIZE TYPE('f)) 1) (lost_bits TYPE('f) TYPE('g)))"
  have m: "unat (sf_mant a OR push_bit (MANT_SIZE TYPE('f)) 1) = ?s" using f.unat_operand [of a] a(2) by simp
  have w: "unat w = rshift_nat ?s (lost_bits TYPE('f) TYPE('g))" "unat w < 2 ^ (?n + 1)"
    using narrow_mantissa [of "sf_mant a OR push_bit (MANT_SIZE TYPE('f)) 1", folded w_def] f.significand_less [of a] unfolding m by simp_all
  define y where "y = real ?s / 2 ^ lost_bits TYPE('f) TYPE('g)"
  have st: "sticky 0 (unat w) y" using sticky_rshift [OF sticky_exact [of 0 ?s], of "lost_bits TYPE('f) TYPE('g)"] by (simp add: w(1) y_def)
  have "2 ^ MANT_SIZE TYPE('f) \<le> ?s" using a(2) by (simp add: significand_def)
  moreover have "?n + lost_bits TYPE('f) TYPE('g) = MANT_SIZE TYPE('f)" using mant_room g.sizes by (simp add: lost_bits_def)
  ultimately have "2 ^ ?n * 2 ^ lost_bits TYPE('f) TYPE('g) \<le> ?s" by (metis power_add)
  then have "2 ^ ?n \<le> ?s div 2 ^ lost_bits TYPE('f) TYPE('g)" by (simp add: less_eq_div_iff_mult_less_eq)
  then have lo: "2 ^ ?n \<le> unat w" unfolding w(1) using rshift_nat_ge by (rule order_trans)
  then have wz: "w \<noteq> 0" by (auto simp: unat_eq_0)
  have cl: "0 + 2 + (builtin_clz w - 1) \<le> RND_SIZE TYPE('g)" using clz_bound [OF lo] g.sizes by linarith
  have e: "eff_exp a = sf_exp a" "fst (norm_operand a) = sf_exp a" using a(2) by (simp_all add: eff_exp_def norm_operand_def)
  have "y / 2 ^ RND_SIZE TYPE('g) * quantum TYPE('g) (sf_exp a - sf_bias TYPE('f) + sf_bias TYPE('g)) = sf_mag a"
    unfolding quantum_narrow f.significand_mag e by (simp add: y_def power_add)
  then show ?thesis
    using g.normalize_correct [OF wz w(2) st disjI2, OF cl] a(2) unfolding narrow_code [OF a(1) nz] e w_def by simp
qed

text \<open>A subnormal operand is far below the range of the narrower format.\<close>

lemma narrow_subnormal:
  fixes a :: "'f word"
  assumes a: "finite_sf a" "sf_exp a = 0" "\<not> is_zero_sf a"
  shows "(cvt_sf_narrow a rm fl :: 'g word \<times> u32) = ieee_round (sf_sign a) (sf_mag a) rm fl"
proof -
  let ?n = "MANT_SIZE TYPE('g) + RND_SIZE TYPE('g)" and ?qf = "quantum TYPE('f)" and ?qg = "quantum TYPE('g)"
  obtain e m where o: "norm_operand a = (e, m)" by fastforce
  note c = f.norm_operand_correct [OF a(1,3) o]
  have mag: "sf_mag a = real (unat (sf_mant a)) * ?qf 1" using a(2) by (simp add: sf_mag_def)
  have ml: "real (unat (sf_mant a)) < real (2 ^ MANT_SIZE TYPE('f))" using f.mant_less [of a] by (simp only: of_nat_less_iff)
  have pos: "0 < sf_mag a" using a(3) f.mag_nonneg [of a] by (simp add: f.zero_iff)
  have small: "2 ^ (MANT_SIZE TYPE('f) + 2) * ?qf 1 \<le> ?qg 1 / 2"
  proof -
    have "2 ^ (MANT_SIZE TYPE('f) + 2) * ?qf 1 = 2 powi (3 - sf_bias TYPE('f))"
      using powi_add_nat [of "1 - sf_bias TYPE('f) - int (MANT_SIZE TYPE('f))" "MANT_SIZE TYPE('f) + 2"]
      by (simp add: quantum_def algebra_simps)
    also have "\<dots> \<le> 2 powi (- sf_bias TYPE('g) - int (MANT_SIZE TYPE('g)))"
      using exp_room g.sizes by (intro power_int_increasing) simp_all
    also have "\<dots> = ?qg 1 / 2"
      using powi_add_nat [of "- sf_bias TYPE('g) - int (MANT_SIZE TYPE('g))" 1] by (simp add: quantum_def algebra_simps)
    finally show ?thesis .
  qed
  have t1: "sf_mag a < ?qg 1 / 2"
  proof -
    have "sf_mag a < real (2 ^ MANT_SIZE TYPE('f)) * ?qf 1" unfolding mag using ml by (intro mult_strict_right_mono) simp_all
    also have "\<dots> \<le> 2 ^ (MANT_SIZE TYPE('f) + 2) * ?qf 1" by (intro mult_right_mono) (simp_all add: less_imp_le)
    finally show ?thesis using small by linarith
  qed
  define w :: "'g word" where "w = ucast (rshift_rnd (sf_mant a) (lost_bits TYPE('f) TYPE('g)))"
  have w: "unat w = rshift_nat (unat (sf_mant a)) (lost_bits TYPE('f) TYPE('g))" "unat w < 2 ^ (?n + 1)"
    using narrow_mantissa [of "sf_mant a", folded w_def] f.mant_less [of a] by simp_all
  have "sticky 0 (unat w) (real (unat (sf_mant a)) / 2 ^ lost_bits TYPE('f) TYPE('g))"
    using sticky_rshift [OF sticky_exact [of 0 "unat (sf_mant a)"], of "lost_bits TYPE('f) TYPE('g)"] by (simp add: w(1))
  then have "unat w \<noteq> 0" using sticky_0_sign pos unfolding mag by fastforce
  then have wz: "w \<noteq> 0" by auto
  let ?x = "real (unat w) / 2 ^ RND_SIZE TYPE('g) * ?qg (e - sf_bias TYPE('f) + sf_bias TYPE('g))"
  have code: "(cvt_sf_narrow a rm fl :: 'g word \<times> u32) = ieee_round (sf_sign a) ?x rm fl"
    using g.normalize_correct [OF wz w(2) sticky_exact [of 0] disjI1, OF refl] a(2) unfolding narrow_code [OF a(1,3)] o w_def by simp
  have "?qf e \<le> ?qf 1" using f.norm_exp_range [OF a(1,3) o] a(2) by (intro f.quantum_mono) simp
  have t2: "0 < ?x" "?x < ?qg 1 / 2"
  proof -
    show "0 < ?x" using \<open>unat w \<noteq> 0\<close> by simp
    have "real (unat w) < real (2 ^ (?n + 1))" using w(2) by (simp only: of_nat_less_iff)
    then have "?x < real (2 ^ (?n + 1)) / 2 ^ RND_SIZE TYPE('g) * ?qg (e - sf_bias TYPE('f) + sf_bias TYPE('g))"
      by (intro mult_strict_right_mono divide_strict_right_mono) simp_all
    also have "\<dots> = 2 ^ (MANT_SIZE TYPE('f) + 1) * ?qf e"
    proof -
      have "MANT_SIZE TYPE('f) = ?n + lost_bits TYPE('f) TYPE('g)" using mant_room g.sizes by (simp add: lost_bits_def)
      then show ?thesis unfolding quantum_narrow by (simp add: power_add)
    qed
    also have "\<dots> \<le> 2 ^ (MANT_SIZE TYPE('f) + 2) * ?qf 1"
      using \<open>?qf e \<le> ?qf 1\<close> by (intro mult_mono power_increasing) (simp_all add: less_imp_le)
    finally show "?x < ?qg 1 / 2" using small by linarith
  qed
  show ?thesis unfolding code g.ieee_round_tiny [OF t2] g.ieee_round_tiny [OF pos t1] ..
qed

lemma narrow_correct:
  fixes a :: "'f word"
  assumes "finite_sf a"
  shows "(cvt_sf_narrow a rm fl :: 'g word \<times> u32) = ieee_result (sf_sign a) (sf_value a) rm fl"
proof (cases "is_zero_sf a")
  case True
  then show ?thesis using assms f.value_0 [of a] by (simp add: cvt_sf_narrow_def finite_sf_def g.pack_0 ieee_result_def)
next
  case False
  then have "0 < sf_mag a" using f.mag_nonneg [of a] by (simp add: f.zero_iff)
  then have "(ieee_result (sf_sign a) (sf_value a) rm fl :: 'g word \<times> u32) = ieee_round (sf_sign a) (sf_mag a) rm fl"
    unfolding sf_value_def by (rule ieee_result_signed)
  then show ?thesis using narrow_normal [OF assms] narrow_subnormal [OF assms _ False] by (cases "sf_exp a = 0") simp_all
qed

text \<open>Widening.\<close>

lemma widen_nonzero:
  fixes a :: "'g word"
  assumes a: "finite_sf a" "\<not> is_zero_sf a" and w: "cvt_sf_widen a fl = (w :: 'f word, fl')"
  shows "finite_sf w \<and> sf_sign w = sf_sign a \<and> sf_mag w = sf_mag a \<and> fl' = fl"
proof -
  let ?Mf = "MANT_SIZE TYPE('f)" and ?Mg = "MANT_SIZE TYPE('g)" and ?qf = "quantum TYPE('f)" and ?qg = "quantum TYPE('g)"
  define d where "d = ?Mf - ?Mg"
  have Mf: "?Mf = ?Mg + d" using mant_room g.sizes by (simp add: d_def)
  obtain e m where o: "norm_operand a = (e, m)" by fastforce
  note c = g.norm_operand_correct [OF a o]
  define v where "v = (if sf_exp a = 0 then m else sf_mant a)"
  define t where "t = unat v mod 2 ^ ?Mg"
  have b: "EXP_MASK TYPE('f) div 2 = sf_bias TYPE('f)" "EXP_MASK TYPE('g) div 2 = sf_bias TYPE('g)"
    by (simp_all add: f.exp_mask g.exp_mask)
  let ?e = "e - sf_bias TYPE('g) + sf_bias TYPE('f)"
  have code: "w = pack_sf (sf_sign a) ?e (push_bit d (ucast v))" "fl' = fl"
    using w a o unfolding cvt_sf_widen_def Let_def b d_def [symmetric]
    by (auto simp: finite_sf_def norm_operand_def v_def split: if_splits prod.splits)
  have um: "unat m = 2 ^ ?Mg + t"
  proof (cases "sf_exp a = 0")
    case True
    have "unat m - 2 ^ ?Mg < 2 ^ ?Mg" using c by linarith
    then show ?thesis using True c by (simp add: t_def v_def le_mod_geq)
  next
    case False
    then have "m = sf_mant a OR push_bit ?Mg 1" using o by (simp add: norm_operand_def)
    then show ?thesis using False g.unat_operand [of a] g.mant_less [of a] by (simp add: t_def v_def significand_def)
  qed
  have "unat v < 2 * 2 ^ ?Mg" using c g.mant_less [of a] by (simp add: v_def)
  then have "unat v * 2 ^ d < 2 * 2 ^ ?Mg * 2 ^ d" by (rule mult_strict_right_mono) simp
  then have "unat v * 2 ^ d < 2 ^ (?Mf + 1)" by (simp add: Mf power_add)
  then have vl: "unat v * 2 ^ d < 2 ^ LENGTH('f)" by (rule less_power_mono) (simp add: f.sizes)
  have "unat v \<le> unat v * 2 ^ d" by simp
  then have "unat (ucast v :: 'f word) = unat v" using vl by (intro unat_ucast_small) linarith
  then have "unat (push_bit d (ucast v :: 'f word)) = unat v * 2 ^ d" using vl unat_push_small [of "ucast v :: 'f word" d] by simp
  then have "unat (push_bit d (ucast v :: 'f word)) mod 2 ^ ?Mf = t * 2 ^ d"
    unfolding Mf power_add t_def by (simp add: mult_mod_left mult.commute)
  then have p: "w = (if sf_sign a then SIGN_MASK else 0) OR of_int (?e * 2 ^ ?Mf + int (t * 2 ^ d))"
    unfolding code pack_eq by (simp only:)
  have tl: "t * 2 ^ d < 2 ^ ?Mf" unfolding Mf power_add t_def by (intro mult_strict_right_mono) simp_all
  have er: "1 \<le> ?e" "?e < EXP_MASK TYPE('f)"
    using g.norm_exp_range [OF a o] exp_room g.sizes f.exp_mask g.exp_mask by linarith+
  have q: "?qf ?e * 2 ^ d = ?qg e"
    using powi_add_nat [of "e - sf_bias TYPE('g) - int ?Mf" d] by (simp add: quantum_def Mf algebra_simps)
  have "int (t * 2 ^ d) < int (2 ^ ?Mf)" using tl by (simp only: of_nat_less_iff)
  then have "int (t * 2 ^ d) < 2 ^ ?Mf" by (simp only: of_nat_power of_nat_numeral)
  moreover have "?e \<noteq> 0" "0 \<le> ?e" using er by linarith+
  ultimately have "finite_sf w \<and> sf_sign w = sf_sign a \<and> sf_mag w = (2 ^ ?Mf + of_int (int (t * 2 ^ d))) * ?qf ?e"
    using f.field_value [of ?e "int (t * 2 ^ d)" "sf_sign a", folded p] er(2) by (simp only: if_False of_nat_0_le_iff)
  moreover have "(2 ^ ?Mf + of_int (int (t * 2 ^ d))) * ?qf ?e = (2 ^ ?Mg + real t) * (?qf ?e * 2 ^ d)"
    by (simp add: Mf power_add algebra_simps)
  ultimately show ?thesis using c um unfolding q by (simp add: code)
qed

lemma widen_correct:
  fixes a :: "'g word"
  assumes a: "finite_sf a" and w: "cvt_sf_widen a fl = (w :: 'f word, fl')"
  shows "finite_sf w \<and> sf_sign w = sf_sign a \<and> sf_value w = sf_value a \<and> fl' = fl"
proof (cases "is_zero_sf a")
  case True
  then have "w = (if sf_sign a then SIGN_MASK else 0) OR of_int (0 * 2 ^ MANT_SIZE TYPE('f) + 0)" "fl' = fl"
    using a w by (auto simp: cvt_sf_widen_def finite_sf_def f.pack_0)
  then have "finite_sf w \<and> sf_sign w = sf_sign a \<and> sf_mag w = 0 \<and> fl' = fl"
    using f.field_value [of 0 0 "sf_sign a"] f.exp_mask_ge by simp
  then show ?thesis using True by (simp add: sf_value_def g.zero_iff)
next
  case False
  then show ?thesis using widen_nonzero [OF a False w] by (simp add: sf_value_def)
qed

end

interpretation f64_f32: format_pair "TYPE(64)" "TYPE(32)"
  by unfold_locales (simp_all add: MANT_SIZE_def MANT_SIZE_of_def sf_bias_def EXP_SIZE_def EXP_SIZE_of_def)

interpretation f128_f64: format_pair "TYPE(128)" "TYPE(64)"
  by unfold_locales (simp_all add: MANT_SIZE_def MANT_SIZE_of_def sf_bias_def EXP_SIZE_def EXP_SIZE_of_def)

end
