(* ===== verification/Float_Fma.thy ===== *)
theory Float_Fma
  imports Float_Width
begin

text \<open>
  \<open>fma_sf\<close>: the product is kept exactly in two words, the addend is aligned with it in two words, and
  the sum is rounded once.
\<close>

section \<open>Double words\<close>

definition dbl :: "'f::len word \<Rightarrow> 'f word \<Rightarrow> nat" where
  "dbl hi lo = unat hi * 2 ^ LENGTH('f) + unat lo"

lemma dbl_divmod:
  "dbl (hi :: 'f::len word) lo div 2 ^ LENGTH('f) = unat hi" "dbl hi lo mod 2 ^ LENGTH('f) = unat lo"
  by (simp_all add: dbl_def div_add1_eq)

lemma dbl_0: "dbl (hi :: 'f::len word) lo = 0 \<longleftrightarrow> hi OR lo = 0"
  by (simp add: dbl_def unat_eq_0 or_eq_0_iff)

lemma dbl_shift:
  fixes hi lo :: "'f::len word"
  assumes s: "0 < s" "s < LENGTH('f)" and l: "dbl hi lo * 2 ^ s < 2 ^ LENGTH('f) * 2 ^ LENGTH('f)"
  shows "dbl (push_bit s hi OR drop_bit (LENGTH('f) - s) lo) (push_bit s lo) = dbl hi lo * 2 ^ s"
proof -
  let ?F = "LENGTH('f)"
  have p: "(2 :: nat) ^ ?F = 2 ^ (?F - s) * 2 ^ s" using s by (simp flip: power_add)
  have "unat hi * 2 ^ s * 2 ^ ?F \<le> dbl hi lo * 2 ^ s" by (simp add: dbl_def algebra_simps)
  then have "unat hi * 2 ^ s * 2 ^ ?F < 2 ^ ?F * 2 ^ ?F" using l by (rule le_less_trans)
  then have h: "unat (push_bit s hi) = unat hi * 2 ^ s" by (intro unat_push_small) simp
  have d: "unat (drop_bit (?F - s) lo) = unat lo * 2 ^ s div 2 ^ ?F"
    unfolding unat_drop p by simp
  have "push_bit s hi AND drop_bit (?F - s) lo = 0"
    by (rule bit_word_eqI) (use s in \<open>auto simp: bit_simps dest!: bit_imp_le_length\<close>)
  moreover have "unat hi * 2 ^ s + unat lo * 2 ^ s div 2 ^ ?F < 2 ^ ?F"
  proof -
    have "(unat hi * 2 ^ s) * 2 ^ ?F + unat lo * 2 ^ s < 2 ^ ?F * 2 ^ ?F" using l by (simp add: dbl_def algebra_simps)
    then have "((unat hi * 2 ^ s) * 2 ^ ?F + unat lo * 2 ^ s) div 2 ^ ?F < 2 ^ ?F" by (rule less_mult_imp_div_less)
    then show ?thesis by simp
  qed
  ultimately have "unat (push_bit s hi OR drop_bit (?F - s) lo) = unat hi * 2 ^ s + unat lo * 2 ^ s div 2 ^ ?F"
    by (simp only: word_or_add unat_word_ariths h d mod_less)
  then show ?thesis
    unfolding dbl_def unat_push by (simp only: distrib_right) (simp add: algebra_simps)
qed

lemma dbl_add:
  fixes r1 r0 c1 c0 :: "'f::len word"
  assumes "dbl r1 r0 + dbl c1 c0 < 2 ^ LENGTH('f) * 2 ^ LENGTH('f)"
  shows "dbl (r1 + (c1 + of_bool (r0 + c0 < c0))) (r0 + c0) = dbl r1 r0 + dbl c1 c0"
proof -
  let ?P = "2 ^ LENGTH('f) :: nat"
  define k where "k = (unat r0 + unat c0) div ?P"
  have k: "unat (r0 + c0) + k * ?P = unat r0 + unat c0" unfolding k_def unat_word_ariths by (rule mod_div_mult_eq)
  have kb: "k = of_bool (r0 + c0 < c0)"
  proof (cases "unat r0 + unat c0 < ?P")
    case True
    then show ?thesis by (simp add: k_def word_less_nat_alt unat_word_ariths)
  next
    case False
    have l: "unat r0 < ?P" "unat c0 < ?P" by simp_all
    then have "unat r0 + unat c0 < 2 * ?P" by linarith
    then have "(unat r0 + unat c0) div ?P = 1" using False by (intro div_nat_eqI) simp_all
    then have "k = 1" by (simp add: k_def)
    moreover have "unat (r0 + c0) < unat c0" using k l(1) unfolding \<open>k = 1\<close> by linarith
    ultimately show ?thesis by (simp add: word_less_nat_alt)
  qed
  have "(unat r1 + unat c1 + k) * ?P \<le> dbl r1 r0 + dbl c1 c0" using k by (simp add: dbl_def algebra_simps)
  then have "(unat r1 + unat c1 + k) * ?P < ?P * ?P" using assms by linarith
  then have s: "unat r1 + unat c1 + k < ?P" by simp
  then have "unat c1 + k < ?P" by linarith
  then have "unat (c1 + of_bool (r0 + c0 < c0)) = unat c1 + k"
    unfolding kb by (cases "r0 + c0 < c0") (simp_all add: unat_word_ariths)
  then have "unat (r1 + (c1 + of_bool (r0 + c0 < c0))) = unat r1 + unat c1 + k"
    using s by (simp add: unat_word_ariths)
  then show ?thesis using k by (simp add: dbl_def algebra_simps)
qed

lemma dbl_sub:
  fixes r1 r0 c1 c0 :: "'f::len word"
  assumes "dbl c1 c0 \<le> dbl r1 r0"
  shows "dbl (r1 - c1 - of_bool (r0 - c0 > r0)) (r0 - c0) = dbl r1 r0 - dbl c1 c0"
proof -
  let ?P = "2 ^ LENGTH('f) :: nat"
  have l: "unat r0 < ?P" "unat c0 < ?P" by simp_all
  show ?thesis
  proof (cases "c0 \<le> r0")
    case True
    then have u: "unat (r0 - c0) = unat r0 - unat c0" by (rule unat_sub)
    have le: "unat c0 \<le> unat r0" using True by (simp add: word_le_nat_alt)
    have "unat c1 \<le> unat r1"
      using div_le_mono [OF assms, of ?P] by (simp only: dbl_divmod)
    then have "unat (r1 - c1) = unat r1 - unat c1" "unat c1 \<le> unat r1" by (simp_all add: unat_sub word_le_nat_alt)
    moreover have "\<not> r0 - c0 > r0" unfolding word_less_nat_alt u by simp
    ultimately show ?thesis using u le by (simp add: dbl_def diff_mult_distrib)
  next
    case False
    then have lt: "unat r0 < unat c0" by (simp add: word_le_nat_alt)
    have u: "unat (r0 - c0) = ?P + unat r0 - unat c0" using False l by (simp add: unat_sub_if' word_le_nat_alt)
    have b: "r0 - c0 > r0" unfolding word_less_nat_alt u using l lt by linarith
    have "unat c1 < unat r1"
    proof (rule ccontr)
      assume "\<not> unat c1 < unat r1"
      then have "unat r1 * ?P \<le> unat c1 * ?P" by simp
      then show False using assms lt unfolding dbl_def by linarith
    qed
    then have "unat (r1 - c1) = unat r1 - unat c1" by (simp add: unat_sub word_le_nat_alt)
    moreover have "r1 - c1 \<noteq> 0" using \<open>unat c1 < unat r1\<close> by auto
    ultimately have h: "unat (r1 - c1 - 1) = unat r1 - unat c1 - 1" by (simp add: unat_minus_one)
    obtain k where "unat r1 = unat c1 + 1 + k" using \<open>unat c1 < unat r1\<close> less_iff_Suc_add by fastforce
    then have k: "unat r1 * ?P = unat c1 * ?P + ?P + k * ?P" "unat (r1 - c1 - 1) = k"
      using h by (simp_all add: algebra_simps)
    have "dbl (r1 - c1 - of_bool (r0 - c0 > r0)) (r0 - c0) = k * ?P + (?P + unat r0 - unat c0)"
      using b k(2) u by (simp add: dbl_def)
    then show ?thesis unfolding dbl_def k(1) using l(2) lt by arith
  qed
qed

section \<open>Alignment\<close>

lemma dbl_less: "dbl (hi :: 'f::len word) lo < 2 ^ (LENGTH('f) + LENGTH('f))"
proof -
  have "(unat hi + 1) * 2 ^ LENGTH('f) \<le> 2 ^ LENGTH('f) * (2 :: nat) ^ LENGTH('f)"
    by (intro mult_right_mono) (simp_all add: Suc_le_eq)
  moreover have "unat lo < 2 ^ LENGTH('f)" by simp
  ultimately show ?thesis unfolding dbl_def power_add distrib_right mult_1 by linarith
qed

lemma dbl_or_1:
  "dbl (hi :: 'f::len word) (lo OR of_bool b) = (if b then dbl hi lo OR 1 else dbl hi lo)"
  by (auto simp: dbl_def unat_or_bool or_1_cases simp del: One_nat_def)

lemma dbl_rshift:
  fixes hi lo :: "'f::len word"
  assumes d: "0 < d" "d < LENGTH('f)"
  shows "dbl (drop_bit d hi) (push_bit (LENGTH('f) - d) hi OR drop_bit d lo OR of_bool (lo AND (push_bit d 1 - 1) \<noteq> 0)) =
    rshift_nat (dbl hi lo) d"
proof -
  let ?F = "LENGTH('f)"
  have p: "(2 :: nat) ^ ?F = 2 ^ d * 2 ^ (?F - d)" using d by (simp flip: power_add)
  have u: "unat (push_bit (?F - d) hi) = (unat hi mod 2 ^ d) * 2 ^ (?F - d)"
    unfolding unat_push p by (simp add: mult_mod_left)
  have "push_bit (?F - d) hi AND drop_bit d lo = 0"
    by (rule bit_word_eqI) (use d in \<open>auto simp: bit_simps dest!: bit_imp_le_length\<close>)
  moreover have s: "(unat hi mod 2 ^ d) * 2 ^ (?F - d) + unat lo div 2 ^ d < 2 ^ ?F"
  proof -
    have "unat lo div 2 ^ d < 2 ^ (?F - d)" using unsigned_less [of lo, where 'a = nat] unfolding p by (simp add: less_mult_imp_div_less mult.commute)
    moreover have "(unat hi mod 2 ^ d + 1) * 2 ^ (?F - d) \<le> 2 ^ d * 2 ^ (?F - d)" by (intro mult_right_mono) (simp_all add: Suc_le_eq)
    ultimately show ?thesis unfolding p distrib_right mult_1 by linarith
  qed
  ultimately have v: "unat (push_bit (?F - d) hi OR drop_bit d lo) = (unat hi mod 2 ^ d) * 2 ^ (?F - d) + unat lo div 2 ^ d"
    by (simp only: word_or_add unat_word_ariths u unat_drop mod_less)
  have "dbl hi lo = (unat hi * 2 ^ (?F - d)) * 2 ^ d + unat lo" by (simp add: dbl_def p)
  then have q: "dbl hi lo div 2 ^ d = unat hi * 2 ^ (?F - d) + unat lo div 2 ^ d" and r: "dbl hi lo mod 2 ^ d = unat lo mod 2 ^ d"
    by simp_all
  have "unat hi * 2 ^ (?F - d) = unat hi div 2 ^ d * 2 ^ ?F + (unat hi mod 2 ^ d) * 2 ^ (?F - d)"
    unfolding p by (simp only: mult.assoc [symmetric] distrib_right [symmetric] div_mult_mod_eq)
  then have "dbl (drop_bit d hi) (push_bit (?F - d) hi OR drop_bit d lo) = dbl hi lo div 2 ^ d"
    unfolding dbl_def [of "drop_bit d hi"] v unat_drop q by simp
  then show ?thesis unfolding or.assoc [symmetric] dbl_or_1 low_mask_0 rshift_nat_def r by simp
qed

lemma fma_shift_correct:
  fixes c1 c0 :: "'f::len word"
  assumes "fma_shift (int d) c1 c0 = (y1, y0)"
  shows "dbl y1 y0 =
    (if LENGTH('f) < d \<and> d < 2 * LENGTH('f) then rshift_nat (unat c1) (d - LENGTH('f)) else rshift_nat (dbl c1 c0) d)"
proof -
  let ?F = "LENGTH('f)"
  consider "2 * ?F \<le> d" | "?F < d" "d < 2 * ?F" | "d = ?F" | "0 < d" "d < ?F" | "d = 0" by linarith
  then show ?thesis
  proof cases
    case 1
    have "dbl c1 c0 < 2 ^ d" using dbl_less by (rule less_power_mono) (use 1 in simp)
    then have "dbl c1 c0 div 2 ^ d = 0" "dbl c1 c0 mod 2 ^ d = dbl c1 c0" by simp_all
    moreover have "y1 = 0" "y0 = of_bool (c0 OR c1 \<noteq> 0)" using assms 1 by (simp_all add: fma_shift_def)
    ultimately show ?thesis using 1 dbl_0 [of c1 c0] by (simp add: rshift_nat_def dbl_def or.commute)
  next
    case 2
    then have "y1 = 0" "y0 = rshift_rnd c1 (d - ?F)" using assms by (simp_all add: fma_shift_def)
    then show ?thesis using 2 by (simp add: dbl_def unat_rshift_rnd)
  next
    case 3
    then have y: "y1 = 0" "y0 = c1 OR of_bool (c0 \<noteq> 0)" using assms by (simp_all add: fma_shift_def)
    have "unat y0 = rshift_nat (dbl c1 c0) ?F" unfolding y by (intro unat_or_low) (simp_all add: dbl_divmod)
    then show ?thesis using 3 y(1) by (simp add: dbl_def)
  next
    case 4
    then have y: "y1 = drop_bit d c1" "y0 = push_bit (?F - d) c1 OR drop_bit d c0 OR of_bool (c0 AND (push_bit d 1 - 1) \<noteq> 0)"
      using assms unfolding fma_shift_def Let_def by simp_all
    then show ?thesis using dbl_rshift [OF 4, of c1 c0] 4 by simp
  next
    case 5
    then show ?thesis using assms by (simp add: fma_shift_def rshift_nat_def)
  qed
qed

text \<open>The aligned addend stands for the shifted one, with its sticky bit below the other operand.\<close>

lemma lowest_bit: "0 < q \<Longrightarrow> \<exists>j. 2 ^ j dvd q \<and> odd (q div 2 ^ j)" for q :: nat
proof (induction q rule: less_induct)
  case (less q)
  show ?case
  proof (cases "odd q")
    case True
    then show ?thesis by (intro exI [of _ 0]) simp
  next
    case False
    then obtain k where k: "q = 2 * k" by blast
    then obtain j where "2 ^ j dvd k" "odd (k div 2 ^ j)" using less.IH [of k] less.prems by auto
    then show ?thesis using k by (intro exI [of _ "Suc j"]) simp
  qed
qed

lemma rshift_rshift: "rshift_nat (m * 2 ^ n) (n + e) = rshift_nat m e"
  by (simp add: rshift_nat_def power_add mult.commute [of m] div_mult2_eq mod_mult2_eq)

lemma fma_align_double:
  fixes c1 c0 y1 y0 :: "'f::len word" and X :: nat
  assumes rsh: "dbl y1 y0 = rshift_nat (dbl c1 c0) d"
    and c: "4 dvd dbl c1 c0" and x: "4 dvd X" and F: "3 \<le> LENGTH('f)"
  shows "real (dbl y1 y0) = real (dbl c1 c0) / 2 ^ d \<or>
    (\<exists>j. sticky_at j (dbl y1 y0) (real (dbl c1 c0) / 2 ^ d) \<and> 2 ^ (j + 1) dvd X \<and> j + 3 \<le> LENGTH('f) \<and> 2 < d)"
proof (cases "2 ^ d dvd dbl c1 c0")
  case exact: True
  then show ?thesis unfolding rsh by (simp add: rshift_nat_exact)
next
  case False
  have "2 < d"
  proof (rule ccontr)
    assume "\<not> 2 < d"
    then have "(2 :: nat) ^ d dvd 2 ^ 2" by (intro le_imp_power_dvd) simp
    then have "2 ^ d dvd dbl c1 c0" using c by (simp add: dvd_trans)
    then show False using False by simp
  qed
  moreover have "2 ^ (0 + 1) dvd X" using dvd_trans [of 2 4 X] x by simp
  moreover have "sticky_at 0 (rshift_nat (dbl c1 c0) d) (real (dbl c1 c0) / 2 ^ d)"
    using rshift_cases [of "dbl c1 c0" d] by (simp add: sticky_at_def)
  ultimately show ?thesis using F unfolding rsh by (intro disjI2 exI [of _ 0]) simp
qed

text \<open>A shift longer than a word drops the low word; the high word alone is then an odd multiple of a power of two
  close enough to the exact value.\<close>

lemma fma_align_single:
  fixes c1 c0 :: "'f::len word" and X :: nat
  assumes y: "fma_shift (int d) c1 c0 = (y1, y0)" and c: "0 < unat c1" "4 * unat c1 < 2 ^ LENGTH('f)"
    and x: "c0 = 0 \<or> 2 ^ LENGTH('f) dvd X" and F: "3 \<le> LENGTH('f)"
    and single: "dbl y1 y0 \<noteq> rshift_nat (dbl c1 c0) d"
  shows "real (dbl y1 y0) = real (dbl c1 c0) / 2 ^ d \<or>
    (\<exists>j. sticky_at j (dbl y1 y0) (real (dbl c1 c0) / 2 ^ d) \<and> 2 ^ (j + 1) dvd X \<and> j + 3 \<le> LENGTH('f) \<and> 2 < d)"
proof -
  let ?F = "LENGTH('f)"
  define e where "e = d - ?F"
  define q where "q = unat c1 div 2 ^ e"
  have d: "?F < d" "d < 2 * ?F" and v: "dbl y1 y0 = rshift_nat (unat c1) e"
    using fma_shift_correct [OF y] single by (auto simp: e_def split: if_splits)
  have de: "d = ?F + e" using d by (simp add: e_def)
  have c0: "c0 \<noteq> 0"
  proof
    assume "c0 = 0"
    then show False using single rshift_rshift [of "unat c1" ?F e] unfolding v de by (simp add: dbl_def)
  qed
  have dq: "dbl c1 c0 div 2 ^ d = q" unfolding de power_add q_def div_mult2_eq dbl_divmod ..
  have r: "dbl c1 c0 mod 2 ^ d \<noteq> 0"
  proof
    assume "dbl c1 c0 mod 2 ^ d = 0"
    then have "2 ^ ?F dvd dbl c1 c0" unfolding de power_add by (auto simp: mod_eq_0_iff_dvd elim: dvd_mult_left)
    then have "dbl c1 c0 mod 2 ^ ?F = 0" by simp
    then show False using c0 by (simp add: dbl_divmod unat_eq_0)
  qed
  have z: "unat c1 mod 2 ^ e = 0" using single r unfolding v by (auto simp: rshift_nat_def dq q_def simp del: One_nat_def split: if_splits)
  then have vq: "dbl y1 y0 = q" by (simp add: v rshift_nat_def q_def)
  have qc: "unat c1 = q * 2 ^ e" using z by (simp add: q_def dvd_div_mult_self mod_eq_0_iff_dvd)
  then have "0 < q" using c(1) by (cases q) simp_all
  then obtain j where j: "2 ^ j dvd q" "odd (q div 2 ^ j)" using lowest_bit by blast
  have "real (dbl c1 c0) / 2 ^ d = real q + real (dbl c1 c0 mod 2 ^ d) / 2 ^ d"
    using real_div_mod [of "dbl c1 c0" d] unfolding dq by (simp add: field_simps)
  moreover have "real (dbl c1 c0 mod 2 ^ d) < 2 ^ d"
    by (metis mod_less_divisor of_nat_less_iff of_nat_numeral of_nat_power pos2 zero_less_power)
  ultimately have "\<bar>real (dbl c1 c0) / 2 ^ d - real q\<bar> < 1" by simp
  also have "(1 :: real) \<le> 2 ^ j" by simp
  finally have st: "sticky_at j q (real (dbl c1 c0) / 2 ^ d)" using j by (simp add: sticky_at_def)
  have "2 ^ j \<le> q" using j(1) \<open>0 < q\<close> by (rule dvd_imp_le)
  also have "q \<le> unat c1" unfolding qc by simp
  finally have "2 ^ j * 4 < (2 :: nat) ^ ?F" using c(2) by linarith
  then have "(2 :: nat) ^ (j + 2) < 2 ^ ?F" by (simp only: power_add) simp
  then have jF: "j + 2 < ?F" by (simp only: power_strict_increasing_iff)
  then have "(2 :: nat) ^ (j + 1) dvd 2 ^ ?F" by (intro le_imp_power_dvd) simp
  then have "2 ^ (j + 1) dvd X" using x c0 dvd_trans by blast
  then show ?thesis using st jF d F unfolding vq by (intro disjI2 exI [of _ j]) simp
qed

lemma fma_align:
  fixes c1 c0 :: "'f::len word" and X :: nat
  assumes y: "fma_shift (int d) c1 c0 = (y1, y0)" and c: "0 < unat c1" "4 * unat c1 < 2 ^ LENGTH('f)" "4 dvd dbl c1 c0"
    and x: "4 dvd X" "c0 = 0 \<or> 2 ^ LENGTH('f) dvd X" and F: "3 \<le> LENGTH('f)"
  shows "real (dbl y1 y0) = real (dbl c1 c0) / 2 ^ d \<or>
    (\<exists>j. sticky_at j (dbl y1 y0) (real (dbl c1 c0) / 2 ^ d) \<and> 2 ^ (j + 1) dvd X \<and> j + 3 \<le> LENGTH('f) \<and> 2 < d)"
  using fma_align_double [OF _ c(3) x(1) F] fma_align_single [OF y c(1,2) x(2) F] by blast

lemma sticky_combine:
  assumes "sticky_at j m z" "2 ^ (j + 1) dvd X \<or> real m = z"
  shows "sticky j (X + m) (real X + z)" and "m \<le> X \<Longrightarrow> sticky j (X - m) (real X - z)"
proof -
  have *: "sticky j (X + m) (real X + z) \<and> (m \<le> X \<longrightarrow> sticky j (X - m) (real X - z))"
  proof (cases "real m = z")
    case True
    then show ?thesis using sticky_exact [of j "X + m"] sticky_exact [of j "X - m"] by (auto simp: of_nat_diff)
  next
    case False
    then have m: "2 ^ j dvd m" "odd (m div 2 ^ j)" "\<bar>z - real m\<bar> < 2 ^ j" using assms(1) by (auto simp: sticky_at_def)
    obtain a where a: "X = 2 ^ j * (2 * a)" using assms(2) False by (auto simp: mult.assoc)
    obtain b where b: "m = 2 ^ j * b" "odd b" using m(1,2) by (auto elim!: dvdE)
    have "sticky_at j (X + m) (real X + z)"
    proof -
      have "X + m = 2 ^ j * (2 * a + b)" unfolding a b by (simp add: distrib_left)
      moreover have "odd (2 * a + b)" using b(2) by simp
      moreover have "\<bar>(real X + z) - real (X + m)\<bar> < 2 ^ j" using m(3) by simp
      ultimately show ?thesis by (simp add: sticky_at_def)
    qed
    moreover have "sticky_at j (X - m) (real X - z)" if "m \<le> X"
    proof -
      have l: "b \<le> 2 * a" using that unfolding a b by simp
      have "X - m = 2 ^ j * (2 * a - b)" unfolding a b by (simp add: diff_mult_distrib2)
      moreover have "odd (2 * a - b)" using b(2) l by simp
      moreover have "\<bar>(real X - z) - real (X - m)\<bar> < 2 ^ j" using m(3) that by (simp add: of_nat_diff abs_minus_commute)
      ultimately show ?thesis by (simp add: sticky_at_def)
    qed
    ultimately show ?thesis by (auto simp: sticky_def)
  qed
  then show "sticky j (X + m) (real X + z)" and "m \<le> X \<Longrightarrow> sticky j (X - m) (real X - z)" by simp_all
qed

lemma sticky_sign:
  assumes "sticky j n y"
  shows "0 \<le> y \<and> (y = 0 \<longleftrightarrow> n = 0)"
proof (cases "real n = y")
  case False
  then obtain i where n: "odd (n div 2 ^ i)" "\<bar>y - real n\<bar> < 2 ^ i" using assms by (auto simp: sticky_def sticky_at_def)
  then have "0 < n div 2 ^ i" by (cases "n div 2 ^ i") simp_all
  then have "2 ^ i \<le> n" by (simp add: div_greater_zero_iff)
  then have l: "real (2 ^ i) \<le> real n" by (simp only: of_nat_le_iff)
  have "0 < real (2 ^ i)" by simp
  then have "0 < y" "0 < real n" using n(2) l unfolding of_nat_power of_nat_numeral by linarith+
  then show ?thesis by simp
qed auto

section \<open>Normalizing a double word\<close>

lemma rshift_mult: "rshift_nat (n * 2 ^ d) d = n"
  by (simp add: rshift_nat_def)

definition clz2 :: "'f::len word \<Rightarrow> 'f word \<Rightarrow> nat" where
  "clz2 hi lo = (if hi = 0 then LENGTH('f) + builtin_clz lo else builtin_clz hi)"

context float_format
begin

lemma round_pack_0: "round_pack_sf neg e (0 :: 'f word) rm fl = (if neg then SIGN_MASK else 0, fl)"
proof -
  have z: "rshift_nat 0 d = 0" for d by (simp add: rshift_nat_def)
  have "addend_nat rm neg (RND_SIZE TYPE('f)) < 2 ^ (RND_SIZE TYPE('f))" by (rule addend_nat_less) (use sizes in simp)
  then have n: "rnd_nat rm neg (RND_SIZE TYPE('f)) 0 = 0" by (simp add: rnd_nat_def)
  show ?thesis by (simp add: round_pack_nat z n)
qed

lemma clz2_shift:
  fixes hi lo :: "'f word"
  assumes nz: "dbl hi lo \<noteq> 0" and l: "dbl hi lo < 2 ^ (MANT_SIZE TYPE('f) + RND_SIZE TYPE('f) + 1 + LENGTH('f))"
  defines "s \<equiv> clz2 hi lo - 1"
  shows "1 \<le> clz2 hi lo" and "2 ^ (MANT_SIZE TYPE('f) + RND_SIZE TYPE('f) + LENGTH('f)) \<le> dbl hi lo * 2 ^ s"
    and "dbl hi lo * 2 ^ s < 2 ^ (MANT_SIZE TYPE('f) + RND_SIZE TYPE('f) + 1 + LENGTH('f))"
    and "LENGTH('f) \<le> s \<Longrightarrow> hi = 0"
proof -
  let ?n = "MANT_SIZE TYPE('f) + RND_SIZE TYPE('f)" and ?F = "LENGTH('f)" and ?c = "clz2 hi lo"
  have b: "2 ^ (2 * ?F - 1 - ?c) \<le> dbl hi lo \<and> dbl hi lo < 2 ^ (2 * ?F - ?c) \<and> ?c < 2 * ?F"
  proof (cases "hi = 0")
    case True
    then have lo: "lo \<noteq> 0" and d: "dbl hi lo = unat lo" using nz by (auto simp: dbl_def)
    have c: "?c = ?F + builtin_clz lo" using True by (simp add: clz2_def)
    have "2 * ?F - 1 - ?c = ?F - 1 - builtin_clz lo" "2 * ?F - ?c = ?F - builtin_clz lo" by (simp_all add: c)
    then show ?thesis using clz_lower [OF lo] clz_upper [of lo] clz_nonzero [OF lo] d c by simp
  next
    case False
    then have c: "?c = builtin_clz hi" by (simp add: clz2_def)
    have cl: "?c < ?F" unfolding c by (rule clz_nonzero [OF False])
    have "2 ^ (?F - 1 - ?c) * 2 ^ ?F \<le> unat hi * 2 ^ ?F" unfolding c using clz_lower [OF False] by simp
    moreover have e: "2 * ?F - 1 - ?c = ?F - 1 - ?c + ?F" "2 * ?F - ?c = ?F - ?c + ?F" using cl by simp_all
    moreover have "(unat hi + 1) * 2 ^ ?F \<le> 2 ^ (?F - ?c) * 2 ^ ?F"
      unfolding c using clz_upper [of hi] by (intro mult_right_mono) simp_all
    moreover have "unat lo < 2 ^ ?F" by simp
    ultimately show ?thesis using cl unfolding dbl_def e power_add distrib_right mult_1 by (intro conjI) linarith+
  qed
  have F: "2 * ?F - 1 = ?n + 1 + ?F" by (simp add: sizes)
  show c1: "1 \<le> ?c"
  proof (rule ccontr)
    assume "\<not> 1 \<le> ?c"
    then have "?c = 0" by simp
    then have "2 ^ (?n + 1 + ?F) \<le> dbl hi lo" using b unfolding F by simp
    then show False using l by simp
  qed
  have "2 * ?F - 1 - ?c + s = ?n + ?F" "2 * ?F - ?c + s = ?n + 1 + ?F" using c1 b by (simp_all add: s_def sizes)
  moreover have "2 ^ (2 * ?F - 1 - ?c) * 2 ^ s \<le> dbl hi lo * 2 ^ s" "dbl hi lo * 2 ^ s < 2 ^ (2 * ?F - ?c) * 2 ^ s"
    using b by simp_all
  ultimately show "2 ^ (?n + ?F) \<le> dbl hi lo * 2 ^ s" "dbl hi lo * 2 ^ s < 2 ^ (?n + 1 + ?F)"
    by (simp_all only: power_add [symmetric])
  show "hi = 0" if "?F \<le> s"
    using that clz_nonzero [of hi] by (rule_tac ccontr) (simp add: s_def clz2_def)
qed

lemma normalize2_mantissa:
  fixes hi lo :: "'f word"
  assumes nz: "dbl hi lo \<noteq> 0" and l: "dbl hi lo < 2 ^ (MANT_SIZE TYPE('f) + RND_SIZE TYPE('f) + 1 + LENGTH('f))"
  defines "s \<equiv> clz2 hi lo - 1"
  shows "\<exists>w. normalize2_sf neg e hi lo rm fl = round_pack_sf neg (e - int s) w rm fl \<and>
    unat w = rshift_nat (dbl hi lo * 2 ^ s) LENGTH('f)"
proof -
  let ?F = "LENGTH('f)"
  let ?w = "if s = 0 then hi OR of_bool (lo \<noteq> 0)
     else if s < ?F then (push_bit s hi OR drop_bit (?F - s) lo) OR of_bool (push_bit s lo \<noteq> 0)
     else push_bit (s - ?F) lo"
  note c = clz2_shift [OF nz l, folded s_def]
  have f: "LENGTH('f) - 1 - IMANT_SIZE TYPE('f) = 1" by (simp add: IMANT_SIZE_def sizes)
  have "normalize2_sf neg e hi lo rm fl = round_pack_sf neg (e - int s) ?w rm fl"
    unfolding normalize2_sf_def Let_def f clz2_def [symmetric] s_def [symmetric] by (simp only: or.assoc)
  moreover have "unat ?w = rshift_nat (dbl hi lo * 2 ^ s) ?F"
  proof -
    consider "s = 0" | "0 < s" "s < ?F" | "?F \<le> s" "s \<noteq> 0" by linarith
    then show ?thesis
    proof cases
      case 1
      have "unat (hi OR of_bool (lo \<noteq> 0)) = rshift_nat (dbl hi lo) ?F" by (intro unat_or_low) (simp_all add: dbl_divmod)
      then show ?thesis using 1 by simp
    next
      case 2
      have "(2 :: nat) ^ (MANT_SIZE TYPE('f) + RND_SIZE TYPE('f) + 1 + ?F) \<le> 2 ^ (?F + ?F)"
        by (rule power_increasing) (simp_all add: sizes)
      then have "dbl hi lo * 2 ^ s < 2 ^ ?F * 2 ^ ?F" using c(3) unfolding power_add [of _ ?F ?F] by linarith
      note d = dbl_shift [OF 2 this]
      have "unat ((push_bit s hi OR drop_bit (?F - s) lo) OR of_bool (push_bit s lo \<noteq> 0)) = rshift_nat (dbl hi lo * 2 ^ s) ?F"
        unfolding d [symmetric] by (intro unat_or_low) (simp_all add: dbl_divmod)
      then show ?thesis using 2 by simp
    next
      case 3
      then have "hi = 0" using c(4) by simp
      then have d: "dbl hi lo * 2 ^ s = unat lo * 2 ^ (s - ?F) * 2 ^ ?F" using 3 by (simp add: dbl_def mult.assoc flip: power_add)
      have "(2 :: nat) ^ (MANT_SIZE TYPE('f) + RND_SIZE TYPE('f) + 1) \<le> 2 ^ ?F" by (rule power_increasing) (simp_all add: sizes)
      moreover have "unat lo * 2 ^ (s - ?F) < 2 ^ (MANT_SIZE TYPE('f) + RND_SIZE TYPE('f) + 1)"
        using c(3) unfolding d power_add [of 2 _ ?F] by simp
      ultimately have "unat (push_bit (s - ?F) lo) = unat lo * 2 ^ (s - ?F)" by (intro unat_push_small) linarith
      then show ?thesis using 3 unfolding d rshift_mult by simp
    qed
  qed
  ultimately show ?thesis by blast
qed

lemma normalize2_correct:
  fixes hi lo :: "'f word"
  assumes nz: "dbl hi lo \<noteq> 0" and l: "dbl hi lo < 2 ^ (MANT_SIZE TYPE('f) + RND_SIZE TYPE('f) + 1 + LENGTH('f))"
    and st: "sticky j (dbl hi lo) y"
    and k: "y = real (dbl hi lo) \<or> j + (clz2 hi lo - 1) + 2 \<le> LENGTH('f) + RND_SIZE TYPE('f)"
  shows "normalize2_sf neg e hi lo rm fl =
    ieee_round neg (y / 2 ^ LENGTH('f) / 2 ^ RND_SIZE TYPE('f) * quantum TYPE('f) e) rm fl"
proof -
  let ?n = "MANT_SIZE TYPE('f) + RND_SIZE TYPE('f)" and ?F = "LENGTH('f)" and ?N = "dbl hi lo"
  define s where "s = clz2 hi lo - 1"
  note c = clz2_shift [OF nz l, folded s_def]
  obtain w where w: "normalize2_sf neg e hi lo rm fl = round_pack_sf neg (e - int s) w rm fl" "unat w = rshift_nat (?N * 2 ^ s) ?F"
    using normalize2_mantissa [OF nz l, folded s_def] by blast
  have "2 ^ ?n \<le> ?N * 2 ^ s div 2 ^ ?F" using div_le_mono [OF c(2), of "2 ^ ?F"] by (simp add: power_add)
  then have lo: "2 ^ ?n \<le> unat w" unfolding w(2) using rshift_nat_ge by (rule order_trans)
  have hi: "unat w < 2 ^ (?n + 1)" unfolding w(2) using c(3) by (rule sign_shift_less) simp
  have "\<exists>i. sticky i (unat w) (y * 2 ^ s / 2 ^ ?F) \<and> i + 2 \<le> RND_SIZE TYPE('f)"
  proof (cases "y = real ?N")
    case True
    then have "sticky 0 (unat w) (y * 2 ^ s / 2 ^ ?F)"
      using sticky_rshift [OF sticky_exact [of 0 "?N * 2 ^ s"], of ?F] by (simp add: w(2))
    then show ?thesis using sizes(2) by (intro exI [of _ 0]) simp
  next
    case False
    then show ?thesis
      using sticky_rshift [OF sticky_lshift [OF st, of s], of ?F] k sizes(2)
      by (intro exI [of _ "j + s - ?F"]) (auto simp: w(2) s_def)
  qed
  then obtain i where i: "sticky i (unat w) (y * 2 ^ s / 2 ^ ?F)" "i + 2 \<le> RND_SIZE TYPE('f)" by blast
  have "y * 2 ^ s / 2 ^ ?F / 2 ^ RND_SIZE TYPE('f) * quantum TYPE('f) (e - int s) =
      y / 2 ^ ?F / 2 ^ RND_SIZE TYPE('f) * quantum TYPE('f) e"
    using quantum_add [of "e - int s" s] by simp
  then show ?thesis unfolding w(1) round_pack_correct [OF i lo hi] by (simp only:)
qed

lemma normalize2_0:
  assumes "dbl hi (lo :: 'f word) = 0"
  shows "normalize2_sf neg e hi lo rm fl = (if neg then SIGN_MASK else 0, fl)"
proof -
  have "hi = 0" "lo = 0" using assms by (auto simp: dbl_def unat_eq_0)
  then show ?thesis unfolding normalize2_sf_def Let_def by (simp add: round_pack_0)
qed

section \<open>Sum\<close>

end

text \<open>An addend in range: the mantissa of a product, or a number widened to two words.\<close>

definition addend :: "'f::len word \<Rightarrow> 'f word \<Rightarrow> bool" where
  "addend hi lo \<longleftrightarrow> 2 ^ (MANT_SIZE TYPE('f) + RND_SIZE TYPE('f) - 1 + LENGTH('f)) \<le> dbl hi lo \<and>
     dbl hi lo < 2 ^ (MANT_SIZE TYPE('f) + RND_SIZE TYPE('f) + LENGTH('f)) \<and> 4 dvd dbl hi lo"

definition dbl_value :: "'f::len word \<Rightarrow> 'f word \<Rightarrow> int \<Rightarrow> real" where
  "dbl_value hi lo e = real (dbl hi lo) / 2 ^ LENGTH('f) / 2 ^ RND_SIZE TYPE('f) * quantum TYPE('f) e"

context float_format
begin

lemma addend_hi:
  fixes c1 c0 :: "'f word"
  assumes "addend c1 c0"
  shows "0 < unat c1 \<and> 4 * unat c1 < 2 ^ LENGTH('f)"
proof -
  let ?n = "MANT_SIZE TYPE('f) + RND_SIZE TYPE('f)" and ?F = "LENGTH('f)"
  have "2 ^ (?n - 1) \<le> dbl c1 c0 div 2 ^ ?F"
    using assms div_le_mono [of "2 ^ (?n - 1 + ?F)" "dbl c1 c0" "2 ^ ?F"] by (simp add: addend_def power_add)
  moreover have "dbl c1 c0 div 2 ^ ?F < 2 ^ ?n" using assms by (intro less_mult_imp_div_less) (simp add: addend_def power_add)
  moreover have "(2 :: nat) ^ ?F = 4 * 2 ^ ?n" by (simp add: sizes)
  moreover have "0 < (2 :: nat) ^ (?n - 1)" by simp
  ultimately show ?thesis unfolding dbl_divmod by linarith
qed

lemma fma_aligned_less:
  fixes c1 c0 :: "'f word"
  assumes y: "fma_shift (int d) c1 c0 = (y1, y0)" and c: "addend c1 c0"
  shows "dbl y1 y0 < 2 ^ (MANT_SIZE TYPE('f) + RND_SIZE TYPE('f) + LENGTH('f))"
    and "0 < d \<Longrightarrow> dbl y1 y0 < 2 ^ (MANT_SIZE TYPE('f) + RND_SIZE TYPE('f) + LENGTH('f) - 1)"
    and "2 < d \<Longrightarrow> dbl y1 y0 < 2 ^ (MANT_SIZE TYPE('f) + RND_SIZE TYPE('f) + LENGTH('f) - 2)"
proof -
  let ?n = "MANT_SIZE TYPE('f) + RND_SIZE TYPE('f)" and ?F = "LENGTH('f)"
  have l: "dbl y1 y0 < 2 ^ (?n + ?F - k)" if k: "k \<le> d" "k \<le> 2" for k
  proof (cases "?F < d \<and> d < 2 * ?F")
    case True
    have "4 * unat c1 < 2 ^ ?F" using addend_hi [OF c] by simp
    also have "(2 :: nat) ^ ?F = 4 * 2 ^ ?n" by (simp add: sizes)
    finally have "unat c1 < 2 ^ ?n" by simp
    then have "unat c1 < 2 ^ (?n + ?F - k + (d - ?F))" by (rule less_power_mono) (use k True in linarith)
    then have "rshift_nat (unat c1) (d - ?F) < 2 ^ (?n + ?F - k)" by (rule sign_shift_less) (use k sizes in linarith)
    then show ?thesis using fma_shift_correct [OF y] True by (simp only: if_True simp_thms)
  next
    case False
    have "dbl c1 c0 < 2 ^ (?n + ?F - k + d)"
      by (rule less_power_mono [of _ "?n + ?F"]) (use c k in \<open>simp_all add: addend_def\<close>)
    then have "rshift_nat (dbl c1 c0) d < 2 ^ (?n + ?F - k)" by (rule sign_shift_less) (use k sizes in linarith)
    then show ?thesis using fma_shift_correct [OF y] False by (simp only: if_False)
  qed
  show "dbl y1 y0 < 2 ^ (?n + ?F)" using l [of 0] by simp
  show "0 < d \<Longrightarrow> dbl y1 y0 < 2 ^ (?n + ?F - 1)" using l [of 1] by simp
  show "2 < d \<Longrightarrow> dbl y1 y0 < 2 ^ (?n + ?F - 2)" using l [of 2] by simp
qed

text \<open>The larger addend first: magnitudes add up, or their difference keeps the sign of the larger.\<close>

text \<open>The aligned sum represents the exact sum up to a sticky bit; where bits were lost, enough of them remain
  after normalisation.\<close>

lemma fma_sum_sticky:
  fixes r1 r0 c1 c0 :: "'f word" and d :: nat and same :: bool
  assumes r: "addend r1 r0" and c: "addend c1 c0" and low: "r0 = 0 \<or> c0 = 0"
    and y: "fma_shift (int d) c1 c0 = (y1, y0)" and le: "dbl y1 y0 \<le> dbl r1 r0"
  defines "N \<equiv> if same then dbl r1 r0 + dbl y1 y0 else dbl r1 r0 - dbl y1 y0"
    and "v \<equiv> if same then real (dbl r1 r0) + real (dbl c1 c0) / 2 ^ d else real (dbl r1 r0) - real (dbl c1 c0) / 2 ^ d"
  obtains j where "sticky j N v" "v = real N \<or> (j + 3 \<le> LENGTH('f) \<and>
    2 ^ (MANT_SIZE TYPE('f) + RND_SIZE TYPE('f) + LENGTH('f) - 2) \<le> N)"
proof -
  let ?n = "MANT_SIZE TYPE('f) + RND_SIZE TYPE('f)" and ?F = "LENGTH('f)"
  let ?x = "dbl r1 r0" and ?c = "dbl c1 c0" and ?y = "dbl y1 y0"
  define t where "t = real ?c / 2 ^ d"
  have al: "real ?y = t \<or> (\<exists>j. sticky_at j ?y t \<and> 2 ^ (j + 1) dvd ?x \<and> j + 3 \<le> ?F \<and> 2 < d)"
    unfolding t_def by (rule fma_align [OF y]) (use addend_hi [OF c] c r low sizes in \<open>auto simp: addend_def dbl_def\<close>)
  show thesis
  proof (cases "real ?y = t")
    case True
    then have "v = real N" using le by (simp add: v_def N_def of_nat_diff t_def)
    then show thesis using that [of 0] sticky_exact [of 0 N] by simp
  next
    case False
    then obtain j where j: "sticky_at j ?y t" "2 ^ (j + 1) dvd ?x" "j + 3 \<le> ?F" "2 < d" using al by blast
    have "sticky j N v" using sticky_combine [OF j(1), of ?x] j(2) le by (simp add: N_def v_def t_def)
    moreover have "2 ^ (?n + ?F - 2) \<le> N"
    proof -
      have "?y < 2 ^ (?n + ?F - 2)" by (rule fma_aligned_less(3) [OF y c j(4)])
      moreover have "(2 :: nat) ^ (?n + ?F - 1) = 2 ^ (?n + ?F - 2) + 2 ^ (?n + ?F - 2)"
        using power_Suc [of "2 :: nat" "?n + ?F - 2"] sizes by (simp add: Suc_diff_le)
      moreover have "2 ^ (?n + ?F - 1) \<le> ?x" using r sizes by (simp add: addend_def)
      ultimately show ?thesis by (auto simp: N_def)
    qed
    ultimately show thesis using that j(3) by blast
  qed
qed

lemma fma_sum_correct:
  fixes r1 r0 c1 c0 :: "'f word" and e :: int and d :: nat
  assumes r: "addend r1 r0" and c: "addend c1 c0" and low: "r0 = 0 \<or> c0 = 0"
    and order: "d = 0 \<longrightarrow> dbl c1 c0 \<le> dbl r1 r0"
    and y: "fma_shift (int d) c1 c0 = (y1, y0)" and z: "fma_add rm rs r1 r0 cs y1 y0 = (s, z1, z0)"
  defines "X \<equiv> dbl_value r1 r0 (e + int d)" and "Y \<equiv> dbl_value c1 c0 e"
  shows "normalize2_sf s (e + int d) z1 z0 rm fl =
    ieee_result (if rs = cs then rs else rm = RM_RDN) ((if rs then - X else X) + (if cs then - Y else Y)) rm fl"
proof -
  let ?n = "MANT_SIZE TYPE('f) + RND_SIZE TYPE('f)" and ?F = "LENGTH('f)" and ?same = "rs = cs"
  let ?x = "dbl r1 r0" and ?c = "dbl c1 c0" and ?y = "dbl y1 y0"
  have x: "2 ^ (?n + ?F - 1) \<le> ?x" "?x < 2 ^ (?n + ?F)" using r sizes by (simp_all add: addend_def)
  have yx: "?y \<le> ?x"
  proof (cases "d = 0")
    case True
    then show ?thesis using y order by (simp add: fma_shift_def)
  next
    case False
    then show ?thesis using fma_aligned_less(2) [OF y c] x(1) by linarith
  qed
  define N where "N = (if ?same then ?x + ?y else ?x - ?y)"
  define v where "v = (if ?same then real ?x + real ?c / 2 ^ d else real ?x - real ?c / 2 ^ d)"
  have P: "(2 :: nat) ^ (?n + ?F) + 2 ^ (?n + ?F) = 2 ^ (?n + 1 + ?F)" "(2 :: nat) ^ (?n + 1 + ?F) \<le> 2 ^ ?F * 2 ^ ?F"
    unfolding power_add [of 2 ?F ?F, symmetric] by (simp, rule power_increasing) (simp_all add: sizes)
  have yl: "?y < 2 ^ (?n + ?F)" by (rule fma_aligned_less(1) [OF y c])
  have zN: "dbl z1 z0 = N" and sg: "s = (if \<not> ?same \<and> z0 OR z1 = 0 then rm = RM_RDN else rs)"
    using z dbl_add [of r1 r0 y1 y0] dbl_sub [OF yx] x(2) yl P unfolding fma_add_def Let_def N_def by (auto split: if_splits)
  have Nl: "N < 2 ^ (?n + 1 + ?F)" using x(2) yl P(1) by (auto simp: N_def)
  obtain j where st: "sticky j N v" and j: "v = real N \<or> (j + 3 \<le> ?F \<and> 2 ^ (?n + ?F - 2) \<le> N)"
    by (rule fma_sum_sticky [OF r c low y yx, of ?same, folded N_def v_def])
  note v0 = sticky_sign [OF st]
  have q: "v / 2 ^ ?F / 2 ^ RND_SIZE TYPE('f) * quantum TYPE('f) (e + int d) = (if ?same then X + Y else X - Y)"
    unfolding X_def Y_def dbl_value_def quantum_add by (simp add: v_def field_simps)
  have val: "(if rs then - X else X) + (if cs then - Y else Y) =
      (if rs then - (v / 2 ^ ?F / 2 ^ RND_SIZE TYPE('f) * quantum TYPE('f) (e + int d))
       else v / 2 ^ ?F / 2 ^ RND_SIZE TYPE('f) * quantum TYPE('f) (e + int d))"
    unfolding q by auto
  show ?thesis
  proof (cases "N = 0")
    case True
    then have "z0 OR z1 = 0" using dbl_0 [of z1 z0] by (simp add: zN or.commute)
    moreover have "(if rs then - X else X) + (if cs then - Y else Y) = 0" unfolding val using v0 True by simp
    ultimately show ?thesis using sg normalize2_0 [OF zN [unfolded True]] by (simp add: ieee_result_def)
  next
    case False
    have "0 < v" using v0 False by linarith
    then have "(ieee_result w ((if rs then - X else X) + (if cs then - Y else Y)) rm fl :: 'f word \<times> u32) =
        ieee_round rs (v / 2 ^ ?F / 2 ^ RND_SIZE TYPE('f) * quantum TYPE('f) (e + int d)) rm fl" for w
      unfolding val by (intro ieee_result_signed) simp
    moreover have "s = rs" using sg dbl_0 [of z1 z0] False by (simp add: zN or.commute)
    moreover have "v = real N \<or> j + (clz2 z1 z0 - 1) + 2 \<le> ?F + RND_SIZE TYPE('f)"
    proof (cases "v = real N")
      case inexact: False
      then have j: "j + 3 \<le> ?F" "2 ^ (?n + ?F - 2) \<le> N" using j by simp_all
      then have "2 ^ (?n + ?F - 2) * 2 ^ (clz2 z1 z0 - 1) \<le> N * 2 ^ (clz2 z1 z0 - 1)" by simp
      also have "\<dots> < 2 ^ (?n + 1 + ?F)" using clz2_shift(3) [of z1 z0] False Nl unfolding zN by blast
      finally have "?n + ?F - 2 + (clz2 z1 z0 - 1) < ?n + 1 + ?F" by (simp only: power_add [symmetric] power_strict_increasing_iff)
      then show ?thesis using j sizes by linarith
    qed simp
    ultimately show ?thesis using normalize2_correct [of z1 z0, unfolded zN, OF False Nl st] by (simp only:)
  qed
qed

section \<open>Product\<close>

lemma fma_product_correct:
  assumes a: "finite_sf (a :: 'f word)" "\<not> is_zero_sf a" and b: "finite_sf (b :: 'f word)" "\<not> is_zero_sf b"
    and m: "fma_product a b = (e, r1, r0)"
  shows "addend r1 r0 \<and> dbl_value r1 r0 e = sf_mag a * sf_mag b"
proof -
  let ?M = "MANT_SIZE TYPE('f)" and ?R = "RND_SIZE TYPE('f)" and ?q = "quantum TYPE('f)" and ?F = "LENGTH('f)"
  obtain ea ma eb mb where na: "norm_operand a = (ea, ma)" and nb: "norm_operand b = (eb, mb)" by fastforce
  note ca = norm_operand_correct [OF a na] and cb = norm_operand_correct [OF b nb]
  obtain hi lo where u: "mul_u (push_bit ?R ma) (push_bit ?R mb) = (hi, lo)" by fastforce
  define p where "p = (unat ma * 2 ^ ?R) * (unat mb * 2 ^ ?R)"
  define e0 where "e0 = ea + eb - 2 ^ ?R + 3"
  have up: "unat ma * 2 ^ ?R < 2 * 2 ^ ?M * 2 ^ ?R" "unat mb * 2 ^ ?R < 2 * 2 ^ ?M * 2 ^ ?R"
    using ca cb by (intro mult_strict_right_mono; simp)+
  then have "unat (push_bit ?R ma) = unat ma * 2 ^ ?R" "unat (push_bit ?R mb) = unat mb * 2 ^ ?R"
    by (intro unat_push_small; simp add: sizes power_add)+
  then have "unat hi = p div 2 ^ ?F \<and> unat lo = p mod 2 ^ ?F" using mul_u_correct [OF u] by (simp only: p_def)
  then have d: "dbl hi lo = p" by (simp only: dbl_def div_mult_mod_eq)
  have "(2 ^ ?M * 2 ^ ?R) * (2 ^ ?M * 2 ^ ?R) \<le> p" unfolding p_def using ca cb by (intro mult_mono) simp_all
  moreover have "p < (2 * 2 ^ ?M * 2 ^ ?R) * (2 * 2 ^ ?M * 2 ^ ?R)" unfolding p_def by (rule mult_strict_mono [OF up]) simp_all
  moreover have e: "?M + ?R - 2 + ?F = ?M + ?R + (?M + ?R)" "?M + ?R + ?F = ?M + 1 + ?R + (?M + 1 + ?R)" using sizes by simp_all
  ultimately have p: "2 ^ (?M + ?R - 2 + ?F) \<le> p" "p < 2 ^ (?M + ?R + ?F)" unfolding e by (simp_all add: power_add)
  have p4: "4 dvd p"
  proof -
    have "(2 :: nat) ^ 2 dvd 2 ^ ?R" using sizes by (intro le_imp_power_dvd) simp
    then show ?thesis unfolding p_def by simp
  qed
  have val: "real p / 2 ^ ?F / 2 ^ ?R * ?q e0 = sf_mag a * sf_mag b"
  proof -
    have "?q e0 = ?q ea * ?q eb * 2 ^ (?M + 2)"
      unfolding quantum_mult quantum_add [symmetric] by (simp add: e0_def exp_mask algebra_simps)
    then show ?thesis using ca cb unfolding p_def sizes(1) by (simp add: power_add field_simps)
  qed
  have lt: "hi < push_bit (?F - 3) 1 \<longleftrightarrow> p < 2 ^ (?M + ?R - 1 + ?F)"
  proof -
    have "unat (push_bit (?F - 3) 1 :: 'f word) = 2 ^ (?F - 3)" using sizes by (intro unat_push_1) simp
    moreover have "?F - 3 = ?M + ?R - 1" by (simp add: sizes)
    moreover have "unat hi = p div 2 ^ ?F" using d dbl_divmod(1) [of hi lo] by simp
    ultimately show ?thesis by (simp add: word_less_nat_alt div_less_iff_less_mult power_add)
  qed
  have x: "EXP_SIZE TYPE('f) - 1 = ?R" by (simp add: sizes)
  have code: "(e, r1, r0) = (if p < 2 ^ (?M + ?R - 1 + ?F)
      then (e0 - 1, push_bit 1 hi OR drop_bit (?F - 1) lo, push_bit 1 lo) else (e0, hi, lo))"
    using m [symmetric] unfolding fma_product_def na nb prod.case Let_def x e0_def [symmetric] u lt .
  show ?thesis
  proof (cases "p < 2 ^ (?M + ?R - 1 + ?F)")
    case False
    then show ?thesis using code p p4 val by (simp add: addend_def dbl_value_def d)
  next
    case True
    have h: "(2 :: nat) ^ (?M + ?R - 1 + ?F) = 2 * 2 ^ (?M + ?R - 2 + ?F)" "(2 :: nat) ^ (?M + ?R + ?F) = 2 * 2 ^ (?M + ?R - 1 + ?F)"
      using sizes(2) by (simp_all flip: power_Suc add: Suc_diff_le)
    have "(2 :: nat) ^ (?M + ?R + ?F) \<le> 2 ^ (?F + ?F)" by (rule power_increasing) (simp_all add: sizes)
    then have "p * 2 ^ 1 < 2 ^ ?F * 2 ^ ?F" using True unfolding h power_add [of 2 ?F ?F] by simp
    then have d2: "dbl r1 r0 = p * 2" using dbl_shift [of 1 hi lo] code True d sizes(1) by simp
    have "?q e0 = ?q e * 2" using quantum_add [of "e0 - 1" 1] code True by simp
    then have "dbl_value r1 r0 e = real p / 2 ^ ?F / 2 ^ ?R * ?q e0" by (simp add: dbl_value_def d2)
    moreover have "2 ^ (?M + ?R - 1 + ?F) \<le> p * 2" "p * 2 < 2 ^ (?M + ?R + ?F)" using True p(1) h by linarith+
    moreover have "4 dvd p * 2" using p4 by simp
    ultimately show ?thesis using val unfolding addend_def d2 by (intro conjI) (simp_all only:)
  qed
qed

section \<open>Fused multiply-add\<close>

lemma fma_addend:
  assumes c: "finite_sf (c :: 'f word)" "\<not> is_zero_sf c" and n: "norm_operand c = (e, m)"
  defines "c1 \<equiv> push_bit (RND_SIZE TYPE('f) - 1) m"
  shows "addend c1 0 \<and> dbl_value c1 0 (e + 1) = sf_mag c"
proof -
  let ?M = "MANT_SIZE TYPE('f)" and ?R = "RND_SIZE TYPE('f)" and ?F = "LENGTH('f)"
  note k = norm_operand_correct [OF c n]
  have R: "?M + ?R - 1 = ?M + (?R - 1)" "?M + ?R = ?M + 1 + (?R - 1)" "?R - 1 + 1 = ?R" using sizes by simp_all
  have lo: "2 ^ (?M + ?R - 1) \<le> unat m * 2 ^ (?R - 1)" using k unfolding R(1) power_add by (intro mult_right_mono) simp_all
  have "unat m * 2 ^ (?R - 1) < 2 * 2 ^ ?M * 2 ^ (?R - 1)" using k by (intro mult_strict_right_mono) simp_all
  also have "\<dots> = 2 ^ (?M + 1 + (?R - 1))" by (simp add: power_add)
  finally have hi: "unat m * 2 ^ (?R - 1) < 2 ^ (?M + ?R)" unfolding R(2) [symmetric] .
  then have "unat m * 2 ^ (?R - 1) < 2 ^ ?F" by (rule less_power_mono) (simp add: sizes)
  then have u: "unat c1 = unat m * 2 ^ (?R - 1)" unfolding c1_def by (rule unat_push_small)
  then have d: "dbl c1 0 = unat m * 2 ^ (?R - 1) * 2 ^ ?F" by (simp add: dbl_def)
  have "(2 :: nat) ^ 2 dvd 2 ^ ?F" using sizes by (intro le_imp_power_dvd) simp
  then have "addend c1 0" unfolding addend_def d using lo hi by (simp add: power_add)
  moreover have "dbl_value c1 0 (e + 1) = sf_mag c"
    using k quantum_add [of e 1] power_add [of "2 :: real" "?R - 1" 1] unfolding dbl_value_def d R(3) by simp
  ultimately show ?thesis ..
qed

lemma fma_finite_correct:
  assumes a: "finite_sf (a :: 'f word)" "\<not> is_zero_sf a" and b: "finite_sf (b :: 'f word)" "\<not> is_zero_sf b"
    and c: "finite_sf (c :: 'f word)" "\<not> is_zero_sf c"
  defines "rs \<equiv> sf_sign a \<noteq> sf_sign b"
  shows "fma_finite a b c rm fl =
    ieee_result (if rs = sf_sign c then rs else rm = RM_RDN)
      ((if rs then - (sf_mag a * sf_mag b) else sf_mag a * sf_mag b) + sf_value c) rm fl"
proof -
  let ?R = "RND_SIZE TYPE('f)"
  obtain e r1 r0 where p: "fma_product a b = (e, r1, r0)" by (metis prod.exhaust)
  note P = fma_product_correct [OF a b p]
  obtain ec mc where n: "norm_operand c = (ec, mc)" by fastforce
  define c1 where "c1 = push_bit (?R - 1) mc"
  note C = fma_addend [OF c n, folded c1_def]
  have v: "sf_value c = (if sf_sign c then - sf_mag c else sf_mag c)" by (simp add: sf_value_def)
  show ?thesis
  proof (cases "e > ec + 1 \<or> (e = ec + 1 \<and> r1 \<ge> c1)")
    case True
    define d where "d = nat (e - (ec + 1))"
    have e: "e = ec + 1 + int d" using True by (auto simp: d_def)
    obtain y1 y0 where y: "fma_shift (int d) c1 0 = (y1, y0)" by fastforce
    obtain s z1 z0 where z: "fma_add rm rs r1 r0 (sf_sign c) y1 y0 = (s, z1, z0)" by (metis prod.exhaust)
    have order: "d = 0 \<longrightarrow> dbl c1 0 \<le> dbl r1 r0" using True by (auto simp: d_def dbl_def word_le_nat_alt intro!: trans_le_add1 mult_right_mono)
    have "fma_finite a b c rm fl = normalize2_sf s e z1 z0 rm fl"
      using True c(2) y z e unfolding fma_finite_def Let_def p prod.case n c1_def [symmetric] rs_def [symmetric] by simp
    then show ?thesis
      using fma_sum_correct [OF conjunct1 [OF P] conjunct1 [OF C] _ order y z, of "ec + 1"] P C unfolding v e by simp
  next
    case False
    define d where "d = nat (ec + 1 - e)"
    have e: "ec + 1 = e + int d" using False by (auto simp: d_def)
    obtain y1 y0 where y: "fma_shift (int d) r1 r0 = (y1, y0)" by fastforce
    obtain s z1 z0 where z: "fma_add rm (sf_sign c) c1 0 rs y1 y0 = (s, z1, z0)" by (metis prod.exhaust)
    have order: "d = 0 \<longrightarrow> dbl r1 r0 \<le> dbl c1 0"
    proof
      assume "d = 0"
      then have "unat r1 + 1 \<le> unat c1" using False e by (simp add: word_le_nat_alt)
      then have "(unat r1 + 1) * 2 ^ LENGTH('f) \<le> unat c1 * 2 ^ LENGTH('f)" by (rule mult_right_mono) simp
      moreover have "unat r0 < 2 ^ LENGTH('f)" by simp
      ultimately show "dbl r1 r0 \<le> dbl c1 0" unfolding dbl_def distrib_right mult_1 by linarith
    qed
    have "fma_finite a b c rm fl = normalize2_sf s (ec + 1) z1 z0 rm fl"
      using False c(2) y z e unfolding fma_finite_def Let_def p prod.case n c1_def [symmetric] rs_def [symmetric] by simp
    then show ?thesis
      using fma_sum_correct [OF conjunct1 [OF C] conjunct1 [OF P] _ order y z, of e] P C unfolding v e by (simp add: add.commute)
  qed
qed

text \<open>A zero addend: only the product is rounded.\<close>

lemma fma_zero_addend:
  assumes a: "finite_sf (a :: 'f word)" "\<not> is_zero_sf a" and b: "finite_sf (b :: 'f word)" "\<not> is_zero_sf b"
    and c: "is_zero_sf c"
  shows "fma_finite a b c rm fl = ieee_round (sf_sign a \<noteq> sf_sign b) (sf_mag a * sf_mag b) rm fl"
proof -
  let ?n = "MANT_SIZE TYPE('f) + RND_SIZE TYPE('f)" and ?F = "LENGTH('f)"
  obtain e r1 r0 where p: "fma_product a b = (e, r1, r0)" by (metis prod.exhaust)
  note P = fma_product_correct [OF a b p]
  define w where "w = r1 OR of_bool (r0 \<noteq> 0)"
  have w: "unat w = rshift_nat (dbl r1 r0) ?F" unfolding w_def by (intro unat_or_low) (simp_all add: dbl_divmod)
  have st: "sticky 0 (unat w) (real (dbl r1 r0) / 2 ^ ?F)"
    using sticky_rshift [OF sticky_exact [of 0 "dbl r1 r0"], of ?F] by (simp add: w)
  have "2 ^ (?n - 1) \<le> dbl r1 r0 div 2 ^ ?F"
    using P div_le_mono [of "2 ^ (?n - 1 + ?F)" "dbl r1 r0" "2 ^ ?F"] by (simp add: addend_def power_add)
  then have lo: "2 ^ (?n - 1) \<le> unat w" unfolding w using rshift_nat_ge by (rule order_trans)
  then have nz: "w \<noteq> 0" by (auto simp: unat_eq_0)
  have "dbl r1 r0 < 2 ^ (?n + 1 + ?F)" by (rule less_power_mono [of _ "?n + ?F"]) (use P in \<open>simp_all add: addend_def\<close>)
  then have hi: "unat w < 2 ^ (?n + 1)" unfolding w by (rule sign_shift_less) simp
  have cl: "0 + 2 + (builtin_clz w - 1) \<le> RND_SIZE TYPE('f)" using clz_bound [OF lo] sizes by linarith
  have "fma_finite a b c rm fl = normalize_sf (sf_sign a \<noteq> sf_sign b) e w rm fl"
    using c unfolding fma_finite_def Let_def p prod.case w_def by simp
  then show ?thesis
    using normalize_correct [OF nz hi st disjI2, OF cl] P by (simp add: dbl_value_def)
qed

lemma fma_correct:
  assumes a: "finite_sf (a :: 'f word)" and b: "finite_sf (b :: 'f word)" and c: "finite_sf (c :: 'f word)"
  defines "rs \<equiv> sf_sign a \<noteq> sf_sign b"
  shows "fma_sf a b c rm fl =
    ieee_result (if rs = sf_sign c then rs else rm = RM_RDN) (sf_value a * sf_value b + sf_value c) rm fl"
proof (cases "is_zero_sf a \<or> is_zero_sf b")
  case True
  then have p: "sf_value a * sf_value b = 0" by (auto simp: value_0)
  show ?thesis
  proof (cases "is_zero_sf c")
    case True
    then have "sf_value c = 0" by (simp add: value_0)
    then show ?thesis using \<open>is_zero_sf a \<or> is_zero_sf b\<close> True a b c p
      by (auto simp: fma_sf_def finite_sf_def rs_def pack_0 ieee_result_def)
  next
    case False
    have "0 < sf_mag c" using False mag_nonneg [of c] by (simp add: zero_iff)
    then have "(ieee_result z (sf_value c) rm fl :: 'f word \<times> u32) = ieee_round (sf_sign c) (sf_mag c) rm fl" for z
      unfolding sf_value_def by (rule ieee_result_signed)
    moreover have "fma_sf a b c rm fl = (c, fl)"
      using \<open>is_zero_sf a \<or> is_zero_sf b\<close> False a b c by (simp add: fma_sf_def finite_sf_def)
    ultimately show ?thesis using ieee_round_exact [OF c False] unfolding p add_0_left by (simp only:)
  qed
next
  case False
  then have code: "fma_sf a b c rm fl = fma_finite a b c rm fl"
    using a b c by (simp add: fma_sf_def finite_sf_def)
  have v: "sf_value a * sf_value b = (if rs then - (sf_mag a * sf_mag b) else sf_mag a * sf_mag b)"
    by (auto simp: sf_value_def rs_def)
  show ?thesis
  proof (cases "is_zero_sf c")
    case True
    have "0 < sf_mag a * sf_mag b"
      using False mag_nonneg [of a] mag_nonneg [of b] by (simp add: zero_iff zero_less_mult_iff)
    then have "(ieee_result z (sf_value a * sf_value b) rm fl :: 'f word \<times> u32) = ieee_round rs (sf_mag a * sf_mag b) rm fl" for z
      unfolding v by (rule ieee_result_signed)
    moreover have "sf_value c = 0" using True by (simp add: value_0)
    ultimately show ?thesis using fma_zero_addend [OF a _ b _ True] False code by (simp add: rs_def)
  next
    case nz: False
    show ?thesis using fma_finite_correct [OF a _ b _ c nz] False unfolding code v rs_def by blast
  qed
qed

end

end
