(* ===== verification/Float_Compare.thy ===== *)
theory Float_Compare
  imports Float_Fma
begin

text \<open>
  Comparisons, minimum and maximum order the numbers by value: the word without its sign is a
  strictly increasing code of the magnitude, so they compare signed codes.
\<close>

lemma int_less_power: "m < 2 ^ k \<Longrightarrow> int m < 2 ^ k"
  by (metis of_nat_less_iff of_nat_numeral of_nat_power)

section \<open>Order of magnitudes\<close>

context float_format
begin

lemma mag_bits_less: "unat (a AND NOT SIGN_MASK :: 'f word) < 2 ^ (LENGTH('f) - 1)"
proof -
  have "(sf_exp a + 1) * 2 ^ MANT_SIZE TYPE('f) \<le> (EXP_MASK TYPE('f) + 1) * 2 ^ MANT_SIZE TYPE('f)"
    using exp_range(2) [of a] by (intro mult_right_mono) simp_all
  moreover have "int (unat (sf_mant a)) < int (2 ^ MANT_SIZE TYPE('f))" using mant_less [of a] by (simp only: of_nat_less_iff)
  ultimately have "int (unat (a AND NOT SIGN_MASK)) < (EXP_MASK TYPE('f) + 1) * 2 ^ MANT_SIZE TYPE('f)"
    unfolding mag_bits distrib_right mult_1 of_nat_power of_nat_numeral by linarith
  also have "\<dots> = int (2 ^ (LENGTH('f) - 1))" by (simp add: exp_mask sizes power_add)
  finally show ?thesis by (simp only: of_nat_less_iff)
qed

lemma unat_sign_mag:
  "unat (a :: 'f word) = unat (a AND NOT SIGN_MASK) + (if sf_sign a then 2 ^ (LENGTH('f) - 1) else 0)"
proof -
  let ?k = "int (unat (a AND NOT SIGN_MASK))"
  have k: "0 \<le> ?k" "?k < 2 ^ (LENGTH('f) - 1)"
    by simp (rule int_less_power [OF mag_bits_less])
  have "(of_int ?k :: 'f word) = a AND NOT SIGN_MASK" by (simp add: of_nat_unat)
  then show ?thesis using signed_word(1) [OF k, of "sf_sign a"] split_sign [of a] by simp
qed

lemma mag_less:
  assumes "a AND NOT SIGN_MASK < (b AND NOT SIGN_MASK :: 'f word)"
  shows "sf_mag a < sf_mag b"
proof -
  let ?M = "MANT_SIZE TYPE('f)" and ?q = "quantum TYPE('f)"
  have "\<not> b AND NOT SIGN_MASK < a AND NOT SIGN_MASK" using assms by simp
  then consider "eff_exp a < eff_exp b" | "eff_exp a = eff_exp b" using magnitude_order by blast
  then show ?thesis
  proof cases
    case 2
    have "int (unat (a AND NOT SIGN_MASK)) < int (unat (b AND NOT SIGN_MASK))" using assms by (simp add: word_less_nat_alt)
    then have "significand a < significand b" unfolding significand_bits 2 by simp
    then show ?thesis unfolding significand_mag 2 by simp
  next
    case 1
    have "real (significand a) < real (2 * 2 ^ ?M)" using significand_less [of a] by (simp only: of_nat_less_iff)
    then have "sf_mag a < real (2 * 2 ^ ?M) * ?q (eff_exp a)" unfolding significand_mag by (rule mult_strict_right_mono) simp
    also have "\<dots> = real (2 ^ ?M) * ?q (eff_exp a + int 1)" by (simp only: quantum_add) simp
    also have "\<dots> \<le> real (2 ^ ?M) * ?q (eff_exp b)" using 1 by (intro mult_left_mono quantum_mono) simp_all
    also have "real (2 ^ ?M) \<le> real (significand b)" using significand_ge [of b] 1 eff_exp_ge [of a] by (simp only: of_nat_le_iff)
    then have "real (2 ^ ?M) * ?q (eff_exp b) \<le> sf_mag b" unfolding significand_mag by (rule mult_right_mono) (simp add: less_imp_le)
    finally show ?thesis .
  qed
qed

lemma mag_eq: "a AND NOT SIGN_MASK = (b AND NOT SIGN_MASK :: 'f word) \<Longrightarrow> sf_mag a = sf_mag b"
proof -
  assume e: "a AND NOT SIGN_MASK = b AND NOT SIGN_MASK"
  then have "\<not> a AND NOT SIGN_MASK < b AND NOT SIGN_MASK" "\<not> b AND NOT SIGN_MASK < a AND NOT SIGN_MASK" by simp_all
  then have "eff_exp a = eff_exp b" "significand a = significand b"
    using magnitude_order [of a b] magnitude_order [of b a] by auto
  then show ?thesis by (simp add: significand_mag)
qed

end

section \<open>Comparisons\<close>

text \<open>A signed code of the number; the two zeros have the same.\<close>

definition sf_code :: "'f::len word \<Rightarrow> int" where
  "sf_code a = (if sf_sign a then - int (unat (a AND NOT SIGN_MASK)) else int (unat (a AND NOT SIGN_MASK)))"

context float_format
begin

lemma zero_bits: "is_zero_sf (a :: 'f word) \<longleftrightarrow> unat (a AND NOT SIGN_MASK) = 0"
proof -
  have "unat (a AND NOT SIGN_MASK) = 0 \<longleftrightarrow> int (unat (a AND NOT SIGN_MASK)) = 0" by simp
  also have "\<dots> \<longleftrightarrow> sf_exp a = 0 \<and> unat (sf_mant a) = 0"
    unfolding mag_bits using exp_range(1) [of a] by (auto simp: add_nonneg_eq_0_iff)
  finally show ?thesis by (simp add: is_zero_sf_def unat_eq_0)
qed

lemma code_less: "sf_code (a :: 'f word) < sf_code b \<longleftrightarrow> sf_value a < sf_value (b :: 'f word)"
proof -
  have m: "unat (x AND NOT SIGN_MASK) < unat (y AND NOT SIGN_MASK) \<longleftrightarrow> sf_mag x < sf_mag y" for x y :: "'f word"
    using mag_less [of x y] mag_less [of y x] mag_eq [of x y] by (cases "x AND NOT SIGN_MASK" "y AND NOT SIGN_MASK" rule: linorder_cases)
      (auto simp: word_less_nat_alt)
  have z: "unat (x AND NOT SIGN_MASK) = 0 \<longleftrightarrow> sf_mag x = 0" for x :: "'f word" by (simp add: zero_bits [symmetric] zero_iff)
  show ?thesis
    using m [of a b] m [of b a] z [of a] z [of b] mag_nonneg [of a] mag_nonneg [of b]
    by (cases "sf_sign a"; cases "sf_sign b") (auto simp: sf_code_def sf_value_def)
qed

lemma code_eq: "sf_code (a :: 'f word) = sf_code b \<longleftrightarrow> sf_value a = sf_value (b :: 'f word)"
  using code_less [of a b] code_less [of b a] by linarith

lemma both_zero: "push_bit 1 (a OR b :: 'f word) = 0 \<longleftrightarrow> is_zero_sf a \<and> is_zero_sf b"
proof -
  have "push_bit 1 x = 0 \<longleftrightarrow> x AND NOT SIGN_MASK = 0" for x :: "'f word"
  proof
    assume p: "push_bit 1 x = 0"
    show "x AND NOT SIGN_MASK = 0"
    proof (rule bit_word_eqI)
      fix n assume "n < LENGTH('f)"
      have "bit (push_bit 1 x) (Suc n) \<longleftrightarrow> False" unfolding p by simp
      then show "bit (x AND NOT SIGN_MASK) n = bit 0 n"
        using \<open>n < LENGTH('f)\<close> unfolding SIGN_MASK_def bit_and_iff bit_not_iff bit_push_bit_iff by (auto simp: bit_1_iff)
    qed
  next
    assume z: "x AND NOT SIGN_MASK = 0"
    show "push_bit 1 x = 0"
    proof (rule bit_word_eqI)
      fix n assume n: "n < LENGTH('f)"
      have "bit (x AND NOT SIGN_MASK) (n - 1) \<longleftrightarrow> False" unfolding z by simp
      then show "bit (push_bit 1 x) n = bit 0 n"
        using n unfolding SIGN_MASK_def bit_and_iff bit_not_iff bit_push_bit_iff by (auto simp: bit_1_iff)
    qed
  qed
  then show ?thesis unfolding zero_bits unat_eq_0 by (simp add: bit.conj_disj_distrib2 or_eq_0_iff)
qed

lemma finite_not_nan: "finite_sf a \<Longrightarrow> \<not> isnan_sf (a :: 'f word)"
  by (simp add: finite_sf_def isnan_sf_def)

lemma same_sign_order:
  assumes "sf_sign a = sf_sign (b :: 'f word)"
  shows "a < b \<longleftrightarrow> unat (a AND NOT SIGN_MASK) < unat (b AND NOT SIGN_MASK)"
  using assms unat_sign_mag [of a] unat_sign_mag [of b] by (simp add: word_less_nat_alt)

lemma lt_code: "\<not> isnan_sf (a :: 'f word) \<Longrightarrow> \<not> isnan_sf b \<Longrightarrow> lt_sf a b fl = (sf_code a < sf_code b, fl)"
  using same_sign_order [of a b] same_sign_order [of b a]
  unfolding lt_sf_def both_zero zero_bits sf_code_def by (cases "sf_sign a"; cases "sf_sign b") auto

lemma le_code: "\<not> isnan_sf (a :: 'f word) \<Longrightarrow> \<not> isnan_sf b \<Longrightarrow> le_sf a b fl = (\<not> sf_code b < sf_code a, fl)"
  using same_sign_order [of a b] same_sign_order [of b a]
  unfolding le_sf_def both_zero zero_bits sf_code_def not_less [symmetric] by (cases "sf_sign a"; cases "sf_sign b") auto

lemma eq_code: "\<not> isnan_sf (a :: 'f word) \<Longrightarrow> \<not> isnan_sf b \<Longrightarrow> eq_quiet_sf a b fl = (sf_code a = sf_code b, fl)"
proof -
  have w: "a = b \<longleftrightarrow> sf_sign a = sf_sign b \<and> unat (a AND NOT SIGN_MASK) = unat (b AND NOT SIGN_MASK)"
    using split_sign [of a] split_sign [of b] by (metis unsigned_word_eqI)
  show "\<not> isnan_sf a \<Longrightarrow> \<not> isnan_sf b \<Longrightarrow> ?thesis"
    unfolding eq_quiet_sf_def both_zero zero_bits sf_code_def w by (cases "sf_sign a"; cases "sf_sign b") auto
qed

lemma lt_correct: "finite_sf (a :: 'f word) \<Longrightarrow> finite_sf b \<Longrightarrow> lt_sf a b fl = (sf_value a < sf_value b, fl)"
  by (simp add: lt_code finite_not_nan code_less)

lemma le_correct: "finite_sf (a :: 'f word) \<Longrightarrow> finite_sf b \<Longrightarrow> le_sf a b fl = (sf_value a \<le> sf_value b, fl)"
  by (simp add: le_code finite_not_nan code_less not_less)

lemma eq_correct: "finite_sf (a :: 'f word) \<Longrightarrow> finite_sf b \<Longrightarrow> eq_quiet_sf a b fl = (sf_value a = sf_value b, fl)"
  by (simp add: eq_code finite_not_nan code_eq)

section \<open>Minimum and maximum\<close>

lemma min_code:
  assumes "\<not> isnan_sf (a :: 'f word)" "\<not> isnan_sf b"
  shows "\<exists>r. min_sf a b fl t = (r, fl) \<and> (r = a \<or> r = b) \<and> sf_code r \<le> sf_code a \<and> sf_code r \<le> sf_code b \<and>
    (is_zero_sf a \<and> is_zero_sf b \<longrightarrow> sf_sign r = (sf_sign a \<or> sf_sign b))"
proof -
  let ?r = "if sf_sign a \<noteq> sf_sign b then if sf_sign a then a else b else if (a < b) \<noteq> sf_sign a then a else b"
  have "min_sf a b fl t = (?r, fl)" using assms by (simp add: min_sf_def)
  moreover have "sf_code ?r \<le> sf_code a" "sf_code ?r \<le> sf_code b"
    using same_sign_order [of a b] same_sign_order [of b a] unfolding sf_code_def
    by (cases "sf_sign a"; cases "sf_sign b"; simp)+
  ultimately show ?thesis by (intro exI [of _ ?r]) auto
qed

lemma max_code:
  assumes "\<not> isnan_sf (a :: 'f word)" "\<not> isnan_sf b"
  shows "\<exists>r. max_sf a b fl t = (r, fl) \<and> (r = a \<or> r = b) \<and> sf_code a \<le> sf_code r \<and> sf_code b \<le> sf_code r \<and>
    (is_zero_sf a \<and> is_zero_sf b \<longrightarrow> sf_sign r = (sf_sign a \<and> sf_sign b))"
proof -
  let ?r = "if sf_sign a \<noteq> sf_sign b then if sf_sign a then b else a else if (a < b) \<noteq> sf_sign a then b else a"
  have "max_sf a b fl t = (?r, fl)" using assms by (simp add: max_sf_def)
  moreover have "sf_code a \<le> sf_code ?r" "sf_code b \<le> sf_code ?r"
    using same_sign_order [of a b] same_sign_order [of b a] unfolding sf_code_def
    by (cases "sf_sign a"; cases "sf_sign b"; simp)+
  ultimately show ?thesis by (intro exI [of _ ?r]) auto
qed

end

end
