(* ===== verification/Softfp_Portable.thy ===== *)
theory Softfp_Portable
  imports Float_Compare Muldiv
begin

text \<open>
  The variants of \<open>softfp_template.h\<close> for a word without a double-width type (\<open>F_ULONG\<close> undefined):
  the product from four half-word products and the square root over the bit-serial division. They
  return what the double-width variants return.
\<close>

section \<open>The code\<close>

text \<open>\<open>F_UINT\<close> is \<open>'h bit0 word\<close> and \<open>F_UHALF\<close> is \<open>'h word\<close>; the result is the high and the low word.\<close>

definition mul_u_halves :: "'h::len bit0 word \<Rightarrow> 'h bit0 word \<Rightarrow> 'h bit0 word \<times> 'h bit0 word" where
  "mul_u_halves a b =
     (let h = LENGTH('h);
          a0 = ucast a :: 'h word; a1 = ucast (drop_bit h a) :: 'h word;
          b0 = ucast b :: 'h word; b1 = ucast (drop_bit h b) :: 'h word;
          r00 = ucast a0 * ucast b0 :: 'h bit0 word;
          r01 = ucast a0 * ucast b1 :: 'h bit0 word;
          r10 = ucast a1 * ucast b0 :: 'h bit0 word;
          r11 = ucast a1 * ucast b1 :: 'h bit0 word;
          r0 = ucast r00 :: 'h word;
          c = drop_bit h r00 + ucast (ucast r01 :: 'h word) + ucast (ucast r10 :: 'h word);
          r1 = ucast c :: 'h word;
          c = drop_bit h c + drop_bit h r01 + drop_bit h r10 + ucast (ucast r11 :: 'h word);
          r2 = ucast c :: 'h word;
          r3 = ucast (drop_bit h c + drop_bit h r11) :: 'h word
      in (push_bit h (ucast r3) OR ucast r2, push_bit h (ucast r1) OR ucast r0))"

function sqrt_loop_serial :: "'f::len word \<Rightarrow> 'f word \<Rightarrow> 'f word \<Rightarrow> 'f word" where
  "sqrt_loop_serial a1 a0 s =
     (let u = (fst (divrem_u_serial a1 a0 s) + s) div 2 in if u \<ge> s then s else sqrt_loop_serial a1 a0 u)"
  by pat_completeness auto
termination
  by (relation "measure (\<lambda>(a1, a0, s). unat s)") (auto simp: word_less_nat_alt not_le)

declare sqrt_loop_serial.simps [simp del]

definition sqrtrem_u_serial :: "'h::len bit0 word \<Rightarrow> 'h bit0 word \<Rightarrow> bool \<times> 'h bit0 word" where
  "sqrtrem_u_serial a1 a0 =
     (if a1 = 0 \<and> a0 = 0 then (False, 0)
      else
        let l = (if a1 \<noteq> 0 then 2 * LENGTH('h bit0) - builtin_clz (a1 - 1)
                 else LENGTH('h bit0) - builtin_clz (a0 - 1));
            s = sqrt_loop_serial a1 a0 (push_bit ((l + 1) div 2) 1);
            (sq1, sq0) = mul_u_halves s s
        in (sq0 \<noteq> a0 \<or> sq1 \<noteq> a1, s))"

section \<open>Division\<close>

lemma push_drop_disjoint: "s \<le> LENGTH('f) \<Longrightarrow> push_bit s a AND drop_bit (LENGTH('f) - s) b = (0 :: 'f::len word)"
  by (rule bit_word_eqI) (auto simp: bit_simps dest!: bit_imp_le_length)

lemma even_plus_mod:
  fixes a m x :: nat
  shows "x \<le> 1 \<Longrightarrow> 2 * a mod (2 * m) + x = (2 * a + x) mod (2 * m)"
proof -
  assume "x \<le> 1"
  then consider "x = 0" | "x = 1" by linarith
  then show ?thesis by cases (simp_all add: mod_mult2_eq)
qed

lemma divrem_shift:
  fixes a1 a0 :: "'f::len word"
  defines "t \<equiv> 2 * unat a1 + unat a0 div 2 ^ (LENGTH('f) - 1)"
    and "a1' \<equiv> push_bit 1 a1 OR drop_bit (LENGTH('f) - 1) a0"
  shows "unat a0 div 2 ^ (LENGTH('f) - 1) \<le> 1" "unat a1' = t mod 2 ^ LENGTH('f)"
    "bit a1 (LENGTH('f) - 1) \<longleftrightarrow> 2 ^ LENGTH('f) \<le> t"
proof -
  let ?F = "LENGTH('f)"
  have P: "(2 :: nat) ^ ?F = 2 * 2 ^ (?F - 1)" by (simp flip: power_Suc)
  show top: "unat a0 div 2 ^ (?F - 1) \<le> 1"
    using unsigned_less [of a0, where 'a = nat] unfolding P by (simp add: less_mult_imp_div_less less_Suc_eq_le [symmetric])
  have "push_bit 1 a1 AND drop_bit (?F - 1) a0 = 0" by (rule push_drop_disjoint) (simp add: Suc_le_eq)
  then show "unat a1' = t mod 2 ^ ?F"
  proof -
    have "2 * unat a1 mod 2 ^ ?F + unat a0 div 2 ^ (?F - 1) = t mod 2 ^ ?F"
      using top unfolding t_def P by (intro even_plus_mod)
    moreover have "t mod 2 ^ ?F < 2 ^ ?F" by simp
    ultimately have "2 * unat a1 mod 2 ^ ?F + unat a0 div 2 ^ (?F - 1) < 2 ^ ?F" by linarith
    moreover have "unat (push_bit 1 a1) = 2 * unat a1 mod 2 ^ ?F" by (simp only: unat_push power_one_right mult.commute)
    ultimately have "unat (push_bit 1 a1 OR drop_bit (?F - 1) a0) = 2 * unat a1 mod 2 ^ ?F + unat a0 div 2 ^ (?F - 1)"
      using \<open>push_bit 1 a1 AND drop_bit (?F - 1) a0 = 0\<close> by (simp only: word_or_add unat_word_ariths unat_drop mod_less)
    then show ?thesis unfolding a1'_def using \<open>_ = t mod 2 ^ ?F\<close> by (simp only:)
  qed
  show "bit a1 (?F - 1) \<longleftrightarrow> 2 ^ ?F \<le> t"
  proof -
    have "bit a1 (?F - 1) \<longleftrightarrow> 2 ^ (?F - 1) \<le> unat a1"
      using bit_imp_power_le_unat [of a1 "?F - 1"] word_less_power_iff [of "?F - 1" a1]
      by (metis One_nat_def Suc_pred' bit_imp_le_length le_antisym len_gt_0 less_Suc_eq_le linorder_not_le)
    also have "\<dots> \<longleftrightarrow> 2 ^ ?F \<le> t" using top unfolding t_def P by linarith
    finally show ?thesis .
  qed
qed

text \<open>One step shifts a bit of the dividend in and a bit of the quotient out.\<close>

lemma divrem_step:
  fixes a1 a0 b :: "'f::len word"
  assumes b: "a1 < b"
  defines "t \<equiv> 2 * unat a1 + unat a0 div 2 ^ (LENGTH('f) - 1)"
    and "a1' \<equiv> push_bit 1 a1 OR drop_bit (LENGTH('f) - 1) a0"
  shows "bit a1 (LENGTH('f) - 1) \<or> a1' \<ge> b \<longleftrightarrow> unat b \<le> t"
    and "unat b \<le> t \<Longrightarrow> unat (a1' - b) = t - unat b \<and> a1' - b < b"
    and "t < unat b \<Longrightarrow> unat a1' = t \<and> a1' < b"
proof -
  let ?F = "LENGTH('f)"
  note top = divrem_shift(1) [of a0]
  note a1' = divrem_shift(2) [of a1 a0, folded t_def a1'_def] and topbit = divrem_shift(3) [of a1 a0, folded t_def]
  have tb: "t < 2 * unat b" using b top by (simp add: t_def word_less_nat_alt)
  have bl: "unat b < 2 ^ ?F" by simp
  show "bit a1 (?F - 1) \<or> a1' \<ge> b \<longleftrightarrow> unat b \<le> t"
  proof (cases "t < 2 ^ ?F")
    case False
    then have "unat b \<le> t" using bl by linarith
    then show ?thesis using False unfolding topbit by simp
  qed (simp add: topbit word_le_nat_alt a1' del: One_nat_def)
  show "t < unat b \<Longrightarrow> unat a1' = t \<and> a1' < b"
  proof -
    assume l: "t < unat b"
    then have "t < 2 ^ ?F" using bl by linarith
    then show "unat a1' = t \<and> a1' < b" using l by (simp add: word_less_nat_alt a1')
  qed
  show "unat (a1' - b) = t - unat b \<and> a1' - b < b" if l: "unat b \<le> t"
  proof (cases "t < 2 ^ ?F")
    case True
    then have "b \<le> a1'" "unat a1' = t" using l by (simp_all add: word_le_nat_alt a1')
    then show ?thesis using tb by (simp add: unat_sub word_less_nat_alt)
  next
    case False
    then have m: "unat a1' = t - 2 ^ ?F" unfolding a1'
    proof -
      have "t - 2 ^ ?F < 2 ^ ?F" using tb bl by linarith
      then show "t mod 2 ^ ?F = t - 2 ^ ?F" using False by (simp add: le_mod_geq)
    qed
    then have "\<not> b \<le> a1'" using tb bl False unfolding word_le_nat_alt by linarith
    then have "unat (a1' - b) = 2 ^ ?F + unat a1' - unat b" by (simp add: unat_sub_if' word_le_nat_alt)
    then have "unat (a1' - b) = t - unat b" using m False bl by linarith
    then show ?thesis using tb l unfolding word_less_nat_alt by linarith
  qed
qed

lemma unat_shift_in:
  "unat (push_bit 1 (a :: 'f::len word) OR of_bool q) = 2 * (unat a mod 2 ^ (LENGTH('f) - 1)) + of_bool q"
proof -
  have P: "(2 :: nat) ^ LENGTH('f) = 2 * 2 ^ (LENGTH('f) - 1)" by (simp flip: power_Suc)
  have u: "unat (push_bit 1 a) = 2 * (unat a mod 2 ^ (LENGTH('f) - 1))"
    by (simp only: unat_push power_one_right mult.commute [of "unat a"] P mult_mod_right)
  then show ?thesis unfolding unat_or_bool u or_1_cases by (cases q) simp_all
qed

text \<open>The dividend and the quotient share a word.\<close>

lemma dividend_bits:
  fixes a Q N q :: nat
  assumes "0 < Q" "0 < N" "q \<le> 1"
  shows "a div Q = a div (Q * N) * N + (2 * (a mod (Q * N)) + q) div (2 * Q)"
    and "(2 * (a mod (Q * N)) + q) * N mod (2 * (Q * N)) = a * (2 * N) mod (2 * (Q * N)) + q * N"
proof -
  have "(2 * m + q) div (2 * Q) = m div Q" for m
    using assms(3) by (cases "q = 0") (simp_all add: div_mult2_eq le_Suc_eq)
  moreover have "a mod (Q * N) div Q = a div Q mod N" using assms(1) by (simp add: mod_mult2_eq)
  ultimately show "a div Q = a div (Q * N) * N + (2 * (a mod (Q * N)) + q) div (2 * Q)"
    by (simp add: div_mult2_eq)
  have "(2 * (a mod (Q * N)) + q) mod (2 * Q) = 2 * (a mod Q) + q"
    using even_plus_mod [of q "a mod (Q * N)" Q] assms(3) by (simp add: mod_mult2_eq mult_mod_right [symmetric])
  then have "(2 * (a mod (Q * N)) + q) * N mod (2 * Q * N) = (2 * (a mod Q) + q) * N"
    by (simp only: mult_mod_left [symmetric])
  moreover have "a * (2 * N) mod (2 * Q * N) = 2 * (a mod Q) * N"
    by (simp only: mult_mod_left [symmetric] mult_mod_right mult.assoc [symmetric] mult.commute [of a])
  ultimately show "(2 * (a mod (Q * N)) + q) * N mod (2 * (Q * N)) = a * (2 * N) mod (2 * (Q * N)) + q * N"
    by (simp add: distrib_right mult.assoc)
qed

lemma divrem_loop_correct:
  fixes a1 a0 b q r :: "'f::len word"
  assumes "n \<le> LENGTH('f)" "a1 < b" "divrem_loop n a1 a0 b = (q, r)"
  defines "d \<equiv> unat a1 * 2 ^ n + unat a0 div 2 ^ (LENGTH('f) - n)"
  shows "unat q = unat a0 * 2 ^ n mod 2 ^ LENGTH('f) + d div unat b \<and> unat r = d mod unat b"
  using assms(1,2,3) unfolding d_def
proof (induction n arbitrary: a1 a0)
  case 0
  have "unat a0 div 2 ^ LENGTH('f) = 0" by simp
  then show ?case using 0 by (simp add: word_less_nat_alt)
next
  case (Suc n)
  let ?F = "LENGTH('f)" and ?N = "2 ^ n :: nat" and ?Q = "2 ^ (LENGTH('f) - Suc n) :: nat"
  define t where "t = 2 * unat a1 + unat a0 div 2 ^ (?F - 1)"
  define a1' where "a1' = push_bit 1 a1 OR drop_bit (?F - 1) a0"
  note st = divrem_step [OF Suc.prems(2), of a0, folded a1'_def t_def]
  define g where "g = (unat b \<le> t)"
  define x where "x = (if g then a1' - b else a1')"
  define y where "y = push_bit 1 a0 OR of_bool g"
  have P: "(2 :: nat) ^ (?F - 1) = ?Q * ?N" "(2 :: nat) ^ ?F = 2 * (?Q * ?N)" "(2 :: nat) ^ (?F - n) = 2 * ?Q"
    using Suc.prems(1) by (simp_all flip: power_add power_Suc add: Suc_diff_le)
  have code: "divrem_loop (Suc n) a1 a0 b = divrem_loop n x y b"
    unfolding divrem_loop.simps Let_def a1'_def [symmetric] st(1) g_def [symmetric] x_def y_def by (cases g) simp_all
  have x: "x < b" "t = of_bool g * unat b + unat x" using st(2,3) by (auto simp: x_def g_def)
  have y: "unat y = 2 * (unat a0 mod (?Q * ?N)) + of_bool g" unfolding y_def unat_shift_in P ..
  note IH = Suc.IH [OF _ x(1) Suc.prems(3) [unfolded code]]
  have bits: "unat a0 div ?Q = unat a0 div (?Q * ?N) * ?N + unat y div (2 * ?Q)"
    "unat y * ?N mod (2 * (?Q * ?N)) = unat a0 * (2 * ?N) mod (2 * (?Q * ?N)) + of_bool g * ?N"
    unfolding y by (rule dividend_bits; simp)+
  have "unat a1 * 2 ^ Suc n + unat a0 div ?Q = t * ?N + unat y div (2 * ?Q)"
    unfolding bits(1) t_def P by (simp add: distrib_right)
  then have d: "unat a1 * 2 ^ Suc n + unat a0 div ?Q = of_bool g * ?N * unat b + (unat x * ?N + unat y div (2 * ?Q))"
    unfolding x(2) by (simp add: distrib_right ac_simps)
  have b0: "unat b \<noteq> 0" using Suc.prems(2) by (simp add: word_less_nat_alt)
  have "unat q = unat y * ?N mod (2 * (?Q * ?N)) + (unat x * ?N + unat y div (2 * ?Q)) div unat b"
    "unat r = (unat x * ?N + unat y div (2 * ?Q)) mod unat b"
    using IH Suc.prems(1) unfolding P by simp_all
  then show ?case unfolding d P bits(2) using b0 by (simp add: ac_simps)
qed

lemma unat_wide_pair: "unat (push_bit LENGTH('f) (ucast (ah :: 'f::len word) :: 'f bit0 word) OR ucast (al :: 'f word)) = dbl ah al"
proof -
  let ?F = "LENGTH('f)"
  have "unat ah * 2 ^ ?F < 2 ^ ?F * 2 ^ ?F" by simp
  then have h: "unat (push_bit ?F (ucast ah :: 'f bit0 word)) = unat ah * 2 ^ ?F"
    using unat_push_small [of "ucast ah :: 'f bit0 word" ?F] by (simp add: unat_wide power_add mult_2)
  have "push_bit ?F (ucast ah :: 'f bit0 word) AND ucast al = 0"
    by (rule bit_word_eqI) (auto simp: bit_simps dest!: bit_imp_le_length)
  moreover have "dbl ah al < 2 ^ LENGTH('f bit0)" using dbl_less [of ah al] by (simp add: mult_2)
  ultimately show ?thesis
    by (simp only: word_or_add unat_word_ariths h unat_wide dbl_def mod_less)
qed

lemma divrem_u_dbl:
  assumes b: "ah < (b :: 'f::len word)"
  shows "divrem_u ah al b = (q, r) \<longleftrightarrow> unat q = dbl ah al div unat b \<and> unat r = dbl ah al mod unat b"
proof -
  let ?a = "push_bit LENGTH('f) (ucast ah :: 'f bit0 word) OR ucast al"
  have b0: "0 < unat b" using b by (simp add: word_less_nat_alt)
  have "(unat ah + 1) * 2 ^ LENGTH('f) \<le> unat b * 2 ^ LENGTH('f)"
    using b by (intro mult_right_mono) (simp_all add: word_less_nat_alt)
  moreover have "unat al < 2 ^ LENGTH('f)" by simp
  ultimately have "dbl ah al < 2 ^ LENGTH('f) * unat b" unfolding dbl_def distrib_right mult_1 mult.commute [of _ "unat b"] by linarith
  then have q: "dbl ah al div unat b < 2 ^ LENGTH('f)" by (rule less_mult_imp_div_less)
  have "dbl ah al mod unat b < unat b" using b0 by simp
  also have "unat b < 2 ^ LENGTH('f)" by simp
  finally have r: "dbl ah al mod unat b < 2 ^ LENGTH('f)" .
  have "unat (ucast (?a div ucast b) :: 'f word) = dbl ah al div unat b" "unat (ucast (?a mod ucast b) :: 'f word) = dbl ah al mod unat b"
    using q r by (simp_all only: hi_lo(2) unat_div_distrib unat_mod_distrib unat_wide unat_wide_pair mod_less)
  then show ?thesis unfolding divrem_u_def Let_def prod.inject word_unat_eq_iff by auto
qed

lemma divrem_serial_eq:
  assumes "a1 < (b :: 'f::len word)"
  shows "divrem_u_serial a1 a0 b = divrem_u a1 a0 b"
proof -
  obtain q r where c: "divrem_u_serial a1 a0 b = (q, r)" by fastforce
  then have "unat q = dbl a1 a0 div unat b \<and> unat r = dbl a1 a0 mod unat b"
    using divrem_loop_correct [of "LENGTH('f)" a1 b a0 q r] assms by (simp add: divrem_u_serial_def dbl_def)
  then show ?thesis using divrem_u_dbl [OF assms, of a0 q r] c by simp
qed

section \<open>Multiplication\<close>

text \<open>Schoolbook multiplication on nonnegative limbs below \<open>K\<close>.\<close>

lemma limb_columns:
  fixes a0 a1 b0 b1 K :: nat
  assumes "0 < K"
  defines "c \<equiv> a0 * b0 div K + a0 * b1 mod K + a1 * b0 mod K"
  defines "c' \<equiv> c div K + a0 * b1 div K + a1 * b0 div K + a1 * b1 mod K"
  shows "(a1 * K + a0) * (b1 * K + b0) =
    ((c' div K + a1 * b1 div K) * K + c' mod K) * (K * K) + (c mod K * K + a0 * b0 mod K)"
proof -
  define x00 x01 x10 x11 m00 m01 m10 m11 where d: "x00 = a0 * b0 div K" "x01 = a0 * b1 div K" "x10 = a1 * b0 div K"
    "x11 = a1 * b1 div K" "m00 = a0 * b0 mod K" "m01 = a0 * b1 mod K" "m10 = a1 * b0 mod K" "m11 = a1 * b1 mod K"
  have e: "a0 * b0 = x00 * K + m00" "a0 * b1 = x01 * K + m01" "a1 * b0 = x10 * K + m10" "a1 * b1 = x11 * K + m11"
    unfolding d by (simp_all only: div_mult_mod_eq)
  define u v u' v' where w: "u = c div K" "v = c mod K" "u' = c' div K" "v' = c' mod K"
  have c: "x00 + m01 + m10 = u * K + v" "u + x01 + x10 + m11 = u' * K + v'"
    unfolding w by (simp_all only: div_mult_mod_eq) (simp_all only: c_def c'_def d)
  have "(a1 * K + a0) * (b1 * K + b0) = a1 * b1 * (K * K) + (a0 * b1 + a1 * b0) * K + a0 * b0"
    by (simp add: algebra_simps)
  also have "\<dots> = (x11 * K + (m11 + x01 + x10)) * (K * K) + (x00 + m01 + m10) * K + m00"
    unfolding e by (simp add: algebra_simps)
  also have "\<dots> = (x11 * K + (u + x01 + x10 + m11)) * (K * K) + v * K + m00"
    unfolding c(1) by (simp add: algebra_simps)
  also have "\<dots> = ((u' + x11) * K + v') * (K * K) + (v * K + m00)"
    unfolding c(2) by (simp add: algebra_simps)
  finally show ?thesis by (simp only: d w)
qed

lemma limb_product:
  fixes a b a0 a1 b0 b1 K :: nat
  assumes K: "0 < K" and a: "a = a1 * K + a0" "a < K * K" and b: "b = b1 * K + b0" "b < K * K"
  defines "c \<equiv> a0 * b0 div K + a0 * b1 mod K + a1 * b0 mod K"
  defines "c' \<equiv> c div K + a0 * b1 div K + a1 * b0 div K + a1 * b1 mod K"
  shows "a * b div (K * K) = (c' div K + a1 * b1 div K) * K + c' mod K"
    "a * b mod (K * K) = c mod K * K + a0 * b0 mod K" "c' div K + a1 * b1 div K < K"
proof -
  have cols: "a * b = ((c' div K + a1 * b1 div K) * K + c' mod K) * (K * K) + (c mod K * K + a0 * b0 mod K)"
    unfolding a(1) b(1) c'_def c_def by (rule limb_columns [OF K])
  have "(c mod K + 1) * K \<le> K * K" using K by (intro mult_right_mono) (simp_all add: Suc_le_eq)
  moreover have "a0 * b0 mod K < K" using K by simp
  ultimately have "c mod K * K + a0 * b0 mod K < K * K" unfolding distrib_right mult_1 by linarith
  then show hi: "a * b div (K * K) = (c' div K + a1 * b1 div K) * K + c' mod K"
    and "a * b mod (K * K) = c mod K * K + a0 * b0 mod K"
    unfolding cols using K by simp_all
  have "a * b < K * K * (K * K)" using a(2) b(2) K by (intro mult_strict_mono) simp_all
  then have "(c' div K + a1 * b1 div K) * K + c' mod K < K * K"
    unfolding hi [symmetric] by (rule less_mult_imp_div_less)
  then have "(c' div K + a1 * b1 div K) * K < K * K" by linarith
  then show "c' div K + a1 * b1 div K < K" by simp
qed

lemma unat_low_half: "unat (ucast (a :: 'h::len bit0 word) :: 'h word) = unat a mod 2 ^ LENGTH('h)"
  by (rule hi_lo(2))

lemma unat_join: "unat (push_bit LENGTH('h) (ucast (x :: 'h::len word)) OR ucast (y :: 'h word) :: 'h bit0 word) = unat x * 2 ^ LENGTH('h) + unat y"
  using unat_wide_pair [of x y] by (simp only: dbl_def)

lemma mul_halves_eq:
  assumes h: "2 \<le> LENGTH('h)"
  shows "mul_u_halves a b = mul_u a (b :: 'h::len bit0 word)"
proof -
  let ?h = "LENGTH('h)" and ?K = "2 ^ LENGTH('h) :: nat"
  define a0 a1 b0 b1 where d: "a0 = unat a mod ?K" "a1 = unat a div ?K" "b0 = unat b mod ?K" "b1 = unat b div ?K"
  have KK: "(2 :: nat) ^ LENGTH('h bit0) = ?K * ?K" by (simp add: mult_2 power_add)
  have w: "unat x < ?K * ?K" for x :: "'h bit0 word" using unsigned_less [of x, where 'a = nat] unfolding KK .
  have hi: "unat (drop_bit ?h x) = unat x div ?K" "unat x div ?K < ?K" for x :: "'h bit0 word"
    using w [of x] by (simp_all add: unat_drop less_mult_imp_div_less)
  have lo: "unat (ucast (ucast x :: 'h word) :: 'h bit0 word) = unat x mod ?K" "unat x mod ?K < ?K" for x :: "'h bit0 word"
    by (simp_all add: unat_wide unat_low_half)
  have l: "a0 < ?K" "a1 < ?K" "b0 < ?K" "b1 < ?K" unfolding d using hi(2) by simp_all
  have u: "unat (ucast a :: 'h word) = a0" "unat (ucast (drop_bit ?h a) :: 'h word) = a1"
    "unat (ucast b :: 'h word) = b0" "unat (ucast (drop_bit ?h b) :: 'h word) = b1"
    using l by (simp_all add: unat_low_half hi(1) d)
  have p: "unat (ucast (x :: 'h word) * ucast (y :: 'h word) :: 'h bit0 word) = unat x * unat y" for x y
  proof -
    have "unat x * unat y < ?K * ?K" by (intro mult_strict_mono) simp_all
    then show ?thesis unfolding KK [symmetric] by (simp only: unat_word_ariths unat_wide mod_less)
  qed
  define r00 r01 r10 r11 :: "'h bit0 word" where r: "r00 = ucast (ucast a :: 'h word) * ucast (ucast b :: 'h word)"
    "r01 = ucast (ucast a :: 'h word) * ucast (ucast (drop_bit ?h b) :: 'h word)"
    "r10 = ucast (ucast (drop_bit ?h a) :: 'h word) * ucast (ucast b :: 'h word)"
    "r11 = ucast (ucast (drop_bit ?h a) :: 'h word) * ucast (ucast (drop_bit ?h b) :: 'h word)"
  have ur: "unat r00 = a0 * b0" "unat r01 = a0 * b1" "unat r10 = a1 * b0" "unat r11 = a1 * b1"
    unfolding r by (simp_all only: p u)
  have K4: "4 * ?K \<le> ?K * ?K" using power_increasing [OF h, of "2 :: nat"] by (intro mult_right_mono) simp_all
  define c where "c = drop_bit ?h r00 + ucast (ucast r01 :: 'h word) + ucast (ucast r10 :: 'h word)"
  define c2 where "c2 = drop_bit ?h c + drop_bit ?h r01 + drop_bit ?h r10 + ucast (ucast r11 :: 'h word)"
  define C where "C = a0 * b0 div ?K + a0 * b1 mod ?K + a1 * b0 mod ?K"
  define C2 where "C2 = C div ?K + a0 * b1 div ?K + a1 * b0 div ?K + a1 * b1 mod ?K"
  have add: "unat x + unat y < 4 * ?K \<Longrightarrow> unat (x + y) = unat x + unat y" for x y :: "'h bit0 word"
    using K4 by (intro unat_add_small) (simp only: KK)
  have add3: "unat (x + y + z) = unat x + unat y + unat z"
    if "unat x < ?K" "unat y < ?K" "unat z < ?K" for x y z :: "'h bit0 word"
    using that add [of x y] add [of "x + y" z] by linarith
  have add4: "unat (x + y + z + v) = unat x + unat y + unat z + unat v"
    if "unat x < ?K" "unat y < ?K" "unat z < ?K" "unat v < ?K" for x y z v :: "'h bit0 word"
    using that add3 [of x y z] add [of "x + y + z" v] by linarith
  have uc: "unat c = C"
    unfolding c_def C_def ur [symmetric] using hi(2) [of r00] lo(2) [of r01] lo(2) [of r10]
    by (subst add3) (simp_all only: hi(1) lo(1))
  have uc2: "unat c2 = C2"
    unfolding c2_def C2_def uc [symmetric] ur [symmetric]
    using hi(2) [of c] hi(2) [of r01] hi(2) [of r10] lo(2) [of r11] by (subst add4) (simp_all only: hi(1) lo(1))
  have ab: "unat a = a1 * ?K + a0" "unat b = b1 * ?K + b0" unfolding d by (simp_all only: div_mult_mod_eq)
  note dm = limb_product [OF _ ab(1) w ab(2) w, folded C_def, folded C2_def, simplified]
  note top = dm(3)
  have s3: "unat (drop_bit ?h c2 + drop_bit ?h r11) = C2 div ?K + a1 * b1 div ?K"
    using top by (subst add) (simp_all add: hi(1) uc2 ur)
  have r3: "unat (ucast (drop_bit ?h c2 + drop_bit ?h r11) :: 'h word) = C2 div ?K + a1 * b1 div ?K"
    using top by (simp add: unat_low_half s3)
  have low: "unat (ucast c2 :: 'h word) = C2 mod ?K" "unat (ucast c :: 'h word) = C mod ?K" "unat (ucast r00 :: 'h word) = a0 * b0 mod ?K"
    by (simp_all only: unat_low_half uc uc2 ur)
  obtain x y where m: "mul_u a b = (x, y)" by fastforce
  have "unat x = unat a * unat b div (?K * ?K)" "unat y = unat a * unat b mod (?K * ?K)"
    using mul_u_correct [OF m] unfolding KK by simp_all
  then have "x = push_bit ?h (ucast (ucast (drop_bit ?h c2 + drop_bit ?h r11) :: 'h word)) OR ucast (ucast c2 :: 'h word)"
    "y = push_bit ?h (ucast (ucast c :: 'h word)) OR ucast (ucast r00 :: 'h word)"
    unfolding word_unat_eq_iff unat_join r3 low dm by simp_all
  then show ?thesis
    unfolding m mul_u_halves_def Let_def
    unfolding r [symmetric] c_def [symmetric] unfolding c2_def [symmetric] by (simp only:)
qed

section \<open>Square root\<close>

text \<open>The sum of estimate and quotient does not overflow, and the division's assertion holds.\<close>

lemma estimate_fits:
  fixes a1 s T :: nat
  assumes T: "0 < T" and a1: "a1 < T" "s \<le> 2 * T" and up: "a1 * (4 * T) < (s + 1) * (s + 1)" and s: "0 < s"
  shows "a1 * (4 * T) div s + s < 4 * T"
proof (cases "2 * T - 1 \<le> s")
  case True
  have "a1 * (4 * T) \<le> (T - 1) * (4 * T)" using a1(1) by (intro mult_right_mono) simp_all
  also have "\<dots> < (2 * T - 1) * (2 * T - 1)"
  proof -
    obtain k where "T = Suc k" using T by (cases T) simp_all
    then show ?thesis by (simp add: algebra_simps)
  qed
  also have "\<dots> \<le> (2 * T - 1) * s" using True by simp
  finally have "a1 * (4 * T) div s < 2 * T - 1" by (rule less_mult_imp_div_less)
  then show ?thesis using a1(2) by linarith
next
  case False
  have "a1 * (4 * T) < (s + 3) * s" using up s by (simp add: algebra_simps)
  then have "a1 * (4 * T) div s < s + 3" by (rule less_mult_imp_div_less)
  then show ?thesis using False by linarith
qed

lemma sqrt_loop_serial_correct:
  fixes a1 s :: "'f::len word"
  assumes a1: "a1 \<noteq> 0" "4 * unat a1 < 2 ^ LENGTH('f)"
    and root: "\<forall>r. r * r \<le> dbl a1 (0 :: 'f word) \<longrightarrow> r \<le> unat s" and s: "unat s \<le> 2 ^ (LENGTH('f) - 1)"
  defines "z \<equiv> unat (sqrt_loop_serial a1 0 s)"
  shows "z * z \<le> dbl a1 (0 :: 'f word) \<and> dbl a1 (0 :: 'f word) < (z + 1) * (z + 1)"
  using root s unfolding z_def
proof (induction "unat s" arbitrary: s rule: less_induct)
  case less
  let ?a = "dbl a1 (0 :: 'f word)"
  have pos: "0 < unat a1" using a1(1) by (simp add: unat_gt_0)
  have F2: "2 \<le> LENGTH('f)"
  proof (rule ccontr)
    assume "\<not> 2 \<le> LENGTH('f)"
    then have "(2 :: nat) ^ LENGTH('f) \<le> 2 ^ 1" by (intro power_increasing) simp_all
    then show False using a1(2) pos by simp
  qed
  define T where "T = (2 :: nat) ^ (LENGTH('f) - 2)"
  obtain n where n: "LENGTH('f) = n + 2" using F2 by (metis add.commute le_iff_add)
  have P: "(2 :: nat) ^ LENGTH('f) = 4 * T" "(2 :: nat) ^ (LENGTH('f) - 1) = 2 * T" by (simp_all add: T_def n)
  have av: "?a = unat a1 * (4 * T)" by (simp add: dbl_def P)
  have "(unat a1 + 1) * (unat a1 + 1) \<le> unat a1 * (unat a1 + 3)" using pos by (simp add: algebra_simps)
  also have "\<dots> \<le> ?a" unfolding av using a1(2) pos unfolding P by (intro mult_left_mono) linarith+
  finally have as: "unat a1 + 1 \<le> unat s" using less.prems(1) by blast
  have up: "?a < (unat s + 1) * (unat s + 1)"
  proof (rule ccontr)
    assume "\<not> ?a < (unat s + 1) * (unat s + 1)"
    then have "unat s + 1 \<le> unat s" using less.prems(1) by (simp only: not_less)
    then show False by simp
  qed
  have T0: "0 < T" by (simp add: T_def)
  have "unat a1 < T" using a1(2) unfolding P by simp
  then have fits: "?a div unat s + unat s < 2 ^ LENGTH('f)"
    using estimate_fits [OF T0, of "unat a1" "unat s"] less.prems(2) up as unfolding av P by simp
  have lt: "a1 < s" using as by (simp add: word_less_nat_alt)
  obtain q r where qr: "divrem_u_serial a1 0 s = (q, r)" by fastforce
  then have q: "unat q = ?a div unat s" using divrem_u_dbl [OF lt, of 0 q r] unfolding divrem_serial_eq [OF lt] by simp
  have two: "unat (2 :: 'f word) = 2"
  proof -
    have "(2 :: nat) ^ 2 \<le> 2 ^ LENGTH('f)" using F2 by (intro power_increasing) simp_all
    then show ?thesis using F2 by (cases "LENGTH('f) = 1") (simp_all add: unat_numeral take_bit_nat_eq_self)
  qed
  define u where "u = (q + s) div 2"
  have "unat (q + s) = ?a div unat s + unat s" using fits by (simp only: unat_word_ariths(1) q mod_less)
  then have u: "unat u = (?a div unat s + unat s) div 2" unfolding u_def by (simp only: unat_div_distrib two)
  have code: "sqrt_loop_serial a1 0 s = (if s \<le> u then s else sqrt_loop_serial a1 0 u)"
    by (simp add: sqrt_loop_serial.simps [of a1 0 s] Let_def qr u_def)
  show ?case
  proof (cases "s \<le> u")
    case True
    have "unat s * unat s \<le> ?a" by (rule newton_stop) (use True u as in \<open>simp_all add: word_le_nat_alt\<close>)
    then show ?thesis using up True code by simp
  next
    case False
    have "\<forall>r. r * r \<le> ?a \<longrightarrow> r \<le> unat u" using newton_above as unfolding u by (metis less_eq_Suc_le less_le_trans zero_less_Suc add.commute plus_1_eq_Suc)
    moreover have "unat u < unat s" using False by (simp add: word_le_nat_alt)
    ultimately show ?thesis using less.hyps [of u] less.prems(2) False code by simp
  qed
qed

lemma sqrt_unique:
  fixes x y a :: nat
  assumes "x * x \<le> a" "a < (x + 1) * (x + 1)" "y * y \<le> a" "a < (y + 1) * (y + 1)"
  shows "x = y"
proof (rule ccontr)
  assume "x \<noteq> y"
  then consider "x + 1 \<le> y" | "y + 1 \<le> x" by linarith
  then show False
  proof cases
    case 1
    then have "(x + 1) * (x + 1) \<le> y * y" by (intro mult_mono) simp_all
    then show False using assms by linarith
  next
    case 2
    then have "(y + 1) * (y + 1) \<le> x * x" by (intro mult_mono) simp_all
    then show False using assms by linarith
  qed
qed

text \<open>The first estimate is a power of two above the root, and fits.\<close>

lemma sqrt_start:
  fixes ah :: "'h::len bit0 word"
  assumes h: "2 \<le> LENGTH('h)" and ah: "ah \<noteq> 0" "4 * unat ah < 2 ^ LENGTH('h bit0)"
  defines "l \<equiv> 2 * LENGTH('h bit0) - builtin_clz (ah - 1)"
  defines "s \<equiv> push_bit ((l + 1) div 2) 1 :: 'h bit0 word"
  shows "r * r \<le> dbl ah (0 :: 'h bit0 word) \<Longrightarrow> r \<le> unat s" "unat s \<le> 2 ^ (LENGTH('h bit0) - 1)"
proof -
  let ?F = "LENGTH('h bit0)"
  have pos: "0 < unat ah" using ah(1) by (simp add: unat_gt_0)
  have m1: "unat (ah - 1) = unat ah - 1" using ah(1) by (simp add: unat_minus_one)
  have c2: "2 \<le> builtin_clz (ah - 1)"
  proof (cases "ah - 1 = 0")
    case True
    then show ?thesis using h by simp
  next
    case False
    have lo: "2 ^ (?F - 1 - builtin_clz (ah - 1)) \<le> unat (ah - 1)" by (rule clz_lower [OF False])
    have "(2 :: nat) ^ (?F - 1 - builtin_clz (ah - 1)) * 2 ^ 2 < 2 ^ ?F" using lo m1 ah(2) by simp
    then have "?F - 1 - builtin_clz (ah - 1) + 2 < ?F" by (simp only: power_add [symmetric] power_strict_increasing_iff)
    then show ?thesis by linarith
  qed
  have lF: "(l + 1) div 2 \<le> ?F - 1" using c2 builtin_clz_le [of "ah - 1"] unfolding l_def by linarith
  then have "(l + 1) div 2 < ?F" using h by (simp only: len_bit0)
  then have us: "unat s = 2 ^ ((l + 1) div 2)" unfolding s_def by (rule unat_push_1)
  have "unat (ah - 1) < 2 ^ (?F - builtin_clz (ah - 1))" by (rule clz_upper)
  then have "unat ah \<le> 2 ^ (?F - builtin_clz (ah - 1))" using m1 by linarith
  then have "dbl ah (0 :: 'h bit0 word) \<le> 2 ^ (?F - builtin_clz (ah - 1)) * 2 ^ ?F" unfolding dbl_def by simp
  also have "\<dots> = 2 ^ l" using builtin_clz_le [of "ah - 1"] by (simp only: l_def power_add [symmetric]) (rule arg_cong, linarith)
  finally have al: "dbl ah (0 :: 'h bit0 word) \<le> 2 ^ l" .
  show "r \<le> unat s" if "r * r \<le> dbl ah (0 :: 'h bit0 word)" for r
  proof (rule ccontr)
    assume "\<not> r \<le> unat s"
    then have "2 ^ ((l + 1) div 2) * 2 ^ ((l + 1) div 2) < r * r" unfolding us by (intro mult_strict_mono) simp_all
    moreover have "(2 :: nat) ^ l \<le> 2 ^ ((l + 1) div 2 + (l + 1) div 2)" by (rule power_increasing) simp_all
    ultimately show False using that al by (simp only: power_add)
  qed
  show "unat s \<le> 2 ^ (?F - 1)" unfolding us using lF by (intro power_increasing) simp_all
qed

lemma sqrt_serial_eq:
  fixes ah :: "'h::len bit0 word"
  assumes h: "2 \<le> LENGTH('h)" and ah: "ah \<noteq> 0" "4 * unat ah < 2 ^ LENGTH('h bit0)"
  shows "sqrtrem_u_serial ah 0 = sqrtrem_u ah 0"
proof -
  let ?F = "LENGTH('h bit0)"
  define l where "l = 2 * ?F - builtin_clz (ah - 1)"
  define s :: "'h bit0 word" where "s = push_bit ((l + 1) div 2) 1"
  define t where "t = sqrt_loop_serial ah 0 s"
  note start = sqrt_start [OF h ah, folded l_def, folded s_def]
  have t: "unat t * unat t \<le> dbl ah (0 :: 'h bit0 word)" "dbl ah (0 :: 'h bit0 word) < (unat t + 1) * (unat t + 1)"
    using sqrt_loop_serial_correct [OF ah _ start(2)] start(1) unfolding t_def by blast+
  obtain inexact z where z: "sqrtrem_u ah 0 = (inexact, z)" by fastforce
  have zc: "unat z * unat z \<le> dbl ah (0 :: 'h bit0 word) \<and> dbl ah (0 :: 'h bit0 word) < (unat z + 1) * (unat z + 1) \<and>
      (inexact \<longleftrightarrow> unat z * unat z \<noteq> dbl ah (0 :: 'h bit0 word))"
    using sqrtrem_u_correct [OF ah(1) less_imp_le [OF ah(2)] z] by (simp only: dbl_def unsigned_0 add_0_right)
  have "t = z" using sqrt_unique [OF t] zc by (simp add: word_unat_eq_iff)
  obtain x y where m: "mul_u_halves t t = (x, y)" by fastforce
  then have "unat x = unat t * unat t div 2 ^ ?F" "unat y = unat t * unat t mod 2 ^ ?F"
    using mul_u_correct [of t t x y] mul_halves_eq [OF h, of t t] by simp_all
  then have xy: "dbl x y = unat t * unat t" by (simp only: dbl_def div_mult_mod_eq)
  have "(y \<noteq> 0 \<or> x \<noteq> ah) \<longleftrightarrow> dbl x y \<noteq> dbl ah 0"
    using dbl_divmod [of x y] dbl_divmod [of ah "0 :: 'h bit0 word"] by (metis unsigned_word_eqI)
  then have i: "(y \<noteq> 0 \<or> x \<noteq> ah) = inexact" using zc \<open>t = z\<close> unfolding xy by simp
  have "sqrtrem_u_serial ah 0 = (y \<noteq> 0 \<or> x \<noteq> ah, t)"
    using ah(1) m unfolding sqrtrem_u_serial_def Let_def
    by (simp only: if_True if_False l_def [symmetric] s_def [symmetric] t_def [symmetric] simp_thms split: prod.split) simp
  then show ?thesis unfolding i z using \<open>t = z\<close> by simp
qed

end
