(* ===== verification/Float_Special.thy ===== *)
theory Float_Special
  imports Softfp_Portable
begin

text \<open>
  The operations on every operand: NaNs, infinities and zeros as IEEE 754 asks, and the rounded exact
  result otherwise. The \<open>ieee_\<close> definitions are the specification; nothing here is translated.
\<close>

section \<open>The operations as IEEE 754 defines them\<close>

definition inf_sf :: "'f::len word \<Rightarrow> bool" where
  "inf_sf a \<longleftrightarrow> \<not> finite_sf a \<and> \<not> isnan_sf a"

definition signed_inf :: "bool \<Rightarrow> 'f::len word" where
  "signed_inf neg = (if neg then SIGN_MASK else 0) OR of_int (EXP_MASK TYPE('f) * 2 ^ MANT_SIZE TYPE('f))"

definition invalid :: "u32 \<Rightarrow> 'f::len word \<times> u32" where
  "invalid fl = nan_result True fl"

definition ieee_add :: "'f::len word \<Rightarrow> 'f word \<Rightarrow> RoundingModeEnum \<Rightarrow> u32 \<Rightarrow> 'f word \<times> u32" where
  "ieee_add a b rm fl =
     (if isnan_sf a \<or> isnan_sf b then nan_result (issignan_sf a \<or> issignan_sf b) fl
      else if inf_sf a \<and> inf_sf b \<and> sf_sign a \<noteq> sf_sign b then invalid fl
      else if inf_sf a then (a, fl)
      else if inf_sf b then (b, fl)
      else ieee_result (if sf_sign a = sf_sign b then sf_sign a else rm = RM_RDN) (sf_value a + sf_value b) rm fl)"

definition ieee_mul :: "'f::len word \<Rightarrow> 'f word \<Rightarrow> RoundingModeEnum \<Rightarrow> u32 \<Rightarrow> 'f word \<times> u32" where
  "ieee_mul a b rm fl =
     (if isnan_sf a \<or> isnan_sf b then nan_result (issignan_sf a \<or> issignan_sf b) fl
      else if inf_sf a \<and> is_zero_sf b \<or> is_zero_sf a \<and> inf_sf b then invalid fl
      else if inf_sf a \<or> inf_sf b then (signed_inf (sf_sign a \<noteq> sf_sign b), fl)
      else ieee_result (sf_sign a \<noteq> sf_sign b) (sf_value a * sf_value b) rm fl)"

definition ieee_div :: "'f::len word \<Rightarrow> 'f word \<Rightarrow> RoundingModeEnum \<Rightarrow> u32 \<Rightarrow> 'f word \<times> u32" where
  "ieee_div a b rm fl =
     (if isnan_sf a \<or> isnan_sf b then nan_result (issignan_sf a \<or> issignan_sf b) fl
      else if inf_sf a \<and> inf_sf b \<or> is_zero_sf a \<and> is_zero_sf b then invalid fl
      else if inf_sf a then (signed_inf (sf_sign a \<noteq> sf_sign b), fl)
      else if is_zero_sf b then (signed_inf (sf_sign a \<noteq> sf_sign b), fl OR FFLAG_DIVIDE_ZERO)
      else ieee_result (sf_sign a \<noteq> sf_sign b) (if inf_sf b then 0 else sf_value a / sf_value b) rm fl)"

definition ieee_sqrt :: "'f::len word \<Rightarrow> RoundingModeEnum \<Rightarrow> u32 \<Rightarrow> 'f word \<times> u32" where
  "ieee_sqrt a rm fl =
     (if isnan_sf a then nan_result (issignan_sf a) fl
      else if sf_sign a \<and> \<not> is_zero_sf a then invalid fl
      else if inf_sf a then (a, fl)
      else ieee_result (sf_sign a) (sqrt (sf_value a)) rm fl)"

definition ieee_fma :: "'f::len word \<Rightarrow> 'f word \<Rightarrow> 'f word \<Rightarrow> RoundingModeEnum \<Rightarrow> u32 \<Rightarrow> 'f word \<times> u32" where
  "ieee_fma a b c rm fl =
     (let s = (sf_sign a \<noteq> sf_sign b) in
      if isnan_sf a \<or> isnan_sf b \<or> isnan_sf c then
        nan_result (issignan_sf a \<or> issignan_sf b \<or> issignan_sf c) fl
      else if inf_sf a \<and> is_zero_sf b \<or> is_zero_sf a \<and> inf_sf b then invalid fl
      else if inf_sf a \<or> inf_sf b then
        if inf_sf c \<and> s \<noteq> sf_sign c then invalid fl else (signed_inf s, fl)
      else if inf_sf c then (c, fl)
      else ieee_result (if s = sf_sign c then s else rm = RM_RDN) (sf_value a * sf_value b + sf_value c) rm fl)"

definition ieee_sub :: "'f::len word \<Rightarrow> 'f word \<Rightarrow> RoundingModeEnum \<Rightarrow> u32 \<Rightarrow> 'f word \<times> u32" where
  "ieee_sub a b rm fl =
     (if isnan_sf a \<or> isnan_sf b then nan_result (issignan_sf a \<or> issignan_sf b) fl
      else if inf_sf a \<and> inf_sf b \<and> sf_sign a = sf_sign b then invalid fl
      else if inf_sf a then (a, fl)
      else if inf_sf b then (signed_inf (\<not> sf_sign b), fl)
      else ieee_result (if sf_sign a \<noteq> sf_sign b then sf_sign a else rm = RM_RDN) (sf_value a - sf_value b) rm fl)"

text \<open>Conversion between formats, and from a format to an integer type.\<close>

definition ieee_convert :: "'f::len word \<Rightarrow> RoundingModeEnum \<Rightarrow> u32 \<Rightarrow> 'g::len word \<times> u32" where
  "ieee_convert a rm fl =
     (if isnan_sf a then nan_result (issignan_sf a) fl
      else if inf_sf a then (signed_inf (sf_sign a), fl)
      else ieee_result (sf_sign a) (sf_value a) rm fl)"

definition ieee_to_int :: "bool \<Rightarrow> 'f::len word \<Rightarrow> RoundingModeEnum \<Rightarrow> u32 \<Rightarrow> 'i::len word \<times> u32" where
  "ieee_to_int is_unsigned a rm fl =
     (if isnan_sf a then (of_int (int_max is_unsigned TYPE('i)), fl OR FFLAG_INVALID_OP)
      else if inf_sf a then
        (of_int (if sf_sign a then int_min is_unsigned TYPE('i) else int_max is_unsigned TYPE('i)), fl OR FFLAG_INVALID_OP)
      else int_result is_unsigned (sf_sign a) (sf_mag a) rm fl)"

text \<open>The order of numbers and infinities; the two zeros are equal.\<close>

definition sf_less :: "'f::len word \<Rightarrow> 'f word \<Rightarrow> bool" where
  "sf_less a b \<longleftrightarrow>
     (if inf_sf a then sf_sign a \<and> \<not> (inf_sf b \<and> sf_sign b)
      else if inf_sf b then \<not> sf_sign b
      else sf_value a < sf_value b)"

definition sf_equal :: "'f::len word \<Rightarrow> 'f word \<Rightarrow> bool" where
  "sf_equal a b \<longleftrightarrow> (if inf_sf a \<or> inf_sf b then a = b else sf_value a = sf_value b)"

text \<open>An operand is a NaN, an infinity or finite.\<close>

lemmas specials = isnan_sf_def inf_sf_def finite_sf_def

section \<open>Signalling NaNs\<close>

context float_format
begin

lemma quiet_bit: "sf_mant (a :: 'f word) AND QNAN_MASK = 0 \<longleftrightarrow> even (unat a div 2 ^ (MANT_SIZE TYPE('f) - 1))"
proof -
  let ?k = "MANT_SIZE TYPE('f) - 1"
  have k: "?k < MANT_SIZE TYPE('f)" "?k < LENGTH('f)" using sizes by simp_all
  have "sf_mant a AND QNAN_MASK = a AND (mask (MANT_SIZE TYPE('f)) AND push_bit ?k 1)"
    by (simp only: sf_mant_def MANT_MASK_def QNAN_MASK_def mask_eq_exp_minus_1 push_bit_of_1 and.assoc)
  also have "mask (MANT_SIZE TYPE('f)) AND push_bit ?k 1 = (2 ^ ?k :: 'f word)"
    using k by (intro bit_word_eqI) (auto simp: bit_simps)
  finally have "sf_mant a AND QNAN_MASK = 0 \<longleftrightarrow> \<not> bit a ?k" by (simp only: and_exp_eq_0_iff_not_bit)
  also have "bit a ?k \<longleftrightarrow> bit (unat a) ?k" using k by (simp add: bit_unsigned_iff)
  finally show ?thesis by (simp add: bit_iff_odd)
qed

lemma signan_iff: "issignan_sf (a :: 'f word) \<longleftrightarrow> isnan_sf a \<and> sf_mant a AND QNAN_MASK = 0"
proof -
  let ?M = "MANT_SIZE TYPE('f)" and ?R = "RND_SIZE TYPE('f)" and ?q = "unat a div 2 ^ (MANT_SIZE TYPE('f) - 1)"
  have e: "EXP_SIZE TYPE('f) + 1 = Suc (?R + 1)" using sizes by simp
  have M: "?q div 2 = unat a div 2 ^ ?M" using sizes by (simp flip: div_mult2_eq power_Suc2)
  have f: "unat (drop_bit (?M - 1) a AND (push_bit (EXP_SIZE TYPE('f) + 1) 1 - 1)) = 2 * (unat a div 2 ^ ?M mod 2 ^ (?R + 1)) + ?q mod 2"
    unfolding low_mask_nat unat_drop e power_Suc mod_mult2_eq M by simp
  have "int (2 * (2 ^ (?R + 1) - 1)) = 2 * EXP_MASK TYPE('f)" by (simp add: exp_mask of_nat_diff)
  then have "of_int (2 * EXP_MASK TYPE('f)) = (of_nat (2 * (2 ^ (?R + 1) - 1)) :: 'f word)"
    by (metis of_int_of_nat_eq)
  moreover have "2 * (2 ^ (?R + 1) - 1) < (2 :: nat) ^ LENGTH('f)"
  proof -
    have "(2 :: nat) ^ (?R + 2) \<le> 2 ^ LENGTH('f)" using sizes by (intro power_increasing) simp_all
    moreover have "(2 :: nat) ^ (?R + 2) = 2 * 2 ^ (?R + 1)" by simp
    moreover have "0 < (2 :: nat) ^ (?R + 1)" by (rule zero_less_power) simp
    ultimately show ?thesis by linarith
  qed
  ultimately have m: "unat (of_int (2 * EXP_MASK TYPE('f)) :: 'f word) = 2 * (2 ^ (?R + 1) - 1)"
    by (simp only: unat_of_nat mod_less)
  have x: "sf_exp a = EXP_MASK TYPE('f) \<longleftrightarrow> unat a div 2 ^ ?M mod 2 ^ (?R + 1) = 2 ^ (?R + 1) - 1"
  proof -
    have "EXP_MASK TYPE('f) = int (2 ^ (?R + 1) - 1)" by (simp add: exp_mask of_nat_diff)
    then show ?thesis unfolding exp_eq by (simp only: of_nat_eq_iff)
  qed
  have "2 * y + q mod 2 = 2 * z \<longleftrightarrow> y = z \<and> even q" for y z q :: nat by presburger
  then have "issignan_sf a \<longleftrightarrow> (sf_exp a = EXP_MASK TYPE('f) \<and> even ?q) \<and> a AND MANT_MASK \<noteq> 0"
    unfolding issignan_sf_def Let_def word_unat_eq_iff [of "drop_bit _ _ AND _"] f m x by simp
  then show ?thesis unfolding isnan_sf_def quiet_bit by (auto simp: sf_mant_def)
qed


section \<open>The special operands\<close>

text \<open>The words of the special results.\<close>

lemma pack_signed_inf: "pack_sf neg (EXP_MASK TYPE('f)) 0 = (signed_inf neg :: 'f word)"
proof -
  have "(push_bit (MANT_SIZE TYPE('f)) (of_int (EXP_MASK TYPE('f))) :: 'f word) = of_int (EXP_MASK TYPE('f) * 2 ^ MANT_SIZE TYPE('f))"
    by (simp add: push_bit_eq_mult)
  then show ?thesis by (simp add: pack_sf_def signed_inf_def SIGN_MASK_def)
qed

lemma pack_zero: "pack_sf neg 0 0 = (if neg then SIGN_MASK else 0 :: 'f word)"
  by (simp add: pack_sf_def SIGN_MASK_def)

lemma zero_finite: "is_zero_sf (a :: 'f word) \<Longrightarrow> finite_sf a"
proof -
  have "(1 :: int) \<le> 2 ^ RND_SIZE TYPE('f)" by (rule one_le_power) simp
  then have "0 < EXP_MASK TYPE('f)" unfolding exp_mask by linarith
  then show "is_zero_sf a \<Longrightarrow> finite_sf a" by (simp add: is_zero_sf_def finite_sf_def)
qed

lemma zero_word: "is_zero_sf (a :: 'f word) \<Longrightarrow> a = (if sf_sign a then SIGN_MASK else 0)"
  using unpack_pack [of a "sf_sign a" 0 0] by (simp add: is_zero_sf_def unpack_sf_def pack_zero)

lemma result_exact: "finite_sf (a :: 'f word) \<Longrightarrow> ieee_result (sf_sign a) (sf_value a) rm fl = (a, fl)"
  using zero_word [of a] value_0 [of a] value_neg [of a] abs_value [of a] ieee_round_exact [of a rm fl]
  by (cases "is_zero_sf a") (simp_all add: ieee_result_def)

lemma mul_ieee: "mul_sf a (b :: 'f word) rm fl = ieee_mul a b rm fl"
proof (cases "finite_sf a \<and> finite_sf b")
  case True
  then show ?thesis by (simp add: ieee_mul_def mul_correct isnan_sf_def inf_sf_def finite_sf_def)
next
  case False
  then show ?thesis using zero_finite
    by (auto simp: ieee_mul_def mul_sf_def Let_def specials invalid_def nan_result_def pack_signed_inf)
qed


lemma signed_inf_word: "inf_sf (a :: 'f word) \<Longrightarrow> signed_inf (sf_sign a) = a"
  using unpack_pack [of a "sf_sign a" "EXP_MASK TYPE('f)" 0]
  by (simp add: specials unpack_sf_def pack_signed_inf)

lemma div_ieee: "div_sf a (b :: 'f word) rm fl = ieee_div a b rm fl"
proof (cases "finite_sf a \<and> finite_sf b \<and> \<not> is_zero_sf b")
  case True
  then show ?thesis by (simp add: ieee_div_def div_correct specials)
next
  case False
  then show ?thesis using zero_finite
    by (auto simp: ieee_div_def div_sf_def Let_def specials invalid_def nan_result_def pack_signed_inf pack_zero ieee_result_def)
qed

lemma sqrt_ieee: "sqrt_sf (a :: 'f word) rm fl = ieee_sqrt a rm fl"
proof (cases "finite_sf a \<and> (is_zero_sf a \<or> \<not> sf_sign a)")
  case True
  then have "0 \<le> sf_value a" using value_0 [of a] value_neg [of a] by force
  with True show ?thesis by (auto simp: ieee_sqrt_def sqrt_correct specials)
next
  case False
  then show ?thesis using zero_finite
    by (auto simp: ieee_sqrt_def sqrt_sf_def Let_def specials invalid_def nan_result_def)
qed

lemma fma_ieee: "fma_sf a b (c :: 'f word) rm fl = ieee_fma a b c rm fl"
proof (cases "finite_sf a \<and> finite_sf b \<and> finite_sf c")
  case True
  then show ?thesis by (simp add: ieee_fma_def fma_correct specials Let_def)
next
  case False
  have c: "inf_sf c \<Longrightarrow> pack_sf (sf_sign c) (EXP_MASK TYPE('f)) 0 = c"
    by (simp only: pack_signed_inf signed_inf_word)
  from False show ?thesis using zero_finite c
    by (auto simp: ieee_fma_def fma_sf_def Let_def specials invalid_def nan_result_def pack_signed_inf)
qed

text \<open>Addition first orders its operands by magnitude: a NaN or an infinity comes first.\<close>

lemma word_mag_less:
  assumes "sf_exp a < sf_exp b \<or> sf_exp a = sf_exp b \<and> unat (sf_mant a) < unat (sf_mant (b :: 'f word))"
  shows "a AND NOT SIGN_MASK < b AND NOT SIGN_MASK"
proof -
  let ?P = "2 ^ MANT_SIZE TYPE('f) :: int"
  have m: "int (unat (sf_mant a)) < ?P" using mant_less [of a] by (metis of_nat_less_iff of_nat_numeral of_nat_power)
  have "sf_exp a * ?P + int (unat (sf_mant a)) < sf_exp b * ?P + int (unat (sf_mant b))"
  proof (cases "sf_exp a < sf_exp b")
    case True
    then have "(sf_exp a + 1) * ?P \<le> sf_exp b * ?P" by (intro mult_right_mono) simp_all
    with m show ?thesis unfolding distrib_right by linarith
  next
    case False
    with assms have "sf_exp a = sf_exp b" "int (unat (sf_mant a)) < int (unat (sf_mant b))" by (simp_all only: of_nat_less_iff simp_thms)
    then show ?thesis by (simp only: add_less_cancel_left)
  qed
  then show ?thesis unfolding word_less_nat_alt of_nat_less_iff [where 'a = int, symmetric] mag_bits .
qed

lemma mag_special: "\<not> finite_sf (a :: 'f word) \<Longrightarrow> finite_sf b \<Longrightarrow> b AND NOT SIGN_MASK < a AND NOT SIGN_MASK"
  using exp_range [of b] by (intro word_mag_less) (auto simp: finite_sf_def)

lemma mag_nan: "isnan_sf (a :: 'f word) \<Longrightarrow> inf_sf b \<Longrightarrow> b AND NOT SIGN_MASK < a AND NOT SIGN_MASK"
  by (intro word_mag_less) (auto simp: specials unat_gt_0)

lemma add_ordered:
  assumes "\<not> finite_sf (a :: 'f word)" "\<not> a AND NOT SIGN_MASK < b AND NOT SIGN_MASK"
  shows "add_sf a b rm fl = ieee_add a b rm fl"
proof -
  have e: "sf_exp a = EXP_MASK TYPE('f)" using assms by (simp add: finite_sf_def)
  have l: "add_sf a b rm fl =
     (if sf_mant a \<noteq> 0 then (F_QNAN, if sf_mant a AND QNAN_MASK = 0 \<or> issignan_sf b then fl OR FFLAG_INVALID_OP else fl)
      else if sf_exp b = EXP_MASK TYPE('f) \<and> sf_sign a \<noteq> sf_sign b then (F_QNAN, fl OR FFLAG_INVALID_OP)
      else (a, fl))"
    using e assms(2) unfolding add_sf_def Let_def by simp
  show ?thesis
  proof (cases "isnan_sf a")
    case True
    then have "sf_mant a AND QNAN_MASK = 0 \<longleftrightarrow> issignan_sf a" "sf_mant a \<noteq> 0"
      by (simp_all add: signan_iff isnan_sf_def)
    with True show ?thesis unfolding l ieee_add_def nan_result_def by simp
  next
    case False
    then have "\<not> isnan_sf b" using assms mag_special [of b a] mag_nan [of b a] by (auto simp: inf_sf_def)
    with False e show ?thesis unfolding l ieee_add_def specials invalid_def nan_result_def by auto
  qed
qed

lemma add_swap:
  assumes "a AND NOT SIGN_MASK < (b :: 'f word) AND NOT SIGN_MASK"
  shows "add_sf a b rm fl = add_sf b a rm fl"
  using assms less_not_sym [OF assms] by (simp add: add_sf_def)

lemma mag_inf: "inf_sf (a :: 'f word) \<Longrightarrow> inf_sf b \<Longrightarrow> \<not> a AND NOT SIGN_MASK < b AND NOT SIGN_MASK"
  unfolding word_less_nat_alt of_nat_less_iff [where 'a = int, symmetric] mag_bits by (simp add: specials)

lemma add_ieee: "add_sf a (b :: 'f word) rm fl = ieee_add a b rm fl"
proof (cases "finite_sf a \<and> finite_sf b")
  case True
  then show ?thesis by (simp add: ieee_add_def add_correct specials)
next
  case False
  show ?thesis
  proof (cases "a AND NOT SIGN_MASK < b AND NOT SIGN_MASK")
    case True
    with False have b: "\<not> finite_sf b" using mag_special [of a b] less_not_sym [of "a AND NOT SIGN_MASK"] by blast
    have "\<not> (inf_sf a \<and> inf_sf b)" using True by (auto dest: mag_inf)
    then have "ieee_add b a rm fl = ieee_add a b rm fl"
      using b by (auto simp: ieee_add_def disj_commute specials)
    moreover have "add_sf b a rm fl = ieee_add b a rm fl"
      using b less_not_sym [OF True] by (rule add_ordered)
    ultimately show ?thesis by (simp only: add_swap [OF True])
  next
    case nlt: False
    with False have "\<not> finite_sf a" using mag_special [of b a] by blast
    then show ?thesis using nlt by (rule add_ordered)
  qed
qed


lemma negate_special:
  "isnan_sf (b XOR SIGN_MASK :: 'f word) = isnan_sf b" "inf_sf (b XOR SIGN_MASK :: 'f word) = inf_sf b"
  "issignan_sf (b XOR SIGN_MASK :: 'f word) = issignan_sf b" "sf_value (b XOR SIGN_MASK :: 'f word) = - sf_value b"
  by (simp_all add: specials signan_iff negate sf_value_def sf_mag_def)

lemma sub_ieee: "sub_sf a (b :: 'f word) rm fl = ieee_sub a b rm fl"
proof -
  have "inf_sf b \<Longrightarrow> b XOR SIGN_MASK = signed_inf (\<not> sf_sign b)"
    using signed_inf_word [of "b XOR SIGN_MASK"] by (simp add: negate negate_special)
  then show ?thesis by (simp add: sub_sf_def add_ieee ieee_add_def ieee_sub_def negate negate_special)
qed

section \<open>Conversions\<close>

lemma to_int_ieee:
  assumes i: "int LENGTH('i) \<le> sf_bias TYPE('f)" and f: "int LENGTH('f) \<le> sf_bias TYPE('f)"
  shows "(internal_cvt_sf_i u (a :: 'f word) rm fl :: 'i::len word \<times> u32) = ieee_to_int u a rm fl"
proof (cases "finite_sf a")
  case True
  then show ?thesis by (simp add: ieee_to_int_def cvt_to_int_correct specials)
next
  case False
  let ?neg = "sf_sign a \<and> \<not> isnan_sf a"
  define x where "x = EXP_MASK TYPE('f) - EXP_MASK TYPE('f) div 2 - int (MANT_SIZE TYPE('f))"
  have "EXP_MASK TYPE('f) - EXP_MASK TYPE('f) div 2 = sf_bias TYPE('f) + 1" by (simp add: exp_mask)
  then have x: "0 \<le> x" "\<not> x \<le> int LENGTH('i) - 1 - int (MANT_SIZE TYPE('f))"
    using i f sizes(1) unfolding x_def by linarith+
  have "0 \<le> EXP_MASK TYPE('f) div 2" "int (MANT_SIZE TYPE('f)) \<le> EXP_MASK TYPE('f)" "EXP_MASK TYPE('f) \<noteq> 0"
    using f sizes(1) unfolding exp_mask by simp_all
  with False have e: "sf_exp a = EXP_MASK TYPE('f)" "sf_exp a \<noteq> 0" by (simp_all add: finite_sf_def)
  have "(internal_cvt_sf_i u a rm fl :: 'i word \<times> u32) = (int_limit u ?neg, fl OR FFLAG_INVALID_OP)"
    unfolding internal_cvt_sf_i_def Let_def e if_not_P [OF e(2) [unfolded e(1)]] x_def [symmetric] if_P [OF x(1)] if_not_P [OF x(2)]
    by (simp add: int_limit_def)
  then show ?thesis using False by (simp add: ieee_to_int_def specials int_limit_word)
qed

section \<open>Comparisons\<close>

lemma code_inf:
  assumes "inf_sf (a :: 'f word)" "\<not> isnan_sf b"
  shows "sf_code a < sf_code b \<longleftrightarrow> sf_sign a \<and> \<not> (inf_sf b \<and> sf_sign b)"
    "sf_code b < sf_code a \<longleftrightarrow> \<not> sf_sign a \<and> \<not> (inf_sf b \<and> \<not> sf_sign b)"
    "sf_code a = sf_code b \<longleftrightarrow> a = b"
proof -
  define k where "k = (\<lambda>x :: 'f word. int (unat (x AND NOT SIGN_MASK)))"
  have "\<not> is_zero_sf a" using assms(1) zero_finite [of a] by (auto simp: inf_sf_def)
  then have a: "0 < k a" unfolding k_def zero_bits of_nat_0_less_iff neq0_conv .
  have b: "0 \<le> k b" "if inf_sf b then k b = k a else k b < k a"
  proof -
    show "0 \<le> k b" by (simp add: k_def)
    show "if inf_sf b then k b = k a else k b < k a"
    proof (cases "inf_sf b")
      case True
      with assms(1) show ?thesis unfolding k_def mag_bits by (simp add: specials)
    next
      case False
      then have "b AND NOT SIGN_MASK < a AND NOT SIGN_MASK" using assms by (intro mag_special) (auto simp: specials)
      with False show ?thesis unfolding k_def word_less_nat_alt of_nat_less_iff by simp
    qed
  qed
  have c: "sf_code x = (if sf_sign x then - k x else k x)" for x by (simp only: sf_code_def k_def)
  have w: "a = b \<longleftrightarrow> sf_sign a = sf_sign b \<and> k a = k b"
    using split_sign [of a] split_sign [of b] unfolding k_def by (metis of_nat_eq_iff unsigned_word_eqI)
  show "sf_code a < sf_code b \<longleftrightarrow> sf_sign a \<and> \<not> (inf_sf b \<and> sf_sign b)"
    "sf_code b < sf_code a \<longleftrightarrow> \<not> sf_sign a \<and> \<not> (inf_sf b \<and> \<not> sf_sign b)"
    "sf_code a = sf_code b \<longleftrightarrow> a = b"
    using a b unfolding w c by (auto split: if_splits)
qed

lemma code_sf_less:
  assumes "\<not> isnan_sf (a :: 'f word)" "\<not> isnan_sf b"
  shows "sf_code a < sf_code b \<longleftrightarrow> sf_less a b" "sf_code a = sf_code b \<longleftrightarrow> sf_equal a b"
proof -
  show "sf_code a < sf_code b \<longleftrightarrow> sf_less a b"
    using code_inf(1) [of a b] code_inf(2) [of b a] assms by (simp add: sf_less_def code_less [symmetric])
  show "sf_code a = sf_code b \<longleftrightarrow> sf_equal a b"
  proof (cases "inf_sf a")
    case True
    then show ?thesis using code_inf(3) [of a b] assms by (simp add: sf_equal_def)
  next
    case False
    then show ?thesis using code_inf(3) [of b a] assms by (auto simp: sf_equal_def code_eq [symmetric])
  qed
qed

lemma lt_ieee:
  "lt_sf a (b :: 'f word) fl = (if isnan_sf a \<or> isnan_sf b then (False, fl OR FFLAG_INVALID_OP) else (sf_less a b, fl))"
  using lt_code [of a b fl] code_sf_less [of a b] by (auto simp: lt_sf_def)

lemma le_ieee:
  "le_sf a (b :: 'f word) fl = (if isnan_sf a \<or> isnan_sf b then (False, fl OR FFLAG_INVALID_OP) else (\<not> sf_less b a, fl))"
  using le_code [of a b fl] code_sf_less [of b a] by (auto simp: le_sf_def)

lemma eq_ieee:
  "eq_quiet_sf a (b :: 'f word) fl =
     (if isnan_sf a \<or> isnan_sf b then (False, if issignan_sf a \<or> issignan_sf b then fl OR FFLAG_INVALID_OP else fl)
      else (sf_equal a b, fl))"
  using eq_code [of a b fl] code_sf_less [of a b] by (auto simp: eq_quiet_sf_def)

lemma min_ieee:
  assumes "\<not> isnan_sf (a :: 'f word)" "\<not> isnan_sf b"
  shows "\<exists>r. min_sf a b fl t = (r, fl) \<and> (r = a \<or> r = b) \<and> \<not> sf_less a r \<and> \<not> sf_less b r \<and>
    (is_zero_sf a \<and> is_zero_sf b \<longrightarrow> sf_sign r = (sf_sign a \<or> sf_sign b))"
proof -
  from min_code [OF assms, of fl t] obtain r where r: "min_sf a b fl t = (r, fl)" "r = a \<or> r = b"
    "sf_code r \<le> sf_code a" "sf_code r \<le> sf_code b" "is_zero_sf a \<and> is_zero_sf b \<longrightarrow> sf_sign r = (sf_sign a \<or> sf_sign b)" by blast
  moreover have "\<not> isnan_sf r" using assms r(2) by blast
  ultimately show ?thesis using assms by (auto simp: code_sf_less [symmetric] not_less)
qed

lemma max_ieee:
  assumes "\<not> isnan_sf (a :: 'f word)" "\<not> isnan_sf b"
  shows "\<exists>r. max_sf a b fl t = (r, fl) \<and> (r = a \<or> r = b) \<and> \<not> sf_less r a \<and> \<not> sf_less r b \<and>
    (is_zero_sf a \<and> is_zero_sf b \<longrightarrow> sf_sign r = (sf_sign a \<and> sf_sign b))"
proof -
  from max_code [OF assms, of fl t] obtain r where r: "max_sf a b fl t = (r, fl)" "r = a \<or> r = b"
    "sf_code a \<le> sf_code r" "sf_code b \<le> sf_code r" "is_zero_sf a \<and> is_zero_sf b \<longrightarrow> sf_sign r = (sf_sign a \<and> sf_sign b)" by blast
  moreover have "\<not> isnan_sf r" using assms r(2) by blast
  ultimately show ?thesis using assms by (auto simp: code_sf_less [symmetric] not_less)
qed

end

section \<open>Conversions between formats\<close>

context format_pair
begin

lemma narrow_ieee: "(cvt_sf_narrow (a :: 'f word) rm fl :: 'g word \<times> u32) = ieee_convert a rm fl"
proof (cases "finite_sf a")
  case True
  then show ?thesis by (simp add: ieee_convert_def narrow_correct specials)
next
  case False
  then show ?thesis
    by (auto simp: ieee_convert_def cvt_sf_narrow_def specials nan_result_def g.pack_signed_inf)
qed

lemma widen_ieee: "(cvt_sf_widen (a :: 'g word) fl :: 'f word \<times> u32) = ieee_convert a rm fl"
proof (cases "finite_sf a")
  case True
  obtain w fl' where e: "cvt_sf_widen a fl = (w :: 'f word, fl')" by (metis prod.exhaust)
  from widen_correct [OF True e] have w: "finite_sf w" "sf_sign w = sf_sign a" "sf_value w = sf_value a" "fl' = fl" by blast+
  have "ieee_result (sf_sign w) (sf_value w) rm fl = (w, fl)" using w(1) by (rule f.result_exact)
  with True w e show ?thesis by (simp add: ieee_convert_def specials)
next
  case False
  then show ?thesis
    by (auto simp: ieee_convert_def cvt_sf_widen_def specials nan_result_def f.pack_signed_inf)
qed

end

end
