(* ===== verification/Isa_F.thy ===== *)
theory Isa_F
  imports Isa Float_Special
begin

text \<open>
  The floating-point instructions of the F and D extensions as a specification: an abstract syntax,
  the IEEE 754 value each computes (from \<open>Float_Special\<close>), its effect on the machine and its
  encoding. Single-precision values are NaN-boxed in 64-bit registers. Nothing here is translated
  from the C code; the loads and stores are in \<open>Isa\<close>.
\<close>

section \<open>Instructions\<close>

datatype rv_fmt = Single | Double
datatype rv_farith = FADD | FSUB | FMUL | FDIV
datatype rv_ffma = FMADD | FMSUB | FNMSUB | FNMADD
datatype rv_fsgnj = FSGNJ | FSGNJN | FSGNJX
datatype rv_fminmax = FMIN | FMAX
datatype rv_fcmp = FLE | FLT | FEQ
datatype rv_fint = FW | FWU | FL | FLU

type_synonym rm_field = "3 word"

datatype (plugins only: size) rv_fp_insn =
    Farith rv_farith rv_fmt regno regno regno rm_field
  | Fsqrt rv_fmt regno regno rm_field
  | Ffma rv_ffma rv_fmt regno regno regno regno rm_field
  | Fsgnj rv_fsgnj rv_fmt regno regno regno
  | Fminmax rv_fminmax rv_fmt regno regno regno
  | Fcmp rv_fcmp rv_fmt regno regno regno
  | Fcvt_to_int rv_fint rv_fmt regno regno rm_field
  | Fcvt_from_int rv_fint rv_fmt regno regno rm_field
  | Fcvt_s_d regno regno rm_field
  | Fcvt_d_s regno regno rm_field
  | Fclass rv_fmt regno regno
  | Fmv_to_x rv_fmt regno regno
  | Fmv_from_x rv_fmt regno regno

section \<open>Values\<close>

primrec farith_sem :: "rv_farith \<Rightarrow> 'f::len word \<Rightarrow> 'f word \<Rightarrow> RoundingModeEnum \<Rightarrow> u32 \<Rightarrow> 'f word \<times> u32" where
  "farith_sem FADD = ieee_add"
| "farith_sem FSUB = ieee_sub"
| "farith_sem FMUL = ieee_mul"
| "farith_sem FDIV = ieee_div"

definition negate_sf :: "'f::len word \<Rightarrow> 'f word" where
  "negate_sf a = flip_bit (LENGTH('f) - 1) a"

primrec ffma_sem ::
  "rv_ffma \<Rightarrow> 'f::len word \<Rightarrow> 'f word \<Rightarrow> 'f word \<Rightarrow> RoundingModeEnum \<Rightarrow> u32 \<Rightarrow> 'f word \<times> u32" where
  "ffma_sem FMADD a b c = ieee_fma a b c"
| "ffma_sem FMSUB a b c = ieee_fma a b (negate_sf c)"
| "ffma_sem FNMSUB a b c = ieee_fma (negate_sf a) b c"
| "ffma_sem FNMADD a b c = ieee_fma (negate_sf a) b (negate_sf c)"

definition with_sign :: "bool \<Rightarrow> 'f::len word \<Rightarrow> 'f word" where
  "with_sign neg a = (if neg then Bit_Operations.set_bit (LENGTH('f) - 1) a else unset_bit (LENGTH('f) - 1) a)"

primrec fsgnj_sem :: "rv_fsgnj \<Rightarrow> 'f::len word \<Rightarrow> 'f word \<Rightarrow> 'f word" where
  "fsgnj_sem FSGNJ a b = with_sign (sf_sign b) a"
| "fsgnj_sem FSGNJN a b = with_sign (\<not> sf_sign b) a"
| "fsgnj_sem FSGNJX a b = with_sign (sf_sign a \<noteq> sf_sign b) a"

text \<open>The smaller and the larger of two numbers, with \<open>-0\<close> below \<open>+0\<close>; a single NaN is ignored.\<close>

definition below :: "'f::len word \<Rightarrow> 'f word \<Rightarrow> bool" where
  "below a b \<longleftrightarrow> sf_less a b \<or> (sf_equal a b \<and> sf_sign a \<and> \<not> sf_sign b)"

primrec fminmax_sem :: "rv_fminmax \<Rightarrow> 'f::len word \<Rightarrow> 'f word \<Rightarrow> u32 \<Rightarrow> 'f word \<times> u32" where
  "fminmax_sem FMIN a b fl =
     (if isnan_sf a \<and> isnan_sf b then F_QNAN else if isnan_sf a then b else if isnan_sf b then a
      else if below b a then b else a,
      if issignan_sf a \<or> issignan_sf b then fl OR FFLAG_INVALID_OP else fl)"
| "fminmax_sem FMAX a b fl =
     (if isnan_sf a \<and> isnan_sf b then F_QNAN else if isnan_sf a then b else if isnan_sf b then a
      else if below a b then b else a,
      if issignan_sf a \<or> issignan_sf b then fl OR FFLAG_INVALID_OP else fl)"

definition cmp_sem :: "rv_fcmp \<Rightarrow> 'f::len word \<Rightarrow> 'f word \<Rightarrow> u32 \<Rightarrow> bool \<times> u32" where
  "cmp_sem c a b fl =
     (if isnan_sf a \<or> isnan_sf b then
        (False, if c \<noteq> FEQ \<or> issignan_sf a \<or> issignan_sf b then fl OR FFLAG_INVALID_OP else fl)
      else (case c of FLE \<Rightarrow> \<not> sf_less b a | FLT \<Rightarrow> sf_less a b | FEQ \<Rightarrow> sf_equal a b, fl))"

text \<open>Words of 32 bits are sign-extended, unsigned ones too.\<close>

primrec to_int_sem :: "rv_fint \<Rightarrow> 'f::len word \<Rightarrow> RoundingModeEnum \<Rightarrow> u32 \<Rightarrow> u64 \<times> u32" where
  "to_int_sem FW a rm fl = map_prod (scast :: u32 \<Rightarrow> u64) id (ieee_to_int False a rm fl)"
| "to_int_sem FWU a rm fl = map_prod (scast :: u32 \<Rightarrow> u64) id (ieee_to_int True a rm fl)"
| "to_int_sem FL a rm fl = ieee_to_int False a rm fl"
| "to_int_sem FLU a rm fl = ieee_to_int True a rm fl"

primrec from_int :: "rv_fint \<Rightarrow> u64 \<Rightarrow> int" where
  "from_int FW v = sint (ucast v :: u32)"
| "from_int FWU v = uint (ucast v :: u32)"
| "from_int FL v = sint v"
| "from_int FLU v = uint v"

text \<open>The class of a number, as the bit number of its mask.\<close>

definition class_sem :: "'f::len word \<Rightarrow> nat" where
  "class_sem a =
     (if isnan_sf a then if issignan_sf a then 8 else 9
      else if inf_sf a then if sf_sign a then 0 else 7
      else if is_zero_sf a then if sf_sign a then 3 else 4
      else if sf_mag a < 2 powi (1 - sf_bias TYPE('f)) then if sf_sign a then 2 else 5
      else if sf_sign a then 1 else 6)"

section \<open>Registers\<close>

definition box :: "u32 \<Rightarrow> u64" where
  "box v = push_bit 32 (mask 32) OR ucast v"

definition unbox :: "u64 \<Rightarrow> u32" where
  "unbox v = (if drop_bit 32 v = mask 32 then ucast v else 0x7fc00000)"

text \<open>The rounding mode of an instruction: the field, or the dynamic mode when the field is 7.\<close>

definition rounding :: "'p Interp \<Rightarrow> rm_field \<Rightarrow> RoundingModeEnum option" where
  "rounding s rm =
     (let m = (if rm = 7 then unat (frm s) else unat rm)
      in if m < 5 then Some ([RM_RNE, RM_RTZ, RM_RDN, RM_RUP, RM_RMM] ! m) else None)"

text \<open>A result with the accrued flags, to a floating-point or an integer register.\<close>

definition put_s :: "regno \<Rightarrow> u32 \<times> u32 \<Rightarrow> 'p Interp \<Rightarrow> outcome \<times> 'p Interp" where
  "put_s rd v s = write_f 4 rd (box (fst v)) (s\<lparr>fflags := snd v\<rparr>)"

definition put_d :: "regno \<Rightarrow> u64 \<times> u32 \<Rightarrow> 'p Interp \<Rightarrow> outcome \<times> 'p Interp" where
  "put_d rd v s = write_f 4 rd (fst v) (s\<lparr>fflags := snd v\<rparr>)"

definition put_x :: "regno \<Rightarrow> u64 \<times> u32 \<Rightarrow> 'p Interp \<Rightarrow> outcome \<times> 'p Interp" where
  "put_x rd v s = write_x 4 rd (fst v) (s\<lparr>fflags := snd v, fs := 3\<rparr>)"

abbreviation sreg :: "'p Interp \<Rightarrow> regno \<Rightarrow> u32" where "sreg s r \<equiv> unbox (freg s r)"

section \<open>Effects\<close>

text \<open>\<open>rounded s rm f\<close> is illegal when the rounding mode is.\<close>

definition rounded :: "'p Interp \<Rightarrow> rm_field \<Rightarrow> (RoundingModeEnum \<Rightarrow> outcome \<times> 'p Interp) \<Rightarrow> outcome \<times> 'p Interp" where
  "rounded s rm f = (case rounding s rm of None \<Rightarrow> illegal_insn s | Some m \<Rightarrow> f m)"

primrec fp_effect :: "rv_fp_insn \<Rightarrow> 'p Interp \<Rightarrow> outcome \<times> 'p Interp" where
  "fp_effect (Farith opn fmt rd rs1 rs2 rm) s = rounded s rm (\<lambda>m.
     case fmt of Single \<Rightarrow> put_s rd (farith_sem opn (sreg s rs1) (sreg s rs2) m (fflags s)) s
     | Double \<Rightarrow> put_d rd (farith_sem opn (freg s rs1) (freg s rs2) m (fflags s)) s)"
| "fp_effect (Fsqrt fmt rd rs1 rm) s = rounded s rm (\<lambda>m.
     case fmt of Single \<Rightarrow> put_s rd (ieee_sqrt (sreg s rs1) m (fflags s)) s
     | Double \<Rightarrow> put_d rd (ieee_sqrt (freg s rs1) m (fflags s)) s)"
| "fp_effect (Ffma opn fmt rd rs1 rs2 rs3 rm) s = rounded s rm (\<lambda>m.
     case fmt of Single \<Rightarrow> put_s rd (ffma_sem opn (sreg s rs1) (sreg s rs2) (sreg s rs3) m (fflags s)) s
     | Double \<Rightarrow> put_d rd (ffma_sem opn (freg s rs1) (freg s rs2) (freg s rs3) m (fflags s)) s)"
| "fp_effect (Fsgnj opn fmt rd rs1 rs2) s =
     (case fmt of Single \<Rightarrow> write_f 4 rd (box (fsgnj_sem opn (sreg s rs1) (sreg s rs2))) s
      | Double \<Rightarrow> write_f 4 rd (fsgnj_sem opn (freg s rs1) (freg s rs2)) s)"
| "fp_effect (Fminmax opn fmt rd rs1 rs2) s =
     (case fmt of Single \<Rightarrow> put_s rd (fminmax_sem opn (sreg s rs1) (sreg s rs2) (fflags s)) s
      | Double \<Rightarrow> put_d rd (fminmax_sem opn (freg s rs1) (freg s rs2) (fflags s)) s)"
| "fp_effect (Fcmp opn fmt rd rs1 rs2) s =
     put_x rd (map_prod of_bool id
       (case fmt of Single \<Rightarrow> cmp_sem opn (sreg s rs1) (sreg s rs2) (fflags s)
        | Double \<Rightarrow> cmp_sem opn (freg s rs1) (freg s rs2) (fflags s))) s"
| "fp_effect (Fcvt_to_int t fmt rd rs1 rm) s = rounded s rm (\<lambda>m.
     put_x rd (case fmt of Single \<Rightarrow> to_int_sem t (sreg s rs1) m (fflags s)
               | Double \<Rightarrow> to_int_sem t (freg s rs1) m (fflags s)) s)"
| "fp_effect (Fcvt_from_int t fmt rd rs1 rm) s = rounded s rm (\<lambda>m.
     case fmt of Single \<Rightarrow> put_s rd (ieee_result False (real_of_int (from_int t (xreg s rs1))) m (fflags s)) s
     | Double \<Rightarrow> put_d rd (ieee_result False (real_of_int (from_int t (xreg s rs1))) m (fflags s)) s)"
| "fp_effect (Fcvt_s_d rd rs1 rm) s = rounded s rm (\<lambda>m. put_s rd (ieee_convert (freg s rs1) m (fflags s)) s)"
| "fp_effect (Fcvt_d_s rd rs1 rm) s = rounded s rm (\<lambda>m. put_d rd (ieee_convert (sreg s rs1) m (fflags s)) s)"
| "fp_effect (Fclass fmt rd rs1) s =
     write_x 4 rd (2 ^ (case fmt of Single \<Rightarrow> class_sem (sreg s rs1) | Double \<Rightarrow> class_sem (freg s rs1))) s"
| "fp_effect (Fmv_to_x fmt rd rs1) s =
     write_x 4 rd (case fmt of Single \<Rightarrow> scast (ucast (freg s rs1) :: u32) | Double \<Rightarrow> freg s rs1) s"
| "fp_effect (Fmv_from_x fmt rd rs1) s =
     write_f 4 rd (case fmt of Single \<Rightarrow> box (ucast (xreg s rs1)) | Double \<Rightarrow> xreg s rs1) s"

text \<open>Every one of them is illegal while the floating-point unit is off.\<close>

definition fp_exec :: "rv_fp_insn \<Rightarrow> 'p Interp \<Rightarrow> outcome \<times> 'p Interp" where
  "fp_exec i s = (if fs s = 0 then illegal_insn s else fp_effect i s)"

section \<open>Encodings\<close>

primrec fmt_code :: "rv_fmt \<Rightarrow> 7 word" where
  "fmt_code Single = 0" | "fmt_code Double = 1"

primrec farith_code :: "rv_farith \<Rightarrow> 7 word" where
  "farith_code FADD = 0x00" | "farith_code FSUB = 0x04" | "farith_code FMUL = 0x08" | "farith_code FDIV = 0x0c"

primrec ffma_code :: "rv_ffma \<Rightarrow> 7 word" where
  "ffma_code FMADD = 0x43" | "ffma_code FMSUB = 0x47" | "ffma_code FNMSUB = 0x4b" | "ffma_code FNMADD = 0x4f"

primrec fsgnj_code :: "rv_fsgnj \<Rightarrow> 3 word" where
  "fsgnj_code FSGNJ = 0" | "fsgnj_code FSGNJN = 1" | "fsgnj_code FSGNJX = 2"

primrec fminmax_code :: "rv_fminmax \<Rightarrow> 3 word" where
  "fminmax_code FMIN = 0" | "fminmax_code FMAX = 1"

primrec fcmp_code :: "rv_fcmp \<Rightarrow> 3 word" where
  "fcmp_code FLE = 0" | "fcmp_code FLT = 1" | "fcmp_code FEQ = 2"

primrec fint_code :: "rv_fint \<Rightarrow> 5 word" where
  "fint_code FW = 0" | "fint_code FWU = 1" | "fint_code FL = 2" | "fint_code FLU = 3"

primrec fp_encode :: "rv_fp_insn \<Rightarrow> u32" where
  "fp_encode (Farith opn fmt rd rs1 rs2 rm) = enc_r (farith_code opn OR fmt_code fmt) rs2 rs1 rm rd 0x53"
| "fp_encode (Fsqrt fmt rd rs1 rm) = enc_r (0x2c OR fmt_code fmt) 0 rs1 rm rd 0x53"
| "fp_encode (Ffma opn fmt rd rs1 rs2 rs3 rm) =
     enc_r (push_bit 2 (ucast rs3) OR fmt_code fmt) rs2 rs1 rm rd (ffma_code opn)"
| "fp_encode (Fsgnj opn fmt rd rs1 rs2) = enc_r (0x10 OR fmt_code fmt) rs2 rs1 (fsgnj_code opn) rd 0x53"
| "fp_encode (Fminmax opn fmt rd rs1 rs2) = enc_r (0x14 OR fmt_code fmt) rs2 rs1 (fminmax_code opn) rd 0x53"
| "fp_encode (Fcmp opn fmt rd rs1 rs2) = enc_r (0x50 OR fmt_code fmt) rs2 rs1 (fcmp_code opn) rd 0x53"
| "fp_encode (Fcvt_to_int t fmt rd rs1 rm) = enc_r (0x60 OR fmt_code fmt) (fint_code t) rs1 rm rd 0x53"
| "fp_encode (Fcvt_from_int t fmt rd rs1 rm) = enc_r (0x68 OR fmt_code fmt) (fint_code t) rs1 rm rd 0x53"
| "fp_encode (Fcvt_s_d rd rs1 rm) = enc_r 0x20 1 rs1 rm rd 0x53"
| "fp_encode (Fcvt_d_s rd rs1 rm) = enc_r 0x21 0 rs1 rm rd 0x53"
| "fp_encode (Fclass fmt rd rs1) = enc_r (0x70 OR fmt_code fmt) 0 rs1 1 rd 0x53"
| "fp_encode (Fmv_to_x fmt rd rs1) = enc_r (0x70 OR fmt_code fmt) 0 rs1 0 rd 0x53"
| "fp_encode (Fmv_from_x fmt rd rs1) = enc_r (0x78 OR fmt_code fmt) 0 rs1 0 rd 0x53"

end
