(* ===== verification/Isa_F_Refine.thy ===== *)
theory Isa_F_Refine
  imports Isa_F Isa_Refine
begin

text \<open>
  The interpreter implements the floating-point instructions of \<open>Isa_F\<close>: \<open>exec_insn\<close> on the encoding
  of an instruction has the effect the specification gives, except for the single-precision sign
  injections, whose result the C code does not always NaN-box.
\<close>

declare of_nat_unat [simp del]

section \<open>Registers and rounding modes\<close>

definition boxed :: "u64 \<Rightarrow> bool" where
  "boxed v \<longleftrightarrow> drop_bit 32 v = mask 32"

lemma boxed_high: "v AND F32_HIGH = F32_HIGH \<longleftrightarrow> boxed v"
proof -
  have h: "F32_HIGH = push_bit 32 (mask 32)" by (simp add: mask_eq_exp_minus_1)
  have "v AND F32_HIGH = push_bit 32 (drop_bit 32 v)"
    unfolding h by (rule bit_word_eqI) (auto simp: bit_simps)
  moreover have "push_bit 32 x = push_bit 32 y \<longleftrightarrow> x = y" if "x = drop_bit 32 x'" "y = drop_bit 32 y'" for x y x' y' :: u64
  proof
    assume "push_bit 32 x = push_bit 32 y"
    then have "drop_bit 32 (push_bit 32 x) = drop_bit 32 (push_bit 32 y)" by simp
    moreover have "drop_bit 32 (push_bit 32 (drop_bit 32 z)) = drop_bit 32 z" for z :: u64
      by (rule bit_word_eqI) (auto simp: bit_simps dest: bit_imp_le_length)
    ultimately show "x = y" using that by simp
  qed simp
  moreover have "(mask 32 :: u64) = drop_bit 32 F32_HIGH" by (simp add: mask_eq_exp_minus_1)
  ultimately show ?thesis unfolding boxed_def h by metis
qed

lemma read_unbox: "read_sf32 (unat r) s = sreg s r"
  by (simp only: read_sf32_def read_fp32_def boxed_high unbox_def boxed_def [symmetric]) simp

lemma box_high: "ucast v OR F32_HIGH = box v"
  by (simp add: box_def or.commute mask_eq_exp_minus_1)

lemma flags_first: "s\<lparr>fflags := x, fp_reg := y\<rparr> = s\<lparr>fp_reg := y, fflags := x\<rparr>"
  by (cases s) simp

lemma put_s_eq: "put_s rd v s = fp_done (set_fp32 (unat rd) v s)"
  by (simp add: put_s_def write_f_def fp_done_def set_fp32_def set_fp_def box_high [symmetric] flags_first)

lemma put_d_eq: "put_d rd v s = fp_done (set_fp64 (unat rd) v s)"
  by (simp add: put_d_def write_f_def fp_done_def set_fp64_def set_fp_def flags_first)

lemma put_x_eq: "put_x rd v s = fp_done (set_rd (unat rd) (fst v) (s\<lparr>fflags := snd v\<rparr>))"
  by (simp add: put_x_def write_x_eq fp_done_def set_rd_def set_reg_def next_insn_def)

lemma with_rm_rounded: "with_rm (ucast rm) s k = rounded s rm k"
proof -
  define m where "m = (if rm = 7 then unat (frm s) else unat rm)"
  have u: "unat (ucast rm :: u32) = unat rm" "unat (ucast (frm s) :: u32) = unat (frm s)"
    using unsigned_less [of rm, where 'a = nat] unsigned_less [of "frm s", where 'a = nat]
    by (simp_all add: unsigned_ucast_eq take_bit_nat_eq_self)
  have "(ucast rm :: u32) = 7 \<longleftrightarrow> rm = 7" using u(1) by (simp add: word_unat_eq_iff)
  then have m: "(if (ucast rm :: u32) = 7 then ucast (frm s) else ucast rm) = (of_nat m :: u32)" "unat (of_nat m :: u32) = m"
    unfolding m_def using u by (simp_all add: word_unat_eq_iff of_nat_unat)
  then have "(5 :: u32) \<le> of_nat m \<longleftrightarrow> 5 \<le> m" by (simp add: word_le_nat_alt)
  moreover have "rm_of (of_nat m) = [RM_RNE, RM_RTZ, RM_RDN, RM_RUP, RM_RMM] ! m" if "m < 5"
  proof -
    from that consider "m = 0" | "m = 1" | "m = 2" | "m = 3" | "m = 4" by linarith
    then show ?thesis by cases (simp_all add: rm_of_def)
  qed
  ultimately show ?thesis
    by (auto simp: with_rm_def get_insn_rm_def m(1) Let_def rounded_def rounding_def m_def [symmetric] not_le)
qed

section \<open>Signs, minimum and maximum, classes\<close>

lemma flip_sign: "flip True SIGN_MASK a = negate_sf a" "flip False k a = a"
  by (simp_all add: flip_def negate_sf_def SIGN_MASK_def flip_bit_eq_xor)

lemma sign_masks: "FSIGN_MASK32 = SIGN_MASK" "FSIGN_MASK64 = SIGN_MASK"
  by (simp_all add: SIGN_MASK_def)

lemma sign_bit: "bit (SIGN_MASK :: 'f::len word) n \<longleftrightarrow> n = LENGTH('f) - 1"
  by (auto simp: SIGN_MASK_def bit_simps simp del: push_bit_of_1)

lemma sign_inject_value:
  "sign_inject (ucast (fsgnj_code opn)) SIGN_MASK a b = Some (fsgnj_sem opn a b)"
proof -
  have "(a AND NOT SIGN_MASK) OR (b AND SIGN_MASK) = with_sign (sf_sign b) a"
    by (rule bit_word_eqI)
      (auto simp: with_sign_def sf_sign_def sign_bit bit_and_iff bit_or_iff bit_xor_iff bit_not_iff bit_set_bit_iff bit_unset_bit_iff)
  moreover have "(a AND NOT SIGN_MASK) OR ((b AND SIGN_MASK) XOR SIGN_MASK) = with_sign (\<not> sf_sign b) a"
    by (rule bit_word_eqI)
      (auto simp: with_sign_def sf_sign_def sign_bit bit_and_iff bit_or_iff bit_xor_iff bit_not_iff bit_set_bit_iff bit_unset_bit_iff)
  moreover have "a XOR (b AND SIGN_MASK) = with_sign (sf_sign a \<noteq> sf_sign b) a"
    by (rule bit_word_eqI)
      (auto simp: with_sign_def sf_sign_def sign_bit bit_and_iff bit_or_iff bit_xor_iff bit_not_iff bit_set_bit_iff bit_unset_bit_iff)
  ultimately show ?thesis by (cases opn) (simp_all add: sign_inject_def)
qed

text \<open>A choice by sign and magnitude is a choice by signed value.\<close>

lemma signed_choice:
  fixes A B :: int
  assumes "0 \<le> A" "0 \<le> B" "sa = sb \<Longrightarrow> lt \<longleftrightarrow> A < B" "sa = sb \<Longrightarrow> A = B \<Longrightarrow> x = y"
  shows "(if sa \<noteq> sb then if sa then x else y else if lt \<noteq> sa then x else y) =
      (if (if sb then - B else B) < (if sa then - A else A) \<or> (if sb then - B else B) = (if sa then - A else A) \<and> sb \<and> \<not> sa then y else x)"
    "(if sa \<noteq> sb then if sa then y else x else if lt \<noteq> sa then y else x) =
      (if (if sa then - A else A) < (if sb then - B else B) \<or> (if sa then - A else A) = (if sb then - B else B) \<and> sa \<and> \<not> sb then y else x)"
  using assms by (cases sa; cases sb; cases lt; force)+

context float_format
begin

lemma quiet_not_nan: "\<not> isnan_sf (a :: 'f word) \<Longrightarrow> \<not> issignan_sf a"
  by (simp add: signan_iff)

lemma below_code:
  assumes "\<not> isnan_sf (a :: 'f word)" "\<not> isnan_sf b"
  shows "below a b \<longleftrightarrow> sf_code a < sf_code b \<or> sf_code a = sf_code b \<and> sf_sign a \<and> \<not> sf_sign b"
  using code_sf_less [OF assms] by (simp add: below_def)

lemma minmax_order:
  assumes n: "\<not> isnan_sf (a :: 'f word)" "\<not> isnan_sf b"
  shows "(if sf_sign a \<noteq> sf_sign b then if sf_sign a then a else b else if (a < b) \<noteq> sf_sign a then a else b) = (if below b a then b else a)"
    "(if sf_sign a \<noteq> sf_sign b then if sf_sign a then b else a else if (a < b) \<noteq> sf_sign a then b else a) = (if below a b then b else a)"
proof -
  define k where "k = (\<lambda>x :: 'f word. int (unat (x AND NOT SIGN_MASK)))"
  have c: "sf_code x = (if sf_sign x then - k x else k x)" "0 \<le> k x" for x by (simp_all only: sf_code_def k_def of_nat_0_le_iff)
  have lt: "sf_sign a = sf_sign b \<Longrightarrow> a < b \<longleftrightarrow> k a < k b"
    using same_sign_order [of a b] by (simp only: k_def of_nat_less_iff)
  have eq: "sf_sign a = sf_sign b \<Longrightarrow> k a = k b \<Longrightarrow> a = b"
    using split_sign [of a] split_sign [of b] unfolding k_def of_nat_eq_iff by (metis unsigned_word_eqI)
  note choice = signed_choice [of "k a" "k b" "sf_sign a" "sf_sign b" "a < b" a b, OF c(2) c(2) lt eq]
  show "(if sf_sign a \<noteq> sf_sign b then if sf_sign a then a else b else if (a < b) \<noteq> sf_sign a then a else b) = (if below b a then b else a)"
    "(if sf_sign a \<noteq> sf_sign b then if sf_sign a then b else a else if (a < b) \<noteq> sf_sign a then b else a) = (if below a b then b else a)"
    unfolding below_code [OF n] below_code [OF n(2,1)] c(1) using choice by blast+
qed

lemma min_value: "min_sf a (b :: 'f word) fl FMINMAX_IEEE754_201X = fminmax_sem FMIN a b fl"
proof (cases "isnan_sf a \<or> isnan_sf b")
  case True
  then show ?thesis by (auto simp: min_sf_def min_max_nan_sf_def Let_def)
next
  case False
  then have n: "\<not> isnan_sf a" "\<not> isnan_sf b" by simp_all
  then have "min_sf a b fl FMINMAX_IEEE754_201X = (if sf_sign a \<noteq> sf_sign b then if sf_sign a then a else b else if (a < b) \<noteq> sf_sign a then a else b, fl)"
    by (simp add: min_sf_def)
  then show ?thesis using n quiet_not_nan [OF n(1)] quiet_not_nan [OF n(2)] unfolding minmax_order [OF n] by simp
qed

lemma max_value: "max_sf a (b :: 'f word) fl FMINMAX_IEEE754_201X = fminmax_sem FMAX a b fl"
proof (cases "isnan_sf a \<or> isnan_sf b")
  case True
  then show ?thesis by (auto simp: max_sf_def min_max_nan_sf_def Let_def)
next
  case False
  then have n: "\<not> isnan_sf a" "\<not> isnan_sf b" by simp_all
  then have "max_sf a b fl FMINMAX_IEEE754_201X = (if sf_sign a \<noteq> sf_sign b then if sf_sign a then b else a else if (a < b) \<noteq> sf_sign a then b else a, fl)"
    by (simp add: max_sf_def)
  then show ?thesis using n quiet_not_nan [OF n(1)] quiet_not_nan [OF n(2)] unfolding minmax_order [OF n] by simp
qed

lemma minmax_value: "minmax_sf (ucast (fminmax_code opn)) a (b :: 'f word) fl = Some (fminmax_sem opn a b fl)"
  by (cases opn) (simp_all add: minmax_sf_def min_value max_value del: fminmax_sem.simps)

lemma cmp_value: "cmp_sf (ucast (fcmp_code opn)) a (b :: 'f word) fl = Some (cmp_sem opn a b fl)"
  by (cases opn) (auto simp: cmp_sf_def cmp_sem_def lt_ieee le_ieee eq_ieee)

lemma subnormal_mag: "sf_exp (a :: 'f word) = 0 \<longleftrightarrow> sf_mag a < 2 powi (1 - sf_bias TYPE('f))"
proof -
  let ?M = "MANT_SIZE TYPE('f)" and ?q = "quantum TYPE('f)"
  have n: "2 powi (1 - sf_bias TYPE('f)) = real (2 ^ ?M) * ?q 1"
    by (simp add: quantum_def power_int_diff power_int_add)
  have q: "0 < ?q 1" by simp
  show ?thesis
  proof (cases "sf_exp a = 0")
    case True
    have "real (unat (sf_mant a)) < real (2 ^ ?M)" using mant_less [of a] by (simp only: of_nat_less_iff)
    with True q show ?thesis unfolding n by (simp add: sf_mag_def)
  next
    case False
    have "1 \<le> sf_exp a" using False exp_range(1) [of a] by simp
    then have "real (2 ^ ?M) * ?q 1 \<le> real (2 ^ ?M) * ?q (sf_exp a)" by (intro mult_left_mono quantum_mono) simp_all
    also have "real (2 ^ ?M) \<le> real (2 ^ ?M + unat (sf_mant a))" by (simp only: of_nat_le_iff le_add1)
    then have "real (2 ^ ?M) * ?q (sf_exp a) \<le> sf_mag a" using False by (simp add: sf_mag_def)
    finally show ?thesis using False unfolding n by simp
  qed
qed

lemma class_value: "ucast (fclass_sf (a :: 'f word)) = (2 ^ class_sem a :: u64)"
  unfolding fclass_sf_def class_sem_def subnormal_mag [symmetric]
  by (auto simp: specials signan_iff is_zero_sf_def FCLASS_NINF_def FCLASS_NNORMAL_def FCLASS_NSUBNORMAL_def FCLASS_NZERO_def FCLASS_PZERO_def FCLASS_PSUBNORMAL_def FCLASS_PNORMAL_def FCLASS_PINF_def FCLASS_SNAN_def FCLASS_QNAN_def)

end

section \<open>Arithmetic and conversions\<close>

context float_format
begin

lemma arith_value:
  "arith_sf 0x00 (a :: 'f word) b = farith_sem FADD a b" "arith_sf 0x01 (a :: 'f word) b = farith_sem FSUB a b"
  "arith_sf 0x02 (a :: 'f word) b = farith_sem FMUL a b" "arith_sf 0x03 (a :: 'f word) b = farith_sem FDIV a b"
  "arith_sf 0x0b (a :: 'f word) b = ieee_sqrt a"
  by (simp_all add: fun_eq_iff arith_sf_def add_ieee sub_ieee mul_ieee div_ieee sqrt_ieee)

lemma from_int_value:
  "cvt_from_int (unat (fint_code t)) v rm fl = Some (ieee_result False (real_of_int (from_int t v)) rm fl :: 'f word \<times> u32)"
  by (cases t) (simp_all add: cvt_from_int_def cvt_i_sf_def cvt_u_sf_def cvt_int_correct int_of_word_def)

lemma to_int_value:
  assumes "64 \<le> sf_bias TYPE('f)" "int LENGTH('f) \<le> sf_bias TYPE('f)"
  shows "cvt_to_int (unat (fint_code t)) (a :: 'f word) rm fl = Some (to_int_sem t a rm fl)"
  using assms by (cases t) (simp_all add: cvt_to_int_def cvt_sf_i_def cvt_sf_u_def to_int_ieee map_prod_def split: prod.split)

end

lemma biases: "sf_bias TYPE(32) = 127" "sf_bias TYPE(64) = 1023"
  by (simp_all add: sf_bias_def EXP_SIZE_def EXP_SIZE_of_def)

lemmas to_int_values = f32.to_int_value [unfolded biases, simplified] f64.to_int_value [unfolded biases, simplified]

section \<open>Every instruction\<close>

lemma f_rs3_enc [simp]: "f_rs3 (enc_r (push_bit 2 (ucast (rs3 :: regno)) OR fmt_code fmt) rs2 rs1 rm rd opcode) = unat rs3"
proof -
  have "drop_bit 27 (enc_r (push_bit 2 (ucast rs3) OR fmt_code fmt) rs2 rs1 rm rd opcode) =
      drop_bit 2 (ucast (push_bit 2 (ucast rs3) OR fmt_code fmt :: 7 word) :: u32)"
    using drop_bit_drop_bit [of 2 25 "enc_r (push_bit 2 (ucast rs3) OR fmt_code fmt) rs2 rs1 rm rd opcode"] by simp
  also have "\<dots> = ucast rs3"
    by (rule bit_word_eqI) (cases fmt; auto simp: bit_simps bit_ucast_small dest: bit_narrow)
  finally show ?thesis by (simp add: f_rs3_def)
qed

lemma ffma_fmt: "ucast (push_bit 2 (ucast (rs3 :: regno)) OR fmt_code fmt :: 7 word) AND 3 = (ucast (fmt_code fmt) :: u32)"
proof -
  have m: "(3 :: u32) = mask 2" by (simp add: mask_eq_exp_minus_1)
  show ?thesis
    unfolding m by (rule bit_word_eqI) (cases fmt; auto simp: bit_simps bit_ucast_small dest: bit_narrow)
qed

text \<open>The single-precision sign injections are in \<open>Fsgnj\<close>; the only one whose result is always boxed
  is \<open>fsgnj.s\<close> with a boxed second operand.\<close>

definition keeps_boxing :: "rv_fp_insn \<Rightarrow> 'p Interp \<Rightarrow> bool" where
  "keeps_boxing i s \<longleftrightarrow>
     (case i of Fsgnj opn Single rd rs1 rs2 \<Rightarrow> opn = FSGNJ \<and> boxed (freg s rs2) | _ \<Rightarrow> True)"

lemma exec_fp_dispatch:
  "exec_insn ops (enc_r f7 rs2 rs1 rm rd 0x53) s =
     (if fs s = 0 then illegal_insn s
      else if (ucast f7 :: u32) AND 3 = 0 then exec_fp_32 (drop_bit 2 (ucast f7)) (enc_r f7 rs2 rs1 rm rd 0x53) s
      else if (ucast f7 :: u32) AND 3 = 1 then exec_fp_64 (drop_bit 2 (ucast f7)) (enc_r f7 rs2 rs1 rm rd 0x53) s
      else illegal_insn s)"
  by (simp add: exec_insn_def Let_def exec_fp_def)

lemmas fp_simps = exec_fp_32_def exec_fp_64_def exec_fp_template_def Let_def with_rm_rounded rounded_def
  read_unbox put_s_eq put_d_eq put_x_eq

lemma farith_exec:
  "exec_insn ops (enc_r (farith_code opn OR fmt_code fmt) rs2 rs1 rm rd 0x53) s = fp_exec (Farith opn fmt rd rs1 rs2 rm) s"
  unfolding fp_exec_def exec_fp_dispatch
  by (cases opn; cases fmt; simp add: fp_simps f32.arith_value f64.arith_value del: farith_sem.simps cong del: option.case_cong_weak)

lemma fsqrt_exec:
  "exec_insn ops (enc_r (0x2c OR fmt_code fmt) 0 rs1 rm rd 0x53) s = fp_exec (Fsqrt fmt rd rs1 rm) s"
  unfolding fp_exec_def exec_fp_dispatch
  by (cases fmt; simp add: fp_simps f32.arith_value f64.arith_value cong del: option.case_cong_weak)

lemma fminmax_exec:
  "exec_insn ops (enc_r (0x14 OR fmt_code fmt) rs2 rs1 (fminmax_code opn) rd 0x53) s = fp_exec (Fminmax opn fmt rd rs1 rs2) s"
  unfolding fp_exec_def exec_fp_dispatch
  by (cases fmt; simp add: fp_simps f32.minmax_value f64.minmax_value)

lemma fcmp_exec:
  "exec_insn ops (enc_r (0x50 OR fmt_code fmt) rs2 rs1 (fcmp_code opn) rd 0x53) s = fp_exec (Fcmp opn fmt rd rs1 rs2) s"
  unfolding fp_exec_def exec_fp_dispatch
  by (cases fmt; simp add: fp_simps f32.cmp_value f64.cmp_value split: prod.split)

lemma fcvt_to_int_exec:
  "exec_insn ops (enc_r (0x60 OR fmt_code fmt) (fint_code t) rs1 rm rd 0x53) s = fp_exec (Fcvt_to_int t fmt rd rs1 rm) s"
  unfolding fp_exec_def exec_fp_dispatch
  by (cases fmt; simp add: fp_simps to_int_values case_prod_beta cong del: option.case_cong_weak)

lemma fcvt_from_int_exec:
  "exec_insn ops (enc_r (0x68 OR fmt_code fmt) (fint_code t) rs1 rm rd 0x53) s = fp_exec (Fcvt_from_int t fmt rd rs1 rm) s"
  unfolding fp_exec_def exec_fp_dispatch
  by (cases fmt; simp add: fp_simps f32.from_int_value f64.from_int_value cong del: option.case_cong_weak)

lemma fcvt_float_exec:
  "exec_insn ops (enc_r 0x20 1 rs1 rm rd 0x53) s = fp_exec (Fcvt_s_d rd rs1 rm) s"
  "exec_insn ops (enc_r 0x21 0 rs1 rm rd 0x53) s = fp_exec (Fcvt_d_s rd rs1 rm) s"
  unfolding fp_exec_def exec_fp_dispatch
  by (simp_all add: fp_simps cvt_float_32_def cvt_float_64_def f64_f32.narrow_ieee f64_f32.widen_ieee [symmetric] cong del: option.case_cong_weak)

lemma fclass_exec:
  "exec_insn ops (enc_r (0x70 OR fmt_code fmt) 0 rs1 1 rd 0x53) s = fp_exec (Fclass fmt rd rs1) s"
  unfolding fp_exec_def exec_fp_dispatch
  by (cases fmt; simp add: fp_simps f32.class_value f64.class_value write_x_eq)

lemma fmv_to_x_exec:
  "exec_insn ops (enc_r (0x70 OR fmt_code fmt) 0 rs1 0 rd 0x53) s = fp_exec (Fmv_to_x fmt rd rs1) s"
  unfolding fp_exec_def exec_fp_dispatch
  by (cases fmt; simp add: fp_simps write_x_eq sx32_def)

lemma fmv_from_x_exec:
  "exec_insn ops (enc_r (0x78 OR fmt_code fmt) 0 rs1 0 rd 0x53) s = fp_exec (Fmv_from_x fmt rd rs1) s"
  unfolding fp_exec_def exec_fp_dispatch
  by (cases fmt; simp add: fp_simps write_f_def fp_done_def set_fp_def zx32_def box_high [symmetric])

lemma ffma_exec:
  "exec_insn ops (enc_r (push_bit 2 (ucast rs3) OR fmt_code fmt) rs2 rs1 rm rd (ffma_code opn)) s =
   fp_exec (Ffma opn fmt rd rs1 rs2 rs3 rm) s"
proof -
  define f7 where "f7 = push_bit 2 (ucast rs3) OR fmt_code fmt"
  let ?e = "enc_r f7 rs2 rs1 rm rd (ffma_code opn)"
  have f: "f_rs3 ?e = unat rs3" "(ucast f7 :: u32) AND 3 = ucast (fmt_code fmt)" by (simp_all add: f7_def ffma_fmt)
  have "exec_insn ops ?e s = exec_fma (opn = FNMSUB \<or> opn = FNMADD) (opn = FMSUB \<or> opn = FNMADD) ?e s"
    by (cases opn) (simp_all add: exec_insn_def Let_def exec_fmadd_def exec_fmsub_def exec_fnmsub_def exec_fnmadd_def)
  also have "\<dots> = fp_exec (Ffma opn fmt rd rs1 rs2 rs3 rm) s"
    unfolding exec_fma_def fp_exec_def Let_def sign_masks enc_r_fields f
    by (cases opn; cases fmt; simp add: fp_simps flip_sign f32.fma_ieee f64.fma_ieee cong del: option.case_cong_weak)
  finally show ?thesis unfolding f7_def .
qed

section \<open>Sign injection\<close>

lemma fsgnj_d_exec:
  "exec_insn ops (enc_r 0x11 rs2 rs1 (fsgnj_code opn) rd 0x53) s = fp_exec (Fsgnj opn Double rd rs1 rs2) s"
  unfolding fp_exec_def exec_fp_dispatch
  by (simp add: fp_simps sign_masks sign_inject_value write_f_def fp_done_def set_fp_def del: FSIGN_MASK64_def)

lemma sign_mask_32: "bit (scast FSIGN_MASK32 :: u64) n \<longleftrightarrow> 31 \<le> n \<and> n < 64"
proof -
  have "bit (0x80000000 :: u32) k \<longleftrightarrow> k = 31" for k using bit_push_bit_iff [of 31 "1 :: u32" k] by (auto simp: bit_1_iff)
  then show ?thesis unfolding bit_signed_iff FSIGN_MASK32_def by (auto simp: min_def)
qed

lemma boxed_bit: "boxed v \<Longrightarrow> 32 \<le> n \<Longrightarrow> n < 64 \<Longrightarrow> bit v n"
proof -
  assume "boxed v" "32 \<le> n" "n < 64"
  moreover from this have "n - 32 < 32" by linarith
  ultimately have "bit (drop_bit 32 v) (n - 32)" unfolding boxed_def by (simp add: bit_mask_iff)
  with \<open>32 \<le> n\<close> show "bit v n" by (simp add: bit_drop_bit_eq)
qed

lemma read_fp32_boxed: "boxed (fp_reg s r) \<Longrightarrow> read_fp32 r s = fp_reg s r"
  by (simp only: read_fp32_def boxed_high if_True)

lemma sreg_bit: "bit (read_fp32 (unat r) s) n \<longleftrightarrow> bit (sreg s r) n" if "n < 32"
  using that unfolding read_unbox [symmetric] read_sf32_def by (simp add: bit_unsigned_iff)

lemma box_bit: "bit (box v) n \<longleftrightarrow> (if n < 32 then bit v n else n < 64)"
  by (auto simp: box_def bit_simps dest: bit_imp_le_length)

lemma fsgnj_s_exec:
  assumes "boxed (freg s rs2)"
  shows "exec_insn ops (enc_r 0x10 rs2 rs1 0 rd 0x53) s = fp_exec (Fsgnj FSGNJ Single rd rs1 rs2) s"
proof -
  let ?A = "read_fp32 (unat rs1) s" and ?B = "read_fp32 (unat rs2) s" and ?k = "scast FSIGN_MASK32 :: u64"
  have "(?A AND NOT ?k) OR (?B AND ?k) = box (with_sign (sf_sign (sreg s rs2)) (sreg s rs1))"
  proof (rule bit_word_eqI)
    fix n assume "n < LENGTH(64)"
    then consider "n < 31" | "n = 31" | "32 \<le> n" "n < 64" by fastforce
    then show "bit ((?A AND NOT ?k) OR (?B AND ?k)) n \<longleftrightarrow> bit (box (with_sign (sf_sign (sreg s rs2)) (sreg s rs1))) n"
      unfolding bit_or_iff bit_and_iff bit_not_iff sign_mask_32 box_bit
      using sreg_bit [of 31 rs2 s] read_fp32_boxed [OF assms]
      by cases (simp_all add: sreg_bit with_sign_def sf_sign_def bit_set_bit_iff bit_unset_bit_iff
          read_fp32_boxed [OF assms] boxed_bit [OF assms])
  qed
  then show ?thesis
    unfolding fp_exec_def exec_fp_dispatch
    by (simp add: fp_simps sign_inject_def write_f_def fp_done_def set_fp_def del: FSIGN_MASK32_def)
qed

text \<open>\<open>fsgnjn.s\<close>, and so \<open>fneg.s\<close>, clears the upper half of the register: what is read back is a NaN.\<close>

lemma fsgnjn_s_exec:
  assumes "fs s \<noteq> 0" "boxed (freg s rs2)"
  shows "\<exists>t. exec_insn ops (enc_r 0x10 rs2 rs1 1 rd 0x53) s = (NextInsn 4, t) \<and> sreg t rd = 0x7fc00000"
proof -
  let ?A = "read_fp32 (unat rs1) s" and ?B = "read_fp32 (unat rs2) s" and ?k = "scast FSIGN_MASK32 :: u64"
  let ?v = "(?A AND NOT ?k) OR ((?B AND ?k) XOR ?k)"
  have "\<not> bit ?v 32"
    unfolding bit_or_iff bit_and_iff bit_not_iff bit_xor_iff sign_mask_32
    by (simp add: read_fp32_boxed [OF assms(2)] boxed_bit [OF assms(2)])
  then have "\<not> boxed ?v" using boxed_bit [of ?v 32] by auto
  then have "unbox ?v = 0x7fc00000" by (simp only: unbox_def boxed_def if_False)
  with assms(1) show ?thesis
    unfolding exec_fp_dispatch
    by (simp add: fp_simps sign_inject_def next_insn_def fp_done_def set_fp_def del: FSIGN_MASK32_def)
qed

section \<open>The refinement\<close>

lemma exec_fp_encode:
  assumes "keeps_boxing i s"
  shows "exec_insn ops (fp_encode i) s = fp_exec i s"
proof (cases i)
  case (Fsgnj opn fmt rd rs1 rs2)
  with assms show ?thesis
    by (cases fmt) (auto simp: keeps_boxing_def fsgnj_s_exec fsgnj_d_exec simp del: fp_exec_def)
qed (simp_all only: fp_encode.simps farith_exec fsqrt_exec ffma_exec fminmax_exec fcmp_exec fcvt_to_int_exec
      fcvt_from_int_exec fcvt_float_exec fclass_exec fmv_to_x_exec fmv_from_x_exec)

end
