(* ===== verification/Float_Bounds.thy ===== *)
theory Float_Bounds
  imports Float_Special
begin

text \<open>
  Consequences of correct rounding: a result rounded to nearest is the nearest number and within half
  a unit in the last place, and integers are represented exactly and converted back.
\<close>

context float_format
begin

section \<open>Rounding to nearest\<close>

lemma signed_inf_not_finite: "\<not> finite_sf (signed_inf neg :: 'f word)"
proof -
  have "0 \<le> EXP_MASK TYPE('f)" using exp_range [of "0 :: 'f word"] by simp
  then have "unpack_sf (pack_sf neg (EXP_MASK TYPE('f)) 0 :: 'f word) = (neg, EXP_MASK TYPE('f), 0)"
    by (intro pack_unpack) simp_all
  then show ?thesis by (simp add: pack_signed_inf unpack_sf_def finite_sf_def)
qed

lemma zero_value: "sf_value (if neg then SIGN_MASK else 0 :: 'f word) = 0"
proof -
  have "0 \<le> EXP_MASK TYPE('f)" using exp_range [of "0 :: 'f word"] by simp
  then have "unpack_sf (pack_sf neg 0 0 :: 'f word) = (neg, 0, 0)" by (intro pack_unpack) simp_all
  then show ?thesis unfolding value_0 pack_zero [symmetric] by (simp add: unpack_sf_def is_zero_sf_def)
qed

lemma nearest_finite:
  assumes "ieee_round neg x rm fl = (w :: 'f word, fl')" "finite_sf w" "rm = RM_RNE \<or> rm = RM_RMM"
  defines "e \<equiv> max 1 (binade TYPE('f) x)"
  shows "(e - 1) * 2 ^ MANT_SIZE TYPE('f) + rnd_at TYPE('f) e rm neg x < EXP_MASK TYPE('f) * 2 ^ MANT_SIZE TYPE('f)"
proof (rule ccontr)
  assume "\<not> ?thesis"
  then have "w = signed_inf neg"
    using assms(1,3) unfolding ieee_round_def Let_def signed_inf_def e_def by (auto simp: overflow_to_inf_def)
  with assms(2) signed_inf_not_finite show False by simp
qed

text \<open>Rounding to nearest: no integer is closer than the rounded one.\<close>

lemma rnd_int_nearest:
  assumes "rm = RM_RNE \<or> rm = RM_RMM"
  shows "\<bar>of_int (rnd_int rm neg y) - y\<bar> \<le> \<bar>of_int k - y\<bar>"
proof -
  have f: "of_int \<lfloor>y\<rfloor> \<le> y" "y < of_int \<lfloor>y\<rfloor> + 1" by linarith+
  have "k \<le> \<lfloor>y\<rfloor> \<or> \<lfloor>y\<rfloor> + 1 \<le> k" by linarith
  then have "real_of_int k \<le> of_int \<lfloor>y\<rfloor> \<or> of_int \<lfloor>y\<rfloor> + 1 \<le> real_of_int k"
    by (metis of_int_1 of_int_add of_int_le_iff)
  then show ?thesis
    using assms f unfolding rnd_int_def Let_def
    by (elim disjE; simp only: RoundingModeEnum.case split: if_split; linarith)
qed

text \<open>A magnitude of the format lies on the grid of an exponent, or below the normal numbers of that exponent.\<close>

lemma mag_grid:
  assumes "1 \<le> e"
  shows "(\<exists>k. sf_mag (v :: 'f word) = of_int k * quantum TYPE('f) e) \<or>
    1 < e \<and> sf_mag v \<le> 2 ^ MANT_SIZE TYPE('f) * quantum TYPE('f) e"
proof -
  let ?M = "MANT_SIZE TYPE('f)" and ?q = "quantum TYPE('f)"
  define k where "k = eff_exp v"
  have k: "1 \<le> k" by (simp add: k_def eff_exp_ge)
  have mag: "sf_mag v = real (significand v) * ?q k" unfolding k_def by (rule significand_mag)
  show ?thesis
  proof (cases "e \<le> k")
    case True
    then have "?q k = ?q e * 2 ^ nat (k - e)" using quantum_add [of e "nat (k - e)"] by simp
    then have "sf_mag v = of_int (int (significand v) * 2 ^ nat (k - e)) * ?q e" unfolding mag by simp
    then show ?thesis by blast
  next
    case False
    have "real (significand v) \<le> real (2 * 2 ^ ?M)" using significand_less [of v] by (simp only: of_nat_le_iff)
    then have "sf_mag v \<le> 2 * 2 ^ ?M * ?q k" unfolding mag by (intro mult_right_mono) (simp_all add: less_imp_le)
    also have "\<dots> = 2 ^ ?M * ?q (k + 1)" using quantum_add [of k 1] by simp
    also have "\<dots> \<le> 2 ^ ?M * ?q e" using False by (intro mult_left_mono quantum_mono) simp_all
    finally show ?thesis using False k by simp
  qed
qed

text \<open>A finite result rounded to nearest is within half a unit in the last place of the exact value's binade,
  and no finite number is closer to the exact value.\<close>

lemma nearest_round:
  assumes x: "0 < x" and r: "ieee_round neg x rm fl = (w :: 'f word, fl')" and f: "finite_sf w"
    and rm: "rm = RM_RNE \<or> rm = RM_RMM"
  shows "\<bar>sf_mag w - x\<bar> \<le> \<bar>sf_mag (v :: 'f word) - x\<bar>"
proof -
  let ?M = "MANT_SIZE TYPE('f)"
  define e where "e = max 1 (binade TYPE('f) x)"
  define q where "q = quantum TYPE('f) e"
  have q: "0 < q" by (simp add: q_def)
  note l = nearest_finite [OF r f rm, folded e_def]
  have "sf_mag w = of_int (rnd_int rm neg (x / q)) * q"
    using ieee_round_value [OF x r, folded e_def, OF l] by (simp add: rnd_at_def q_def)
  then have "\<bar>sf_mag w - x\<bar> = \<bar>of_int (rnd_int rm neg (x / q)) - x / q\<bar> * q"
    unfolding abs_mult_pos [OF less_imp_le [OF q]] using q by (simp add: left_diff_distrib)
  also have "\<dots> \<le> \<bar>of_int k - x / q\<bar> * q" for k
    using rnd_int_nearest [OF rm] q by (intro mult_right_mono) simp_all
  also have "\<bar>of_int k - x / q\<bar> * q = \<bar>of_int k * q - x\<bar>" for k
    unfolding abs_mult_pos [OF less_imp_le [OF q]] using q by (simp add: left_diff_distrib)
  finally have near: "\<bar>sf_mag w - x\<bar> \<le> \<bar>of_int k * q - x\<bar>" for k .
  have "1 \<le> e" by (simp add: e_def)
  from mag_grid [OF this, of v, folded q_def] show ?thesis
  proof
    assume "\<exists>k. sf_mag v = of_int k * q"
    then show ?thesis using near by metis
  next
    assume v: "1 < e \<and> sf_mag v \<le> 2 ^ ?M * q"
    then have "e = binade TYPE('f) x" by (simp add: e_def max_def split: if_splits)
    then have "2 ^ ?M * q \<le> x" using binade_bounds [OF x] by (simp add: q_def)
    then show ?thesis using near [of "2 ^ ?M"] v by simp
  qed
qed

lemma nearest_error:
  assumes r: "ieee_result z x rm fl = (w :: 'f word, fl')" and f: "finite_sf w" and rm: "rm = RM_RNE \<or> rm = RM_RMM"
  shows "\<bar>sf_value w - x\<bar> \<le> quantum TYPE('f) (max 1 (binade TYPE('f) \<bar>x\<bar>)) / 2"
    and "\<bar>sf_value w - x\<bar> \<le> \<bar>sf_value (v :: 'f word) - x\<bar>"
proof -
  have "\<bar>sf_value w - x\<bar> \<le> quantum TYPE('f) (max 1 (binade TYPE('f) \<bar>x\<bar>)) / 2 \<and> \<bar>sf_value w - x\<bar> \<le> \<bar>sf_value v - x\<bar>"
  proof (cases "x = 0")
    case True
    then have "sf_value w = 0" using r zero_value [of z] by (simp add: ieee_result_def)
    with True show ?thesis by (simp add: less_imp_le)
  next
    case False
    then have w: "ieee_round (x < 0) \<bar>x\<bar> rm fl = (w, fl')" and p: "0 < \<bar>x\<bar>" using r by (simp_all add: ieee_result_def)
    note l = nearest_finite [OF w f rm]
    have "sf_sign w \<longleftrightarrow> x < 0" using ieee_round_value [OF p w l] by blast
    then have d: "\<bar>sf_value w - x\<bar> = \<bar>sf_mag w - \<bar>x\<bar>\<bar>" unfolding sf_value_def by (cases "x < 0") simp_all
    have "sf_mag v = \<bar>sf_value v\<bar>" by (rule abs_value [symmetric])
    then have "\<bar>sf_mag v - \<bar>x\<bar>\<bar> \<le> \<bar>sf_value v - x\<bar>" by (simp only: abs_triangle_ineq3)
    then show ?thesis
      using ieee_round_error(2) [OF p w l rm] nearest_round [OF p w f rm, of v] unfolding d by linarith
  qed
  then show "\<bar>sf_value w - x\<bar> \<le> quantum TYPE('f) (max 1 (binade TYPE('f) \<bar>x\<bar>)) / 2"
    "\<bar>sf_value w - x\<bar> \<le> \<bar>sf_value v - x\<bar>" by blast+
qed

section \<open>Integers\<close>

lemma integer_exact:
  assumes n: "0 < n" "n < 2 * 2 ^ MANT_SIZE TYPE('f)" and room: "int LENGTH('f) \<le> sf_bias TYPE('f)"
  shows "\<exists>w :: 'f word. ieee_round neg (real n) rm fl = (w, fl) \<and> finite_sf w \<and> sf_sign w = neg \<and> sf_mag w = real n"
proof -
  let ?M = "MANT_SIZE TYPE('f)" and ?q = "quantum TYPE('f)"
  define e where "e = max 1 (binade TYPE('f) (real n))"
  define j where "j = nat (sf_bias TYPE('f) + int ?M - e)"
  have p: "0 < real n" using n by simp
  have b: "2 ^ ?M * ?q (binade TYPE('f) (real n)) \<le> real n" "real n < 2 * 2 ^ ?M * ?q (binade TYPE('f) (real n))"
    using binade_bounds [OF p] by blast+
  have "real n < real (2 * 2 ^ ?M)" using n(2) by (simp only: of_nat_less_iff)
  then have "real n < 2 ^ ?M * 2" by simp
  with b(1) have "2 ^ ?M * ?q (binade TYPE('f) (real n)) < 2 ^ ?M * 2" by (rule le_less_trans)
  then have "?q (binade TYPE('f) (real n)) < ?q (sf_bias TYPE('f) + int (?M + 1))" unfolding quantum_bias by simp
  then have el: "e \<le> sf_bias TYPE('f) + int ?M" using room sizes(1) by (auto simp: e_def dest: quantum_less_imp)
  have "?q e * 2 ^ j = ?q (sf_bias TYPE('f) + int (?M + 0))" using el unfolding quantum_add [symmetric] by (simp add: j_def)
  then have q: "?q e = 1 / 2 ^ j" unfolding quantum_bias by (simp add: field_simps)
  have at: "rnd_at TYPE('f) e rm neg (real n) = int (n * 2 ^ j)"
    unfolding rnd_at_def q using rnd_int_of_nat [of rm neg "n * 2 ^ j"] by simp
  have "?q (binade TYPE('f) (real n)) \<le> ?q e" by (intro quantum_mono) (simp add: e_def)
  then have "2 * 2 ^ ?M * ?q (binade TYPE('f) (real n)) \<le> 2 * 2 ^ ?M * ?q e" by (intro mult_left_mono) simp_all
  with b(2) have "real n < 2 * 2 ^ ?M * ?q e" by (rule less_le_trans)
  then have "real (n * 2 ^ j) < real (2 * 2 ^ ?M)" unfolding q by (simp add: field_simps)
  then have "int (n * 2 ^ j) < 2 * 2 ^ ?M" by (simp only: of_nat_less_iff) (metis int_less_power power_Suc)
  then have "(e - 1) * 2 ^ ?M + int (n * 2 ^ j) < (e + 1) * 2 ^ ?M" unfolding distrib_right left_diff_distrib by linarith
  also have "\<dots> \<le> EXP_MASK TYPE('f) * 2 ^ ?M"
    using el room sizes(1) unfolding exp_mask by (intro mult_right_mono) simp_all
  finally have l: "(e - 1) * 2 ^ ?M + rnd_at TYPE('f) e rm neg (real n) < EXP_MASK TYPE('f) * 2 ^ ?M" unfolding at .
  obtain w fl' where w: "ieee_round neg (real n) rm fl = (w :: 'f word, fl')" by fastforce
  have "fl' = fl"
    using w l unfolding ieee_round_def Let_def e_def [symmetric] by (simp add: at q)
  with w ieee_round_value [OF p w, folded e_def, OF l] show ?thesis by (simp add: at q)
qed

text \<open>An integer of at most the precision, converted to a float and back, comes back unchanged.\<close>

lemma int_roundtrip:
  fixes v :: "'i::len word"
  assumes i: "LENGTH('i) \<le> MANT_SIZE TYPE('f)" and room: "int LENGTH('f) \<le> sf_bias TYPE('f)"
    and w: "internal_cvt_i_sf u v rm fl = (w :: 'f word, fl')"
  shows "fl' = fl \<and> sf_value w = real_of_int (int_of_word u v) \<and> internal_cvt_sf_i u w rm' fl = (v, fl)"
proof -
  let ?x = "int_of_word u v"
  define n where "n = nat \<bar>?x\<bar>"
  have range: "int_min u TYPE('i) \<le> ?x" "?x \<le> int_max u TYPE('i)"
    using sint_ge [of v] sint_lt [of v] unsigned_less [of v, where 'a = int] unfolding int_of_word_def int_min_def int_max_def by auto
  have same: "of_int ?x = v" by (simp add: int_of_word_def)
  have r: "ieee_result False (real_of_int ?x) rm fl = (w, fl')" using w unfolding cvt_int_correct .
  have f: "finite_sf w \<and> (if sf_sign w then - int n else int n) = ?x \<and> sf_mag w = real n \<and> fl' = fl"
  proof (cases "?x = 0")
    case True
    then have "w = 0" "fl' = fl" using r by (simp_all add: ieee_result_def)
    moreover have "sf_value (0 :: 'f word) = 0" using zero_value [of False] by simp
    ultimately show ?thesis using zero_finite [of "0 :: 'f word"] value_0 [of "0 :: 'f word"] abs_value [of "0 :: 'f word"] True
      by (simp add: n_def)
  next
    case False
    have "int n = int (unat (if \<not> u \<and> v <s 0 then - v else v))" unfolding unat_abs_word n_def by simp
    then have "n < 2 ^ LENGTH('i)" unfolding of_nat_eq_iff by simp
    also have "\<dots> \<le> 2 ^ MANT_SIZE TYPE('f)" using i by (intro power_increasing) simp_all
    finally have "n < 2 * 2 ^ MANT_SIZE TYPE('f)" by linarith
    moreover have "0 < n" using False by (simp add: n_def)
    ultimately obtain w' :: "'f word"
      where w': "ieee_round (?x < 0) (real n) rm fl = (w', fl)" "finite_sf w'" "sf_sign w' = (?x < 0)" "sf_mag w' = real n"
      using room integer_exact [of n "?x < 0" rm fl] by blast
    have "ieee_result False (real_of_int ?x) rm fl = ieee_round (?x < 0) (real n) rm fl"
      using False by (simp add: ieee_result_def n_def)
    then have "w = w' \<and> fl' = fl" using r w'(1) by (metis prod.inject)
    then show ?thesis using w' by (simp add: n_def)
  qed
  then have "int_result u (sf_sign w) (sf_mag w) rm' fl = (v, fl)"
  proof -
    have v: "(if sf_sign w then - int n else int n) = ?x" and m: "sf_mag w = real n" using f by blast+
    show ?thesis unfolding int_result_def Let_def m rnd_int_of_nat v using range by (simp add: same)
  qed
  moreover have "sf_value w = real_of_int ?x" using f unfolding sf_value_def by (metis of_int_minus of_int_of_nat_eq)
  ultimately show ?thesis using f by (simp add: cvt_to_int_correct)
qed

end

end
