(* ===== verification/Float_Flags.thy ===== *)
theory Float_Flags
  imports Exec_Fp
begin

text \<open>
  Exception flags accrue: proved on the code itself, for words of any width, from the flags
  \<open>round_pack_sf\<close> and the special cases set, up to the handlers of the floating-point opcodes.
\<close>

section \<open>Flags that are set\<close>

definition accrues :: "u32 \<Rightarrow> 'a \<times> u32 \<Rightarrow> bool" where
  "accrues fl r \<longleftrightarrow> (\<exists>new. snd r = fl OR new \<and> new AND 0x1f = new)"

lemma accrues_pair: "accrues fl (x, fl') \<longleftrightarrow> (\<exists>new. fl' = fl OR new \<and> new AND 0x1f = new)"
  by (simp add: accrues_def)

lemma accrues_same [simp]: "accrues fl (x, fl)"
  unfolding accrues_pair by (rule exI [of _ 0]) simp

lemma accrues_snd: "accrues fl v \<Longrightarrow> accrues fl (x, snd v)"
  by (simp add: accrues_def)

lemma accrues_or: "accrues fl (x, fl') \<Longrightarrow> f AND 0x1f = f \<Longrightarrow> accrues fl (y, fl' OR f)"
proof -
  assume "accrues fl (x, fl')" and f: "f AND 0x1f = f"
  then obtain new where new: "fl' = fl OR new" "new AND 0x1f = new" by (auto simp: accrues_pair)
  have "(new OR f) AND 0x1f = new OR f" using new(2) f by (simp add: bit.conj_disj_distrib2)
  then show "accrues fl (y, fl' OR f)" unfolding accrues_pair new(1) by (intro exI [of _ "new OR f"]) (simp add: or.assoc)
qed

lemma accrues_flag [simp]: "f AND 0x1f = f \<Longrightarrow> accrues fl (x, fl OR f)"
  by (rule accrues_or [OF accrues_same])

lemma accrues_cond:
  "accrues fl (x, fl') \<Longrightarrow> f AND 0x1f = f \<Longrightarrow> accrues fl (y, if c then fl' OR f else fl')"
  using accrues_or [of fl x fl' f y] by (simp add: accrues_pair)

lemma flag_bits [simp]:
  "FFLAG_INVALID_OP AND 0x1f = FFLAG_INVALID_OP" "FFLAG_DIVIDE_ZERO AND 0x1f = FFLAG_DIVIDE_ZERO"
  "FFLAG_OVERFLOW AND 0x1f = FFLAG_OVERFLOW" "FFLAG_UNDERFLOW AND 0x1f = FFLAG_UNDERFLOW"
  "FFLAG_INEXACT AND 0x1f = FFLAG_INEXACT"
  "(FFLAG_OVERFLOW OR FFLAG_INEXACT) AND 0x1f = FFLAG_OVERFLOW OR FFLAG_INEXACT"
  by (simp_all add: FFLAG_INVALID_OP_def FFLAG_DIVIDE_ZERO_def FFLAG_OVERFLOW_def FFLAG_UNDERFLOW_def
      FFLAG_INEXACT_def)

lemma accrues_if: "(c \<Longrightarrow> accrues fl r) \<Longrightarrow> (\<not> c \<Longrightarrow> accrues fl r') \<Longrightarrow> accrues fl (if c then r else r')"
  by simp

section \<open>Operations\<close>

lemma accrues_round_pack: "accrues fl (round_pack_sf s e m rm fl)"
  unfolding round_pack_sf_def Let_def
  by (intro accrues_if accrues_cond accrues_or accrues_same flag_bits)

lemma accrues_normalize [simp]: "accrues fl (normalize_sf s e m rm fl)" "accrues fl (normalize2_sf s e m1 m0 rm fl)"
  by (simp_all only: normalize_sf_def normalize2_sf_def Let_def accrues_round_pack)

lemma accrues_nan [simp]: "accrues fl (nan_result b fl)"
  by (simp add: nan_result_def)

lemma accrues_add [simp]: "accrues fl (add_sf a b rm fl)"
  unfolding add_sf_def Let_def by (simp add: prod.case_eq_if)

lemma accrues_sub [simp]: "accrues fl (sub_sf a b rm fl)"
  by (simp add: sub_sf_def)

lemma accrues_mul [simp]: "accrues fl (mul_sf a b rm fl)"
  unfolding mul_sf_def Let_def by (simp add: prod.case_eq_if)

lemma accrues_div [simp]: "accrues fl (div_sf a b rm fl)"
  unfolding div_sf_def Let_def by (simp add: prod.case_eq_if)

lemma accrues_sqrt [simp]: "accrues fl (sqrt_sf a rm fl)"
  unfolding sqrt_sf_def Let_def by (simp add: prod.case_eq_if)

lemma accrues_fma [simp]: "accrues fl (fma_sf a b c rm fl)"
  unfolding fma_sf_def fma_finite_def Let_def by (simp add: prod.case_eq_if)

lemma accrues_min_max [simp]: "accrues fl (min_sf a b fl t)" "accrues fl (max_sf a b fl t)"
  by (simp_all add: min_sf_def max_sf_def min_max_nan_sf_def Let_def)

lemma accrues_compare [simp]:
  "accrues fl (eq_quiet_sf a b fl)" "accrues fl (le_sf a b fl)" "accrues fl (lt_sf a b fl)"
  by (simp_all add: eq_quiet_sf_def le_sf_def lt_sf_def)

lemma accrues_convert [simp]:
  "accrues fl (cvt_sf_widen a fl)" "accrues fl (cvt_sf_narrow a rm fl)"
  "accrues fl (internal_cvt_sf_i u a rm fl)" "accrues fl (internal_cvt_i_sf u i rm fl)"
  by (simp_all add: cvt_sf_widen_def cvt_sf_narrow_def internal_cvt_sf_i_def internal_cvt_i_sf_def Let_def
      prod.case_eq_if)

section \<open>Instructions\<close>

text \<open>The state an instruction leaves has the flags it found, and perhaps more.\<close>

definition insn_accrues :: "'p Interp \<Rightarrow> outcome \<times> 'p Interp \<Rightarrow> bool" where
  "insn_accrues s r \<longleftrightarrow> accrues (fflags s) ((), fflags (snd r))"

lemma insn_accrues_illegal [simp]: "insn_accrues s (illegal_insn s)"
  by (simp add: insn_accrues_def illegal_insn_def)

lemma insn_accrues_next: "accrues (fflags s) (x, fflags t) \<Longrightarrow> insn_accrues s (next_insn n t)"
  and insn_accrues_done: "accrues (fflags s) (x, fflags t) \<Longrightarrow> insn_accrues s (fp_done t)"
  by (simp_all add: insn_accrues_def next_insn_def fp_done_def accrues_pair)

lemma set_flags [simp]:
  "fflags (set_fp32 r v s) = snd v" "fflags (set_fp64 r w s) = snd w" "fflags (set_fp r x s) = fflags s"
  "fflags (set_rd r x s) = fflags s"
  by (simp_all add: set_fp32_def set_fp64_def set_fp_def set_rd_def set_reg_def)

lemma insn_accrues_set:
  "accrues (fflags s) v \<Longrightarrow> insn_accrues s (fp_done (set_fp32 r v s))"
  "accrues (fflags s) w \<Longrightarrow> insn_accrues s (fp_done (set_fp64 r w s))"
  "insn_accrues s (fp_done (set_fp r x s))" "insn_accrues s (next_insn n (set_rd r x s))"
  by (rule insn_accrues_done [where x = "()"], simp add: accrues_snd)+
    (rule insn_accrues_done insn_accrues_next, simp)+

lemma insn_accrues_rm: "(\<And>rm'. insn_accrues s (k rm')) \<Longrightarrow> insn_accrues s (with_rm rm s k)"
  by (simp add: with_rm_def split: option.split)

lemma insn_accrues_if:
  "(c \<Longrightarrow> insn_accrues s r) \<Longrightarrow> (\<not> c \<Longrightarrow> insn_accrues s r') \<Longrightarrow> insn_accrues s (if c then r else r')"
  by simp

lemma insn_accrues_opt:
  "(\<And>v. r = Some v \<Longrightarrow> insn_accrues s (k v)) \<Longrightarrow> insn_accrues s (case r of None \<Rightarrow> illegal_insn s | Some v \<Rightarrow> k v)"
  by (simp split: option.split)

lemma accrues_arith: "accrues fl (arith_sf op a b rm fl)"
  by (simp add: arith_sf_def)

lemma accrues_choice:
  "minmax_sf rm a b fl = Some v \<Longrightarrow> accrues fl v"
  "cmp_sf rm a b fl = Some w \<Longrightarrow> accrues fl w"
  "cvt_from_int n x m fl = Some (u :: 'f::len word \<times> u32) \<Longrightarrow> accrues fl u"
  by (auto simp: minmax_sf_def cmp_sf_def cvt_from_int_def cvt_i_sf_def cvt_u_sf_def split: if_splits)

lemma accrues_to_int: "cvt_to_int n a rm fl = Some v \<Longrightarrow> accrues fl v"
proof -
  have "accrues fl (case r of (w, fl') \<Rightarrow> (g w, fl'))" if "accrues fl r" for r :: "u32 \<times> u32" and g :: "u32 \<Rightarrow> u64"
    using that by (cases r) (simp add: accrues_def)
  then show "cvt_to_int n a rm fl = Some v \<Longrightarrow> accrues fl v"
    by (auto simp: cvt_to_int_def cvt_sf_i_def cvt_sf_u_def accrues_def prod.case_eq_if split: if_splits)
       (use accrues_convert(3) in \<open>auto simp: accrues_def\<close>)
qed

lemma exec_fma_accrues: "insn_accrues s (exec_fma neg_a neg_c insn s)"
  unfolding exec_fma_def Let_def
  by (auto intro!: insn_accrues_rm insn_accrues_set)

lemma template_accrues:
  fixes f_write :: "nat \<Rightarrow> 'f::len word \<times> u32 \<Rightarrow> 'p Interp \<Rightarrow> 'p Interp"
  assumes w: "\<And>r v. accrues (fflags s) v \<Longrightarrow> insn_accrues s (fp_done (f_write r v s))"
    and c: "\<And>rm. insn_accrues s (cvt_float rm insn s)"
  shows "insn_accrues s (exec_fp_template f_read f_write f_read64 msk cvt_float to_x from_x op insn s)"
proof -
  have rd: "insn_accrues s (case v of (x, fl) \<Rightarrow> fp_done (set_rd r (g x) (s\<lparr>fflags := fl\<rparr>)))"
    if "accrues (fflags s) v" for r g and v :: "'b \<times> u32"
    using that by (cases v) (auto intro: insn_accrues_done)
  show ?thesis
    unfolding exec_fp_template_def Let_def
    by (intro insn_accrues_if insn_accrues_rm insn_accrues_opt w c rd [of _ _ "\<lambda>x. x"] rd [of _ _ of_bool]
        insn_accrues_illegal insn_accrues_set accrues_arith;
        erule accrues_choice accrues_to_int)
qed

lemma exec_fp_accrues: "insn_accrues s (exec_fp insn s)"
proof -
  have "insn_accrues s (cvt_float_32 rm insn s)" "insn_accrues s (cvt_float_64 rm insn s)" for rm
    by (simp_all add: cvt_float_32_def cvt_float_64_def insn_accrues_set)
  then show ?thesis
    unfolding exec_fp_def Let_def exec_fp_32_def exec_fp_64_def
    by (intro insn_accrues_if template_accrues insn_accrues_illegal insn_accrues_set)
qed

end
