(* ===== verification/Float_Properties.thy ===== *)
theory Float_Properties
  imports Demo Isa_F_Refine Float_Bounds Float_Flags
begin

text \<open>
  The properties of software floating point and of the floating-point instructions, at the widths
  \<open>softfp.c\<close> instantiates the template for: 32 and 64 bits, and 128 where C has \<open>__int128\<close>.
\<close>

section \<open>Instructions\<close>

text \<open>
  C20. The interpreter implements the floating-point instructions. On the encoding of any instruction of
  the F and D extensions, with any rounding mode, it has exactly the effect the instruction set gives
  over IEEE 754: the correctly rounded value (or the canonical NaN) NaN-boxed in the destination, the
  accrued flags, an illegal instruction when the unit is off or the rounding mode is reserved. The
  exception is single-precision sign injection, where it holds for \<open>fsgnj.s\<close> with a boxed \<open>rs2\<close> only.
\<close>

theorem fp_instructions_implement_isa:
  assumes "keeps_boxing i s"
  shows "exec_insn ops (fp_encode i) s = fp_exec i s"
  using assms by (rule exec_fp_encode)

theorem fp_instructions_implement_isa_witness:
  "\<exists>t. exec_insn null_platform 0x222110d3 ((interp_begin (interp_enter 5 demo_core))
         \<lparr>fp_reg := (\<lambda>_. 0x3ff0000000000000), fs := 1\<rparr>) = (NextInsn 4, t) \<and>
       fp_reg t 1 = 0xbff0000000000000 \<and> fs t = 3"
proof -
  let ?s = "(interp_begin (interp_enter 5 demo_core))\<lparr>fp_reg := (\<lambda>_. 0x3ff0000000000000), fs := 1\<rparr>"
  have "keeps_boxing (Fsgnj FSGNJN Double 1 2 2) ?s" by (simp add: keeps_boxing_def)
  from fp_instructions_implement_isa [OF this, of null_platform]
  have "exec_insn null_platform 0x222110d3 ?s = fp_exec (Fsgnj FSGNJN Double 1 2 2) ?s" by (simp add: enc_r_def)
  then show ?thesis by (simp add: fp_exec_def write_f_def next_insn_def with_sign_def sf_sign_def)
qed

text \<open>
  C21. \<open>fsgnjn.s\<close>, and with it \<open>fneg.s\<close>, loses its result. The sign mask is the C constant \<open>1 << 31\<close>,
  an \<open>int\<close> that is sign-extended to 64 bits, so for a NaN-boxed operand the upper half of the
  destination is cleared and every later single-precision instruction reads the canonical NaN.
\<close>

theorem fneg_s_reads_back_as_nan:
  assumes "fs s \<noteq> 0" and "boxed (freg s rs2)"
  shows "\<exists>t. exec_insn ops (fp_encode (Fsgnj FSGNJN Single rd rs1 rs2)) s = (NextInsn 4, t) \<and>
    sreg t rd = 0x7fc00000"
  using fsgnjn_s_exec [OF assms] by simp

theorem fneg_s_reads_back_as_nan_witness:
  "\<exists>t. exec_insn null_platform 0x202110d3 ((interp_begin (interp_enter 5 demo_core))
         \<lparr>fp_reg := (\<lambda>_. 0xffffffff3f800000), fs := 1\<rparr>) = (NextInsn 4, t) \<and> sreg t 1 = 0x7fc00000"
proof -
  let ?s = "(interp_begin (interp_enter 5 demo_core))\<lparr>fp_reg := (\<lambda>_. 0xffffffff3f800000), fs := 1\<rparr>"
  have "fs ?s \<noteq> 0" "boxed (freg ?s 2)" by (simp_all add: boxed_def mask_eq_exp_minus_1)
  from fneg_s_reads_back_as_nan [OF this, of null_platform 1 2] show ?thesis by (simp add: enc_r_def)
qed

section \<open>Arithmetic\<close>

text \<open>
  C22. Addition and subtraction are IEEE 754's on every pair of operands and in every rounding mode: the
  exact sum rounded once, the sign of an exact zero, infinities, the canonical NaN, and the flags.
\<close>

theorem addition_is_ieee:
  "add_sf (a :: 32 word) a' rm fl = ieee_add a a' rm fl \<and> sub_sf a a' rm fl = ieee_sub a a' rm fl \<and>
   add_sf (b :: 64 word) b' rm fl = ieee_add b b' rm fl \<and> sub_sf b b' rm fl = ieee_sub b b' rm fl \<and>
   add_sf (c :: 128 word) c' rm fl = ieee_add c c' rm fl \<and> sub_sf c c' rm fl = ieee_sub c c' rm fl"
  by (simp only: f32.add_ieee f32.sub_ieee f64.add_ieee f64.sub_ieee f128.add_ieee f128.sub_ieee simp_thms)

text \<open>C23. Multiplication is IEEE 754's on every pair of operands and in every rounding mode.\<close>

theorem multiplication_is_ieee:
  "mul_sf (a :: 32 word) a' rm fl = ieee_mul a a' rm fl \<and> mul_sf (b :: 64 word) b' rm fl = ieee_mul b b' rm fl \<and>
   mul_sf (c :: 128 word) c' rm fl = ieee_mul c c' rm fl"
  by (simp only: f32.mul_ieee f64.mul_ieee f128.mul_ieee simp_thms)

text \<open>
  C24. Division is IEEE 754's on every pair of operands and in every rounding mode; dividing a nonzero
  number by zero gives a signed infinity and the divide-by-zero flag.
\<close>

theorem division_is_ieee:
  "div_sf (a :: 32 word) a' rm fl = ieee_div a a' rm fl \<and> div_sf (b :: 64 word) b' rm fl = ieee_div b b' rm fl \<and>
   div_sf (c :: 128 word) c' rm fl = ieee_div c c' rm fl"
  by (simp only: f32.div_ieee f64.div_ieee f128.div_ieee simp_thms)

text \<open>
  C25. The square root is IEEE 754's on every operand and in every rounding mode: the Newton iteration
  finds the integer root, and its remainder decides the rounding and the inexact flag.
\<close>

theorem square_root_is_ieee:
  "sqrt_sf (a :: 32 word) rm fl = ieee_sqrt a rm fl \<and> sqrt_sf (b :: 64 word) rm fl = ieee_sqrt b rm fl \<and>
   sqrt_sf (c :: 128 word) rm fl = ieee_sqrt c rm fl"
  by (simp only: f32.sqrt_ieee f64.sqrt_ieee f128.sqrt_ieee simp_thms)

text \<open>
  C26. The fused multiply-add is IEEE 754's on every triple of operands and in every rounding mode: the
  exact product plus the addend, rounded once.
\<close>

theorem fused_multiply_add_is_ieee:
  "fma_sf (a :: 32 word) a' a'' rm fl = ieee_fma a a' a'' rm fl \<and>
   fma_sf (b :: 64 word) b' b'' rm fl = ieee_fma b b' b'' rm fl \<and>
   fma_sf (c :: 128 word) c' c'' rm fl = ieee_fma c c' c'' rm fl"
  by (simp only: f32.fma_ieee f64.fma_ieee f128.fma_ieee simp_thms)

section \<open>Conversions\<close>

lemma bias_room:
  "int LENGTH(32) \<le> sf_bias TYPE(32)" "int LENGTH(64) \<le> sf_bias TYPE(32)"
  "int LENGTH(32) \<le> sf_bias TYPE(64)" "int LENGTH(64) \<le> sf_bias TYPE(64)"
  by (simp_all add: biases)

text \<open>
  C27. A float converts to a 32- or 64-bit integer, signed or unsigned, by rounding its value in the given
  mode; a value out of range, an infinity or a NaN gives the nearest end of the range (the largest
  integer for a NaN) and the invalid flag, and the inexact flag is set exactly when the value changed.
\<close>

theorem float_to_integer_saturates:
  "internal_cvt_sf_i u (a :: 32 word) rm fl = (ieee_to_int u a rm fl :: 32 word \<times> u32) \<and>
   internal_cvt_sf_i u (a :: 32 word) rm fl = (ieee_to_int u a rm fl :: 64 word \<times> u32) \<and>
   internal_cvt_sf_i u (b :: 64 word) rm fl = (ieee_to_int u b rm fl :: 32 word \<times> u32) \<and>
   internal_cvt_sf_i u (b :: 64 word) rm fl = (ieee_to_int u b rm fl :: 64 word \<times> u32)"
  by (simp only: f32.to_int_ieee [OF bias_room(1,1)] f32.to_int_ieee [OF bias_room(2,1)]
      f64.to_int_ieee [OF bias_room(3,4)] f64.to_int_ieee [OF bias_room(4,4)] simp_thms)

text \<open>C28. An integer converts to the float its value rounds to.\<close>

theorem integer_to_float_is_ieee:
  "internal_cvt_i_sf u (i :: 32 word) rm fl = (ieee_result False (real_of_int (int_of_word u i)) rm fl :: 32 word \<times> u32) \<and>
   internal_cvt_i_sf u (j :: 64 word) rm fl = (ieee_result False (real_of_int (int_of_word u j)) rm fl :: 32 word \<times> u32) \<and>
   internal_cvt_i_sf u (i :: 32 word) rm fl = (ieee_result False (real_of_int (int_of_word u i)) rm fl :: 64 word \<times> u32) \<and>
   internal_cvt_i_sf u (j :: 64 word) rm fl = (ieee_result False (real_of_int (int_of_word u j)) rm fl :: 64 word \<times> u32)"
  by (simp only: f32.cvt_int_correct f64.cvt_int_correct simp_thms)

text \<open>
  C29. Converting a 32-bit integer to double precision and back, in any rounding modes, gives the integer
  again and raises no flag; the double has its exact value.
\<close>

theorem integer_round_trip:
  "let (w, fl') = (internal_cvt_i_sf u (v :: 32 word) rm fl :: 64 word \<times> u32)
   in fl' = fl \<and> sf_value w = real_of_int (int_of_word u v) \<and> internal_cvt_sf_i u w rm' fl = (v, fl)"
proof -
  obtain w fl' where w: "(internal_cvt_i_sf u v rm fl :: 64 word \<times> u32) = (w, fl')" by fastforce
  have "LENGTH(32) \<le> MANT_SIZE TYPE(64)" by (simp add: MANT_SIZE_def MANT_SIZE_of_def)
  from f64.int_roundtrip [OF this bias_room(4) w, of rm'] show ?thesis by (simp add: w)
qed

text \<open>
  C30. Conversions between formats are IEEE 754's: widening is exact in every mode and raises nothing but
  the invalid flag of a signalling NaN; narrowing rounds once.
\<close>

theorem format_conversion_is_ieee:
  "(cvt_sf_widen (a :: 32 word) fl :: 64 word \<times> u32) = ieee_convert a rm fl \<and>
   (cvt_sf_narrow (b :: 64 word) rm fl :: 32 word \<times> u32) = ieee_convert b rm fl \<and>
   (cvt_sf_widen (b :: 64 word) fl :: 128 word \<times> u32) = ieee_convert b rm fl \<and>
   (cvt_sf_narrow (c :: 128 word) rm fl :: 64 word \<times> u32) = ieee_convert c rm fl"
  using f64_f32.widen_ieee f64_f32.narrow_ieee f128_f64.widen_ieee f128_f64.narrow_ieee by blast

section \<open>Comparisons\<close>

text \<open>
  C31. Comparisons order numbers and infinities by value, with the two zeros equal; with a NaN they are
  false, \<open>lt\<close> and \<open>le\<close> signal on any NaN and \<open>eq\<close> on a signalling one.
\<close>

theorem comparisons_are_ieee:
  "lt_sf (a :: 32 word) a' fl = cmp_sem FLT a a' fl \<and> le_sf a a' fl = cmp_sem FLE a a' fl \<and> eq_quiet_sf a a' fl = cmp_sem FEQ a a' fl \<and>
   lt_sf (b :: 64 word) b' fl = cmp_sem FLT b b' fl \<and> le_sf b b' fl = cmp_sem FLE b b' fl \<and> eq_quiet_sf b b' fl = cmp_sem FEQ b b' fl \<and>
   lt_sf (c :: 128 word) c' fl = cmp_sem FLT c c' fl \<and> le_sf c c' fl = cmp_sem FLE c c' fl \<and> eq_quiet_sf c c' fl = cmp_sem FEQ c c' fl"
  by (simp add: cmp_sem_def f32.lt_ieee f32.le_ieee f32.eq_ieee f64.lt_ieee f64.le_ieee f64.eq_ieee f128.lt_ieee f128.le_ieee f128.eq_ieee)

text \<open>
  C32. Minimum and maximum choose by value, -0 below +0; a single NaN operand is ignored, two give the
  canonical NaN, and a signalling one raises the invalid flag.
\<close>

theorem minimum_and_maximum:
  "min_sf (a :: 32 word) a' fl FMINMAX_IEEE754_201X = fminmax_sem FMIN a a' fl \<and>
   max_sf (a :: 32 word) a' fl FMINMAX_IEEE754_201X = fminmax_sem FMAX a a' fl \<and>
   min_sf (b :: 64 word) b' fl FMINMAX_IEEE754_201X = fminmax_sem FMIN b b' fl \<and>
   max_sf (b :: 64 word) b' fl FMINMAX_IEEE754_201X = fminmax_sem FMAX b b' fl"
  by (simp only: f32.min_value f32.max_value f64.min_value f64.max_value simp_thms)

section \<open>Rounding, classes and representations\<close>

text \<open>
  C33. In the two rounding-to-nearest modes a finite double-precision result of an addition, subtraction,
  multiplication or division is within half a unit in the last place of the exact one, the unit being
  \<open>2 ^ (E - 52)\<close> for an exact result in the binade of \<open>2 ^ E\<close>, with \<open>E\<close> at least \<open>-1022\<close>; and no finite
  double is closer to the exact result.
\<close>

theorem rounding_error_bounded:
  fixes a b w v :: "64 word"
  assumes "finite_sf a" "finite_sf b" "finite_sf w" and rm: "rm = RM_RNE \<or> rm = RM_RMM"
    and opn: "add_sf a b rm fl = (w, fl') \<and> x = sf_value a + sf_value b \<or>
         sub_sf a b rm fl = (w, fl') \<and> x = sf_value a - sf_value b \<or>
         mul_sf a b rm fl = (w, fl') \<and> x = sf_value a * sf_value b \<or>
         div_sf a b rm fl = (w, fl') \<and> \<not> is_zero_sf b \<and> x = sf_value a / sf_value b"
  shows "\<bar>sf_value w - x\<bar> \<le> 2 powi (max (- 1022) \<lfloor>log 2 \<bar>x\<bar>\<rfloor> - 52) / 2 \<and>
    \<bar>sf_value w - x\<bar> \<le> \<bar>sf_value v - x\<bar>"
proof -
  obtain z where r: "ieee_result z x rm fl = (w, fl')"
    using opn assms(1,2) by (auto simp: f64.add_correct f64.sub_correct f64.mul_correct f64.div_correct)
  have "sf_bias TYPE(64) = 1023" "int (MANT_SIZE TYPE(64)) = 52" by (simp_all add: biases MANT_SIZE_def MANT_SIZE_of_def)
  moreover have "max 1 (k + 1023) - 1023 = max (- 1022) k" for k :: int by (simp add: max_def)
  ultimately have "quantum TYPE(64) (max 1 (binade TYPE(64) \<bar>x\<bar>)) = 2 powi (max (- 1022) \<lfloor>log 2 \<bar>x\<bar>\<rfloor> - 52)"
    by (simp only: quantum_def binade_def)
  with f64.nearest_error(1) [OF r assms(3) rm] f64.nearest_error(2) [OF r assms(3) rm, of v] show ?thesis by simp
qed

lemma one_plus_one: "add_sf (0x3ff0000000000000 :: 64 word) 0x3ff0000000000000 RM_RNE 0 = (0x4000000000000000, 0)"
  by code_simp

theorem rounding_error_bounded_witness:
  "\<forall>v :: 64 word. \<bar>sf_value (0x4000000000000000 :: 64 word) -
     (sf_value (0x3ff0000000000000 :: 64 word) + sf_value (0x3ff0000000000000 :: 64 word))\<bar> \<le>
   \<bar>sf_value v - (sf_value (0x3ff0000000000000 :: 64 word) + sf_value (0x3ff0000000000000 :: 64 word))\<bar>"
proof
  fix v :: "64 word"
  have f: "finite_sf (0x3ff0000000000000 :: 64 word)" "finite_sf (0x4000000000000000 :: 64 word)" by code_simp+
  show "\<bar>sf_value (0x4000000000000000 :: 64 word) -
     (sf_value (0x3ff0000000000000 :: 64 word) + sf_value (0x3ff0000000000000 :: 64 word))\<bar> \<le>
   \<bar>sf_value v - (sf_value (0x3ff0000000000000 :: 64 word) + sf_value (0x3ff0000000000000 :: 64 word))\<bar>"
    using rounding_error_bounded [OF f(1,1,2), where rm = RM_RNE and fl = 0 and fl' = 0 and v = v] one_plus_one by blast
qed

text \<open>
  C34. Classification is a type for floats: exactly one of the ten class bits is set, the one of the
  number's kind (infinity, normal, subnormal, zero, signalling or quiet NaN) and sign, where subnormal
  means smaller in magnitude than the least normal number.
\<close>

theorem classification_is_exact:
  "ucast (fclass_sf (a :: 32 word)) = (2 ^ class_sem a :: u64) \<and> class_sem a < 10 \<and>
   ucast (fclass_sf (b :: 64 word)) = (2 ^ class_sem b :: u64) \<and> class_sem b < 10"
  by (simp add: f32.class_value f64.class_value) (simp add: class_sem_def)

text \<open>
  C35. Packing the fields of a word gives the word back, and unpacking a packed sign, exponent and
  mantissa within their ranges gives them back.
\<close>

theorem pack_unpack_round_trip:
  assumes "0 \<le> e" and "e < 2048" and "unat m < 2 ^ 52"
  shows "unpack_sf (pack_sf s e m :: 64 word) = (s, e, m) \<and>
    pack_sf (sf_sign (a :: 64 word)) (sf_exp a) (sf_mant a) = a"
proof -
  have c: "EXP_MASK TYPE(64) = 2047" "MANT_SIZE TYPE(64) = 52"
    by (simp_all add: EXP_MASK_def EXP_SIZE_def EXP_SIZE_of_def MANT_SIZE_def MANT_SIZE_of_def)
  have "unpack_sf (pack_sf s e m :: 64 word) = (s, e, m)" using assms by (intro f64.pack_unpack) (simp_all add: c)
  moreover have "pack_sf (sf_sign a) (sf_exp a) (sf_mant a) = a" by (rule f64.unpack_pack) (simp add: unpack_sf_def)
  ultimately show ?thesis by simp
qed

theorem pack_unpack_round_trip_witness:
  "unpack_sf (pack_sf True 1023 1 :: 64 word) = (True, 1023, 1)"
  using pack_unpack_round_trip [of 1023 1 True] by simp

text \<open>
  C36. The portable variants compute what the double-width ones do, at 64 bits (used without
  \<open>__int128\<close>) and at 128: bit-serial division of a dividend whose upper half is below the divisor,
  multiplication by halves, and the square root of the normalised operands \<open>sqrt_sf\<close> calls it with.
\<close>

theorem portable_variants_agree:
  fixes x y b c :: "64 word" and x' y' b' c' :: "128 word"
  assumes "x < b" "c \<noteq> 0" "4 * unat c < 2 ^ 64" and "x' < b'" "c' \<noteq> 0" "4 * unat c' < 2 ^ 128"
  shows "divrem_u_serial x y b = divrem_u x y b \<and> mul_u_halves x y = mul_u x y \<and> sqrtrem_u_serial c 0 = sqrtrem_u c 0 \<and>
    divrem_u_serial x' y' b' = divrem_u x' y' b' \<and> mul_u_halves x' y' = mul_u x' y' \<and> sqrtrem_u_serial c' 0 = sqrtrem_u c' 0"
proof -
  have "mul_u_halves x y = mul_u x y" "mul_u_halves x' y' = mul_u x' y'" by (rule mul_halves_eq, simp)+
  moreover have "sqrtrem_u_serial c 0 = sqrtrem_u c 0" using assms(2,3) by (intro sqrt_serial_eq) simp_all
  moreover have "sqrtrem_u_serial c' 0 = sqrtrem_u c' 0" using assms(5,6) by (intro sqrt_serial_eq) simp_all
  ultimately show ?thesis using divrem_serial_eq [OF assms(1)] divrem_serial_eq [OF assms(4)] by simp
qed

theorem portable_variants_agree_witness:
  "divrem_u_serial 1 0 (3 :: 64 word) = divrem_u 1 0 3 \<and> sqrtrem_u_serial (9 :: 128 word) 0 = sqrtrem_u 9 0"
  using portable_variants_agree [of 1 3 9 1 3 9 0 0] by simp

text \<open>
  C37. Exception flags accrue: whatever its operands and at any width, every operation of the library that takes
  the flags sets some of the five and clears none; and so does every instruction of the floating-point
  opcodes, whatever its other bits: the multiply-add opcodes 0x43 to 0x4f and the register operations
  of opcode 0x53, with the comparisons, minimum and maximum, conversions, moves and illegal encodings among
  them.
\<close>

theorem flags_accrue:
  fixes a b c :: "'f::len word" and i :: "'i::len word" and neg_a neg_c :: bool
  shows "accrues fl (add_sf a b rm fl) \<and> accrues fl (sub_sf a b rm fl) \<and> accrues fl (mul_sf a b rm fl) \<and>
    accrues fl (div_sf a b rm fl) \<and> accrues fl (sqrt_sf a rm fl) \<and> accrues fl (fma_sf a b c rm fl) \<and>
    accrues fl (min_sf a b fl minmax) \<and> accrues fl (max_sf a b fl minmax) \<and>
    accrues fl (eq_quiet_sf a b fl) \<and> accrues fl (le_sf a b fl) \<and> accrues fl (lt_sf a b fl) \<and>
    accrues fl (cvt_sf_widen a fl :: 'g::len word \<times> u32) \<and> accrues fl (cvt_sf_narrow a rm fl :: 'h::len word \<times> u32) \<and>
    accrues fl (internal_cvt_sf_i u a rm fl :: 'i word \<times> u32) \<and>
    accrues fl (internal_cvt_i_sf u i rm fl :: 'f word \<times> u32) \<and>
    insn_accrues s (exec_fp insn s) \<and> insn_accrues s (exec_fma neg_a neg_c insn s)"
  by (simp only: accrues_add accrues_sub accrues_mul accrues_div accrues_sqrt accrues_fma accrues_min_max
      accrues_compare accrues_convert exec_fp_accrues exec_fma_accrues simp_thms)

end
