(* ===== verification/Release.thy ===== *)
theory Release
  imports Demo
begin

text \<open>
  The end of a core's life: \<open>tinyemu_core_destroy\<close>, \<open>riscv_cpu_end\<close>, \<open>phys_mem_map_end\<close> and
  \<open>default_free_ram\<close>, as the list of blocks they hand to \<open>tinyemu_free\<close>; the interrupt line wrapper
  of \<open>iomem.h\<close>; and \<open>riscv_cpu_get_misa\<close>. Nothing is freed twice and nothing is leaked.
\<close>

section \<open>Blocks of the host heap\<close>

text \<open>The structures the core allocates: a RAM buffer by its address, a bitmap by the slot of its range
  and its index.\<close>

datatype block = Core_struct | Map_struct | Cpu_struct | Ram_buffer u64 | Bitmap nat nat

text \<open>\<open>tinyemu_free\<close> of a pointer that may be NULL: a bitmap that was never allocated is empty in the
  model.\<close>

definition free_bitmap :: "nat \<Rightarrow> nat \<Rightarrow> u32 list \<Rightarrow> block list" where
  "free_bitmap i j tab = (if tab = [] then [] else [Bitmap i j])"

definition default_free_ram :: "nat \<Rightarrow> PhysMemoryRange \<Rightarrow> block list" where
  "default_free_ram i pr =
     Ram_buffer (phys_mem pr) # concat (map (\<lambda>j. free_bitmap i j (dirty_bits_tab pr j)) [0..<2])"

definition phys_mem_map_end :: "PhysMemoryMap \<Rightarrow> block list" where
  "phys_mem_map_end m =
     concat (map (\<lambda>i. if is_ram (phys_mem_range m i) then default_free_ram i (phys_mem_range m i) else [])
       [0..<n_phys_mem_range m]) @ [Map_struct]"

definition riscv_cpu_end :: "block list" where
  "riscv_cpu_end = [Cpu_struct]"

definition tinyemu_core_destroy :: "'p TinyemuCore option \<Rightarrow> block list" where
  "tinyemu_core_destroy core =
     (case core of None \<Rightarrow> [] | Some s \<Rightarrow> riscv_cpu_end @ phys_mem_map_end (mem_map s) @ [Core_struct])"

section \<open>Interrupt lines and the ISA register\<close>

text \<open>The callback is a parameter; \<open>'o\<close> is what its opaque pointer refers to and \<open>'s\<close> the state it acts on.\<close>

record ('o, 's) IRQSignal =
  irq_set_irq :: "'o \<Rightarrow> int \<Rightarrow> int \<Rightarrow> 's \<Rightarrow> 's"
  irq_opaque :: 'o
  irq_num :: int

definition irq_init :: "('o \<Rightarrow> int \<Rightarrow> int \<Rightarrow> 's \<Rightarrow> 's) \<Rightarrow> 'o \<Rightarrow> int \<Rightarrow> ('o, 's) IRQSignal" where
  "irq_init f opq n = \<lparr>irq_set_irq = f, irq_opaque = opq, irq_num = n\<rparr>"

definition set_irq :: "('o, 's) IRQSignal \<Rightarrow> int \<Rightarrow> 's \<Rightarrow> 's" where
  "set_irq irq level = irq_set_irq irq (irq_opaque irq) (irq_num irq) level"

definition riscv_cpu_get_misa :: "'a RISCVCPUState_scheme \<Rightarrow> u32" where
  "riscv_cpu_get_misa s = misa s"

section \<open>RAM ranges are never empty\<close>

definition sized :: "PhysMemoryMap \<Rightarrow> bool" where
  "sized m \<longleftrightarrow> (\<forall>i < n_phys_mem_range m. is_ram (phys_mem_range m i) \<longrightarrow> org_size (phys_mem_range m i) \<noteq> 0)"

lemma sized_register_ram:
  assumes "machine_ok s" "sized (mem_map s)" "4096 dvd unat base" "alloc_ok (mem_map s) len al"
    and t: "tinyemu_core_register_ram al base len flags s = Some (r, t)"
  shows "sized (mem_map t)"
proof -
  from assms(1) have "core_ok s" "disjoint_ram (mem_map s)" by (simp_all add: machine_ok_def)
  from register_ram_ok [OF this assms(3,4), of flags] t
  have g: "grows (mem_map s) (mem_map t)" and
    r: "case r of None \<Rightarrow> n_phys_mem_range (mem_map t) = n_phys_mem_range (mem_map s)
       | Some i \<Rightarrow> i = n_phys_mem_range (mem_map s) \<and> n_phys_mem_range (mem_map t) = Suc i \<and>
           org_size (phys_mem_range (mem_map t) i) = len"
    by (auto simp: ram_appended_def Let_def split: if_splits)
  have "len \<noteq> 0" if "r = Some i" for i
    using t that by (auto simp: tinyemu_core_register_ram_def split: if_splits)
  with g r assms(2) show ?thesis
    by (cases r) (auto simp: sized_def grows_def less_Suc_eq)
qed

lemma machine_sized: "machine ops s \<Longrightarrow> sized (mem_map s)"
proof (induction rule: machine.induct)
  case (create a b c h s)
  then show ?case using create_ok(3) [OF create] by (simp add: sized_def)
next
  case (ram s base len al flags r t)
  then show ?case using sized_register_ram machine_invariant by blast
next
  case (device s base len widths r t)
  then show ?case
    by (auto simp: tinyemu_core_register_device_def cpu_register_device_def sized_def upd_range_def Let_def less_Suc_eq
        split: if_splits)
next
  case (running s t)
  then have e: "evolves s t" using running_ok machine_invariant by blast
  then have l: "same_layout (phys_mem_range (mem_map s) i) (phys_mem_range (mem_map t) i)" for i by (simp add: evolves_def)
  show ?case using running.IH e unfolding sized_def same_layout_sel [OF l] by (simp add: evolves_def)
next
  case (take s region count)
  then show ?case
    by (auto simp: tinyemu_core_take_dirty_def default_get_dirty_bits_def Let_def sized_def upd_range_def split: option.splits if_splits)
next
  case (clear s region offset)
  then show ?case
    by (auto simp: tinyemu_core_clear_dirty_def phys_mem_reset_dirty_bit_def Let_def sized_def upd_range_def split: option.splits if_splits)
qed

section \<open>Every block is freed once\<close>

lemma distinct_concat_map:
  "(\<And>i. i < n \<Longrightarrow> distinct (f i)) \<Longrightarrow> (\<And>i j. i < j \<Longrightarrow> j < n \<Longrightarrow> set (f i) \<inter> set (f j) = {}) \<Longrightarrow>
   distinct (concat (map f [0..<n]))"
proof (induction n)
  case (Suc n)
  have "distinct (concat (map f [0..<n]))" using Suc.prems by (intro Suc.IH) simp_all
  moreover have "set (concat (map f [0..<n])) \<inter> set (f n) = {}" using Suc.prems(2) by fastforce
  ultimately show ?case using Suc.prems(1) [of n] by simp
qed simp

lemma set_free_ram:
  "set (default_free_ram i pr) = insert (Ram_buffer (phys_mem pr)) {Bitmap i j | j. j < 2 \<and> dirty_bits_tab pr j \<noteq> []}"
  by (auto simp: default_free_ram_def free_bitmap_def less_Suc_eq numeral_2_eq_2)

lemma distinct_free_ram: "distinct (default_free_ram i pr)"
  by (simp add: default_free_ram_def free_bitmap_def numeral_2_eq_2)

text \<open>The blocks a core owns.\<close>

definition owned :: "PhysMemoryMap \<Rightarrow> block set" where
  "owned m = {Core_struct, Map_struct, Cpu_struct} \<union>
     {Ram_buffer (phys_mem (phys_mem_range m i)) | i. i < n_phys_mem_range m \<and> is_ram (phys_mem_range m i)} \<union>
     {Bitmap i j | i j. i < n_phys_mem_range m \<and> is_ram (phys_mem_range m i) \<and> j < 2 \<and> dirty_bits_tab (phys_mem_range m i) j \<noteq> []}"

lemma set_map_end: "set (phys_mem_map_end m) = owned m - {Core_struct, Cpu_struct}"
  unfolding phys_mem_map_end_def owned_def by (auto simp: set_free_ram split: if_splits)

lemma buffers_differ:
  assumes "disjoint_ram m" "sized m" "i < n_phys_mem_range m" "j < n_phys_mem_range m" "i \<noteq> j"
    "is_ram (phys_mem_range m i)" "is_ram (phys_mem_range m j)"
  shows "phys_mem (phys_mem_range m i) \<noteq> phys_mem (phys_mem_range m j)"
proof -
  have "phys_mem (phys_mem_range m k) \<in> buffer (phys_mem_range m k)" if "k < n_phys_mem_range m" "is_ram (phys_mem_range m k)" for k
    using assms(2) that by (auto simp: sized_def buffer_def in_span_iff unat_gt_0 intro!: exI [of _ 0])
  from this [OF assms(3,6)] this [OF assms(4,7)] assms(1,3-7) show ?thesis
    unfolding disjoint_ram_def by (metis disjoint_iff)
qed

lemma distinct_map_end:
  assumes "disjoint_ram m" "sized m"
  shows "distinct (phys_mem_map_end m)"
proof -
  let ?f = "\<lambda>i. if is_ram (phys_mem_range m i) then default_free_ram i (phys_mem_range m i) else []"
  have "distinct (concat (map ?f [0..<n_phys_mem_range m]))"
  proof (rule distinct_concat_map)
    fix i j assume "i < j" "j < n_phys_mem_range m"
    then show "set (?f i) \<inter> set (?f j) = {}"
      using buffers_differ [OF assms, of i j] by (auto simp: set_free_ram)
  qed (simp add: distinct_free_ram)
  moreover have "Map_struct \<notin> set (concat (map ?f [0..<n_phys_mem_range m]))" by (auto simp: set_free_ram split: if_splits)
  ultimately show ?thesis by (simp add: phys_mem_map_end_def)
qed

lemma destroy_once:
  assumes "machine ops s"
  shows "distinct (tinyemu_core_destroy (Some s)) \<and> set (tinyemu_core_destroy (Some s)) = owned (mem_map s)"
proof -
  have "distinct (phys_mem_map_end (mem_map s))"
    using machine_invariant [OF assms] machine_sized [OF assms] by (intro distinct_map_end) (simp_all add: machine_ok_def)
  moreover have "Core_struct \<in> owned (mem_map s)" "Cpu_struct \<in> owned (mem_map s)" by (simp_all add: owned_def)
  ultimately show ?thesis by (auto simp: tinyemu_core_destroy_def riscv_cpu_end_def set_map_end)
qed

end
