(* ===== verification/Spec2Isabelle.thy ===== *)
theory Spec2Isabelle
  imports Demo Legal Csr_Readback Cutils Isa_C_Refine Float_Properties Release
begin

text \<open>
  A model of the execution core of riscbox, the C code under \<open>src/tinyemu-core\<close>: an interpreter for
  RV64GC (with Zba, Zbb, Zbs, Zcb, Zicond, Zicbom, Zicboz, Sstc and PMP registers), Sv39 translation with software TLBs,
  software floating point, and the host interface of \<open>bridge.h\<close>. A host creates a core, registers RAM
  and devices, runs the CPU for a number of cycles, reads and writes guest memory and takes snapshots
  of the pages that changed; the CPU calls back into the host for device accesses.

  The model, in the order the code is layered. The state is one record, extended from layer to layer:
  \<open>RISCVCPUState\<close> (\<open>riscv_cpu_priv.h\<close>), \<open>TinyemuCore\<close> (\<open>bridge.c\<close>: the map, devices and the host's
  heap as a function from addresses to bytes) and \<open>Interp\<close>, the locals of the interpreter loop.

    \<^item> \<open>State\<close>: records, constants and widths; \<open>Prelude\<close>: little-endian loads and stores on the heap.
    \<^item> \<open>Tlb\<close>, \<open>Iomem\<close>, \<open>Device\<close>, \<open>Release\<close>: the three TLBs, \<open>iomem.c\<close> with its dirty bitmaps, the device
      callbacks and DMA window of \<open>bridge.c\<close>, and the release of a core.
    \<^item> \<open>Mmu\<close>: \<open>get_phys_addr\<close>, the load, store and fetch helpers with their slow paths (\<open>riscv_cpu.c\<close>).
    \<^item> \<open>Csr\<close>, \<open>Trap\<close>: \<open>csr_read\<close>, \<open>csr_write\<close>, PMP registers, trap entry and return, interrupts.
    \<^item> \<open>Decode\<close>, \<open>Muldiv\<close>, \<open>Alu\<close>, \<open>Exec\<close>, \<open>Exec_System\<close>, \<open>Exec_Fp\<close>: the switch of
      \<open>riscv_cpu_template.h\<close> and \<open>riscv_cpu_fp_template.h\<close>, one definition per opcode.
    \<^item> \<open>Softfp\<close>, \<open>Softfp_Ops\<close>, \<open>Softfp_Portable\<close>: \<open>softfp_template.h\<close> and \<open>softfp_template_icvt.h\<close>, one set of
      definitions over words of any length, as the template is.
    \<^item> \<open>Interp\<close>, \<open>Bridge\<close>: the instruction loop, its driver and the host functions; \<open>Cutils\<close>: \<open>cutils.h\<close>.

  The specifications and the proofs.

    \<^item> \<open>Mem_Relation\<close>, \<open>Exec_Relation\<close>, \<open>Frame\<close>, \<open>Safety\<close>: what an operation may change, for memory helpers,
      instructions and the loop; the invariant \<open>core_ok\<close> of the map and the TLBs (C2, C6).
    \<^item> \<open>Cycles\<close>, \<open>Run\<close>: termination and cycle accounting (C1). \<open>Host\<close>: the calls of the host as the transition
      systems \<open>machine\<close> and \<open>running\<close>, their invariants, and the dirty snapshots (C2 to C5).
    \<^item> \<open>Walk\<close>, \<open>Sv39\<close>, \<open>Flat\<close>: Sv39 as a specification, which \<open>get_phys_addr\<close> refines but for fetches from user
      pages by a supervisor with SUM set, and guest memory as a flat array of bytes, which loads and
      stores refine while translation is off (C7 to C9).
    \<^item> \<open>Csr_Legal\<close>, \<open>Legal\<close>, \<open>Csr_Readback\<close>, \<open>Privilege\<close>: legal register values, locked PMP entries, the table of
      what every register keeps of a write, access control, traps and interrupts (C10 to C16, C38).
    \<^item> \<open>Bits\<close>, \<open>Isa\<close>, \<open>Encoding\<close>, \<open>Isa_Refine\<close>, \<open>Isa_C\<close>, \<open>Isa_C_Refine\<close>: an instruction set as a datatype with its
      meaning over the integers and its encoding, which the switch implements, and the compressed
      instructions as abbreviations of others (C17, C18).
    \<^item> \<open>Ieee\<close>: rounding of a real number to a format, in the five modes with its flags. \<open>Sticky\<close>, \<open>Round\<close>,
      \<open>Round_Pack\<close>: shifts with a sticky bit, and \<open>normalize_sf\<close> and \<open>round_pack_sf\<close> against that
      specification. \<open>Float_Operands\<close>, \<open>Float_Add\<close>, \<open>Float_Mul\<close>, \<open>Float_Sqrt\<close>, \<open>Float_Fma\<close>, \<open>Float_Convert\<close>, \<open>Float_Width\<close>,
      \<open>Float_Compare\<close>: each operation on finite operands, in the locale \<open>float_format\<close>, which is interpreted
      for 32, 64 and 128 bits, and \<open>format_pair\<close>. \<open>Float_Value\<close>, \<open>Float_Special\<close>, \<open>Float_Bounds\<close>: what the words
      stand for, all other operands, and consequences, among them the half ulp of rounding to nearest.
      \<open>Float_Flags\<close>: the exception flags, on the code itself up to the opcode handlers. \<open>Isa_F\<close>, \<open>Isa_F_Refine\<close>: the F and D
      instructions. \<open>Float_Properties\<close> states C20 to C37.
    \<^item> \<open>Demo\<close>: a concrete machine, on which the witnesses of the properties are evaluated.

  Bounds and fuel. The loop of the interpreter is structural in a fuel, \<open>insn_fuel n = nat n + 2049\<close>: the
  code tests its cycle counter only when it enters a page, and a page of 4096 bytes holds at most 2048
  instructions, so that much is always enough; C1 states that a run returns. The driver of
  \<open>riscv_cpu_interp\<close> has fuel as well, shown to be enough in \<open>Run\<close>. All other loops of the C code are
  structural, or well-founded recursions (the Newton iteration). Words have the widths of the C types
  and wrap as they do; exponents of floating point, which C keeps in \<open>int32_t\<close>, are integers.

  Parameters. The host is a record \<open>platform_ops\<close> of device callbacks over a state of its own, and the
  allocator is a parameter of registration; \<open>alloc_ok\<close> states that it returns NULL or a fresh buffer.
  C undefined behaviour that the core relies on compilers for (unaligned host accesses, \<open>1 << 31\<close>) is
  modelled as the compilers in use define it. The host is little-endian and has 64-bit pointers and a
  64-bit \<open>size_t\<close>; the wasm32 build, where both have 32, is not modelled in that respect. The size of a
  dirty bitmap, a C \<open>int\<close>, is a natural number. The states \<open>machine\<close> are those of hosts that register RAM at
  page-aligned addresses, which \<open>bridge.c\<close> does not check, with an allocator that satisfies \<open>alloc_ok\<close>.

  Not modelled: \<open>log_printf\<close>, \<open>dump_regs\<close> and the other diagnostics, which only print; the declarations of
  \<open>wasm-include\<close>; and everything outside \<open>src/tinyemu-core\<close>: the host programs, the devices and the
  JavaScript adapter, which reach the core only through \<open>bridge.h\<close>, and the guest programs under
  \<open>src/demo\<close>, which are the emulator's input. Host time and scheduling do not exist in the model.
\<close>

section \<open>The core as the host sees it\<close>

text \<open>
  C1. A run of the CPU in any state the host can reach returns: it never loops forever, whatever the
  guest program and the platform do. It consumes at most the cycle limit plus one page of
  straight-line code and the exit check; the reason it reports is the one the core is in; a run
  that reports the limit has used it up; and it consumes nothing exactly when the CPU sleeps or the
  limit is not positive.
\<close>

theorem run_cpu_returns:
  assumes "machine ops s"
  shows "\<exists>res p' t. tinyemu_core_run_cpu ops cycle_limit p s = Some (res, p', t) \<and> machine ops t \<and>
     platform t = None \<and> reason res = run_reason_of t \<and>
     uint (consumed_cycles res) \<le> max 0 (sint cycle_limit) + 2049 \<and>
     (reason res = TINYEMU_CPU_LIMIT_REACHED \<longrightarrow> sint cycle_limit \<le> uint (consumed_cycles res)) \<and>
     (consumed_cycles res = 0 \<longleftrightarrow> power_down_flag s \<or> sint cycle_limit \<le> 0)"
proof -
  have "core_ok s" using machine_invariant [OF assms] by (simp add: machine_ok_def)
  from run_ok [OF this, of ops cycle_limit p] obtain res p' t
    where r: "tinyemu_core_run_cpu ops cycle_limit p s = Some (res, p', t)" "platform t = None"
      "reason res = run_reason_of t" "uint (consumed_cycles res) \<le> max 0 (sint cycle_limit) + 2049"
      "reason res = TINYEMU_CPU_LIMIT_REACHED \<longrightarrow> sint cycle_limit \<le> uint (consumed_cycles res)"
      "consumed_cycles res = 0 \<longleftrightarrow> power_down_flag s \<or> sint cycle_limit \<le> 0"
    by blast
  have "machine ops t" using machine.running [OF assms running.run [OF running.start r(1)]] .
  with r show ?thesis by blast
qed

theorem run_cpu_returns_witness:
  "\<exists>res p' t. tinyemu_core_run_cpu null_platform 100 () demo_core = Some (res, p', t) \<and>
     machine null_platform t \<and> uint (consumed_cycles res) \<le> 2149"
  using run_cpu_returns [OF demo_machine, of 100 "()"] by fastforce

text \<open>
  C2. In every state the host can reach the physical map is well formed, every valid TLB entry maps a
  whole page of a registered RAM buffer (a write TLB entry a page whose dirty mark is set), no two
  buffers share a byte, and register x0 holds zero.
\<close>

theorem reachable_invariant:
  assumes "machine ops s"
  shows "map_ok (mem_map s) \<and> tlb_ok s \<and> disjoint_ram (mem_map s) \<and> tinyemu_core_register s 0 = 0"
  using machine_invariant [OF assms]
  by (simp add: machine_ok_def core_ok_def tinyemu_core_register_def)

theorem reachable_invariant_witness:
  "map_ok (mem_map demo_core) \<and> tlb_ok demo_core \<and> n_phys_mem_range (mem_map demo_core) = 1"
  using reachable_invariant [OF demo_machine] by simp

text \<open>
  C3. No write to guest memory escapes the dirty bitmap. Whatever happens between two snapshots
  (runs of the CPU with every store and DMA write in them, host writes, timer and interrupt updates,
  resets), a byte of a RAM buffer that differs from its value at the start lies in a page the next
  snapshot of the range reports; and a byte outside every RAM buffer does not change at all.
\<close>

theorem snapshot_complete:
  assumes "machine ops s" and "running ops s t"
    and "tinyemu_core_take_dirty region count t = (Some snap, u)"
  shows "(\<forall>off q. ram_byte (mem_map t) (nat region) off q \<and> hmem t q \<noteq> hmem s q \<longrightarrow>
            snapshot_bit snap off) \<and>
         (\<forall>q. (\<nexists>i off. ram_byte (mem_map s) i off q) \<longrightarrow> hmem t q = hmem s q) \<and> hmem u = hmem t"
proof -
  have "machine_ok t" "evolves s t"
    using running_ok [OF assms(2) machine_invariant [OF assms(1)]] by blast+
  then have t: "core_ok t" "disjoint_ram (mem_map t)" "evolves s t" by (simp_all add: machine_ok_def)
  have "ram_byte (mem_map t) i off q = ram_byte (mem_map s) i off q" for i off q
    using t(3) ram_byte_layout [of "mem_map t" "mem_map s" i off q] by (simp add: evolves_def)
  then have "hmem t q = hmem s q" if "\<nexists>i off. ram_byte (mem_map s) i off q" for q
    using that t(3) by (auto simp: evolves_def changed_ok_def)
  then show ?thesis
    using snapshot_sound [OF t(3,1,2) assms(3)] take_dirty_ok(2) [OF t(1) assms(3)] by blast
qed

lemma demo_write:
  "snd (tinyemu_core_write 0x2000 1 7 demo_core) =
     demo_core\<lparr>mem_map := upd_range 0 (\<lambda>pr. pr\<lparr>dirty_bits_tab := (\<lambda>_. [0])(0 := [4])\<rparr>) (mem_map demo_core),
               hmem := (hmem demo_core)(0x102000 := 7)\<rparr>"
  by (simp add: tinyemu_core_write_def tinyemu_core_ram_range_def get_phys_mem_range_def valid_width_def
      range_contains_def set_dirty_pages_def phys_mem_set_dirty_bit_def upd_range_def Let_def)

lemma demo_snapshot:
  "fst (tinyemu_core_take_dirty 0 1 (snd (tinyemu_core_write 0x2000 1 7 demo_core))) = Some [4]"
  unfolding demo_write
  by (simp add: tinyemu_core_take_dirty_def default_get_dirty_bits_def upd_range_def Let_def)

theorem snapshot_complete_witness:
  "\<exists>t. running null_platform demo_core t \<and> fst (tinyemu_core_take_dirty 0 1 t) = Some [4] \<and>
     (\<forall>off q. ram_byte (mem_map t) 0 off q \<and> hmem t q \<noteq> hmem demo_core q \<longrightarrow> snapshot_bit [4] off)"
proof -
  let ?t = "snd (tinyemu_core_write 0x2000 1 7 demo_core)"
  have r: "running null_platform demo_core ?t" by (rule running.host_write [OF running.start])
  have "tinyemu_core_take_dirty 0 1 ?t = (Some [4], snd (tinyemu_core_take_dirty 0 1 ?t))"
    by (rule prod_eqI) (simp_all only: demo_snapshot fst_conv snd_conv)
  from snapshot_complete [OF demo_machine r this] demo_snapshot r show ?thesis by auto
qed

text \<open>
  C4. Registration never reaches an assertion of the memory map. On every reachable state both calls
  return, in a reachable state. A range that is empty, too large, not made of pages (RAM), or that
  runs past the end of the address space, or that finds the tables full, is refused and nothing
  changes. When the allocator fails, RAM is refused, the slots in use and the devices stay, and no byte
  outside the block it returned changes. Otherwise one slot is added, the next one, with the range,
  flags and buffer of the call, the buffer zeroed, respectively with the next entry of the device
  table; older slots, devices and all other bytes stay as they were.
\<close>

theorem registration_never_aborts:
  assumes "machine ops s" and "4096 dvd unat base" and "alloc_ok (mem_map s) len al"
  shows "(\<exists>r t. tinyemu_core_register_ram al base len flags s = Some (r, t) \<and> machine ops t \<and>
           grows (mem_map s) (mem_map t) \<and> devices t = devices s \<and> device_count t = device_count s \<and>
           (\<forall>q. \<not> unat (q - mem_ptr al) < unat len \<longrightarrow> hmem t q = hmem s q) \<and>
           (if ram_refused s base len then r = None \<and> t = s
            else if alloc_failed al flags
            then r = None \<and> n_phys_mem_range (mem_map t) = n_phys_mem_range (mem_map s)
            else r = Some (n_phys_mem_range (mem_map s)) \<and> ram_appended al base len flags s t)) \<and>
         (\<exists>r t. tinyemu_core_register_device dbase dlen widths s = Some (r, t) \<and> machine ops t \<and>
           (if device_refused s dbase dlen then r = None \<and> t = s
            else r = Some (n_phys_mem_range (mem_map s)) \<and> device_appended dbase dlen widths s t))"
proof -
  have s: "core_ok s" "disjoint_ram (mem_map s)"
    using machine_invariant [OF assms(1)] by (simp_all add: machine_ok_def)
  show ?thesis
    using register_ram_ok [OF s assms(2,3), of flags] machine.ram [OF assms]
      register_device_ok [OF s, of dbase dlen widths] machine.device [OF assms(1)] by blast
qed

theorem registration_never_aborts_witness:
  "(\<exists>t. tinyemu_core_register_ram demo_alloc 0 0x10000 DEVRAM_FLAG_DIRTY_BITS demo_bare = Some (Some 0, t) \<and>
      machine null_platform t) \<and>
   (\<exists>t. tinyemu_core_register_device 0x20000 0x100 4 demo_bare = Some (Some 0, t) \<and>
      device_appended 0x20000 0x100 4 demo_bare t)"
proof -
  have "device_count demo_bare = 0" using create_ok(4) [OF demo_bare_create] .
  then have "\<not> ram_refused demo_bare 0 0x10000" "\<not> device_refused demo_bare 0x20000 0x100"
    "\<not> alloc_failed demo_alloc DEVRAM_FLAG_DIRTY_BITS"
    by (simp_all add: ram_refused_def device_refused_def alloc_failed_def demo_alloc_def)
  then show ?thesis
    using registration_never_aborts [OF demo_bare_machine _ demo_alloc_ok,
        of 0 DEVRAM_FLAG_DIRTY_BITS "0x20000" "0x100" 4] by auto
qed

text \<open>
  C5. What the host writes through the bridge it reads back, at the width it wrote, whatever the
  range the address falls into.
\<close>

theorem host_write_roundtrip:
  assumes "tinyemu_core_write address width val s = (True, t)"
  shows "tinyemu_core_read address width t = Some (take_bit (8 * width) val)"
  using assms by (rule host_write_read)

theorem host_write_roundtrip_witness:
  "tinyemu_core_read 0x2000 1 (snd (tinyemu_core_write 0x2000 1 0x107 demo_core)) = Some 7"
proof -
  have "tinyemu_core_write 0x2000 1 0x107 demo_core =
      (True, snd (tinyemu_core_write 0x2000 1 0x107 demo_core))"
    by (simp add: tinyemu_core_write_def tinyemu_core_ram_range_def get_phys_mem_range_def valid_width_def
        range_contains_def Let_def)
  from host_write_roundtrip [OF this] show ?thesis by simp
qed

section \<open>One iteration of the interpreter\<close>

text \<open>
  C6. One iteration of the instruction loop, whatever instruction it fetches and whatever the
  platform answers, keeps the map and the TLBs well formed, moves no range, loses no dirty mark and
  changes host memory only inside registered RAM, in pages that are marked.
\<close>

theorem step_memory_safe:
  assumes "core_ok s"
  shows "core_ok (snd (interp_step ops s)) \<and> evolves s (snd (interp_step ops s))"
  using sr.R_step [of s ops] assms by (simp add: safe_step_def)

theorem step_memory_safe_witness:
  "core_ok (snd (interp_step null_platform (interp_begin (interp_enter 5 demo_core))))"
proof -
  have "core_ok (interp_begin (interp_enter 5 demo_core))"
    using demo_core_ok core_ok_cong [of "interp_begin (interp_enter 5 demo_core)" demo_core] by simp
  from step_memory_safe [OF this] show ?thesis by blast
qed

section \<open>Address translation and memory\<close>

text \<open>
  C7. Address translation implements Sv39 for loads, stores and fetches, with one exception. When
  translation is on, \<open>get_phys_addr\<close> succeeds exactly where the page tables give a permitted, well-formed
  leaf, with the physical address of that leaf and with exactly the accessed and dirty bits the access
  needs written to memory; a fault leaves the machine as it was. When translation is off the address
  is the physical address. The exception: where Sv39 never lets supervisor mode execute from a user
  page, a fetch in supervisor mode with SUM set succeeds on an executable user page
  (\<open>sum_fetch_maps\<close>); a data access, or any access with SUM clear, agrees with Sv39 without exception.
\<close>

theorem translation_implements_sv39:
  "if sv39_active s acc
   then (\<forall>pa t. get_phys_addr va acc s = (TRANSLATE_OK, pa, t) \<longleftrightarrow>
           sv39_maps s va acc pa t \<or> sum_fetch_maps s va acc pa t) \<and>
        (acc \<noteq> ACCESS_CODE \<or> get_effective_priv s acc \<noteq> PRV_S \<or> \<not> bit (mstatus s) 18 \<longrightarrow>
           (\<forall>pa t. get_phys_addr va acc s = (TRANSLATE_OK, pa, t) \<longleftrightarrow> sv39_maps s va acc pa t)) \<and>
        (\<forall>r pa t. get_phys_addr va acc s = (r, pa, t) \<and> r \<noteq> TRANSLATE_OK \<longrightarrow> t = s)
   else get_phys_addr va acc s = (TRANSLATE_OK, va, s)"
proof (cases "sv39_active s acc")
  case True
  have "\<forall>r pa t. get_phys_addr va acc s = (r, pa, t) \<and> r \<noteq> TRANSLATE_OK \<longrightarrow> t = s"
    using get_phys_addr_fault by blast
  moreover have "\<forall>pa t. \<not> sum_fetch_maps s va acc pa t"
    if "acc \<noteq> ACCESS_CODE \<or> get_effective_priv s acc \<noteq> PRV_S \<or> \<not> bit (mstatus s) 18"
    using no_sum_fetch [OF that] by blast
  ultimately show ?thesis
    using True get_phys_addr_iff [OF True, of va] by (simp only: if_True simp_thms) blast
next
  case False
  then show ?thesis by (simp add: get_phys_addr_inactive)
qed

theorem translation_implements_sv39_witness:
  "sv39_active demo_paged ACCESS_READ \<and>
   get_phys_addr 0x2345 ACCESS_READ demo_paged = (TRANSLATE_OK, 0x2345, demo_paged)"
  using translation_implements_sv39 [of demo_paged ACCESS_READ "0x2345"] demo_paged_active demo_paged_maps
  by simp

text \<open>
  C8. A load of any width at any address, aligned or not, within a page or across two, through the TLB
  or the slow path, returns the little-endian value of guest memory at that address and changes no
  byte of it. Translation is off and the pages are plain RAM.
\<close>

theorem load_reads_guest_memory:
  assumes "flat s" and "\<forall>k < size_bytes sz. \<exists>i. ram_page (mem_map s) (va + of_nat k) i"
  shows "\<exists>t. target_read ops sz va s = (Some (load_le (size_bytes sz) (guest_mem s) va), t) \<and>
     flat t \<and> guest_mem t = guest_mem s"
  using flat_read [OF assms, of ops] by blast

theorem load_reads_guest_memory_witness:
  "\<exists>t. target_read null_platform S32 0xffe demo_core = (Some 0, t) \<and> flat t"
proof -
  have "\<forall>k < size_bytes S32. \<exists>i. ram_page (mem_map demo_core) (0xffe + of_nat k) i"
  proof (intro allI impI exI)
    fix k :: nat assume "k < size_bytes S32"
    then have "k = 0 \<or> k = 1 \<or> k = 2 \<or> k = 3" by auto
    then show "ram_page (mem_map demo_core) (0xffe + of_nat k) 0"
      by (intro demo_page) auto
  qed
  moreover have "load_le 4 (guest_mem demo_core) 0xffe = (0 :: u64)"
  proof (rule bit_word_eqI)
    fix n
    have "guest_mem demo_core a = 0" for a by (auto simp: guest_mem_def split: option.split)
    then show "bit (load_le 4 (guest_mem demo_core) 0xffe :: u64) n = bit 0 n"
      by (simp add: load_le_bit)
  qed
  ultimately show ?thesis
    using load_reads_guest_memory [OF demo_flat, of S32 "0xffe" null_platform] by auto
qed

text \<open>
  C9. A store of any width and alignment, within a page or across two, through the TLB or the slow path,
  succeeds and changes exactly the bytes of guest memory it addresses, to the little-endian bytes of the
  value; a load of the same width and address then returns the value. Translation is off and the
  pages are plain RAM that is not marked as ROM.
\<close>

theorem store_writes_guest_memory:
  assumes "flat s" and "\<forall>k < size_bytes sz. \<exists>i. writable_page (mem_map s) (va + of_nat k) i"
  shows "\<exists>st t. target_write ops sz va val s = (st, t) \<and> 0 \<le> st \<and> flat t \<and>
     guest_mem t = store_le (size_bytes sz) val va (guest_mem s) \<and>
     fst (target_read ops sz va t) = Some (take_bit (8 * size_bytes sz) val)"
proof -
  have p: "\<forall>k < size_bytes sz. \<exists>i. ram_page (mem_map s) (va + of_nat k) i"
    using assms(2) unfolding writable_page_def by blast
  obtain st t where t: "target_write ops sz va val s = (st, t)" "0 \<le> st" "flat t"
    "guest_mem t = store_le (size_bytes sz) val va (guest_mem s)"
    "\<forall>a j. ram_page (mem_map t) a j = ram_page (mem_map s) a j"
    using flat_write [OF assms(1) p, of ops val] by blast
  have "\<forall>k < size_bytes sz. \<exists>i. ram_page (mem_map t) (va + of_nat k) i" using p t(5) by simp
  from flat_read [OF t(3) this, of ops] obtain u
    where "target_read ops sz va t = (Some (load_le (size_bytes sz) (guest_mem t) va), u)" by blast
  moreover have "size_bytes sz < 2 ^ 64" by (cases sz) simp_all
  ultimately have "fst (target_read ops sz va t) = Some (take_bit (8 * size_bytes sz) val)"
    unfolding t(4) by (simp add: load_store_le)
  with t show ?thesis by blast
qed

theorem store_writes_guest_memory_witness:
  "\<exists>st t. target_write null_platform S16 0x2000 0x1234 demo_core = (st, t) \<and> 0 \<le> st \<and>
     fst (target_read null_platform S16 0x2000 t) = Some 0x1234"
proof -
  have "\<forall>k < size_bytes S16. \<exists>i. writable_page (mem_map demo_core) (0x2000 + of_nat k) i"
  proof (intro allI impI exI)
    fix k :: nat assume "k < size_bytes S16"
    then have "k = 0 \<or> k = 1" by auto
    then show "writable_page (mem_map demo_core) (0x2000 + of_nat k) 0" by (intro demo_writable) auto
  qed
  from store_writes_guest_memory [OF demo_flat this, of null_platform "0x1234"] show ?thesis by auto
qed

section \<open>Control and status registers\<close>

text \<open>
  C10. In every reachable state the control and status registers hold legal values: \<open>satp\<close> selects
  bare or Sv39, no reserved bit of \<open>mie\<close>, \<open>mideleg\<close>, \<open>medeleg\<close>, \<open>mtvec\<close>, \<open>stvec\<close>, \<open>mcounteren\<close>,
  \<open>scounteren\<close>, \<open>menvcfg\<close>, \<open>senvcfg\<close> and the PMP addresses is set, no CBIE field holds the reserved
  encoding and no PMP entry is writable without being readable.
\<close>

theorem csr_values_legal:
  assumes "machine ops s"
  shows "csr_ok s"
  using assms by (rule machine_csr_ok)

theorem csr_values_legal_witness: "csr_ok demo_core \<and> machine null_platform demo_core"
  using csr_values_legal [OF demo_machine] demo_machine by blast

text \<open>
  C11. A locked PMP entry cannot be changed by any program: whatever a run of the CPU executes, the
  configuration and the address of a locked entry, and the address below a locked top-of-range
  entry, are the same after it.
\<close>

theorem pmp_lock_survives_run:
  assumes "tinyemu_core_run_cpu ops cycle_limit p s = Some (res, p', t)" and "pmp_locked s i"
  shows "pmpcfg t i = pmpcfg s i \<and> pmpaddr t i = pmpaddr s i \<and> pmp_locked t i \<and>
    (pmpcfg s i AND PMP_CFG_A_MASK = PMP_CFG_A_TOR \<and> 0 < i \<longrightarrow> pmpaddr t (i - 1) = pmpaddr s (i - 1))"
  using csr_step_run [OF assms(1)] assms(2)
  unfolding csr_step_def pmp_kept_def pmp_locked_def by simp

lemma demo_locked_run:
  "\<exists>res p' t. tinyemu_core_run_cpu null_platform 100 () (demo_core\<lparr>pmpcfg := (\<lambda>_. 0x80)\<rparr>) = Some (res, p', t)"
proof -
  let ?s = "demo_core\<lparr>pmpcfg := (\<lambda>_. 0x80)\<rparr>"
  have "core_ok ?s" using demo_core_ok core_ok_cong [of ?s demo_core] by (simp del: demo_core_sel)
  from run_ok [OF this, of null_platform 100 "()"] show ?thesis by blast
qed

theorem pmp_lock_survives_run_witness:
  "\<exists>res p' t. tinyemu_core_run_cpu null_platform 100 () (demo_core\<lparr>pmpcfg := (\<lambda>_. 0x80)\<rparr>) = Some (res, p', t) \<and>
     pmpcfg t 3 = 0x80"
proof -
  obtain res p' t where
    r: "tinyemu_core_run_cpu null_platform 100 () (demo_core\<lparr>pmpcfg := (\<lambda>_. 0x80)\<rparr>) = Some (res, p', t)"
    using demo_locked_run by blast
  have "pmp_locked (demo_core\<lparr>pmpcfg := (\<lambda>_. 0x80)\<rparr>) 3" by (simp add: pmp_locked_def)
  from pmp_lock_survives_run [OF r this] r show ?thesis by auto
qed

text \<open>
  C12. What every control and status register reads back after a write in machine mode, as the table
  \<open>csr_legalize\<close> of legal values gives it. The scratch, cause, value, timer and counter registers return
  the value; \<open>mepc\<close>, \<open>mtvec\<close>, the counter enables, the environment configuration, \<open>medeleg\<close>, \<open>mideleg\<close>, \<open>mie\<close> and
  the floating-point registers its legal bits; \<open>mstatus\<close> and \<open>sstatus\<close>, \<open>sie\<close>, \<open>sip\<close> and \<open>mip\<close> its writable bits
  merged with what was there, behind their view; \<open>satp\<close> keeps the old mode when the new one is not
  implemented; \<open>misa\<close> stays; a \<open>pmpcfg\<close> or \<open>pmpaddr\<close> entry stays when it is locked. A write to any other
  number is an error and changes nothing.
\<close>

theorem csr_reads_back:
  assumes "priv s = PRV_M" and "csr_ok s"
  shows "case csr_legalize s csr val of
      None \<Rightarrow> csr_write csr val s = (CSR_WRITE_ERROR, s)
    | Some v \<Rightarrow> fst (csr_write csr val s) \<noteq> CSR_WRITE_ERROR \<and>
        csr_read (snd (csr_write csr val s)) csr False = Some v"
  using csr_write_keeps [OF assms, of csr val] csr_write_refused [of s csr val]
  by (simp add: csr_keeps_def split: option.split)

theorem csr_reads_back_witness:
  "csr_read (snd (csr_write 0x305 0x80000103 demo_core)) 0x305 False = Some 0x80000100 \<and>
   csr_read (snd (csr_write 0x180 0x1000000000000001 demo_core)) 0x180 False = Some 1 \<and>
   csr_write 0x7c0 1 demo_core = (CSR_WRITE_ERROR, demo_core)"
proof -
  have "csr_legalize demo_core 0x305 0x80000103 = Some 0x80000100"
    "csr_legalize demo_core 0x180 0x1000000000000001 = Some 1"
    "csr_legalize demo_core 0x7c0 1 = None"
    by (simp_all add: csr_legalize_def legal_satp_def take_bit_eq_mod del: demo_core_sel)
  with csr_reads_back [OF _ machine_csr_ok [OF demo_machine], of "0x305" "0x80000103"]
    csr_reads_back [OF _ machine_csr_ok [OF demo_machine], of "0x180" "0x1000000000000001"]
    csr_reads_back [OF _ machine_csr_ok [OF demo_machine], of "0x7c0" 1]
  show ?thesis by (simp del: demo_core_sel)
qed

text \<open>
  C13. A CSR instruction that names a register of a higher privilege, or that writes a read-only one, is
  an illegal instruction and changes nothing but the visible copies of the counters: no register,
  no CSR and no memory is written.
\<close>

theorem csr_access_control:
  assumes "f_funct3 insn AND 3 \<noteq> 0" and "f_funct3 insn \<noteq> 4"
    and "csr_forbidden (priv s) (drop_bit 20 insn) (f_funct3 insn AND 3 = 1 \<or> f_rs1 insn \<noteq> 0)"
  shows "exec_system insn s = (IllegalInsn, csr_sync s)"
proof -
  have "f_funct3 insn AND 3 = 1 \<or> f_funct3 insn AND 3 = 2 \<or> f_funct3 insn AND 3 = 3"
  proof -
    have "(3 :: u32) = mask 2" by (simp add: mask_eq_exp_minus_1)
    then have "unat (f_funct3 insn AND 3) < 2 ^ 2" by (metis unat_and_mask_less)
    then have "unat (f_funct3 insn AND 3) \<in> {0, 1, 2, 3}" by auto
    then show ?thesis
      using assms(1) by (auto simp: unat_eq_0 dest: arg_cong [of _ _ "of_nat :: nat \<Rightarrow> u32"])
  qed
  then show ?thesis
    using assms(2,3) csr_insn_forbidden [of s insn]
    by (elim disjE) (simp_all add: exec_system_def Let_def illegal_insn_def)
qed

theorem csr_access_control_witness:
  "exec_system 0x30009173 ((interp_begin (interp_enter 5 demo_core))\<lparr>priv := PRV_U\<rparr>) =
     (IllegalInsn, csr_sync ((interp_begin (interp_enter 5 demo_core))\<lparr>priv := PRV_U\<rparr>))"
  by (rule csr_access_control) (simp_all add: csr_forbidden_def f_funct3_def f_rs1_def)

section \<open>Traps and interrupts\<close>

text \<open>
  C14. A trap goes to supervisor mode exactly when it is delegated and arises below machine mode, and
  hands its handler the cause, the value, the address of the trapped instruction and the privilege
  it came from, with interrupts of the handler's mode off and the registers untouched; a handler
  that returns at once resumes the program where it was, at its privilege.
\<close>

theorem trap_entry_and_return:
  assumes "priv s \<le> PRV_M"
  shows "trap_saved (delegated s cause) cause tval s (raise_exception2 cause tval s) \<and>
     (let t = raise_exception2 cause tval s; u = (if delegated s cause then handle_sret t else handle_mret t)
      in pc u = pc s \<and> priv u = priv s \<and> reg u = reg s)"
  using raise_saves [OF assms] trap_return [OF assms] by (simp add: Let_def)

theorem trap_entry_and_return_witness:
  "priv (raise_exception2 2 0 demo_core) = PRV_M \<and>
   pc (handle_mret (raise_exception2 2 0 demo_core)) = pc demo_core"
proof -
  have d: "\<not> delegated demo_core 2" by (simp add: delegated_def word_le_nat_alt)
  have "priv demo_core \<le> PRV_M" by simp
  from trap_entry_and_return [OF this, of 2 0] d show ?thesis
    by (simp add: trap_saved_def Let_def del: demo_core_cpu)
qed

text \<open>
  C15. Between two instructions the core takes an interrupt exactly when one is pending, enabled and not
  masked at the current privilege, and then the one with the lowest number; otherwise nothing
  changes.
\<close>

theorem interrupt_selection:
  "if \<exists>i. takeable s i
   then \<exists>k. takeable s k \<and> (\<forall>j < k. \<not> takeable s j) \<and>
          raise_interrupt s = (True, raise_exception2 (of_nat k OR CAUSE_INTERRUPT) 0 s)
   else raise_interrupt s = (False, s)"
  by (rule interrupt_choice)

theorem interrupt_selection_witness:
  "\<exists>k. raise_interrupt (demo_core\<lparr>mip := 8, mie := 8, priv := PRV_U\<rparr>) =
     (True, raise_exception2 (of_nat k OR CAUSE_INTERRUPT) 0 (demo_core\<lparr>mip := 8, mie := 8, priv := PRV_U\<rparr>))"
proof -
  have "bit (8 :: u32) 3" by (simp add: bit_simps)
  then have "takeable (demo_core\<lparr>mip := 8, mie := 8, priv := PRV_U\<rparr>) 3" by (simp add: takeable_def)
  then have "\<exists>i. takeable (demo_core\<lparr>mip := 8, mie := 8, priv := PRV_U\<rparr>) i" by blast
  with interrupt_selection [of "demo_core\<lparr>mip := 8, mie := 8, priv := PRV_U\<rparr>"] show ?thesis
    by (simp only: if_True) blast
qed

lemma wake_up:
  "msk AND (MIP_MSIP OR MIP_MTIP OR MIP_MEIP OR MIP_SEIP) AND mie s \<noteq> 0 \<Longrightarrow>
     \<not> power_down_flag (tinyemu_core_set_interrupts msk s)"
  "menvcfg s AND MENVCFG_STCE \<noteq> 0 \<Longrightarrow> stimecmp s \<le> n \<Longrightarrow> MIP_STIP AND mie s \<noteq> 0 \<Longrightarrow>
     \<not> power_down_flag (tinyemu_core_set_guest_timer_ticks n s)"
  by (auto simp: tinyemu_core_set_interrupts_def riscv_cpu_set_mip_def riscv_cpu_reset_mip_def
      tinyemu_core_set_guest_timer_ticks_def riscv_cpu_update_time_def Let_def
      bit.conj_disj_distrib2 or_eq_0_iff and.assoc)

text \<open>
  C16. A sleeping CPU wakes. When the host raises an interrupt line the guest has enabled, or moves the
  guest timer past an enabled \<open>stimecmp\<close>, the CPU is no longer asleep and the next run with a positive
  limit executes at least one cycle.
\<close>

theorem wake_up_runs:
  assumes "core_ok s" and "0 < sint cycle_limit"
    and "u = tinyemu_core_set_interrupts msk s \<and>
           msk AND (MIP_MSIP OR MIP_MTIP OR MIP_MEIP OR MIP_SEIP) AND mie s \<noteq> 0 \<or>
         u = tinyemu_core_set_guest_timer_ticks n s \<and> menvcfg s AND MENVCFG_STCE \<noteq> 0 \<and>
           stimecmp s \<le> n \<and> MIP_STIP AND mie s \<noteq> 0"
  shows "tinyemu_core_is_wfi_sleeping u = 0 \<and>
    (\<exists>res p' t. tinyemu_core_run_cpu ops cycle_limit p u = Some (res, p', t) \<and> 0 < consumed_cycles res)"
proof -
  have ok: "core_ok u"
    using assms(1,3) core_ok_cong [of "tinyemu_core_set_interrupts msk s" s]
      core_ok_cong [of "tinyemu_core_set_guest_timer_ticks n s" s] by auto
  have w: "\<not> power_down_flag u" using assms(3) wake_up by blast
  then show ?thesis
    using run_ok [OF ok, of ops cycle_limit p] assms(2)
    by (auto simp: tinyemu_core_is_wfi_sleeping_def riscv_cpu_get_power_down_def word_gt_0)
qed

theorem wake_up_runs_witness:
  "\<exists>res p' t. tinyemu_core_run_cpu null_platform 100 ()
       (tinyemu_core_set_interrupts MIP_SEIP (demo_core\<lparr>mie := MIP_SEIP, power_down_flag := True\<rparr>)) =
     Some (res, p', t) \<and> 0 < consumed_cycles res"
proof -
  let ?s = "demo_core\<lparr>mie := MIP_SEIP, power_down_flag := True\<rparr>"
  have "core_ok ?s" using demo_core_ok core_ok_cong [of ?s demo_core] by (simp del: demo_core_sel)
  from wake_up_runs [OF this, of 100 _ MIP_SEIP 0 null_platform "()"] show ?thesis by simp
qed

section \<open>The instruction set\<close>

text \<open>
  C17. The interpreter implements the instruction set. On the encoding of any integer instruction of
  RV64IM, Zba, Zbb, Zbs and Zicond, or of a floating-point load or store, the switch does exactly what
  the instruction set says: the value the specification gives over the integers, written to the
  destination register (never to x0), the memory access of the right width, or the jump.
\<close>

theorem interpreter_implements_isa:
  "exec_insn ops (encode i) s = isa_exec ops 4 i s"
  by (rule exec_insn_encode)

theorem interpreter_implements_isa_witness:
  "exec_insn null_platform 0x00508113 ((interp_begin (interp_enter 5 demo_core))\<lparr>reg := (\<lambda>_. 7)\<rparr>) =
     (NextInsn 4, (interp_begin (interp_enter 5 demo_core))\<lparr>reg := (\<lambda>_. 7)(2 := 12)\<rparr>)"
proof -
  have "encode (OpImm ADDI 2 1 5) = 0x00508113" by (simp add: enc_i_def)
  then show ?thesis
    using interpreter_implements_isa [of null_platform "OpImm ADDI 2 1 5"] by (simp add: write_x_def next_insn_def)
qed

text \<open>
  C18. A compressed instruction is executed as the instruction it stands for, two bytes long instead of
  four, whatever follows it in memory: for every instruction of the C and Zcb extensions the core
  implements and every operand the encoding allows. x0 holds zero, which C2 shows.
\<close>

theorem compressed_instructions_expand:
  assumes "c_valid i" and "reg s 0 = 0"
  shows "exec_insn ops (encode_c following i) s = isa_exec ops 2 (expand i) s"
  using assms by (rule exec_insn_encode_c)

theorem compressed_instructions_expand_witness:
  "exec_insn null_platform (encode_c 0xffff (C_MV 10 11)) (interp_begin (interp_enter 5 demo_core)) =
     isa_exec null_platform 2 (Op ADD 10 0 11) (interp_begin (interp_enter 5 demo_core))"
  using compressed_instructions_expand [of "C_MV 10 11" "interp_begin (interp_enter 5 demo_core)"]
    machine_invariant [OF demo_machine]
  by (simp add: machine_ok_def)

text \<open>
  C19. The three ways the preprocessor can compute the upper half of a 64-bit product agree with the
  integer product and with each other, for unsigned operands in all three and for signed and mixed
  ones in the WebAssembly and the \<open>__int128\<close> variants.
\<close>

theorem upper_products_agree:
  "mulhu64 a b = word_of_int (uint a * uint b div 2 ^ 64) \<and> mulhu64_int128 a b = mulhu64 a b \<and>
   mulhu64_halves a b = mulhu64 a b \<and>
   mulh64 a b = word_of_int (sint a * sint b div 2 ^ 64) \<and> mulh64_int128 a b = mulh64 a b \<and>
   mulhsu64 a b = word_of_int (sint a * uint b div 2 ^ 64) \<and> mulhsu64_int128 a b = mulhsu64 a b"
  by (simp only: mulhu64_eq mulhu64_int128_eq mulhu64_halves_eq mulh64_eq mulh64_int128_eq mulhsu64_eq
      mulhsu64_int128_eq simp_thms)

section \<open>Findings and helpers\<close>

text \<open>
  C38. Trap entry saves the wrong interrupt-enable bit: MPIE is set from the bit of \<open>mstatus\<close> numbered by
  the privilege, not from MIE. A program in user mode with MIE set and UIE clear that traps to machine
  mode and returns at once comes back with machine interrupts off.
\<close>

theorem trap_loses_interrupt_enable:
  assumes "priv s = PRV_U" and "bit (mstatus s) 3" and "\<not> bit (mstatus s) 0" and "\<not> delegated s cause"
  shows "\<not> bit (mstatus (handle_mret (raise_exception2 cause tval s))) 3"
  using assms by (rule mret_loses_mie)

theorem trap_loses_interrupt_enable_witness:
  "\<not> bit (mstatus (handle_mret (raise_exception2 2 0 (demo_core\<lparr>priv := PRV_U, mstatus := 8, medeleg := 0\<rparr>)))) 3"
proof -
  have m: "bit (8 :: u64) 3" "\<not> bit (8 :: u64) 0" by (simp_all add: bit_simps)
  show ?thesis by (rule trap_loses_interrupt_enable) (simp_all add: m delegated_def)
qed

text \<open>
  C39. The byte-order accessors. A little-endian store writes the bytes of the value, the least significant
  first, at consecutive addresses, and a big-endian store writes them in the reverse order; neither
  changes another byte. The loads read them back, at 16, 32 and 64 bits, and storing a swapped word in
  the host's order stores it in big-endian order.
\<close>

theorem byte_order_round_trips:
  "put_le16 p u h = store_bytes (le_bytes 2 u) p h \<and> get_le16 (put_le16 p u h) p = u \<and>
   put_le32 p v h = store_bytes (le_bytes 4 v) p h \<and> get_le32 (put_le32 p v h) p = v \<and>
   put_le64 p w h = store_bytes (le_bytes 8 w) p h \<and> get_le64 (put_le64 p w h) p = w \<and>
   put_be32 p v h = store_bytes (rev (le_bytes 4 v)) p h \<and> get_be32 (put_be32 p v h) p = v \<and>
   put_be64 p w h = store_bytes (rev (le_bytes 8 w)) p h \<and>
   store_bytes (le_bytes 4 (cpu_to_be32 v)) p h = put_be32 p v h"
  by (simp only: put_le_bytes [symmetric] put_be_bytes [symmetric] get_put_le16 get_put_le32 get_put_le64
      get_put_be32 cpu_to_be32_bytes simp_thms)

text \<open>
  C40. Destroying a core the host can have built frees every block it owns, and none twice: the core, the
  CPU, the map, and the buffer and the bitmaps of every RAM range.
\<close>

theorem destroy_frees_once:
  assumes "machine ops s"
  shows "distinct (tinyemu_core_destroy (Some s)) \<and> set (tinyemu_core_destroy (Some s)) = owned (mem_map s)"
  using assms by (rule destroy_once)

theorem destroy_frees_once_witness:
  "distinct (tinyemu_core_destroy (Some demo_core)) \<and> Ram_buffer 0x100000 \<in> set (tinyemu_core_destroy (Some demo_core))"
  using destroy_frees_once [OF demo_machine] by (simp add: owned_def)

end
